(* ===== verification/MC_Prelude.thy ===== *)
theory MC_Prelude
  imports Main "HOL-Library.Word" "HOL-Library.Monad_Syntax"
begin

text \<open>
  Shared vocabulary of the development: the machine types of the C sources, the lemma
  collections the component theories extend, generic facts on lists and words, and the two
  interfaces (a counter that hands out 64-bit numbers, a transition system with an
  invariant) that several components of the server provide.

  A C \<open>char\<close> (and \<open>uint8_t\<close>) in a buffer is a HOL \<^typ>\<open>char\<close>, so a buffer, a key and a
  request line are all strings; fixed-width counters are words. A result of type \<open>option\<close>
  whose \<open>None\<close> is undefined behaviour of the source (a null dereference, a read outside a
  buffer) is introduced where it is used.
\<close>

unbundle bit_operations_syntax

type_synonym u8 = "8 word"
type_synonym u16 = "16 word"
type_synonym u32 = "32 word"
type_synonym u64 = "64 word"
type_synonym bytes = "char list"

text \<open>Lemma collections: unfolding rules of the model, and laws of the interfaces.\<close>

named_theorems mc_defs \<open>definitions that component proofs unfold\<close>
named_theorems mc_laws \<open>laws of the component interfaces\<close>

subsection \<open>Lists\<close>

lemma take_append_length [simp]: "length xs = n \<Longrightarrow> take n (xs @ ys) = xs"
  by simp

lemma drop_append_length [simp]: "length xs = n \<Longrightarrow> drop n (xs @ ys) = ys"
  by simp

lemma remove1_notin_set: "distinct xs \<Longrightarrow> y \<in> set (remove1 x xs) \<longleftrightarrow> y \<in> set xs \<and> y \<noteq> x"
  by simp

lemma option_bind_Some_conv:
  "Option.bind m f = Some r \<longleftrightarrow> (\<exists>x. m = Some x \<and> f x = Some r)"
  by (rule bind_eq_Some_conv)

lemma option_eqI: "(\<And>x. a = Some x \<longleftrightarrow> b = Some x) \<Longrightarrow> a = b"
  by (cases a; cases b) auto

text \<open>A loop over a list whose body may fault.\<close>

fun foldm :: "('a \<Rightarrow> 's \<Rightarrow> 's option) \<Rightarrow> 'a list \<Rightarrow> 's \<Rightarrow> 's option" where
  "foldm f [] s = Some s"
| "foldm f (x # xs) s = (case f x s of None \<Rightarrow> None | Some s' \<Rightarrow> foldm f xs s')"

lemma foldm_invariant:
  assumes "foldm f xs s = Some s'" "P s" "\<And>x s s'. x \<in> set xs \<Longrightarrow> P s \<Longrightarrow> f x s = Some s' \<Longrightarrow> P s'"
  shows "P s'"
  using assms
proof (induction xs arbitrary: s)
  case (Cons x xs)
  then obtain s1 where "f x s = Some s1" "foldm f xs s1 = Some s'" by (auto split: option.splits)
  moreover from this have "P s1" using Cons.prems(2,3) by auto
  ultimately show ?case using Cons.IH [of s1] Cons.prems(3) by auto
qed simp

lemma foldm_append: "foldm f (xs @ ys) s = Option.bind (foldm f xs s) (foldm f ys)"
  by (induction xs arbitrary: s) (auto split: option.splits)

text \<open>\<open>TAILQ_REMOVE\<close>: an element that is not on the queue is a fault.\<close>

definition tq_remove :: "'a \<Rightarrow> 'a list \<Rightarrow> 'a list option" where
  "tq_remove x q = (if x \<in> set q then Some (remove1 x q) else None)"

subsection \<open>Bytes\<close>

definition byte_nat :: "char \<Rightarrow> nat" where
  "byte_nat c = of_char c"

lemma byte_nat_lt [simp]: "byte_nat c < 256"
  unfolding byte_nat_def using nat_of_char_less_256 by blast

lemma byte_nat_inj: "byte_nat a = byte_nat b \<longleftrightarrow> a = b"
  by (simp add: byte_nat_def)

lemma byte_nat_char_of [simp]: "n < 256 \<Longrightarrow> byte_nat (char_of n) = n"
  by (simp add: byte_nat_def)

lemma char_of_byte_nat [simp]: "char_of (byte_nat c) = c"
  by (simp add: byte_nat_def)

subsection \<open>Buffers\<close>

text \<open>Reads and writes of a byte buffer at an offset; \<open>None\<close> is an access outside it.\<close>

definition rd8 :: "bytes \<Rightarrow> nat \<Rightarrow> nat option" where
  "rd8 buf i = (if i < length buf then Some (byte_nat (buf ! i)) else None)"

definition slice :: "bytes \<Rightarrow> nat \<Rightarrow> nat \<Rightarrow> bytes option" where
  "slice buf i n = (if i + n \<le> length buf then Some (take n (drop i buf)) else None)"

definition memcpy_at :: "bytes \<Rightarrow> nat \<Rightarrow> bytes \<Rightarrow> bytes option" where
  "memcpy_at buf i bs =
    (if i + length bs \<le> length buf then Some (take i buf @ bs @ drop (i + length bs) buf) else None)"

lemma rd8_mid [simp]: "i = length xs \<Longrightarrow> rd8 (xs @ c # ys) i = Some (byte_nat c)"
  by (simp add: rd8_def)

lemma slice_mid [simp]: "i = length xs \<Longrightarrow> n = length ys \<Longrightarrow> slice (xs @ ys @ zs) i n = Some ys"
  by (simp add: slice_def)

lemma memcpy_at_mid:
  "i = length xs \<Longrightarrow> length ys = length bs \<Longrightarrow> memcpy_at (xs @ ys @ zs) i bs = Some (xs @ bs @ zs)"
  by (simp add: memcpy_at_def)

lemma length_memcpy_at: "memcpy_at buf i bs = Some buf' \<Longrightarrow> length buf' = length buf"
  by (auto simp: memcpy_at_def split: if_splits)

text \<open>The sign of \<open>memcmp\<close> on two buffers of the same length: bytes compare as unsigned.\<close>

fun memcmp :: "bytes \<Rightarrow> bytes \<Rightarrow> int" where
  "memcmp (a # as) (b # bs) =
    (if byte_nat a < byte_nat b then -1 else if byte_nat a > byte_nat b then 1 else memcmp as bs)"
| "memcmp _ _ = 0"

lemma memcmp_refl [simp]: "memcmp as as = 0"
  by (induction as) simp_all

lemma memcmp_0: "length as = length bs \<Longrightarrow> memcmp as bs = 0 \<longleftrightarrow> as = bs"
  by (induction as bs rule: list_induct2) (auto simp: byte_nat_inj [symmetric])

lemma memcmp_swap: "memcmp bs as = - memcmp as bs"
  by (induction as bs rule: memcmp.induct) auto

lemma memcmp_trans:
  "length as = length bs \<Longrightarrow> length bs = length cs \<Longrightarrow> memcmp as bs > 0 \<Longrightarrow> memcmp bs cs > 0
   \<Longrightarrow> memcmp as cs > 0"
  by (induction as bs cs rule: list_induct3) (auto split: if_splits)

subsection \<open>Words\<close>

lemma word_of_nat_inj_64:
  assumes "i < 2 ^ 64" "j < 2 ^ 64" "(of_nat i :: u64) = of_nat j"
  shows "i = j"
  using assms by (simp add: word_of_nat_eq_iff take_bit_nat_eq_self)

lemma unat_of_nat_64 [simp]: "n < 2 ^ 64 \<Longrightarrow> unat (of_nat n :: u64) = n"
  by (simp add: unat_of_nat take_bit_nat_eq_self)

lemma unat_of_nat_32 [simp]: "n < 2 ^ 32 \<Longrightarrow> unat (of_nat n :: u32) = n"
  by (simp add: unat_of_nat take_bit_nat_eq_self)

subsection \<open>Interface: a source of 64-bit numbers\<close>

text \<open>
  The lease token counter and the CAS id counter both hand out numbers by incrementing a
  64-bit variable. The interface states what one draw returns and does; the client lemma is
  that no number repeats within \<open>2\<^sup>6\<^sup>4\<close> consecutive draws.
\<close>

primrec draws :: "('s \<Rightarrow> 'a \<times> 's) \<Rightarrow> nat \<Rightarrow> 's \<Rightarrow> 'a list \<times> 's" where
  "draws f 0 s = ([], s)"
| "draws f (Suc n) s = (let (x, s1) = f s; (xs, s2) = draws f n s1 in (x # xs, s2))"

locale number_source =
  fixes draw :: "'s \<Rightarrow> u64 \<times> 's" and pos :: "'s \<Rightarrow> u64" and off :: u64
  assumes draw_value [mc_laws]: "fst (draw s) = pos s + off"
    and draw_step [mc_laws]: "pos (snd (draw s)) = pos s + 1"
begin

lemma draws_values:
  "fst (draws draw n s) = map (\<lambda>i. pos s + off + of_nat i) [0..<n]"
proof (induction n arbitrary: s)
  case (Suc n)
  have "fst (draws draw (Suc n) s) =
      (pos s + off) # map (\<lambda>i. pos s + 1 + off + of_nat i) [0..<n]"
    using Suc.IH [of "snd (draw s)"] by (simp add: case_prod_beta Let_def draw_value draw_step)
  also have "\<dots> = map (\<lambda>i. pos s + off + of_nat i) [0..<Suc n]"
    by (rule nth_equalityI) (auto simp: nth_Cons algebra_simps simp del: upt_Suc split: nat.split)
  finally show ?case .
qed simp

lemma draws_position: "pos (snd (draws draw n s)) = pos s + of_nat n"
  by (induction n arbitrary: s) (simp_all add: case_prod_beta Let_def draw_step algebra_simps)

theorem draws_distinct: "n \<le> 2 ^ 64 \<Longrightarrow> distinct (fst (draws draw n s))"
  by (auto simp: draws_values distinct_map inj_on_def dest!: word_of_nat_inj_64 [rotated 2])

end

text \<open>
  Parts that act independently of each other are a step relation; what the steps keep holds in every
  state that can be reached.
\<close>

locale transition_system =
  fixes init :: "'s \<Rightarrow> bool" and step :: "'s \<Rightarrow> 's \<Rightarrow> bool" and inv :: "'s \<Rightarrow> bool"
  assumes init_inv [mc_laws]: "init s \<Longrightarrow> inv s"
    and step_inv [mc_laws]: "step s s' \<Longrightarrow> inv s \<Longrightarrow> inv s'"
begin

lemma reached: "init s \<Longrightarrow> step\<^sup>*\<^sup>* s s' \<Longrightarrow> inv s'"
  by (rotate_tac, induction rule: rtranclp_induct) (auto intro: init_inv step_inv)

end

end
