(* ===== verification/MC_Hash.thy ===== *)
theory MC_Hash
  imports MC_Prelude
begin

text \<open>
  The key hash, \<open>mc_hash.c\<close> (Bob Jenkins' lookup3, the little-endian build). The key lies at
  an address of a byte memory, and the function reads it by 32-bit words, by 16-bit words or
  by bytes according to the alignment of the address; the 32-bit variant reads up to three
  bytes past the end of the key and masks them off. The memory is a total function, so that
  these reads are part of the model.
\<close>

type_synonym memory = "nat \<Rightarrow> char"
type_synonym abc = "u32 \<times> u32 \<times> u32"

text \<open>Loads of a byte, a 16-bit word and a 32-bit word, promoted to \<open>uint32_t\<close>.\<close>

definition ld8 :: "memory \<Rightarrow> nat \<Rightarrow> u32" where
  "ld8 m a = of_nat (byte_nat (m a))"

definition ld16 :: "memory \<Rightarrow> nat \<Rightarrow> u32" where
  "ld16 m a = of_nat (byte_nat (m a) + 2 ^ 8 * byte_nat (m (a + 1)))"

definition ld32 :: "memory \<Rightarrow> nat \<Rightarrow> u32" where
  "ld32 m a = of_nat (byte_nat (m a) + 2 ^ 8 * byte_nat (m (a + 1))
     + 2 ^ 16 * byte_nat (m (a + 2)) + 2 ^ 24 * byte_nat (m (a + 3)))"

definition rot :: "u32 \<Rightarrow> nat \<Rightarrow> u32" where
  "rot x k = push_bit k x XOR drop_bit (32 - k) x"

definition mix :: "abc \<Rightarrow> abc" where
  "mix abc = (case abc of (a, b, c) \<Rightarrow>
    let a = a - c; a = a XOR rot c 4; c = c + b;
        b = b - a; b = b XOR rot a 6; a = a + c;
        c = c - b; c = c XOR rot b 8; b = b + a;
        a = a - c; a = a XOR rot c 16; c = c + b;
        b = b - a; b = b XOR rot a 19; a = a + c;
        c = c - b; c = c XOR rot b 4; b = b + a
    in (a, b, c))"

definition final :: "abc \<Rightarrow> u32" where
  "final abc = (case abc of (a, b, c) \<Rightarrow>
    let c = c XOR b; c = c - rot b 14;
        a = a XOR c; a = a - rot c 11;
        b = b XOR a; b = b - rot a 25;
        c = c XOR b; c = c - rot b 16;
        a = a XOR c; a = a - rot c 4;
        b = b XOR a; b = b - rot a 14;
        c = c XOR b; c = c - rot b 24
    in c)"

subsection \<open>32-bit chunks\<close>

fun hash_loop32 :: "memory \<Rightarrow> nat \<Rightarrow> nat \<Rightarrow> abc \<Rightarrow> nat \<times> nat \<times> abc" where
  "hash_loop32 m k len (a, b, c) =
    (if len > 12
     then hash_loop32 m (k + 12) (len - 12)
            (mix (a + ld32 m k, b + ld32 m (k + 4), c + ld32 m (k + 8)))
     else (k, len, (a, b, c)))"

definition hash_tail32 :: "memory \<Rightarrow> nat \<times> nat \<times> abc \<Rightarrow> u32" where
  "hash_tail32 m s = (case s of (k, len, (a, b, c)) \<Rightarrow>
    if len = 12 then final (a + ld32 m k, b + ld32 m (k + 4), c + ld32 m (k + 8))
    else if len = 11 then final (a + ld32 m k, b + ld32 m (k + 4), c + (ld32 m (k + 8) AND 0xffffff))
    else if len = 10 then final (a + ld32 m k, b + ld32 m (k + 4), c + (ld32 m (k + 8) AND 0xffff))
    else if len = 9 then final (a + ld32 m k, b + ld32 m (k + 4), c + (ld32 m (k + 8) AND 0xff))
    else if len = 8 then final (a + ld32 m k, b + ld32 m (k + 4), c)
    else if len = 7 then final (a + ld32 m k, b + (ld32 m (k + 4) AND 0xffffff), c)
    else if len = 6 then final (a + ld32 m k, b + (ld32 m (k + 4) AND 0xffff), c)
    else if len = 5 then final (a + ld32 m k, b + (ld32 m (k + 4) AND 0xff), c)
    else if len = 4 then final (a + ld32 m k, b, c)
    else if len = 3 then final (a + (ld32 m k AND 0xffffff), b, c)
    else if len = 2 then final (a + (ld32 m k AND 0xffff), b, c)
    else if len = 1 then final (a + (ld32 m k AND 0xff), b, c)
    else if len = 0 then c
    else final (a, b, c))"

subsection \<open>16-bit chunks\<close>

text \<open>\<open>k[i]\<close> of the \<open>uint16_t\<close> pointer is the load at \<open>k + 2 * i\<close>.\<close>

fun hash_loop16 :: "memory \<Rightarrow> nat \<Rightarrow> nat \<Rightarrow> abc \<Rightarrow> nat \<times> nat \<times> abc" where
  "hash_loop16 m k len (a, b, c) =
    (if len > 12
     then hash_loop16 m (k + 12) (len - 12)
            (mix (a + (ld16 m k + push_bit 16 (ld16 m (k + 2))),
                  b + (ld16 m (k + 4) + push_bit 16 (ld16 m (k + 6))),
                  c + (ld16 m (k + 8) + push_bit 16 (ld16 m (k + 10)))))
     else (k, len, (a, b, c)))"

definition hash_tail16 :: "memory \<Rightarrow> nat \<times> nat \<times> abc \<Rightarrow> u32" where
  "hash_tail16 m s = (case s of (k, len, (a, b, c)) \<Rightarrow>
    let a4 = a + (ld16 m k + push_bit 16 (ld16 m (k + 2)));
        b4 = b + (ld16 m (k + 4) + push_bit 16 (ld16 m (k + 6)))
    in
    if len = 12 then final (a4, b4, c + (ld16 m (k + 8) + push_bit 16 (ld16 m (k + 10))))
    else if len = 11 then final (a4, b4, c + push_bit 16 (ld8 m (k + 10)) + ld16 m (k + 8))
    else if len = 10 then final (a4, b4, c + ld16 m (k + 8))
    else if len = 9 then final (a4, b4, c + ld8 m (k + 8))
    else if len = 8 then final (a4, b4, c)
    else if len = 7 then final (a4, b + push_bit 16 (ld8 m (k + 6)) + ld16 m (k + 4), c)
    else if len = 6 then final (a4, b + ld16 m (k + 4), c)
    else if len = 5 then final (a4, b + ld8 m (k + 4), c)
    else if len = 4 then final (a4, b, c)
    else if len = 3 then final (a + push_bit 16 (ld8 m (k + 2)) + ld16 m k, b, c)
    else if len = 2 then final (a + ld16 m k, b, c)
    else if len = 1 then final (a + ld8 m k, b, c)
    else if len = 0 then c
    else final (a, b, c))"

subsection \<open>Bytes\<close>

fun hash_loop8 :: "memory \<Rightarrow> nat \<Rightarrow> nat \<Rightarrow> abc \<Rightarrow> nat \<times> nat \<times> abc" where
  "hash_loop8 m k len (a, b, c) =
    (if len > 12
     then hash_loop8 m (k + 12) (len - 12)
            (mix (a + ld8 m k + push_bit 8 (ld8 m (k + 1)) + push_bit 16 (ld8 m (k + 2))
                    + push_bit 24 (ld8 m (k + 3)),
                  b + ld8 m (k + 4) + push_bit 8 (ld8 m (k + 5)) + push_bit 16 (ld8 m (k + 6))
                    + push_bit 24 (ld8 m (k + 7)),
                  c + ld8 m (k + 8) + push_bit 8 (ld8 m (k + 9)) + push_bit 16 (ld8 m (k + 10))
                    + push_bit 24 (ld8 m (k + 11))))
     else (k, len, (a, b, c)))"

text \<open>All cases of the byte switch fall through: entering at case \<open>len\<close> runs every statement
  whose case is at most \<open>len\<close>.\<close>

definition hash_tail8 :: "memory \<Rightarrow> nat \<times> nat \<times> abc \<Rightarrow> u32" where
  "hash_tail8 m s = (case s of (k, len, (a, b, c)) \<Rightarrow>
    if len = 0 then c
    else if len > 12 then final (a, b, c)
    else let
      c = (if len \<ge> 12 then c + push_bit 24 (ld8 m (k + 11)) else c);
      c = (if len \<ge> 11 then c + push_bit 16 (ld8 m (k + 10)) else c);
      c = (if len \<ge> 10 then c + push_bit 8 (ld8 m (k + 9)) else c);
      c = (if len \<ge> 9 then c + ld8 m (k + 8) else c);
      b = (if len \<ge> 8 then b + push_bit 24 (ld8 m (k + 7)) else b);
      b = (if len \<ge> 7 then b + push_bit 16 (ld8 m (k + 6)) else b);
      b = (if len \<ge> 6 then b + push_bit 8 (ld8 m (k + 5)) else b);
      b = (if len \<ge> 5 then b + ld8 m (k + 4) else b);
      a = (if len \<ge> 4 then a + push_bit 24 (ld8 m (k + 3)) else a);
      a = (if len \<ge> 3 then a + push_bit 16 (ld8 m (k + 2)) else a);
      a = (if len \<ge> 2 then a + push_bit 8 (ld8 m (k + 1)) else a);
      a = a + ld8 m k
    in final (a, b, c))"

definition hash :: "memory \<Rightarrow> nat \<Rightarrow> nat \<Rightarrow> u32 \<Rightarrow> u32" where
  "hash m key len initval =
    (let s = 0xdeadbeef + of_nat len + initval in
     if key mod 4 = 0 then hash_tail32 m (hash_loop32 m key len (s, s, s))
     else if key mod 2 = 0 then hash_tail16 m (hash_loop16 m key len (s, s, s))
     else hash_tail8 m (hash_loop8 m key len (s, s, s)))"

subsection \<open>Reference definition\<close>

text \<open>The hash as a function of the bytes of the key alone: the key is split into blocks of
  twelve bytes, the last one padded with zero bytes, and each block is three little-endian
  words.\<close>

definition byte_at :: "bytes \<Rightarrow> nat \<Rightarrow> nat" where
  "byte_at xs i = (if i < length xs then byte_nat (xs ! i) else 0)"

definition word_at :: "bytes \<Rightarrow> nat \<Rightarrow> u32" where
  "word_at xs i = of_nat (byte_at xs i + 2 ^ 8 * byte_at xs (i + 1)
     + 2 ^ 16 * byte_at xs (i + 2) + 2 ^ 24 * byte_at xs (i + 3))"

fun hash_blocks :: "bytes \<Rightarrow> abc \<Rightarrow> u32" where
  "hash_blocks xs (a, b, c) =
    (let abc = (a + word_at xs 0, b + word_at xs 4, c + word_at xs 8) in
     if length xs > 12 then hash_blocks (drop 12 xs) (mix abc)
     else if xs = [] then c
     else final abc)"

definition hash_bytes :: "bytes \<Rightarrow> u32 \<Rightarrow> u32" where
  "hash_bytes key initval =
    (let s = 0xdeadbeef + of_nat (length key) + initval in hash_blocks key (s, s, s))"

lemmas [simp del] = hash_loop32.simps hash_loop16.simps hash_loop8.simps hash_blocks.simps

lemma byte_at_map [simp]:
  "byte_at (map m [k..<k + n]) i = (if i < n then byte_nat (m (k + i)) else 0)"
  by (simp add: byte_at_def)

lemma word_at_map [simp]:
  "i + 4 \<le> n \<Longrightarrow> word_at (map m [k..<k + n]) i = ld32 m (k + i)"
  by (simp add: word_at_def ld32_def add.assoc)

lemma drop_key [simp]: "drop 12 (map m [k..<k + n]) = map m [k + 12..<k + n]"
  by (simp add: drop_map)

lemma of_nat_take_bit_eq:
  assumes "l < 2 ^ n" shows "take_bit n (of_nat (l + 2 ^ n * h) :: u32) = of_nat l"
proof -
  have "take_bit n (l + 2 ^ n * h) = l"
    using assms by (simp add: take_bit_eq_mod)
  then show ?thesis by (simp only: take_bit_of_nat)
qed

lemma ld32_AND:
  "ld32 m a AND 0xffffff = of_nat (byte_nat (m a) + 2 ^ 8 * byte_nat (m (a + 1)) + 2 ^ 16 * byte_nat (m (a + 2)))"
  "ld32 m a AND 0xffff = ld16 m a"
  "ld32 m a AND 0xff = ld8 m a"
proof -
  obtain b0 b1 b2 b3 where b: "byte_nat (m a) = b0" "byte_nat (m (a + 1)) = b1"
    "byte_nat (m (a + 2)) = b2" "byte_nat (m (a + 3)) = b3" by blast
  then have lt: "b0 < 256" "b1 < 256" "b2 < 256" by (metis byte_nat_lt)+
  have m: "(0xffffff :: u32) = mask 24" "(0xffff :: u32) = mask 16" "(0xff :: u32) = mask 8"
    by (simp_all add: mask_eq_exp_minus_1)
  note defs = m take_bit_eq_mask [symmetric] ld32_def ld16_def ld8_def b
  have "b0 + 2 ^ 8 * b1 + 2 ^ 16 * b2 < 2 ^ 24" using lt by simp
  from of_nat_take_bit_eq [OF this, of b3]
  show "ld32 m a AND 0xffffff
      = of_nat (byte_nat (m a) + 2 ^ 8 * byte_nat (m (a + 1)) + 2 ^ 16 * byte_nat (m (a + 2)))"
    unfolding defs .
  have "b0 + 2 ^ 8 * b1 < 2 ^ 16" using lt by simp
  from of_nat_take_bit_eq [OF this, of "b2 + 2 ^ 8 * b3"]
  show "ld32 m a AND 0xffff = ld16 m a"
    unfolding defs by (simp add: algebra_simps del: of_nat_add)
  have "b0 < 2 ^ 8" using lt by simp
  from of_nat_take_bit_eq [OF this, of "b1 + 2 ^ 8 * b2 + 2 ^ 16 * b3"]
  show "ld32 m a AND 0xff = ld8 m a"
    unfolding defs by (simp add: algebra_simps del: of_nat_add)
qed

lemma le_12_cases:
  assumes "n \<le> (12 :: nat)"
  obtains "n = 0" | "n = 1" | "n = 2" | "n = 3" | "n = 4" | "n = 5" | "n = 6" | "n = 7"
    | "n = 8" | "n = 9" | "n = 10" | "n = 11" | "n = 12"
  using assms by (auto simp: le_Suc_eq numeral_eq_Suc)

lemma ld_split:
  "ld16 m k = ld8 m k + push_bit 8 (ld8 m (k + 1))"
  "ld32 m k = ld8 m k + push_bit 8 (ld8 m (k + 1)) + push_bit 16 (ld8 m (k + 2)) + push_bit 24 (ld8 m (k + 3))"
  by (simp_all add: ld8_def ld16_def ld32_def push_bit_eq_mult)

text \<open>The last block: the word at offset \<open>i\<close> of a key of \<open>n\<close> bytes.\<close>

definition last_word :: "memory \<Rightarrow> nat \<Rightarrow> nat \<Rightarrow> nat \<Rightarrow> u32" where
  "last_word m k n i =
    (if i < n then ld8 m (k + i) else 0)
    + (if i + 1 < n then push_bit 8 (ld8 m (k + i + 1)) else 0)
    + (if i + 2 < n then push_bit 16 (ld8 m (k + i + 2)) else 0)
    + (if i + 3 < n then push_bit 24 (ld8 m (k + i + 3)) else 0)"

lemma word_at_last_word: "word_at (map m [k..<k + n]) i = last_word m k n i"
  by (simp add: word_at_def last_word_def ld8_def push_bit_eq_mult add.assoc)

lemma hash_blocks_last:
  "n \<le> 12 \<Longrightarrow> hash_blocks (map m [k..<k + n]) (a, b, c) =
    (if n = 0 then c
     else final (a + last_word m k n 0, b + last_word m k n 4, c + last_word m k n 8))"
  by (simp add: hash_blocks.simps [of _ a b c] word_at_last_word Let_def)

lemma ld16_pair: "ld16 m k + push_bit 16 (ld16 m (k + 2)) = ld32 m k"
  by (simp add: ld16_def ld32_def push_bit_eq_mult numeral_3_eq_3 algebra_simps)

lemma ld16_pairs:
  "ld16 m k + push_bit 16 (ld16 m (k + 2)) = ld32 m k"
  "ld16 m (k + 4) + push_bit 16 (ld16 m (k + 6)) = ld32 m (k + 4)"
  "ld16 m (k + 8) + push_bit 16 (ld16 m (k + 10)) = ld32 m (k + 8)"
  using ld16_pair [of m k] ld16_pair [of m "k + 4"] ld16_pair [of m "k + 8"]
  by (simp_all add: add.commute [of k])

lemma ld8_quad:
  "x + ld8 m k + push_bit 8 (ld8 m (k + 1)) + push_bit 16 (ld8 m (k + 2)) + push_bit 24 (ld8 m (k + 3))
   = x + ld32 m k"
  by (simp add: ld_split ac_simps)

lemma ld8_quads:
  "x + ld8 m k + push_bit 8 (ld8 m (k + 1)) + push_bit 16 (ld8 m (k + 2)) + push_bit 24 (ld8 m (k + 3))
   = x + ld32 m k"
  "x + ld8 m (k + 4) + push_bit 8 (ld8 m (k + 5)) + push_bit 16 (ld8 m (k + 6)) + push_bit 24 (ld8 m (k + 7))
   = x + ld32 m (k + 4)"
  "x + ld8 m (k + 8) + push_bit 8 (ld8 m (k + 9)) + push_bit 16 (ld8 m (k + 10)) + push_bit 24 (ld8 m (k + 11))
   = x + ld32 m (k + 8)"
  using ld8_quad [of x m k] ld8_quad [of x m "k + 4"] ld8_quad [of x m "k + 8"]
  by (simp_all add: add.commute [of k] del: add_left_cancel)

lemma ld32_AND_24:
  "ld32 m a AND 0xffffff = ld8 m a + push_bit 8 (ld8 m (a + 1)) + push_bit 16 (ld8 m (a + 2))"
  by (simp add: ld32_AND ld8_def push_bit_eq_mult)

lemmas last_block = last_word_def ld_split ac_simps

lemma hash_tail32_blocks:
  assumes "n \<le> 12"
  shows "hash_tail32 m (k, n, (a, b, c)) = hash_blocks (map m [k..<k + n]) (a, b, c)"
  unfolding hash_blocks_last [OF assms] hash_tail32_def prod.case ld32_AND_24 ld32_AND(2,3)
  using assms
  by (cases n rule: le_12_cases) (simp_all add: last_block)

lemma hash_tail16_blocks:
  assumes "n \<le> 12"
  shows "hash_tail16 m (k, n, (a, b, c)) = hash_blocks (map m [k..<k + n]) (a, b, c)"
  unfolding hash_blocks_last [OF assms] hash_tail16_def prod.case ld16_pairs
  using assms
  by (cases n rule: le_12_cases) (simp_all add: last_block)

lemma hash_tail8_blocks:
  assumes "n \<le> 12"
  shows "hash_tail8 m (k, n, (a, b, c)) = hash_blocks (map m [k..<k + n]) (a, b, c)"
  unfolding hash_blocks_last [OF assms] hash_tail8_def prod.case using assms
  by (cases n rule: le_12_cases) (simp_all add: last_word_def ac_simps)

lemma block_words:
  assumes "12 < n"
  shows "hash_blocks (map m [k..<k + n]) (a, b, c) =
    hash_blocks (map m [k + 12..<(k + 12) + (n - 12)])
      (mix (a + ld32 m k, b + ld32 m (k + 4), c + ld32 m (k + 8)))"
  using assms by (subst hash_blocks.simps) (simp add: Let_def)

lemma hash_loop32_blocks:
  "hash_tail32 m (hash_loop32 m k n abc) = hash_blocks (map m [k..<k + n]) abc"
proof (induction m k n abc rule: hash_loop32.induct)
  case (1 m k n a b c)
  then show ?case
    by (cases "n > 12") (simp_all add: hash_loop32.simps [of m k n] hash_tail32_blocks block_words)
qed

lemma hash_loop16_blocks:
  "hash_tail16 m (hash_loop16 m k n abc) = hash_blocks (map m [k..<k + n]) abc"
proof (induction m k n abc rule: hash_loop16.induct)
  case (1 m k n a b c)
  from 1 [unfolded ld16_pairs] show ?case unfolding hash_loop16.simps [of m k n] ld16_pairs
    by (cases "n > 12") (simp_all add: hash_tail16_blocks block_words)
qed

lemma hash_loop8_blocks:
  "hash_tail8 m (hash_loop8 m k n abc) = hash_blocks (map m [k..<k + n]) abc"
proof (induction m k n abc rule: hash_loop8.induct)
  case (1 m k n a b c)
  from 1 [unfolded ld8_quads] show ?case unfolding hash_loop8.simps [of m k n] ld8_quads
    by (cases "n > 12") (simp_all add: hash_tail8_blocks block_words)
qed

text \<open>C26: the three ways of reading the key, by 32-bit words, by 16-bit words and by bytes, compute
  the same function, and that function is the reference hash of the bytes of the key: neither the
  alignment of the key nor the bytes that follow it in memory, which the 32-bit variant reads,
  change the hash value.\<close>

theorem hash_is_hash_bytes:
  "hash m key len initval = hash_bytes (map m [key..<key + len]) initval"
  by (simp add: hash_def hash_bytes_def Let_def hash_loop32_blocks hash_loop16_blocks hash_loop8_blocks)

end
