(* ===== verification/MC_Assoc.thy ===== *)
theory MC_Assoc
  imports MC_Hash
begin

text \<open>
  The hash table that maps keys to items, \<open>mc_assoc.c\<close>: a table of buckets, each a singly
  linked list of items, which doubles when it is loaded by more than 3/2. During an expansion
  the buckets of the old table from \<open>expand_bucket\<close> on are still in use, and the maintenance
  thread migrates a few buckets at a time. Items are pointers (any type); the key stored in an
  item is read through the function \<open>key\<close>, which stands for \<open>item_key(it)\<close> and \<open>it->nkey\<close>.
  The hash is the reference hash of the key bytes, which \<open>hash\<close> computes at every address.

  The result of \<open>mc_alloc\<close> is an input of the operations that allocate a table. Each
  operation runs under \<open>cache_lock\<close> and is one step; the maintenance thread is the operation
  \<open>assoc_maintenance\<close> interleaved with them. \<open>None\<close> as the result of \<open>assoc_delete\<close> is the
  null dereference the list macros make when the key is absent.
\<close>

record 'p assoc_st =
  primary_hashtable :: "'p list list"
  old_hashtable :: "'p list list"
  nhash_item :: u32
  hash_power :: nat
  expanding :: bool
  nhash_move_size :: nat
  expand_bucket :: nat

definition HASH_DEFAULT_MOVE_SIZE :: nat where
  "HASH_DEFAULT_MOVE_SIZE = 1"

definition HASH_DEFAULT_POWER :: nat where
  "HASH_DEFAULT_POWER = 16"

definition HASHSIZE :: "nat \<Rightarrow> nat" where
  "HASHSIZE n = 2 ^ n"

text \<open>\<open>hash(key, nkey, 0) & HASHMASK(n)\<close>\<close>

definition hash_index :: "bytes \<Rightarrow> nat \<Rightarrow> nat" where
  "hash_index k n = unat (hash_bytes k 0) mod HASHSIZE n"

datatype bucket_ref = Old nat | Primary nat

definition assoc_get_bucket :: "bytes \<Rightarrow> 'p assoc_st \<Rightarrow> bucket_ref" where
  "assoc_get_bucket k s =
    (let oldbucket = hash_index k (hash_power s - 1);
         curbucket = hash_index k (hash_power s)
     in if expanding s \<and> oldbucket \<ge> expand_bucket s then Old oldbucket else Primary curbucket)"

fun bucket :: "bucket_ref \<Rightarrow> 'p assoc_st \<Rightarrow> 'p list" where
  "bucket (Old i) s = old_hashtable s ! i"
| "bucket (Primary i) s = primary_hashtable s ! i"

fun set_bucket :: "bucket_ref \<Rightarrow> 'p list \<Rightarrow> 'p assoc_st \<Rightarrow> 'p assoc_st" where
  "set_bucket (Old i) b s = s\<lparr>old_hashtable := (old_hashtable s)[i := b]\<rparr>"
| "set_bucket (Primary i) b s = s\<lparr>primary_hashtable := (primary_hashtable s)[i := b]\<rparr>"

text \<open>The size of a new table is a \<open>uint32_t\<close>, so \<open>HASHSIZE(32)\<close> arrives as 0.\<close>

definition assoc_create_table :: "bool \<Rightarrow> u32 \<Rightarrow> 'p list list option" where
  "assoc_create_table alloc_ok table_sz = (if alloc_ok then Some (replicate (unat table_sz) []) else None)"

definition assoc_init :: "nat \<Rightarrow> bool \<Rightarrow> 'p assoc_st option" where
  "assoc_init settings_hash_power alloc_ok =
    (let hp = (if settings_hash_power > 0 then settings_hash_power else HASH_DEFAULT_POWER) in
     case assoc_create_table alloc_ok (of_nat (HASHSIZE hp)) of
       None \<Rightarrow> None
     | Some t \<Rightarrow> Some \<lparr>primary_hashtable = t, old_hashtable = [], nhash_item = 0, hash_power = hp,
         expanding = False, nhash_move_size = HASH_DEFAULT_MOVE_SIZE, expand_bucket = 0\<rparr>)"

definition assoc_find :: "('p \<Rightarrow> bytes) \<Rightarrow> bytes \<Rightarrow> 'p assoc_st \<Rightarrow> 'p option" where
  "assoc_find key k s = find (\<lambda>it. key it = k) (bucket (assoc_get_bucket k s) s)"

definition assoc_expand_needed :: "nat \<Rightarrow> 'p assoc_st \<Rightarrow> bool" where
  "assoc_expand_needed settings_hash_power s \<longleftrightarrow>
    settings_hash_power = 0 \<and> \<not> expanding s \<and> unat (nhash_item s) > HASHSIZE (hash_power s) * 3 div 2"

definition assoc_expand :: "bool \<Rightarrow> 'p assoc_st \<Rightarrow> 'p assoc_st" where
  "assoc_expand alloc_ok s =
    (let s1 = s\<lparr>old_hashtable := primary_hashtable s\<rparr> in
     case assoc_create_table alloc_ok (of_nat (HASHSIZE (hash_power s + 1))) of
       None \<Rightarrow> s1
     | Some t \<Rightarrow> s1\<lparr>primary_hashtable := t, hash_power := hash_power s + 1, expanding := True,
         expand_bucket := 0\<rparr>)"

definition assoc_insert :: "('p \<Rightarrow> bytes) \<Rightarrow> nat \<Rightarrow> bool \<Rightarrow> 'p \<Rightarrow> 'p assoc_st \<Rightarrow> 'p assoc_st" where
  "assoc_insert key settings_hash_power alloc_ok it s =
    (let b = assoc_get_bucket (key it) s;
         s = set_bucket b (it # bucket b s) s;
         s = s\<lparr>nhash_item := nhash_item s + 1\<rparr>
     in if assoc_expand_needed settings_hash_power s then assoc_expand alloc_ok s else s)"

text \<open>The scan of \<open>assoc_delete\<close> and the removal after \<open>prev\<close>: the first item with the key is
  unlinked, and there is no such item when the scan reaches the end of the list.\<close>

fun slist_remove_key :: "('p \<Rightarrow> bytes) \<Rightarrow> bytes \<Rightarrow> 'p list \<Rightarrow> 'p list option" where
  "slist_remove_key key k [] = None"
| "slist_remove_key key k (it # b) =
    (if key it = k then Some b
     else case slist_remove_key key k b of None \<Rightarrow> None | Some b' \<Rightarrow> Some (it # b'))"

definition assoc_delete :: "('p \<Rightarrow> bytes) \<Rightarrow> bytes \<Rightarrow> 'p assoc_st \<Rightarrow> 'p assoc_st option" where
  "assoc_delete key k s =
    (let r = assoc_get_bucket k s in
     case slist_remove_key key k (bucket r s) of
       None \<Rightarrow> None
     | Some b \<Rightarrow> Some ((set_bucket r b s)\<lparr>nhash_item := nhash_item s - 1\<rparr>))"

text \<open>One item of the migrated bucket, and one iteration of the loop of the maintenance thread.\<close>

definition assoc_move_item :: "('p \<Rightarrow> bytes) \<Rightarrow> 'p \<Rightarrow> 'p assoc_st \<Rightarrow> 'p assoc_st" where
  "assoc_move_item key it s =
    (let i = hash_index (key it) (hash_power s);
         e = expand_bucket s
     in s\<lparr>old_hashtable := (old_hashtable s)[e := remove1 it (old_hashtable s ! e)],
          primary_hashtable := (primary_hashtable s)[i := it # primary_hashtable s ! i]\<rparr>)"

definition assoc_move_bucket :: "('p \<Rightarrow> bytes) \<Rightarrow> 'p assoc_st \<Rightarrow> 'p assoc_st" where
  "assoc_move_bucket key s =
    (let s = fold (assoc_move_item key) (old_hashtable s ! expand_bucket s) s;
         s = s\<lparr>expand_bucket := expand_bucket s + 1\<rparr>
     in if expand_bucket s = HASHSIZE (hash_power s - 1)
        then s\<lparr>expanding := False, old_hashtable := []\<rparr> else s)"

fun assoc_maintenance_loop :: "('p \<Rightarrow> bytes) \<Rightarrow> nat \<Rightarrow> 'p assoc_st \<Rightarrow> 'p assoc_st" where
  "assoc_maintenance_loop key 0 s = s"
| "assoc_maintenance_loop key (Suc n) s =
    (if expanding s then assoc_maintenance_loop key n (assoc_move_bucket key s) else s)"

definition assoc_maintenance :: "('p \<Rightarrow> bytes) \<Rightarrow> 'p assoc_st \<Rightarrow> 'p assoc_st" where
  "assoc_maintenance key s = assoc_maintenance_loop key (nhash_move_size s) s"

subsection \<open>The invariant\<close>

text \<open>The size of the table fits its 32-bit variable, every item lies in the one bucket a lookup of
  its key searches, no key occurs twice, and the counter is the number of items modulo its width.\<close>

definition assoc_items :: "'p assoc_st \<Rightarrow> 'p set" where
  "assoc_items s = set (concat (primary_hashtable s))
     \<union> (if expanding s then set (concat (old_hashtable s)) else {})"

definition assoc_count :: "'p assoc_st \<Rightarrow> nat" where
  "assoc_count s = length (concat (primary_hashtable s))
     + (if expanding s then length (concat (old_hashtable s)) else 0)"

fun valid_ref :: "'p assoc_st \<Rightarrow> bucket_ref \<Rightarrow> bool" where
  "valid_ref s (Old i) \<longleftrightarrow> expanding s \<and> i < length (old_hashtable s)"
| "valid_ref s (Primary i) \<longleftrightarrow> i < length (primary_hashtable s)"

definition assoc_shape :: "'p assoc_st \<Rightarrow> bool" where
  "assoc_shape s \<longleftrightarrow> 0 < hash_power s \<and> hash_power s < 32 \<and> length (primary_hashtable s) = HASHSIZE (hash_power s)
     \<and> (expanding s \<longrightarrow> length (old_hashtable s) = HASHSIZE (hash_power s - 1)
          \<and> expand_bucket s < HASHSIZE (hash_power s - 1))"

definition assoc_inv :: "('p \<Rightarrow> bytes) \<Rightarrow> 'p assoc_st \<Rightarrow> bool" where
  "assoc_inv key s \<longleftrightarrow> assoc_shape s
     \<and> (\<forall>r. valid_ref s r \<longrightarrow> distinct (map key (bucket r s))
          \<and> (\<forall>it \<in> set (bucket r s). assoc_get_bucket (key it) s = r))
     \<and> nhash_item s = of_nat (assoc_count s)"

text \<open>Room for \<open>n\<close> more items: a table that is allowed to grow would be given the 0 buckets of
  \<open>HASHSIZE(32)\<close> by the insertion that loads \<open>HASHSIZE(31)\<close> buckets by more than 3/2.\<close>

definition ASSOC_MAX :: nat where
  "ASSOC_MAX = 3 * 2 ^ 30"

definition assoc_room :: "nat \<Rightarrow> nat \<Rightarrow> 'p assoc_st \<Rightarrow> bool" where
  "assoc_room settings_hash_power n s \<longleftrightarrow> (settings_hash_power = 0 \<longrightarrow> assoc_count s + n \<le> ASSOC_MAX)"

lemma assoc_room_mono: "assoc_room hp n s \<Longrightarrow> m \<le> n \<Longrightarrow> assoc_room hp m s"
  by (auto simp: assoc_room_def)

lemma unat_HASHSIZE: "n < 32 \<Longrightarrow> unat (of_nat (HASHSIZE n) :: u32) = HASHSIZE n"
  using power_strict_increasing [of n 32 "2 :: nat"] unfolding unat_of_nat HASHSIZE_def by simp

lemma HASHSIZE_pos [simp]: "0 < HASHSIZE n"
  by (simp add: HASHSIZE_def)

lemma hash_index_lt [simp]: "hash_index k n < HASHSIZE n"
  by (simp add: hash_index_def)

lemma hash_index_pred:
  "0 < n \<Longrightarrow> hash_index k n mod HASHSIZE (n - 1) = hash_index k (n - 1)"
  by (cases n) (simp_all add: hash_index_def HASHSIZE_def mod_mod_cancel)

lemma assoc_invD:
  assumes "assoc_inv key s"
  shows "assoc_shape s" "nhash_item s = of_nat (assoc_count s)"
    "\<And>r. valid_ref s r \<Longrightarrow> distinct (map key (bucket r s))"
    "\<And>r it. valid_ref s r \<Longrightarrow> it \<in> set (bucket r s) \<Longrightarrow> assoc_get_bucket (key it) s = r"
  using assms by (auto simp: assoc_inv_def)

lemma valid_get_bucket: "assoc_shape s \<Longrightarrow> valid_ref s (assoc_get_bucket k s)"
  by (auto simp: assoc_shape_def assoc_get_bucket_def Let_def)

lemma assoc_items_ref: "it \<in> assoc_items s \<longleftrightarrow> (\<exists>r. valid_ref s r \<and> it \<in> set (bucket r s))"
proof
  assume "it \<in> assoc_items s"
  then consider i where "i < length (primary_hashtable s)" "it \<in> set (primary_hashtable s ! i)"
    | i where "expanding s" "i < length (old_hashtable s)" "it \<in> set (old_hashtable s ! i)"
    by (auto simp: assoc_items_def set_conv_nth [of "primary_hashtable s"]
        set_conv_nth [of "old_hashtable s"] split: if_splits)
  then show "\<exists>r. valid_ref s r \<and> it \<in> set (bucket r s)"
  proof cases
    case (1 i)
    then show ?thesis by (intro exI [of _ "Primary i"]) simp
  next
    case (2 i)
    then show ?thesis by (intro exI [of _ "Old i"]) simp
  qed
next
  assume "\<exists>r. valid_ref s r \<and> it \<in> set (bucket r s)"
  then obtain r where "valid_ref s r" "it \<in> set (bucket r s)" by blast
  then show "it \<in> assoc_items s" by (cases r) (auto simp: assoc_items_def)
qed

lemma assoc_items_home:
  "assoc_inv key s \<Longrightarrow>
   it \<in> assoc_items s \<longleftrightarrow> it \<in> set (bucket (assoc_get_bucket (key it) s) s)"
  by (metis assoc_items_ref assoc_invD(1,4) valid_get_bucket)

lemma find_distinct_key:
  "distinct (map key b) \<Longrightarrow> find (\<lambda>it. key it = k) b = Some it \<longleftrightarrow> it \<in> set b \<and> key it = k"
  by (induction b) (auto simp: image_iff)

lemma assoc_find_iff:
  assumes "assoc_inv key s"
  shows "assoc_find key k s = Some it \<longleftrightarrow> it \<in> assoc_items s \<and> key it = k"
  using assms valid_get_bucket [OF assoc_invD(1) [OF assms], of k]
  by (auto simp: assoc_find_def find_distinct_key assoc_invD(3) assoc_items_home)

lemma assoc_find_key: "assoc_find key k s = Some it \<Longrightarrow> key it = k"
  by (auto simp: assoc_find_def find_Some_iff)

lemma assoc_find_None:
  "assoc_inv key s \<Longrightarrow> assoc_find key k s = None \<longleftrightarrow> (\<forall>it \<in> assoc_items s. key it \<noteq> k)"
  using assoc_find_iff [of key s k] by (auto simp: not_Some_eq [symmetric] simp del: not_Some_eq)

text \<open>Two states with the same items have the same lookups.\<close>

lemma assoc_find_cong:
  assumes "assoc_inv key s" "assoc_inv key s'" "assoc_items s = assoc_items s'"
  shows "assoc_find key k s = assoc_find key k s'"
  by (rule option_eqI) (simp only: assoc_find_iff [OF assms(1)] assoc_find_iff [OF assms(2)] assms(3))

text \<open>Only the keys of the items in the table matter.\<close>

lemma assoc_inv_cong:
  assumes "\<And>it. it \<in> assoc_items s \<Longrightarrow> key it = key' it"
  shows "assoc_inv key s \<longleftrightarrow> assoc_inv key' s"
proof -
  have k: "key it = key' it" if "valid_ref s r" "it \<in> set (bucket r s)" for r it
    using assms that by (auto simp: assoc_items_ref)
  then have m: "map key (bucket r s) = map key' (bucket r s)" if "valid_ref s r" for r
    using that by auto
  have "(valid_ref s r \<longrightarrow> distinct (map key (bucket r s))
          \<and> (\<forall>it \<in> set (bucket r s). assoc_get_bucket (key it) s = r)) \<longleftrightarrow>
        (valid_ref s r \<longrightarrow> distinct (map key' (bucket r s))
          \<and> (\<forall>it \<in> set (bucket r s). assoc_get_bucket (key' it) s = r))" for r
    using k [of r] by (cases "valid_ref s r") (simp_all add: m)
  then show ?thesis
    by (simp only: assoc_inv_def)
qed

lemma assoc_find_key_cong:
  assumes "assoc_inv key s" "\<And>it. it \<in> assoc_items s \<Longrightarrow> key it = key' it"
  shows "assoc_find key k s = assoc_find key' k s"
proof (rule option_eqI)
  fix it
  have "assoc_inv key' s" using assms assoc_inv_cong by blast
  then show "assoc_find key k s = Some it \<longleftrightarrow> assoc_find key' k s = Some it"
    using assms(2) [of it] by (auto simp: assoc_find_iff [OF assms(1)] assoc_find_iff)
qed

subsection \<open>Insertion and deletion\<close>

lemma get_bucket_set_bucket [simp]:
  "assoc_get_bucket k (set_bucket r b s) = assoc_get_bucket k s"
  "assoc_get_bucket k (s\<lparr>nhash_item := n\<rparr>) = assoc_get_bucket k s"
  by (cases r) (simp_all add: assoc_get_bucket_def Let_def)

lemma bucket_set_bucket:
  "valid_ref s r \<Longrightarrow> bucket r' (set_bucket r b s) = (if r' = r then b else bucket r' s)"
  by (cases r; cases r') (auto simp: nth_list_update)

lemma bucket_nhash_item [simp]:
  "bucket r (s\<lparr>nhash_item := n\<rparr>) = bucket r s"
  "valid_ref (s\<lparr>nhash_item := n\<rparr>) r = valid_ref s r"
  "assoc_shape (s\<lparr>nhash_item := n\<rparr>) = assoc_shape s"
  "assoc_count (s\<lparr>nhash_item := n\<rparr>) = assoc_count s"
  "assoc_items (s\<lparr>nhash_item := n\<rparr>) = assoc_items s"
  by (cases r; simp add: assoc_shape_def assoc_count_def assoc_items_def)+

lemma valid_set_bucket [simp]: "valid_ref (set_bucket r b s) r' = valid_ref s r'"
  by (cases r; cases r') simp_all

lemma fields_set_bucket [simp]:
  "nhash_item (set_bucket r b s) = nhash_item s" "expanding (set_bucket r b s) = expanding s"
  "hash_power (set_bucket r b s) = hash_power s"
  by (cases r; simp)+

lemma shape_set_bucket [simp]: "assoc_shape (set_bucket r b s) = assoc_shape s"
  by (cases r) (simp_all add: assoc_shape_def)

lemma length_concat_update:
  "i < length t \<Longrightarrow> length (concat (t[i := b])) + length (t ! i) = length (concat t) + length b"
  by (induction t arbitrary: i) (auto split: nat.split)

lemma count_set_bucket:
  "valid_ref s r \<Longrightarrow> assoc_count (set_bucket r b s) + length (bucket r s) = assoc_count s + length b"
  using length_concat_update [of _ "primary_hashtable s" b] length_concat_update [of _ "old_hashtable s" b]
  by (cases r) (fastforce simp: assoc_count_def)+

lemma items_set_bucket:
  assumes "assoc_inv key s" "r = assoc_get_bucket k s" "\<forall>it \<in> set b. key it = k \<or> it \<in> set (bucket r s)"
  shows "assoc_items (set_bucket r b s)
    = (assoc_items s - set (bucket r s)) \<union> set b"
proof -
  note v = valid_get_bucket [OF assoc_invD(1) [OF assms(1)], of k, folded assms(2)]
  have "it \<in> assoc_items (set_bucket r b s)
      \<longleftrightarrow> (\<exists>r'. valid_ref s r' \<and> r' \<noteq> r \<and> it \<in> set (bucket r' s)) \<or> it \<in> set b" for it
    unfolding assoc_items_ref using v by (auto simp: bucket_set_bucket)
  moreover have "(\<exists>r'. valid_ref s r' \<and> r' \<noteq> r \<and> it \<in> set (bucket r' s))
      \<longleftrightarrow> it \<in> assoc_items s \<and> it \<notin> set (bucket r s)" for it
    unfolding assoc_items_ref using v assoc_invD(4) [OF assms(1)] by metis
  ultimately show ?thesis by blast
qed

lemma inv_set_bucket:
  assumes "assoc_inv key s" "r = assoc_get_bucket k s"
    and "distinct (map key b)" "\<forall>it \<in> set b. key it = k \<or> it \<in> set (bucket r s)"
    and "nhash_item s' = of_nat (assoc_count (set_bucket r b s))"
    and "s' = (set_bucket r b s)\<lparr>nhash_item := n\<rparr>"
  shows "assoc_inv key s'"
proof -
  note v = valid_get_bucket [OF assoc_invD(1) [OF assms(1)], of k, folded assms(2)]
  have "distinct (map key (bucket r' s')) \<and> (\<forall>it\<in>set (bucket r' s'). assoc_get_bucket (key it) s' = r')"
    if "valid_ref s' r'" for r'
    using that v assms(2-4) assoc_invD(3,4) [OF assms(1)] unfolding assms(6)
    by (cases "r' = r") (auto simp: bucket_set_bucket)
  moreover have "assoc_shape s'" using assoc_invD(1) [OF assms(1)] unfolding assms(6)
    by simp
  ultimately show ?thesis
    using assms(5) unfolding assoc_inv_def assms(6) by (simp)
qed

lemma slist_remove_key_Some:
  "distinct (map key b) \<Longrightarrow> slist_remove_key key k b =
    (case find (\<lambda>it. key it = k) b of None \<Rightarrow> None | Some it \<Rightarrow> Some (remove1 it b))"
proof (induction b)
  case (Cons a b)
  show ?case
  proof (cases "key a = k \<or> find (\<lambda>it. key it = k) b = None")
    case False
    then obtain it where "find (\<lambda>it. key it = k) b = Some it" "it \<noteq> a" "key a \<noteq> k"
      using Cons.prems by (auto simp: find_distinct_key)
    then show ?thesis using Cons by simp
  qed (use Cons in auto)
qed simp

lemma assoc_insert_bucket:
  assumes "assoc_inv key s" "assoc_find key (key it) s = None"
    and "r = assoc_get_bucket (key it) s"
    and "s' = (set_bucket r (it # bucket r s) s)\<lparr>nhash_item := nhash_item s + 1\<rparr>"
  shows "assoc_inv key s'" "assoc_items s' = insert it (assoc_items s)" "assoc_count s' = Suc (assoc_count s)"
proof -
  note v = valid_get_bucket [OF assoc_invD(1) [OF assms(1)], of "key it", folded assms(3)]
  have new: "key it \<notin> key ` set (bucket r s)"
    using assms(2) by (auto simp: assoc_find_def find_None_iff assms(3))
  have c: "assoc_count (set_bucket r (it # bucket r s) s) = Suc (assoc_count s)"
    using count_set_bucket [OF v, of "it # bucket r s"] by simp
  then show "assoc_count s' = Suc (assoc_count s)" by (simp add: assms(4))
  show "assoc_inv key s'"
    using new assoc_invD(3) [OF assms(1) v] assoc_invD(2) [OF assms(1)]
    by (intro inv_set_bucket [OF assms(1,3) _ _ _ assms(4)]) (auto simp: assms(4) c)
  show "assoc_items s' = insert it (assoc_items s)"
    using items_set_bucket [OF assms(1,3), of "it # bucket r s"] v unfolding assms(4)
    by (auto simp: assoc_items_ref)
qed

lemma assoc_expand_inv:
  assumes "assoc_inv key s" "\<not> expanding s" "hash_power s < 31"
  shows "assoc_inv key (assoc_expand ok s)" "assoc_items (assoc_expand ok s) = assoc_items s"
    "assoc_count (assoc_expand ok s) = assoc_count s"
proof -
  have gb: "assoc_get_bucket k s = Primary (hash_index k (hash_power s))" for k
    using assms(2) by (simp add: assoc_get_bucket_def Let_def)
  note inv = assoc_invD [OF assms(1)]
  show "assoc_items (assoc_expand ok s) = assoc_items s"
    "assoc_count (assoc_expand ok s) = assoc_count s"
    using assms(2)
    by (cases ok, simp_all add: assoc_expand_def assoc_create_table_def assoc_items_def assoc_count_def Let_def)+
  show "assoc_inv key (assoc_expand ok s)"
  proof (cases ok)
    case False
    let ?s = "s\<lparr>old_hashtable := primary_hashtable s\<rparr>"
    have "valid_ref ?s r \<longleftrightarrow> valid_ref s r" "valid_ref s r \<Longrightarrow> bucket r ?s = bucket r s"
      "assoc_get_bucket k ?s = assoc_get_bucket k s" for r k
      using assms(2) by (cases r; simp add: assoc_get_bucket_def Let_def)+
    then show ?thesis using assms False
      by (simp add: assoc_inv_def assoc_expand_def assoc_create_table_def assoc_shape_def
          assoc_count_def Let_def)
  next
    case True
    let ?s = "assoc_expand ok s"
    have e: "?s = s\<lparr>old_hashtable := primary_hashtable s, primary_hashtable := replicate (HASHSIZE (hash_power s + 1)) [],
        hash_power := hash_power s + 1, expanding := True, expand_bucket := 0\<rparr>"
      using True assms(3) unat_HASHSIZE [of "hash_power s + 1"]
      by (simp add: assoc_expand_def assoc_create_table_def Let_def)
    have gb': "assoc_get_bucket k ?s = Old (hash_index k (hash_power s))" for k
      unfolding e by (simp add: assoc_get_bucket_def Let_def)
    have "distinct (map key (bucket r ?s)) \<and> (\<forall>it \<in> set (bucket r ?s). assoc_get_bucket (key it) ?s = r)"
      if v: "valid_ref ?s r" for r
    proof (cases r)
      case (Old i)
      then have "valid_ref s (Primary i)" "bucket r ?s = bucket (Primary i) s"
        using v unfolding e by simp_all
      then show ?thesis using inv(3,4) [of "Primary i"] unfolding gb gb' Old
        by (simp only: bucket_ref.inject) blast
    next
      case (Primary i)
      then have "bucket r ?s = []" using v unfolding e by simp
      then show ?thesis by simp
    qed
    moreover have "assoc_shape ?s" "nhash_item ?s = of_nat (assoc_count ?s)"
      using inv(1,2) assms(2,3) unfolding e by (simp_all add: assoc_shape_def assoc_count_def)
    ultimately show ?thesis unfolding assoc_inv_def by blast
  qed
qed

text \<open>An expansion below the limit starts from at most \<open>HASHSIZE(30)\<close> buckets.\<close>

lemma expand_power:
  assumes "assoc_inv key s" "assoc_room hp 0 s" "assoc_expand_needed hp s"
  shows "\<not> expanding s" "hash_power s < 31"
proof -
  have "unat (nhash_item s) \<le> assoc_count s"
    by (simp add: assoc_invD(2) [OF assms(1)] unat_of_nat)
  then have "HASHSIZE (hash_power s) * 3 div 2 < 3 * 2 ^ 30" "hash_power s < 32" "\<not> expanding s"
    using assms assoc_invD(1) [OF assms(1)]
    by (auto simp: assoc_expand_needed_def assoc_room_def ASSOC_MAX_def assoc_shape_def)
  moreover from this have "hash_power s \<noteq> 31" by (auto simp: HASHSIZE_def)
  ultimately show "\<not> expanding s" "hash_power s < 31" by simp_all
qed

lemma assoc_insert_inv:
  assumes "assoc_inv key s" "assoc_find key (key it) s = None" "assoc_room hp (Suc n) s"
  shows "assoc_inv key (assoc_insert key hp ok it s)"
    "assoc_items (assoc_insert key hp ok it s) = insert it (assoc_items s)"
    "assoc_room hp n (assoc_insert key hp ok it s)"
proof -
  define r where "r = assoc_get_bucket (key it) s"
  define s1 where "s1 = (set_bucket r (it # bucket r s) s)\<lparr>nhash_item := nhash_item s + 1\<rparr>"
  have s1: "assoc_inv key s1" "assoc_items s1 = insert it (assoc_items s)" "assoc_count s1 = Suc (assoc_count s)"
    using assoc_insert_bucket [OF assms(1,2) r_def s1_def] by blast+
  have rm: "assoc_room hp n s1" using assms(3) by (simp add: assoc_room_def s1(3))
  note x = expand_power [OF s1(1) assoc_room_mono [OF rm le0]]
  have "assoc_insert key hp ok it s =
      (if assoc_expand_needed hp s1 then assoc_expand ok s1 else s1)"
    by (simp add: assoc_insert_def Let_def r_def s1_def)
  then show "assoc_inv key (assoc_insert key hp ok it s)"
    "assoc_items (assoc_insert key hp ok it s) = insert it (assoc_items s)"
    "assoc_room hp n (assoc_insert key hp ok it s)"
    using s1 rm assoc_expand_inv [OF s1(1) x, of ok] by (simp_all add: assoc_room_def)
qed

lemma distinct_map_remove1: "distinct (map f xs) \<Longrightarrow> distinct (map f (remove1 x xs))"
  by (induction xs) (auto dest: subsetD [OF set_remove1_subset])

lemma assoc_delete_inv:
  assumes "assoc_inv key s" "assoc_find key k s = Some it"
  obtains s' where "assoc_delete key k s = Some s'" "assoc_inv key s'"
    "assoc_items s' = assoc_items s - {it}" "assoc_count s = Suc (assoc_count s')"
proof -
  define r where "r = assoc_get_bucket k s"
  note v = valid_get_bucket [OF assoc_invD(1) [OF assms(1)], of k, folded r_def]
  note d = assoc_invD(3) [OF assms(1) v]
  have f: "find (\<lambda>it. key it = k) (bucket r s) = Some it"
    using assms(2) by (simp add: assoc_find_def r_def)
  then have it: "it \<in> set (bucket r s)" "key it = k" using d by (simp_all add: find_distinct_key)
  let ?b = "remove1 it (bucket r s)"
  define s' where "s' = (set_bucket r ?b s)\<lparr>nhash_item := nhash_item s - 1\<rparr>"
  have del: "assoc_delete key k s = Some s'"
    using slist_remove_key_Some [OF d, of k] f
    by (simp add: assoc_delete_def r_def [symmetric] s'_def)
  have c: "assoc_count s = Suc (assoc_count (set_bucket r ?b s))"
    using count_set_bucket [OF v, of ?b] it(1) length_pos_if_in_set [OF it(1)]
    by (simp add: length_remove1 del: length_greater_0_conv)
  have sub: "\<forall>it \<in> set ?b. key it = k \<or> it \<in> set (bucket r s)"
    using set_remove1_subset [of it "bucket r s"] by blast
  have "assoc_inv key s'"
  proof (rule inv_set_bucket [OF assms(1) r_def _ _ _ s'_def])
    show "distinct (map key ?b)" using d by (rule distinct_map_remove1)
    show "\<forall>it \<in> set ?b. key it = k \<or> it \<in> set (bucket r s)" by (rule sub)
    show "nhash_item s' = of_nat (assoc_count (set_bucket r ?b s))"
      using assoc_invD(2) [OF assms(1)] by (simp add: s'_def c)
  qed
  moreover have "assoc_items s' = assoc_items s - {it}"
  proof -
    have "set ?b = set (bucket r s) - {it}" using d by (simp add: distinct_map)
    moreover have "set (bucket r s) \<subseteq> assoc_items s" using v by (auto simp: assoc_items_ref)
    moreover have "assoc_items s' = (assoc_items s - set (bucket r s)) \<union> set ?b"
      using items_set_bucket [OF assms(1) r_def sub] unfolding s'_def by simp
    ultimately show ?thesis using it(1) by blast
  qed
  moreover have "assoc_count s = Suc (assoc_count s')" by (simp add: s'_def c)
  ultimately show thesis using that del by blast
qed

subsection \<open>Migration of a bucket\<close>

definition spread :: "('p \<Rightarrow> nat) \<Rightarrow> 'p list \<Rightarrow> 'p list list \<Rightarrow> 'p list list" where
  "spread idx = fold (\<lambda>it t. t[idx it := it # t ! idx it])"

lemma spread_simps [simp]:
  "spread idx [] t = t"
  "spread idx (it # b) t = spread idx b (t[idx it := it # t ! idx it])"
  by (simp_all add: spread_def)

lemma length_spread [simp]: "length (spread idx b t) = length t"
  by (induction b arbitrary: t) simp_all

lemma nth_spread:
  "j < length t \<Longrightarrow> spread idx b t ! j = rev (filter (\<lambda>it. idx it = j) b) @ t ! j"
  by (induction b arbitrary: t) (simp_all add: nth_list_update)

lemma count_spread:
  "\<forall>it \<in> set b. idx it < length t \<Longrightarrow> length (concat (spread idx b t)) = length b + length (concat t)"
proof (induction b arbitrary: t)
  case (Cons it b)
  let ?t = "t[idx it := it # t ! idx it]"
  have "length (concat ?t) = Suc (length (concat t))"
    using length_concat_update [of "idx it" t "it # t ! idx it"] Cons.prems by simp
  then show ?case using Cons.IH [of ?t] Cons.prems by simp
qed simp

lemma move_items:
  "expand_bucket s < length (old_hashtable s) \<Longrightarrow> old_hashtable s ! expand_bucket s = b \<Longrightarrow>
   fold (assoc_move_item key) b s =
     s\<lparr>old_hashtable := (old_hashtable s)[expand_bucket s := []],
       primary_hashtable := spread (\<lambda>it. hash_index (key it) (hash_power s)) b (primary_hashtable s)\<rparr>"
proof (induction b arbitrary: s)
  case Nil
  then show ?case using list_update_id [of "old_hashtable s" "expand_bucket s"] by simp
next
  case (Cons it b)
  let ?s = "assoc_move_item key it s"
  have "old_hashtable ?s = (old_hashtable s)[expand_bucket s := b]" "expand_bucket ?s = expand_bucket s"
    "hash_power ?s = hash_power s"
    using Cons.prems by (simp_all add: assoc_move_item_def Let_def)
  then show ?case
    using Cons.IH [of ?s] Cons.prems by (simp add: assoc_move_item_def Let_def)
qed

text \<open>The state before the test that ends the expansion.\<close>

lemma assoc_move_bucket_eq:
  assumes "assoc_shape s" "expanding s"
    and "t = s\<lparr>old_hashtable := (old_hashtable s)[expand_bucket s := []],
       primary_hashtable := spread (\<lambda>it. hash_index (key it) (hash_power s))
         (old_hashtable s ! expand_bucket s) (primary_hashtable s),
       expand_bucket := expand_bucket s + 1\<rparr>"
  shows "assoc_move_bucket key s =
    (if expand_bucket s + 1 = HASHSIZE (hash_power s - 1)
     then t\<lparr>expanding := False, old_hashtable := []\<rparr> else t)"
  using assms move_items [OF _ refl, of s key]
  by (simp add: assoc_move_bucket_def assoc_shape_def Let_def)

lemma migrating_shape:
  assumes "assoc_inv key s" "expanding s"
  shows "0 < hash_power s" "length (primary_hashtable s) = HASHSIZE (hash_power s)"
    "length (old_hashtable s) = HASHSIZE (hash_power s - 1)"
    "expand_bucket s < HASHSIZE (hash_power s - 1)" "hash_power s < 32"
  using assoc_invD(1) [OF assms(1)] assms(2) by (simp_all add: assoc_shape_def)

lemma migrating_primary:
  assumes "assoc_inv key s" "expanding s" "j < HASHSIZE (hash_power s)"
    "it \<in> set (primary_hashtable s ! j)"
  shows "hash_index (key it) (hash_power s) = j" "hash_index (key it) (hash_power s - 1) < expand_bucket s"
  using assoc_invD(4) [OF assms(1), of "Primary j" it] migrating_shape [OF assms(1,2)] assms
  by (auto simp: assoc_get_bucket_def Let_def split: if_splits)

lemma migrating_old:
  assumes "assoc_inv key s" "expanding s" "i < HASHSIZE (hash_power s - 1)"
    "it \<in> set (old_hashtable s ! i)"
  shows "hash_index (key it) (hash_power s - 1) = i" "expand_bucket s \<le> i"
  using assoc_invD(4) [OF assms(1), of "Old i" it] migrating_shape [OF assms(1,2)] assms
  by (auto simp: assoc_get_bucket_def Let_def split: if_splits)

text \<open>The table of the new size after the migration of bucket \<open>expand_bucket\<close>.\<close>

definition migrated :: "('p \<Rightarrow> bytes) \<Rightarrow> 'p assoc_st \<Rightarrow> 'p list list" where
  "migrated key s = spread (\<lambda>it. hash_index (key it) (hash_power s))
     (old_hashtable s ! expand_bucket s) (primary_hashtable s)"

lemma length_migrated [simp]: "length (migrated key s) = length (primary_hashtable s)"
  by (simp add: migrated_def)

lemma set_migrated:
  "j < length (primary_hashtable s) \<Longrightarrow> it \<in> set (migrated key s ! j) \<longleftrightarrow>
     it \<in> set (primary_hashtable s ! j)
     \<or> it \<in> set (old_hashtable s ! expand_bucket s) \<and> hash_index (key it) (hash_power s) = j"
  by (auto simp: migrated_def nth_spread)

lemma migrated_placed:
  assumes "assoc_inv key s" "expanding s" "j < HASHSIZE (hash_power s)" "it \<in> set (migrated key s ! j)"
  shows "hash_index (key it) (hash_power s) = j" "hash_index (key it) (hash_power s - 1) \<le> expand_bucket s"
  using assms(3,4) migrating_shape [OF assms(1,2)] migrating_primary [OF assms(1,2,3), of it]
    migrating_old [OF assms(1,2) migrating_shape(4) [OF assms(1,2)], of it]
  by (auto simp: set_migrated)

lemma migrated_distinct:
  assumes "assoc_inv key s" "expanding s" "j < HASHSIZE (hash_power s)"
  shows "distinct (map key (migrated key s ! j))"
proof -
  let ?b = "old_hashtable s ! expand_bucket s"
  note sh = migrating_shape [OF assms(1,2)]
  have "distinct (map key ?b)" "distinct (map key (primary_hashtable s ! j))"
    using assoc_invD(3) [OF assms(1), of "Old (expand_bucket s)"] assoc_invD(3) [OF assms(1), of "Primary j"]
      assms sh by simp_all
  moreover have "key ` set ?b \<inter> key ` set (primary_hashtable s ! j) = {}"
    using migrating_primary [OF assms] migrating_old [OF assms(1,2) sh(4)] by fastforce
  ultimately show ?thesis
    using sh(2) assms(3)
    by (auto simp: migrated_def nth_spread rev_map [symmetric] intro!: distinct_map_filter)
qed

lemma migrated_count:
  assumes "assoc_inv key s" "expanding s"
  shows "length (concat (migrated key s)) + length (concat ((old_hashtable s)[expand_bucket s := []]))
    = assoc_count s"
proof -
  note sh = migrating_shape [OF assms]
  have "length (concat (migrated key s))
      = length (old_hashtable s ! expand_bucket s) + length (concat (primary_hashtable s))"
    unfolding migrated_def by (rule count_spread) (simp add: sh(2))
  then show ?thesis
    using length_concat_update [of "expand_bucket s" "old_hashtable s" "[]"] sh assms(2)
    by (simp add: assoc_count_def)
qed

lemma in_set_concat_nth: "x \<in> set (concat t) \<longleftrightarrow> (\<exists>i < length t. x \<in> set (t ! i))"
  by (auto simp: set_conv_nth [of t])

lemma set_concat_migrated:
  assumes "assoc_inv key s" "expanding s"
  shows "set (concat (migrated key s))
      = set (concat (primary_hashtable s)) \<union> set (old_hashtable s ! expand_bucket s)"
proof (rule set_eqI)
  fix x
  have i: "hash_index (key x) (hash_power s) < length (primary_hashtable s)"
    by (simp add: migrating_shape [OF assms])
  show "x \<in> set (concat (migrated key s))
      \<longleftrightarrow> x \<in> set (concat (primary_hashtable s)) \<union> set (old_hashtable s ! expand_bucket s)"
    unfolding Un_iff in_set_concat_nth length_migrated using i by (metis set_migrated)
qed

lemma set_concat_old:
  assumes "e < length t"
  shows "set (concat t) = set (t ! e) \<union> set (concat (t[e := []]))"
proof (rule set_eqI)
  fix x
  show "x \<in> set (concat t) \<longleftrightarrow> x \<in> set (t ! e) \<union> set (concat (t[e := []]))"
    unfolding Un_iff in_set_concat_nth length_list_update using assms
    by (metis empty_iff list.set(1) nth_list_update)
qed

lemma migrated_last:
  assumes "assoc_inv key s" "expanding s" "expand_bucket s + 1 = HASHSIZE (hash_power s - 1)"
  shows "concat ((old_hashtable s)[expand_bucket s := []]) = []"
proof -
  have "(old_hashtable s)[expand_bucket s := []] ! i = []" if "i < length (old_hashtable s)" for i
  proof (cases "i = expand_bucket s")
    case False
    have "it \<notin> set (old_hashtable s ! i)" for it
      using migrating_old [OF assms(1,2), of i it] migrating_shape [OF assms(1,2)] that assms(3) False
      by auto
    then have "old_hashtable s ! i = []" by (metis list.set_intros(1) neq_Nil_conv)
    then show ?thesis using False by simp
  qed (use that in simp)
  then show ?thesis by (auto simp: set_conv_nth [of "(old_hashtable s)[expand_bucket s := []]"])
qed

lemma assoc_move_bucket_inv:
  assumes "assoc_inv key s" "expanding s"
  shows "assoc_inv key (assoc_move_bucket key s)"
    "assoc_items (assoc_move_bucket key s) = assoc_items s"
    "assoc_count (assoc_move_bucket key s) = assoc_count s"
proof -
  let ?hp = "hash_power s" and ?e = "expand_bucket s"
  define fin where "fin \<longleftrightarrow> ?e + 1 = HASHSIZE (?hp - 1)"
  define t where "t = s\<lparr>old_hashtable := (old_hashtable s)[?e := []],
       primary_hashtable := migrated key s, expand_bucket := ?e + 1\<rparr>"
  define s' where "s' = (if fin then t\<lparr>expanding := False, old_hashtable := []\<rparr> else t)"
  note sh = migrating_shape [OF assms]
  have eq: "assoc_move_bucket key s = s'"
    using assoc_move_bucket_eq [OF assoc_invD(1) [OF assms(1)] assms(2), OF t_def [unfolded migrated_def]]
    by (simp add: fin_def s'_def)
  have empty: "concat ((old_hashtable s)[?e := []]) = []" if fin
    using migrated_last [OF assms] that by (simp add: fin_def)
  have f: "primary_hashtable s' = migrated key s" "expanding s' \<longleftrightarrow> \<not> fin" "hash_power s' = ?hp"
    "expand_bucket s' = ?e + 1" "\<not> fin \<Longrightarrow> old_hashtable s' = (old_hashtable s)[?e := []]"
    "nhash_item s' = nhash_item s"
    by (simp_all add: s'_def t_def assms(2))
  have gb: "assoc_get_bucket k s' =
      (if hash_index k (?hp - 1) \<ge> ?e + 1 then Old (hash_index k (?hp - 1)) else Primary (hash_index k ?hp))" for k
    using hash_index_lt [of k "?hp - 1"] by (auto simp: assoc_get_bucket_def Let_def f fin_def simp del: hash_index_lt)
  have shape: "assoc_shape s'"
    using sh by (auto simp: assoc_shape_def f fin_def)
  have c: "assoc_count s' = assoc_count s"
    using migrated_count [OF assms] empty by (cases fin) (simp_all add: assoc_count_def [of s'] f)
  then show "assoc_count (assoc_move_bucket key s) = assoc_count s" by (simp only: eq)
  have count: "nhash_item s' = of_nat (assoc_count s')"
    using assoc_invD(2) [OF assms(1)] by (simp add: c f)
  have ref: "distinct (map key (bucket r s')) \<and> (\<forall>it \<in> set (bucket r s'). assoc_get_bucket (key it) s' = r)"
    if v: "valid_ref s' r" for r
  proof (cases r)
    case (Old i)
    then have i: "\<not> fin" "i < length (old_hashtable s)" using v by (auto simp: f)
    then show ?thesis
      using assoc_invD(3) [OF assms(1), of "Old i"] migrating_old [OF assms, of i] sh(3) assms(2)
      by (cases "i = ?e") (auto simp: Old f gb Suc_le_eq order_less_le)
  next
    case (Primary j)
    then have "j < HASHSIZE ?hp" using v sh(2) by (simp add: f)
    then show ?thesis
      using migrated_distinct [OF assms] migrated_placed [OF assms] by (fastforce simp: Primary f gb)
  qed
  show "assoc_inv key (assoc_move_bucket key s)"
    unfolding eq assoc_inv_def using shape count ref by blast
  show "assoc_items (assoc_move_bucket key s) = assoc_items s"
    using set_concat_old [of ?e "old_hashtable s"] sh empty unfolding eq
    by (cases fin) (auto simp: assoc_items_def f assms(2) set_concat_migrated [OF assms] simp del: set_concat)
qed

lemma assoc_maintenance_loop_inv:
  assumes "assoc_inv key s"
  shows "assoc_inv key (assoc_maintenance_loop key n s)
    \<and> assoc_items (assoc_maintenance_loop key n s) = assoc_items s
    \<and> assoc_count (assoc_maintenance_loop key n s) = assoc_count s"
  using assms by (induction key n s rule: assoc_maintenance_loop.induct)
    (simp_all add: assoc_move_bucket_inv)

lemma assoc_maintenance_inv:
  assumes "assoc_inv key s"
  shows "assoc_inv key (assoc_maintenance key s)" "assoc_items (assoc_maintenance key s) = assoc_items s"
    "assoc_count (assoc_maintenance key s) = assoc_count s"
  using assoc_maintenance_loop_inv [OF assms] by (simp_all add: assoc_maintenance_def)

lemma assoc_init_inv:
  assumes "assoc_init hp ok = Some s" "hp \<le> 31"
  shows "assoc_inv key s" "assoc_items s = {}" "assoc_count s = 0"
proof -
  have s: "expanding s = False" "primary_hashtable s = replicate (HASHSIZE (hash_power s)) []"
    "nhash_item s = 0" "0 < hash_power s" "hash_power s < 32"
    using assms unat_HASHSIZE [of hp] unat_HASHSIZE [of HASH_DEFAULT_POWER] by (auto simp: assoc_init_def assoc_create_table_def HASH_DEFAULT_POWER_def Let_def
        split: if_splits)
  have b: "bucket r s = []" if "valid_ref s r" for r
    using that by (cases r) (simp_all add: s)
  show c: "assoc_count s = 0" using s by (simp add: assoc_count_def)
  have "assoc_shape s" using s by (simp add: assoc_shape_def)
  then show "assoc_inv key s" using b c by (auto simp: assoc_inv_def s(3))
  show "assoc_items s = {}" using b by (auto simp: assoc_items_ref)
qed

text \<open>No item is in two places, so the count is the number of items.\<close>

lemma distinct_concat_nth:
  "\<lbrakk>\<forall>i < length t. distinct (t ! i);
    \<forall>i < length t. \<forall>j < length t. i \<noteq> j \<longrightarrow> set (t ! i) \<inter> set (t ! j) = {}\<rbrakk> \<Longrightarrow> distinct (concat t)"
proof (induction t)
  case (Cons b t)
  have "distinct (concat t)"
  proof (rule Cons.IH)
    show "\<forall>i < length t. distinct (t ! i)" using Cons.prems(1) by auto
    show "\<forall>i < length t. \<forall>j < length t. i \<noteq> j \<longrightarrow> set (t ! i) \<inter> set (t ! j) = {}"
      using Cons.prems(2) by (metis Suc_less_eq length_Cons nat.inject nth_Cons_Suc)
  qed
  moreover have "set b \<inter> set (t ! i) = {}" if "i < length t" for i
    using Cons.prems(2) that by (metis Suc_less_eq length_Cons nat.distinct(1) nth_Cons_0 nth_Cons_Suc zero_less_Suc)
  then have "set b \<inter> set (concat t) = {}" unfolding disjoint_iff in_set_concat_nth by metis
  moreover have "distinct b" using Cons.prems(1) by auto
  ultimately show ?case by simp
qed simp

lemma assoc_count_card:
  assumes "assoc_inv key s"
  shows "assoc_count s = card (assoc_items s)"
proof -
  note inv = assoc_invD [OF assms]
  have d: "distinct (bucket r s)" if "valid_ref s r" for r
    using inv(3) [OF that] by (simp add: distinct_map)
  have x: "set (bucket r s) \<inter> set (bucket r' s) = {}" if "valid_ref s r" "valid_ref s r'" "r \<noteq> r'" for r r'
    using inv(4) [OF that(1)] inv(4) [OF that(2)] that(3) by (metis disjoint_iff)
  have p: "distinct (concat (primary_hashtable s))"
    using d [of "Primary i" for i] x [of "Primary i" "Primary j" for i j]
    by (intro distinct_concat_nth) simp_all
  show ?thesis
  proof (cases "expanding s")
    case True
    have "distinct (concat (old_hashtable s))"
      using True d [of "Old i" for i] x [of "Old i" "Old j" for i j] by (intro distinct_concat_nth) simp_all
    moreover have "set (concat (primary_hashtable s)) \<inter> set (concat (old_hashtable s)) = {}"
      using True x [of "Primary i" "Old j" for i j] unfolding disjoint_iff in_set_concat_nth by force
    ultimately show ?thesis
      using True p by (simp add: assoc_count_def assoc_items_def card_Un_disjoint distinct_card del: set_concat)
  qed (use p in \<open>simp add: assoc_count_def assoc_items_def distinct_card del: set_concat\<close>)
qed

subsection \<open>Interface: an index of items by key\<close>

text \<open>What the item layer relies on: lookups see insertions and deletions, and the background
  maintenance is invisible to them. The client lemma covers every interleaving.\<close>

datatype ('p, 'k) index_op = Insert bool 'p | Delete 'k | Maintain

fun index_run :: "(bool \<Rightarrow> 'p \<Rightarrow> 's \<Rightarrow> 's) \<Rightarrow> ('k \<Rightarrow> 's \<Rightarrow> 's option) \<Rightarrow> ('s \<Rightarrow> 's)
    \<Rightarrow> ('p, 'k) index_op list \<Rightarrow> 's \<Rightarrow> 's option" where
  "index_run ins del tick [] s = Some s"
| "index_run ins del tick (Insert ok p # ops) s = index_run ins del tick ops (ins ok p s)"
| "index_run ins del tick (Delete k # ops) s =
    (case del k s of None \<Rightarrow> None | Some s' \<Rightarrow> index_run ins del tick ops s')"
| "index_run ins del tick (Maintain # ops) s = index_run ins del tick ops (tick s)"

text \<open>The specification: a finite map with \<open>n\<close> free places. Inserting a present key, deleting an
  absent one or inserting into a full map is outside the contract.\<close>

fun map_run :: "('p \<Rightarrow> 'k) \<Rightarrow> nat \<Rightarrow> ('p, 'k) index_op list \<Rightarrow> ('k \<rightharpoonup> 'p) \<Rightarrow> ('k \<rightharpoonup> 'p) option" where
  "map_run key n [] m = Some m"
| "map_run key n (Insert ok p # ops) m =
    (if m (key p) = None \<and> 0 < n then map_run key (n - 1) ops (m(key p \<mapsto> p)) else None)"
| "map_run key n (Delete k # ops) m =
    (if m k = None then None else map_run key (Suc n) ops (m(k := None)))"
| "map_run key n (Maintain # ops) m = map_run key n ops m"

locale item_index =
  fixes key :: "'p \<Rightarrow> 'k" and inv :: "nat \<Rightarrow> 's \<Rightarrow> bool" and lookup :: "'s \<Rightarrow> 'k \<Rightarrow> 'p option"
    and ins :: "bool \<Rightarrow> 'p \<Rightarrow> 's \<Rightarrow> 's" and del :: "'k \<Rightarrow> 's \<Rightarrow> 's option" and tick :: "'s \<Rightarrow> 's"
  assumes inv_ins: "inv (Suc n) s \<Longrightarrow> lookup s (key p) = None \<Longrightarrow> inv n (ins ok p s)"
    and lookup_ins: "inv (Suc n) s \<Longrightarrow> lookup s (key p) = None \<Longrightarrow> lookup (ins ok p s) = (lookup s)(key p \<mapsto> p)"
    and del_lookup: "inv n s \<Longrightarrow> lookup s k \<noteq> None \<Longrightarrow>
      \<exists>s'. del k s = Some s' \<and> inv (Suc n) s' \<and> lookup s' = (lookup s)(k := None)"
    and inv_tick: "inv n s \<Longrightarrow> inv n (tick s)"
    and lookup_tick: "inv n s \<Longrightarrow> lookup (tick s) = lookup s"
begin

theorem index_run_refines:
  assumes "inv n s" "map_run key n ops (lookup s) = Some m"
  shows "\<exists>s'. index_run ins del tick ops s = Some s' \<and> lookup s' = m"
  using assms
proof (induction ops arbitrary: s n)
  case (Cons a ops)
  show ?case
  proof (cases a)
    case (Insert ok p)
    then obtain n' where "n = Suc n'" "lookup s (key p) = None"
      "map_run key n' ops ((lookup s)(key p \<mapsto> p)) = Some m"
      using Cons.prems(2) by (cases n) (auto split: if_splits)
    then show ?thesis
      using Insert Cons.IH [of n' "ins ok p s"] Cons.prems(1) inv_ins [of n' s p ok] lookup_ins [of n' s p ok]
      by (simp del: fun_upd_apply)
  next
    case (Delete k)
    then show ?thesis using Cons del_lookup [of n s k] by (fastforce split: if_splits)
  next
    case Maintain
    then show ?thesis using Cons inv_tick lookup_tick by fastforce
  qed
qed simp

end

interpretation assoc: item_index key "\<lambda>n s. assoc_inv key s \<and> assoc_room hp n s"
    "\<lambda>s k. assoc_find key k s" "assoc_insert key hp" "assoc_delete key" "assoc_maintenance key"
  for key :: "'p \<Rightarrow> bytes" and hp :: nat
proof (unfold_locales, goal_cases)
  case (1 n s p ok)
  show ?case
    using assoc_insert_inv(1,3) [OF conjunct1 [OF 1(1)] 1(2) conjunct2 [OF 1(1)], of ok] by (rule conjI)
next
  case (2 n s p ok)
  note i = assoc_insert_inv [OF conjunct1 [OF 2(1)] 2(2) conjunct2 [OF 2(1)], of ok]
    and j = conjunct1 [OF 2(1)]
  show ?case
    using 2(2) by (intro ext option_eqI)
      (auto simp: assoc_find_iff [OF i(1)] i(2) assoc_find_iff [OF j] assoc_find_None [OF j])
next
  case (3 n s k)
  note j = conjunct1 [OF 3(1)]
  obtain it where f: "assoc_find key k s = Some it" using 3(2) by blast
  obtain s' where s': "assoc_delete key k s = Some s'" "assoc_inv key s'" "assoc_items s' = assoc_items s - {it}"
    "assoc_count s = Suc (assoc_count s')"
    using assoc_delete_inv [OF j f] by blast
  have "assoc_find key j s' = ((\<lambda>k. assoc_find key k s)(k := None)) j" for j
    using f by (intro option_eqI)
      (auto simp: assoc_find_iff [OF s'(2)] s'(3) assoc_find_iff [OF j], metis assoc_find_iff [OF j] option.inject)
  moreover have "assoc_room hp (Suc n) s'" using 3(1) by (simp add: assoc_room_def s'(4))
  ultimately show ?case using s' by blast
next
  case (4 n s)
  then show ?case using assoc_maintenance_inv [of key s] by (simp add: assoc_room_def)
next
  case (5 n s)
  note j = conjunct1 [OF 5]
  show ?case
    by (rule ext) (rule assoc_find_cong [OF assoc_maintenance_inv(1) [OF j] j assoc_maintenance_inv(2) [OF j]])
qed

subsection \<open>Properties\<close>

text \<open>C5: from a fresh table of \<open>hash_power\<close> at most 31, every sequence of insertions of absent keys,
  deletions of present keys and steps of the maintenance thread, in any order and with any outcome
  of the allocations of the larger tables, runs without a fault and leaves the lookups of the finite
  map that the same sequence builds: the incremental expansion is invisible. A table that may grow,
  \<open>hash_power\<close> 0 in the settings, holds at most 3 * 2 ^ 30 items at a time (\<open>n\<close> is the number of
  places); with a fixed \<open>hash_power\<close> there is no such bound.\<close>

theorem assoc_refines_map:
  assumes "assoc_init hp True = Some s" "hp \<le> 31" "hp = 0 \<longrightarrow> n \<le> 3 * 2 ^ 30"
    and "map_run key n ops Map.empty = Some m"
  shows "\<exists>s'. index_run (assoc_insert key hp) (assoc_delete key) (assoc_maintenance key) ops s = Some s'
    \<and> (\<forall>k. assoc_find key k s' = m k)"
proof -
  note i = assoc_init_inv [OF assms(1,2)]
  have "(\<lambda>k. assoc_find key k s) = Map.empty"
    using i(1) [of key] i(2) by (auto simp: fun_eq_iff assoc_find_None)
  then have "map_run key n ops (\<lambda>k. assoc_find key k s) = Some m"
    using assms(4) by simp
  moreover have "assoc_inv key s \<and> assoc_room hp n s"
    using i assms(3) by (simp add: assoc_room_def ASSOC_MAX_def)
  ultimately show ?thesis
    using assoc.index_run_refines [of key s hp n ops m] by (auto simp: fun_eq_iff)
qed

text \<open>The table of the witness: one bucket pair, two items named by their keys.\<close>

theorem assoc_refines_map_witness:
  "\<exists>s'. index_run (assoc_insert id 1) (assoc_delete id) (assoc_maintenance id)
      [Insert True ''a'', Insert True ''b'', Maintain, Delete ''a''] (the (assoc_init 1 True)) = Some s'
    \<and> (\<forall>k. assoc_find id k s' = [''b'' \<mapsto> ''b''] k)"
proof -
  have i: "assoc_init 1 True = Some (the (assoc_init 1 True) :: bytes assoc_st)"
    by (simp add: assoc_init_def assoc_create_table_def Let_def)
  have m: "map_run id 2 [Insert True ''a'', Insert True ''b'', Maintain, Delete ''a''] Map.empty
      = Some [''b'' \<mapsto> ''b'']"
    by (simp add: fun_eq_iff)
  show ?thesis by (rule assoc_refines_map [OF i _ _ m]) simp_all
qed

definition expansion_left :: "'p assoc_st \<Rightarrow> nat" where
  "expansion_left s = (if expanding s then HASHSIZE (hash_power s - 1) - expand_bucket s else 0)"

lemma move_bucket_left:
  assumes "assoc_inv key s" "expanding s"
  shows "expansion_left (assoc_move_bucket key s) = expansion_left s - 1"
    "nhash_move_size (assoc_move_bucket key s) = nhash_move_size s"
  using migrating_shape [OF assms] assms(2)
    assoc_move_bucket_eq [OF assoc_invD(1) [OF assms(1)] assms(2) refl, of key]
  by (auto simp: expansion_left_def)

lemma maintenance_loop_left:
  assumes "assoc_inv key s"
  shows "expansion_left (assoc_maintenance_loop key n s) = expansion_left s - n
    \<and> nhash_move_size (assoc_maintenance_loop key n s) = nhash_move_size s"
  using assms
proof (induction n arbitrary: s)
  case (Suc n)
  then show ?case
    using Suc.IH [of "assoc_move_bucket key s"] move_bucket_left [of key s] assoc_move_bucket_inv(1) [of key s]
    by (cases "expanding s") (auto simp: expansion_left_def [of s])
qed simp

lemma maintenance_power:
  assumes "assoc_inv key s"
  shows "assoc_inv key ((assoc_maintenance key ^^ n) s)
    \<and> assoc_items ((assoc_maintenance key ^^ n) s) = assoc_items s
    \<and> nhash_move_size ((assoc_maintenance key ^^ n) s) = nhash_move_size s
    \<and> expansion_left ((assoc_maintenance key ^^ n) s) = expansion_left s - n * nhash_move_size s"
proof (induction n)
  case (Suc n)
  define t where "t = (assoc_maintenance key ^^ n) s"
  have "expansion_left (assoc_maintenance key t) = expansion_left t - nhash_move_size t"
    "nhash_move_size (assoc_maintenance key t) = nhash_move_size t"
    using maintenance_loop_left [of key t] Suc.IH unfolding t_def assoc_maintenance_def by blast+
  then show ?case
    using Suc.IH assoc_maintenance_inv [of key t] by (simp add: t_def)
qed (simp add: assms)

lemma not_expanding_iff: "assoc_inv key s \<Longrightarrow> \<not> expanding s \<longleftrightarrow> expansion_left s = 0"
  using migrating_shape(4) [of key s] by (auto simp: expansion_left_def)

text \<open>C27: an expansion ends: each step of the maintenance thread that finds the table expanding
  migrates at least one bucket, so after as many steps as there are buckets left the table is no
  longer expanding, and no lookup has changed.\<close>

theorem assoc_expansion_completes:
  assumes "assoc_inv key s" "0 < nhash_move_size s" "HASHSIZE (hash_power s - 1) - expand_bucket s \<le> n"
  shows "\<not> expanding ((assoc_maintenance key ^^ n) s)
    \<and> assoc_find key k ((assoc_maintenance key ^^ n) s) = assoc_find key k s"
proof -
  note p = maintenance_power [OF assms(1), of n]
  have "expansion_left s \<le> n" using assms(3) by (simp add: expansion_left_def)
  also have "n \<le> n * nhash_move_size s" using assms(2) by simp
  finally have "\<not> expanding ((assoc_maintenance key ^^ n) s)"
    using p not_expanding_iff [of key "(assoc_maintenance key ^^ n) s"] by simp
  then show ?thesis using p assoc_find_cong [of key _ s] assms(1) by blast
qed

theorem assoc_expansion_completes_witness:
  "\<not> expanding ((assoc_maintenance id ^^ 2) (assoc_expand True (the (assoc_init 1 True) :: bytes assoc_st)))
   \<and> assoc_find id ''a'' ((assoc_maintenance id ^^ 2) (assoc_expand True (the (assoc_init 1 True))))
     = assoc_find id ''a'' (assoc_expand True (the (assoc_init 1 True)))"
proof (rule assoc_expansion_completes)
  have i: "assoc_init 1 True = Some (the (assoc_init 1 True) :: bytes assoc_st)"
    "\<not> expanding (the (assoc_init 1 True) :: bytes assoc_st)"
    "hash_power (the (assoc_init 1 True) :: bytes assoc_st) < 31"
    by (simp_all add: assoc_init_def assoc_create_table_def Let_def)
  show "assoc_inv id (assoc_expand True (the (assoc_init 1 True) :: bytes assoc_st))"
    by (rule assoc_expand_inv(1) [OF assoc_init_inv(1) [OF i(1)] i(2,3)]) simp
qed (simp_all add: assoc_init_def assoc_create_table_def assoc_expand_def Let_def HASHSIZE_def
    HASH_DEFAULT_MOVE_SIZE_def)


end
