(* ===== verification/MC_Util.thy ===== *)
theory MC_Util
  imports MC_Prelude
begin

text \<open>
  The helpers of \<open>mc_util.c\<close>: the prefixes that turn a key into the key of its lease,
  pending version and so on, the number parsers, and the decimal output of \<open>snprintf\<close>
  that the server writes numbers with. A NUL-terminated C string is the list of its
  characters before the NUL. The C library's \<open>isspace\<close> and \<open>strto*\<close> (base 10 and 8) are
  modelled here as the C standard defines them in the default locale, with 64-bit \<open>long\<close>.
\<close>

subsection \<open>Keys of the auxiliary items\<close>

definition mc_get_version_key :: "bytes \<Rightarrow> bytes" where
  "mc_get_version_key key = ''nv:'' @ key"

definition mc_get_lease_key :: "bytes \<Rightarrow> bytes" where
  "mc_get_lease_key key = ''ls:'' @ key"

definition mc_get_pending_key :: "bytes \<Rightarrow> bytes" where
  "mc_get_pending_key key = ''pd:'' @ key"

definition mc_get_ptrans_key :: "bytes \<Rightarrow> bytes" where
  "mc_get_ptrans_key key = ''pt:'' @ key"

definition mc_get_co_lease_key :: "bytes \<Rightarrow> bytes" where
  "mc_get_co_lease_key key = ''co:'' @ key"

definition mc_get_pending_sess_key :: "bytes \<Rightarrow> bytes" where
  "mc_get_pending_sess_key key = key @ '':se''"

lemmas mc_key_defs = mc_get_version_key_def mc_get_lease_key_def mc_get_pending_key_def
  mc_get_ptrans_key_def mc_get_co_lease_key_def

lemma mc_keys_disjoint [simp]:
  "mc_get_lease_key k \<noteq> mc_get_version_key k'" "mc_get_version_key k \<noteq> mc_get_lease_key k'"
  "mc_get_lease_key k \<noteq> mc_get_ptrans_key k'" "mc_get_ptrans_key k \<noteq> mc_get_lease_key k'"
  "mc_get_version_key k \<noteq> mc_get_ptrans_key k'" "mc_get_ptrans_key k \<noteq> mc_get_version_key k'"
  "mc_get_lease_key k \<noteq> mc_get_pending_key k'" "mc_get_pending_key k \<noteq> mc_get_lease_key k'"
  "mc_get_lease_key k \<noteq> mc_get_co_lease_key k'" "mc_get_co_lease_key k \<noteq> mc_get_lease_key k'"
  by (simp_all add: mc_key_defs)

lemma mc_keys_inj [simp]:
  "mc_get_lease_key k = mc_get_lease_key k' \<longleftrightarrow> k = k'"
  "mc_get_version_key k = mc_get_version_key k' \<longleftrightarrow> k = k'"
  "mc_get_ptrans_key k = mc_get_ptrans_key k' \<longleftrightarrow> k = k'"
  "mc_get_co_lease_key k = mc_get_co_lease_key k' \<longleftrightarrow> k = k'"
  by (simp_all add: mc_key_defs)

subsection \<open>Character classes\<close>

definition c_isspace :: "char \<Rightarrow> bool" where
  "c_isspace c \<longleftrightarrow> byte_nat c = 32 \<or> 9 \<le> byte_nat c \<and> byte_nat c \<le> 13"

definition c_isdigit :: "char \<Rightarrow> bool" where
  "c_isdigit c \<longleftrightarrow> 48 \<le> byte_nat c \<and> byte_nat c \<le> 57"

subsection \<open>Small parsers\<close>

text \<open>\<open>_mc_atoi\<close> accumulates in an \<open>int\<close>; \<open>None\<close> is the signed overflow, which C leaves
  undefined.\<close>

fun mc_atoi_loop :: "int \<Rightarrow> bytes \<Rightarrow> int option" where
  "mc_atoi_loop value [] = Some (if value < 0 then -1 else value)"
| "mc_atoi_loop value (c # line) =
    (if \<not> c_isdigit c then Some (-1)
     else let v = value * 10 + (int (byte_nat c) - 48) in
       if v < 2 ^ 31 then mc_atoi_loop v line else None)"

definition mc_atoi :: "bytes \<Rightarrow> int option" where
  "mc_atoi line = (if line = [] then Some (-1) else mc_atoi_loop 0 line)"

definition mc_valid_port :: "int \<Rightarrow> bool" where
  "mc_valid_port n = (if n < 1 \<or> n > 65535 then False else True)"

fun mc_skip_space :: "bytes \<Rightarrow> bytes" where
  "mc_skip_space [] = []"
| "mc_skip_space (c # str) = (if c_isspace c then mc_skip_space str else c # str)"

text \<open>\<open>mc_strtoull_len\<close> returns its boolean and the value it leaves in \<open>*out\<close>; \<open>Inl\<close> in the
  loop is the early \<open>return false\<close>, with the value of \<open>*out\<close> at that point.\<close>

definition UINT64_MAX :: u64 where
  "UINT64_MAX = - 1"

fun mc_strtoull_len_loop :: "u64 \<Rightarrow> bytes \<Rightarrow> u64 + u64 \<times> bytes" where
  "mc_strtoull_len_loop out [] = Inr (out, [])"
| "mc_strtoull_len_loop out (c # str) =
    (if c_isdigit c then
       (if out \<ge> UINT64_MAX div 10 then Inl out
        else mc_strtoull_len_loop (out * 10 + of_nat (byte_nat c) - 48) str)
     else Inr (out, c # str))"

definition mc_strtoull_len :: "bytes \<Rightarrow> u64 \<Rightarrow> bool \<times> u64" where
  "mc_strtoull_len str out =
    (if str = [] then (False, out)
     else case mc_strtoull_len_loop 0 (mc_skip_space str) of
       Inl o' \<Rightarrow> (False, o')
     | Inr (o', rest) \<Rightarrow> (mc_skip_space rest = [], o'))"

subsection \<open>The C library conversions and their wrappers\<close>

fun c_digits :: "nat \<Rightarrow> nat \<Rightarrow> bytes \<Rightarrow> nat \<times> bytes" where
  "c_digits base acc [] = (acc, [])"
| "c_digits base acc (c # str) =
    (if 48 \<le> byte_nat c \<and> byte_nat c < 48 + base
     then c_digits base (acc * base + (byte_nat c - 48)) str
     else (acc, c # str))"

text \<open>The subject sequence of \<open>strtol\<close> and its relatives: whether a minus sign was read, the
  magnitude, the string \<open>endptr\<close> points to, and whether a conversion was made (if not,
  \<open>endptr\<close> is the start of the string).\<close>

definition c_scan :: "nat \<Rightarrow> bytes \<Rightarrow> bool \<times> nat \<times> bytes \<times> bool" where
  "c_scan base str =
    (let s1 = mc_skip_space str;
         neg = (s1 \<noteq> [] \<and> hd s1 = CHR ''-'');
         s2 = (if s1 \<noteq> [] \<and> (hd s1 = CHR ''-'' \<or> hd s1 = CHR ''+'') then tl s1 else s1);
         (v, rest) = c_digits base 0 s2
     in if rest = s2 then (False, 0, str, False) else (neg, v, rest, True))"

definition endptr_ok :: "bytes \<Rightarrow> bool \<Rightarrow> bool" where
  "endptr_ok rest converted = (case rest of [] \<Rightarrow> converted | c # _ \<Rightarrow> c_isspace c)"

definition c_strtoll :: "nat \<Rightarrow> bytes \<Rightarrow> (int \<times> bytes \<times> bool) option" where
  "c_strtoll base str = (case c_scan base str of (neg, v, rest, conv) \<Rightarrow>
    let i = (if neg then - int v else int v) in
    if - (2 ^ 63) \<le> i \<and> i < 2 ^ 63 then Some (i, rest, conv) else None)"

definition c_strtoull :: "nat \<Rightarrow> bytes \<Rightarrow> (u64 \<times> bytes \<times> bool) option" where
  "c_strtoull base str = (case c_scan base str of (neg, v, rest, conv) \<Rightarrow>
    if v < 2 ^ 64 then Some (if neg then - of_nat v else of_nat v, rest, conv) else None)"

definition mc_strtoull :: "bytes \<Rightarrow> u64 option" where
  "mc_strtoull str = (case c_strtoull 10 str of
     None \<Rightarrow> None
   | Some (ull, rest, conv) \<Rightarrow>
       if endptr_ok rest conv then
         (if sint ull < 0 \<and> CHR ''-'' \<in> set str then None else Some ull)
       else None)"

definition mc_strtoll :: "bytes \<Rightarrow> int option" where
  "mc_strtoll str = (case c_strtoll 10 str of
     None \<Rightarrow> None
   | Some (ll, rest, conv) \<Rightarrow> if endptr_ok rest conv then Some ll else None)"

definition mc_strtoul :: "bytes \<Rightarrow> u32 option" where
  "mc_strtoul str = (case c_strtoull 10 str of
     None \<Rightarrow> None
   | Some (l, rest, conv) \<Rightarrow>
       if endptr_ok rest conv then
         (if sint l < 0 \<and> CHR ''-'' \<in> set str then None else Some (ucast l))
       else None)"

definition to_int32 :: "int \<Rightarrow> int" where
  "to_int32 i = signed_take_bit 31 i"

definition mc_strtol :: "bytes \<Rightarrow> int option" where
  "mc_strtol str = (case c_strtoll 10 str of
     None \<Rightarrow> None
   | Some (l, rest, conv) \<Rightarrow> if endptr_ok rest conv then Some (to_int32 l) else None)"

definition mc_str2oct :: "bytes \<Rightarrow> int option" where
  "mc_str2oct str = (case c_strtoll 8 str of
     None \<Rightarrow> None
   | Some (l, rest, conv) \<Rightarrow> if endptr_ok rest conv then Some (to_int32 l) else None)"

subsection \<open>Decimal output\<close>

text \<open>The digits \<open>snprintf\<close> writes for \<open>%"PRIu64"\<close> and, with a sign, for \<open>%d\<close>.\<close>

fun dec :: "nat \<Rightarrow> bytes" where
  "dec n = (if n < 10 then [char_of (48 + n)] else dec (n div 10) @ [char_of (48 + n mod 10)])"

definition dec_int :: "int \<Rightarrow> bytes" where
  "dec_int i = (if i < 0 then CHR ''-'' # dec (nat (- i)) else dec (nat i))"

declare dec.simps [simp del]

lemma dec_not_Nil [simp]: "dec n \<noteq> []" "[] \<noteq> dec n"
  by (subst dec.simps, simp)+

lemma dec_digits: "c \<in> set (dec n) \<Longrightarrow> c_isdigit c"
proof (induction n rule: dec.induct)
  case (1 n)
  have d: "c_isdigit (char_of (48 + m mod 10))" for m :: nat
  proof -
    have "m mod 10 < 10" by simp
    then have "48 + m mod 10 < 256" by linarith
    then show ?thesis using \<open>m mod 10 < 10\<close> by (simp add: c_isdigit_def)
  qed
  from 1(2) show ?case
    using d [of n] 1(1) by (subst (asm) dec.simps) (auto split: if_splits)
qed

lemma digit_not_space: "c_isdigit c \<Longrightarrow> \<not> c_isspace c"
  by (auto simp: c_isdigit_def c_isspace_def)

lemma dec_hd_digit: "c_isdigit (hd (dec n))"
  by (rule dec_digits) (rule hd_in_set, simp)

lemma mc_skip_space_dec [simp]: "mc_skip_space (dec n @ rest) = dec n @ rest"
  using dec_hd_digit [of n] digit_not_space by (cases "dec n") auto

lemma digit_mod: "byte_nat (char_of (48 + n mod 10)) = 48 + n mod (10::nat)"
proof -
  have "n mod 10 < 10" by simp
  then have "48 + n mod 10 < 256" by linarith
  then show ?thesis by simp
qed

lemma c_digits_dec: "c_digits 10 0 (dec n @ rest) = c_digits 10 n rest"
proof (induction n arbitrary: rest rule: dec.induct)
  case (1 n)
  show ?case
  proof (cases "n < 10")
    case True
    then show ?thesis using digit_mod [of n] by (subst dec.simps) simp
  next
    case False
    then show ?thesis using 1 digit_mod [of n] by (subst dec.simps) simp
  qed
qed

lemma hd_dec_sign: "hd (dec n @ rest) \<noteq> CHR ''-''" "hd (dec n @ rest) \<noteq> CHR ''+''"
  using dec_hd_digit [of n] by (auto simp: c_isdigit_def byte_nat_def hd_append)

lemma no_minus_dec: "CHR ''-'' \<notin> set (dec n)"
  using dec_digits [of "CHR ''-''" n] by (auto simp: c_isdigit_def byte_nat_def)

lemma c_scan_dec: "c_scan 10 (dec n) = (False, n, [], True)"
  using c_digits_dec [of n "[]"] hd_dec_sign [of n "[]"] mc_skip_space_dec [of n "[]"]
  by (simp add: c_scan_def Let_def)

lemma c_scan_minus_dec: "c_scan 10 (CHR ''-'' # dec n) = (True, n, [], True)"
  using c_digits_dec [of n "[]"]
  by (simp add: c_scan_def c_isspace_def byte_nat_def Let_def)

lemma c_scan_dec_int: "c_scan 10 (dec_int i) = (i < 0, nat \<bar>i\<bar>, [], True)"
  by (simp add: dec_int_def c_scan_dec c_scan_minus_dec)

lemma c_strtoll_dec_int:
  "c_strtoll 10 (dec_int i) = (if - (2 ^ 63) \<le> i \<and> i < 2 ^ 63 then Some (i, [], True) else None)"
  by (simp add: c_strtoll_def c_scan_dec_int)

lemma to_int32_id: "- (2 ^ 31) \<le> i \<Longrightarrow> i < 2 ^ 31 \<Longrightarrow> to_int32 i = i"
  unfolding to_int32_def by (rule signed_take_bit_int_eq_self) simp_all

lemma to_int32_range: "- (2 ^ 31) \<le> to_int32 i" "to_int32 i < 2 ^ 31"
  using signed_take_bit_int_greater_eq_minus_exp [of 31 i] signed_take_bit_int_less_exp [of 31 i]
  by (simp_all add: to_int32_def)

subsection \<open>Round trips\<close>

lemma mc_strtoll_dec_int: "- (2 ^ 63) \<le> i \<Longrightarrow> i < 2 ^ 63 \<Longrightarrow> mc_strtoll (dec_int i) = Some i"
  by (simp add: mc_strtoll_def c_strtoll_dec_int endptr_ok_def)

lemma mc_strtol_dec_int: "- (2 ^ 31) \<le> i \<Longrightarrow> i < 2 ^ 31 \<Longrightarrow> mc_strtol (dec_int i) = Some i"
  by (simp add: mc_strtol_def c_strtoll_dec_int endptr_ok_def to_int32_id)

lemma mc_strtoull_dec: "n < 2 ^ 64 \<Longrightarrow> mc_strtoull (dec n) = Some (of_nat n)"
  by (simp add: mc_strtoull_def c_strtoull_def c_scan_dec endptr_ok_def no_minus_dec)

lemma mc_strtoul_dec: "n < 2 ^ 32 \<Longrightarrow> mc_strtoul (dec n) = Some (of_nat n)"
  by (simp add: mc_strtoul_def c_strtoull_def c_scan_dec endptr_ok_def no_minus_dec
      unsigned_of_nat take_bit_nat_eq_self)

lemma unat_UINT64_MAX: "unat UINT64_MAX = 2 ^ 64 - 1"
  by (simp add: UINT64_MAX_def unsigned_minus_1_eq_mask mask_eq_exp_minus_1)

lemma UINT64_MAX_div_10: "UINT64_MAX div 10 = 1844674407370955161"
  by (rule word_unat_eq_iff [THEN iffD2]) (simp add: unat_div unat_UINT64_MAX)

lemma mc_strtoull_len_loop_dec:
  "n \<le> 2 ^ 64 - 7 \<Longrightarrow> mc_strtoull_len_loop 0 (dec n @ rest) = mc_strtoull_len_loop (of_nat n) rest"
proof (induction n arbitrary: rest rule: dec.induct)
  case (1 n)
  have dig: "c_isdigit (char_of (48 + n mod 10))"
    using digit_mod [of n] by (simp add: c_isdigit_def)
  show ?case
  proof (cases "n < 10")
    case True
    then show ?thesis using digit_mod [of n] dig
      by (subst dec.simps) (simp add: UINT64_MAX_div_10 UINT64_MAX_def)
  next
    case False
    let ?q = "n div 10"
    have q: "?q < 1844674407370955161" using 1(2) by simp
    have "\<not> (of_nat ?q :: u64) \<ge> 1844674407370955161"
      using q by (simp add: word_le_nat_alt)
    moreover have "(of_nat ?q * 10 + of_nat (n mod 10) :: u64) = of_nat n"
      by (metis div_mult_mod_eq of_nat_add of_nat_mult of_nat_numeral)
    moreover have "mc_strtoull_len_loop 0 (dec n @ rest)
        = mc_strtoull_len_loop (of_nat ?q) (char_of (48 + n mod 10) # rest)"
      using 1 False q by (subst dec.simps) simp
    ultimately show ?thesis using dig digit_mod [of n]
      by (simp add: UINT64_MAX_div_10)
  qed
qed

lemma mc_strtoull_len_loop_dec_over:
  "n > 2 ^ 64 - 7 \<Longrightarrow> isl (mc_strtoull_len_loop 0 (dec n @ rest))"
proof (induction n arbitrary: rest rule: dec.induct)
  case (1 n)
  let ?q = "n div 10" and ?c = "char_of (48 + n mod 10) :: char"
  have d: "dec n @ rest = dec ?q @ ?c # rest" using 1(2) by (subst dec.simps) simp
  show ?case
  proof (cases "?q > 2 ^ 64 - 7")
    case True
    then show ?thesis unfolding d using 1 by simp
  next
    case False
    have "(of_nat ?q :: u64) \<ge> 1844674407370955161"
      using 1(2) False by (simp add: word_le_nat_alt)
    moreover have "c_isdigit ?c" using digit_mod [of n] by (simp add: c_isdigit_def)
    ultimately show ?thesis unfolding d
      using mc_strtoull_len_loop_dec [of ?q "?c # rest"] False by (simp add: UINT64_MAX_div_10)
  qed
qed

lemma mc_skip_space_append: "\<forall>c \<in> set a. c_isspace c \<Longrightarrow> mc_skip_space (a @ s) = mc_skip_space s"
  by (induction a) simp_all

lemma mc_strtoull_len_loop_space:
  assumes "\<forall>c \<in> set b. c_isspace c"
  shows "mc_strtoull_len_loop out b = Inr (out, b)"
  using assms digit_not_space by (cases b) auto

text \<open>C32: the length-bounded parser reads a decimal number with any space around it: a number up to
  \<open>UINT64_MAX - 6\<close>, which is the bound its comment names, is read back, and every larger one, the six
  largest 64-bit numbers among them, is rejected.\<close>

theorem mc_strtoull_len_dec:
  assumes "\<forall>c \<in> set a. c_isspace c" "\<forall>c \<in> set b. c_isspace c"
  shows "fst (mc_strtoull_len (a @ dec n @ b) out) = (n \<le> unat UINT64_MAX - 6)
   \<and> (n \<le> unat UINT64_MAX - 6 \<longrightarrow> snd (mc_strtoull_len (a @ dec n @ b) out) = of_nat n)"
proof -
  have m: "unat UINT64_MAX - 6 = 2 ^ 64 - 7"
    by (simp add: unat_UINT64_MAX)
  have s: "mc_skip_space (a @ dec n @ b) = dec n @ b" using mc_skip_space_append [OF assms(1)] by simp
  have e: "mc_skip_space b = []" using mc_skip_space_append [OF assms(2), of "[]"] by simp
  show ?thesis
  proof (cases "n \<le> 2 ^ 64 - 7")
    case True
    then show ?thesis
      using mc_strtoull_len_loop_dec [of n b] mc_strtoull_len_loop_space [OF assms(2)] s e
      by (simp add: m mc_strtoull_len_def)
  next
    case False
    then show ?thesis
      using mc_strtoull_len_loop_dec_over [of n b] s
      by (auto simp: m mc_strtoull_len_def isl_def)
  qed
qed

theorem mc_strtoull_len_dec_witness: "mc_strtoull_len '' 120  '' 7 = (True, 120)"
proof -
  have "dec 120 = ''120''"
    by code_simp
  moreover have "\<forall>c \<in> set '' ''. c_isspace c" "\<forall>c \<in> set ''  ''. c_isspace c"
    by (simp_all add: c_isspace_def byte_nat_def)
  ultimately show ?thesis
    using mc_strtoull_len_dec [of "'' ''" "''  ''" 120 7] by (simp add: unat_UINT64_MAX prod_eq_iff)
qed

end
