(* ===== verification/MC_Time.thy ===== *)
theory MC_Time
  imports MC_Prelude
begin

text \<open>
  The clock, \<open>mc_time.c\<close>. Its state is the start time of the process (an absolute
  \<open>time_t\<close>, a mathematical integer here) and the cached 32-bit number of seconds since
  then. The system clock is an input of the operations: \<open>time(NULL)\<close> of \<open>time_init\<close> and
  \<open>tv_sec\<close> of \<open>gettimeofday\<close>, and the timer event that calls \<open>time_update\<close> every second
  is a sequence of calls.
\<close>

record time_st =
  process_started :: int
  now :: u32

definition TIME_MAXDELTA :: int where
  "TIME_MAXDELTA = 60 * 60 * 24 * 30"

definition time_update :: "int \<Rightarrow> time_st \<Rightarrow> time_st" where
  "time_update tv_sec s = s\<lparr>now := of_int (tv_sec - process_started s)\<rparr>"

definition time_now :: "time_st \<Rightarrow> u32" where
  "time_now s = now s"

definition time_now_abs :: "time_st \<Rightarrow> int" where
  "time_now_abs s = process_started s + uint (now s)"

definition time_started :: "time_st \<Rightarrow> int" where
  "time_started s = process_started s"

definition time_reltime :: "time_st \<Rightarrow> int \<Rightarrow> u32" where
  "time_reltime s exptime =
    (if exptime = 0 then 0
     else if exptime > TIME_MAXDELTA then
       (if exptime \<le> process_started s then 1
        else of_int (exptime - process_started s))
     else of_int (exptime + uint (now s)))"

definition time_init :: "int \<Rightarrow> int \<Rightarrow> time_st" where
  "time_init time_null tv_sec =
    time_update tv_sec \<lparr>process_started = time_null - 2, now = 0\<rparr>"

subsection \<open>The deadline a client asks for\<close>

definition deadline :: "int \<Rightarrow> int \<Rightarrow> int" where
  "deadline wall exptime = (if exptime > TIME_MAXDELTA then exptime else wall + exptime)"

definition rel_expired :: "u32 \<Rightarrow> u32 \<Rightarrow> bool" where
  "rel_expired exptime t \<longleftrightarrow> exptime > 0 \<and> exptime \<le> t"

lemma uint_of_int_32: "0 \<le> i \<Longrightarrow> i < 2 ^ 32 \<Longrightarrow> uint (of_int i :: u32) = i"
  by (simp add: take_bit_int_eq_self unsigned_of_int)

lemma now_time_update [simp]:
  "process_started (time_update t s) = process_started s"
  "now (time_update t s) = of_int (t - process_started s)"
  by (simp_all add: time_update_def)

lemma process_started_time_init [simp]: "process_started (time_init t t0) = t - 2"
  by (simp add: time_init_def)

lemma time_now_abs_time_update:
  "process_started s \<le> t \<Longrightarrow> t < process_started s + 2 ^ 32 \<Longrightarrow>
   time_now_abs (time_update t s) = t"
  by (simp add: time_now_abs_def uint_of_int_32 del: of_int_diff)

lemma uint_time_reltime:
  assumes "0 < e" "process_started s < t" "t < process_started s + 2 ^ 32"
    and "deadline t e < process_started s + 2 ^ 32"
  shows "uint (time_reltime (time_update t s) e) = max 1 (deadline t e - process_started s)"
  using assms by (auto simp: time_reltime_def deadline_def uint_of_int_32 simp del: of_int_diff of_int_add)



end
