(* ===== verification/MC_Lease.thy ===== *)
theory MC_Lease
  imports MC_Prelude
begin

text \<open>
  The lease token generator, \<open>mc_lease.c\<close> and \<open>mc_lease.h\<close>: the reserved token values and the
  global counter \<open>lease_current_token\<close>, which is the state. The mutex that serialises the
  increment is not represented: one call is one step.
\<close>

datatype lease_type = LEASE_UNSET | LEASE_VALUE | LEASE_DELETED | LEASE_HOTMISS | LEASE_SENTINEL

fun lease_type_code :: "lease_type \<Rightarrow> u64" where
  "lease_type_code LEASE_UNSET = 0"
| "lease_type_code LEASE_VALUE = 1"
| "lease_type_code LEASE_DELETED = 2"
| "lease_type_code LEASE_HOTMISS = 3"
| "lease_type_code LEASE_SENTINEL = 4"

definition LEASE_EXP_TIME :: u32 where
  "LEASE_EXP_TIME = 10"

definition LEASE_START :: u64 where
  "LEASE_START = lease_type_code LEASE_SENTINEL + 1"

definition lease_init :: u64 where
  "lease_init = LEASE_START"

definition lease_next_token :: "u64 \<Rightarrow> u64 \<times> u64" where
  "lease_next_token lease_current_token = (lease_current_token, lease_current_token + 1)"

interpretation lease_tokens: number_source lease_next_token "\<lambda>t. t" 0
  by unfold_locales (simp_all add: lease_next_token_def)

lemma lease_type_code_bound: "lease_type_code t < LEASE_START"
  by (cases t) (simp_all add: LEASE_START_def)

lemma lease_type_code_inj: "lease_type_code s = lease_type_code t \<longleftrightarrow> s = t"
  by (cases s; cases t) simp_all

end
