(* ===== verification/MC_Keylist.thy ===== *)
theory MC_Keylist
  imports MC_Prelude
begin

text \<open>
  The key lists of \<open>mc_sqltrig.c\<close>, which the leases and the transaction and session items store
  as their values: a sequence of keys, each preceded by a byte with its length, in one buffer.
  Offsets into the buffer stand for the \<open>char *\<close> cursors; a read or write outside a buffer is
  \<open>None\<close>. The \<open>trig_keylen_t\<close> parameters are the lengths of the key arguments.
\<close>

datatype trig_status = TRIG_OK | TRIG_QUEUED | TRIG_ERROR | TRIG_NOTFOUND

text \<open>\<open>trig_compare_key\<close> with the first key at offset \<open>i\<close> of a buffer; the bytes are only read
  when the lengths agree.\<close>

definition trig_compare_key :: "bytes \<Rightarrow> nat \<Rightarrow> nat \<Rightarrow> bytes \<Rightarrow> int option" where
  "trig_compare_key buf i key1_len key2 =
    (if int (length key2) - int key1_len \<noteq> 0 then Some (int (length key2) - int key1_len)
     else case slice buf i key1_len of None \<Rightarrow> None | Some key1 \<Rightarrow> Some (memcmp key1 key2))"

function trig_size_loop :: "bytes \<Rightarrow> nat \<Rightarrow> nat \<Rightarrow> nat \<Rightarrow> nat option" where
  "trig_size_loop buf it_listlen cptr cnt =
    (if cptr < it_listlen then
       (case rd8 buf cptr of
          None \<Rightarrow> None
        | Some curr_keylen \<Rightarrow> trig_size_loop buf it_listlen (cptr + 1 + curr_keylen) (cnt + 1))
     else Some cnt)"
  by pat_completeness auto
termination
  by (relation "measure (\<lambda>(buf, l, i, n). l - i)") auto

definition trig_size_keylist :: "bytes \<Rightarrow> nat \<Rightarrow> nat option" where
  "trig_size_keylist it_list it_listlen =
    (if it_listlen = 0 then Some 0 else trig_size_loop it_list it_listlen 0 0)"

function trig_check_loop :: "bytes \<Rightarrow> nat \<Rightarrow> bytes \<Rightarrow> nat \<Rightarrow> trig_status option" where
  "trig_check_loop buf it_listlen new_key cptr =
    (if cptr < it_listlen then
       (case rd8 buf cptr of
          None \<Rightarrow> None
        | Some curr_keylen \<Rightarrow>
            (case trig_compare_key buf (cptr + 1) curr_keylen new_key of
               None \<Rightarrow> None
             | Some compare_val \<Rightarrow>
                 if compare_val = 0 then Some TRIG_OK
                 else if compare_val < 0 then Some TRIG_NOTFOUND
                 else trig_check_loop buf it_listlen new_key (cptr + 1 + curr_keylen)))
     else Some TRIG_NOTFOUND)"
  by pat_completeness auto
termination
  by (relation "measure (\<lambda>(buf, l, k, i). l - i)") auto

definition trig_check_keylist :: "bytes \<Rightarrow> nat \<Rightarrow> bytes \<Rightarrow> trig_status option" where
  "trig_check_keylist it_list it_listlen new_key =
    (if it_listlen = 0 then Some TRIG_NOTFOUND else trig_check_loop it_list it_listlen new_key 0)"

text \<open>The loops that look for the position of a key: \<open>trig_keylist_rmvkey\<close> stops at the key,
  \<open>trig_keylist_addkey\<close> stops at the first larger key and returns early (\<open>Inl\<close>) at the key.\<close>

function trig_rmv_pos :: "bytes \<Rightarrow> nat \<Rightarrow> bytes \<Rightarrow> nat \<Rightarrow> nat option" where
  "trig_rmv_pos buf listlen new_key ins_pos =
    (if ins_pos < listlen then
       (case rd8 buf ins_pos of
          None \<Rightarrow> None
        | Some key_len \<Rightarrow>
            (case trig_compare_key buf (ins_pos + 1) key_len new_key of
               None \<Rightarrow> None
             | Some compare_val \<Rightarrow>
                 if compare_val = 0 then Some ins_pos
                 else trig_rmv_pos buf listlen new_key (ins_pos + 1 + key_len)))
     else Some ins_pos)"
  by pat_completeness auto
termination
  by (relation "measure (\<lambda>(buf, l, k, i). l - i)") auto

function trig_add_pos :: "bytes \<Rightarrow> nat \<Rightarrow> bytes \<Rightarrow> nat \<Rightarrow> (unit + nat) option" where
  "trig_add_pos buf listlen new_key ins_pos =
    (if ins_pos < listlen then
       (case rd8 buf ins_pos of
          None \<Rightarrow> None
        | Some key_len \<Rightarrow>
            (case trig_compare_key buf (ins_pos + 1) key_len new_key of
               None \<Rightarrow> None
             | Some compare_val \<Rightarrow>
                 if compare_val < 0 then Some (Inr ins_pos)
                 else if compare_val > 0 then trig_add_pos buf listlen new_key (ins_pos + 1 + key_len)
                 else Some (Inl ())))
     else Some (Inr ins_pos))"
  by pat_completeness auto
termination
  by (relation "measure (\<lambda>(buf, l, k, i). l - i)") auto

lemmas [simp del] = trig_size_loop.simps trig_check_loop.simps trig_rmv_pos.simps trig_add_pos.simps

text \<open>The position-dependent copies into the destination buffer, which is distinct from the old
  list in every call of the item layer. The results are the status, the new value of
  \<open>*dest_listlen\<close> and the destination buffer.\<close>

definition trig_keylist_rmvkey ::
    "bytes \<Rightarrow> nat \<Rightarrow> bytes \<Rightarrow> nat \<Rightarrow> bytes \<Rightarrow> (trig_status \<times> nat \<times> bytes) option" where
  "trig_keylist_rmvkey dest dest_listlen old_keylist old_keylistlen new_key =
    (if old_keylistlen = 0 then Some (TRIG_OK, dest_listlen, dest)
     else do {
       ins_pos \<leftarrow> trig_rmv_pos old_keylist old_keylistlen new_key 0;
       before \<leftarrow> slice old_keylist 0 ins_pos;
       dest \<leftarrow> memcpy_at dest 0 before;
       dest \<leftarrow>
         (if ins_pos < old_keylistlen then do {
            after \<leftarrow> slice old_keylist (ins_pos + length new_key + 1)
                       (old_keylistlen - ins_pos - length new_key - 1);
            memcpy_at dest ins_pos after
          } else Some dest);
       Some (TRIG_OK, old_keylistlen - length new_key - 1, dest)
     })"

definition trig_keylist_addkey ::
    "bytes \<Rightarrow> nat \<Rightarrow> bytes \<Rightarrow> nat \<Rightarrow> bytes \<Rightarrow> (trig_status \<times> nat \<times> bytes) option" where
  "trig_keylist_addkey dest dest_listlen old_keylist old_keylistlen new_key =
    (let entry = char_of (length new_key) # new_key in
     if old_keylistlen = 0 then do {
       dest \<leftarrow> memcpy_at dest 0 entry;
       Some (TRIG_OK, old_keylistlen + length new_key + 1, dest)
     } else do {
       r \<leftarrow> trig_add_pos old_keylist old_keylistlen new_key 0;
       case r of
         Inl _ \<Rightarrow> Some (TRIG_OK, dest_listlen, dest)
       | Inr ins_pos \<Rightarrow> do {
           before \<leftarrow> slice old_keylist 0 ins_pos;
           dest \<leftarrow> memcpy_at dest 0 before;
           after \<leftarrow> slice old_keylist ins_pos (old_keylistlen - ins_pos);
           dest \<leftarrow> memcpy_at dest (ins_pos + length new_key + 1) after;
           dest \<leftarrow> memcpy_at dest ins_pos entry;
           Some (TRIG_OK, old_keylistlen + length new_key + 1, dest)
         }
     })"

definition trig_new_keylist_size :: "bytes \<Rightarrow> nat" where
  "trig_new_keylist_size key = length key + 1"

text \<open>The cursor is \<open>None\<close> for \<open>NULL\<close>; the result holds the status, the cursor and the key
  (empty when the status is not \<open>TRIG_OK\<close>).\<close>

definition trig_keylist_next ::
    "bytes \<Rightarrow> nat \<Rightarrow> nat option \<Rightarrow> (trig_status \<times> nat option \<times> bytes) option" where
  "trig_keylist_next keylist keylistlen cursor =
    (if keylistlen = 0 then Some (TRIG_NOTFOUND, cursor, [])
     else do {
       c \<leftarrow> (case cursor of
              None \<Rightarrow> Some 0
            | Some c \<Rightarrow> do { n \<leftarrow> rd8 keylist c; Some (c + (n + 1)) });
       if c < keylistlen then do {
         nkey \<leftarrow> rd8 keylist c;
         key \<leftarrow> slice keylist (c + 1) nkey;
         Some (TRIG_OK, Some c, key)
       } else Some (TRIG_NOTFOUND, Some c, [])
     })"

text \<open>The loop \<open>while (trig_keylist_next(...) == TRIG_OK)\<close> of the item layer: the keys it visits,
  in order. The bound is the number of calls, at most one more than the bytes of the list.\<close>

fun trig_keys_from :: "nat \<Rightarrow> bytes \<Rightarrow> nat \<Rightarrow> nat option \<Rightarrow> bytes list option" where
  "trig_keys_from 0 keylist keylistlen cursor = None"
| "trig_keys_from (Suc n) keylist keylistlen cursor =
    (case trig_keylist_next keylist keylistlen cursor of
       None \<Rightarrow> None
     | Some (st, cursor', key) \<Rightarrow>
         if st = TRIG_OK
         then map_option ((#) key) (trig_keys_from n keylist keylistlen cursor')
         else Some [])"

definition trig_keys :: "bytes \<Rightarrow> nat \<Rightarrow> bytes list option" where
  "trig_keys keylist keylistlen = trig_keys_from (Suc keylistlen) keylist keylistlen None"

subsection \<open>The order of the keys\<close>

text \<open>\<open>klt a b\<close>: in a list, \<open>a\<close> comes before \<open>b\<close>. Shorter keys come first; among keys of the same
  length the order is the reverse of the byte order, since \<open>memcmp\<close> has its arguments in list
  order while the length difference has them swapped.\<close>

definition key_cmp :: "bytes \<Rightarrow> bytes \<Rightarrow> int" where
  "key_cmp a b = (if length b \<noteq> length a then int (length b) - int (length a) else memcmp a b)"

definition klt :: "bytes \<Rightarrow> bytes \<Rightarrow> bool" where
  "klt a b \<longleftrightarrow> key_cmp a b > 0"

lemma key_cmp_0 [simp]: "key_cmp a b = 0 \<longleftrightarrow> a = b"
  by (auto simp: key_cmp_def memcmp_0)

lemma key_cmp_swap: "key_cmp b a = - key_cmp a b"
  by (auto simp: key_cmp_def memcmp_swap [of b a])

lemma klt_irrefl [simp]: "\<not> klt a a"
  by (simp add: klt_def key_cmp_def)

lemma klt_trans: "klt a b \<Longrightarrow> klt b c \<Longrightarrow> klt a c"
  using memcmp_trans [of a b c] by (auto simp: klt_def key_cmp_def split: if_splits)

lemma klt_linear: "klt a b \<or> a = b \<or> klt b a"
  using key_cmp_0 [of a b] key_cmp_swap [of b a] unfolding klt_def by linarith

lemma klt_asym: "klt a b \<Longrightarrow> \<not> klt b a"
  using klt_trans klt_irrefl by blast

lemma key_cmp_neg: "key_cmp a b < 0 \<longleftrightarrow> klt b a"
  by (simp add: klt_def key_cmp_swap [of b a])

subsection \<open>Encoding\<close>

definition kl_entry :: "bytes \<Rightarrow> bytes" where
  "kl_entry k = char_of (length k) # k"

definition kl_encode :: "bytes list \<Rightarrow> bytes" where
  "kl_encode ks = concat (map kl_entry ks)"

definition kl_sorted :: "bytes list \<Rightarrow> bool" where
  "kl_sorted ks \<longleftrightarrow> sorted_wrt klt ks \<and> (\<forall>k \<in> set ks. length k < 256)"

lemma length_kl_entry [simp]: "length (kl_entry k) = Suc (length k)"
  by (simp add: kl_entry_def)

lemma kl_encode_simps [simp]:
  "kl_encode [] = []" "kl_encode (k # ks) = kl_entry k @ kl_encode ks"
  "kl_encode (ks @ ks') = kl_encode ks @ kl_encode ks'"
  by (simp_all add: kl_encode_def)

lemma kl_encode_Nil_iff [simp]: "kl_encode ks = [] \<longleftrightarrow> ks = []"
  by (cases ks) (simp_all add: kl_entry_def)

lemma kl_sorted_simps [simp]:
  "kl_sorted []"
  "kl_sorted (k # ks) \<longleftrightarrow> length k < 256 \<and> (\<forall>x \<in> set ks. klt k x) \<and> kl_sorted ks"
  by (auto simp: kl_sorted_def)

lemma kl_sorted_distinct: "kl_sorted ks \<Longrightarrow> distinct ks"
  by (induction ks) auto

lemma rd8_entry:
  assumes "i = length xs" "length k < 256"
  shows "rd8 (xs @ kl_entry k @ ys) i = Some (length k)"
  using assms by (simp add: kl_entry_def)

lemma compare_entry:
  assumes "i = length xs"
  shows "trig_compare_key (xs @ kl_entry k @ ys) (i + 1) (length k) new = Some (key_cmp k new)"
proof -
  have "xs @ kl_entry k @ ys = (xs @ [char_of (length k)]) @ k @ ys" by (simp add: kl_entry_def)
  then have "slice (xs @ kl_entry k @ ys) (i + 1) (length k) = Some k"
    using assms by (simp only:) (rule slice_mid, simp_all)
  then show ?thesis by (auto simp: trig_compare_key_def key_cmp_def)
qed

lemmas entry_steps = rd8_entry [OF refl] compare_entry [OF refl, simplified]

lemma check_loop_encode:
  assumes "kl_sorted ks" "i = length xs" "n = length (xs @ kl_encode ks)"
  shows "trig_check_loop (xs @ kl_encode ks @ zs) n key i
    = Some (if key \<in> set ks then TRIG_OK else TRIG_NOTFOUND)"
  using assms
proof (induction ks arbitrary: xs i)
  case Nil
  then show ?case by (simp add: trig_check_loop.simps)
next
  case (Cons k ks)
  have IH: "trig_check_loop ((xs @ kl_entry k) @ kl_encode ks @ zs) n key (i + 1 + length k)
      = Some (if key \<in> set ks then TRIG_OK else TRIG_NOTFOUND)"
    using Cons by (intro Cons.IH) auto
  have no: "key \<notin> set ks" if "klt key k"
    using that Cons.prems(1) klt_asym by auto
  show ?case
    using Cons.prems IH no entry_steps [where k = k and xs = xs and ys = "kl_encode ks @ zs"]
    by (subst trig_check_loop.simps) (auto simp: key_cmp_neg klt_def [symmetric])
qed

lemma trig_check_encode:
  assumes "kl_sorted ks" "n = length (kl_encode ks)"
  shows "trig_check_keylist (kl_encode ks @ zs) n key
    = Some (if key \<in> set ks then TRIG_OK else TRIG_NOTFOUND)"
  using check_loop_encode [OF assms(1), of 0 "[]"] assms(2) by (auto simp: trig_check_keylist_def)

lemma add_pos_encode:
  assumes "kl_sorted ks" "key \<notin> set ks" "i = length xs" "n = length (xs @ kl_encode ks)"
  shows "trig_add_pos (xs @ kl_encode ks @ zs) n key i
    = Some (Inr (i + length (kl_encode (takeWhile (\<lambda>k. klt k key) ks))))"
  using assms
proof (induction ks arbitrary: xs i)
  case Nil
  then show ?case by (simp add: trig_add_pos.simps)
next
  case (Cons k ks)
  have IH: "trig_add_pos ((xs @ kl_entry k) @ kl_encode ks @ zs) n key (i + 1 + length k)
      = Some (Inr (i + 1 + length k + length (kl_encode (takeWhile (\<lambda>k. klt k key) ks))))"
    using Cons by (intro Cons.IH) auto
  have "klt k key \<or> klt key k" using klt_linear [of k key] Cons.prems(2) by auto
  then show ?case
    using Cons.prems IH klt_asym [of k key]
      entry_steps [where k = k and xs = xs and ys = "kl_encode ks @ zs"]
    by (subst trig_add_pos.simps) (auto simp: key_cmp_neg klt_def [symmetric])
qed

lemma rmv_pos_encode:
  assumes "kl_sorted ks" "i = length xs" "n = length (xs @ kl_encode ks)"
  shows "trig_rmv_pos (xs @ kl_encode ks @ zs) n key i
    = Some (i + length (kl_encode (takeWhile (\<lambda>k. k \<noteq> key) ks)))"
  using assms
proof (induction ks arbitrary: xs i)
  case Nil
  then show ?case by (simp add: trig_rmv_pos.simps)
next
  case (Cons k ks)
  have IH: "trig_rmv_pos ((xs @ kl_entry k) @ kl_encode ks @ zs) n key (i + 1 + length k)
      = Some (i + 1 + length k + length (kl_encode (takeWhile (\<lambda>k. k \<noteq> key) ks)))"
    using Cons by (intro Cons.IH) auto
  show ?case
    using Cons.prems IH entry_steps [where k = k and xs = xs and ys = "kl_encode ks @ zs"]
    by (subst trig_rmv_pos.simps) auto
qed

definition kl_insert :: "bytes \<Rightarrow> bytes list \<Rightarrow> bytes list" where
  "kl_insert key ks = takeWhile (\<lambda>k. klt k key) ks @ key # dropWhile (\<lambda>k. klt k key) ks"

lemma set_kl_insert [simp]: "set (kl_insert key ks) = insert key (set ks)"
proof -
  have "set ks = set (takeWhile (\<lambda>k. klt k key) ks) \<union> set (dropWhile (\<lambda>k. klt k key) ks)"
    by (metis set_append takeWhile_dropWhile_id)
  then show ?thesis by (auto simp: kl_insert_def)
qed

lemma kl_sorted_insert:
  assumes "kl_sorted ks" "key \<notin> set ks" "length key < 256"
  shows "kl_sorted (kl_insert key ks)"
  using assms
proof (induction ks)
  case (Cons k ks)
  then show ?case
    using klt_linear [of k key] klt_trans [of key k]
    by (cases "klt k key") (auto simp: kl_insert_def dest: set_takeWhileD set_dropWhileD)
qed (simp add: kl_insert_def)

lemma length_kl_insert: "length (kl_encode (kl_insert key ks)) = length (kl_encode ks) + length key + 1"
proof -
  have "kl_encode ks = kl_encode (takeWhile (\<lambda>k. klt k key) ks) @ kl_encode (dropWhile (\<lambda>k. klt k key) ks)"
    by (metis kl_encode_simps(3) takeWhile_dropWhile_id)
  then show ?thesis by (simp add: kl_insert_def)
qed

lemma addkey_encode:
  assumes "kl_sorted ks" "key \<notin> set ks" "n = length (kl_encode ks)"
    and "length dest = n + trig_new_keylist_size key"
  shows "trig_keylist_addkey dest l (kl_encode ks @ zs) n key
    = Some (TRIG_OK, n + trig_new_keylist_size key, kl_encode (kl_insert key ks))"
proof (cases ks)
  case Nil
  then show ?thesis using assms
    by (simp add: trig_keylist_addkey_def memcpy_at_def trig_new_keylist_size_def kl_insert_def kl_entry_def)
next
  case (Cons k ks')
  define a where "a = kl_encode (takeWhile (\<lambda>k. klt k key) ks)"
  define b where "b = kl_encode (dropWhile (\<lambda>k. klt k key) ks)"
  have ab: "kl_encode ks = a @ b"
    unfolding a_def b_def by (metis kl_encode_simps(3) takeWhile_dropWhile_id)
  have n: "n = length a + length b" using assms(3) ab by simp
  have "n \<noteq> 0" using assms(3) Cons by simp
  have pos: "trig_add_pos (a @ b @ zs) n key 0 = Some (Inr (length a))"
    using add_pos_encode [OF assms(1,2), of 0 "[]" n zs] assms(3) ab by (simp add: a_def)
  have "length dest = length a + Suc (length key) + length b"
    using assms(4) n by (simp add: trig_new_keylist_size_def)
  then show ?thesis using pos n \<open>n \<noteq> 0\<close>
    by (simp add: trig_keylist_addkey_def ab slice_def memcpy_at_def trig_new_keylist_size_def
        kl_insert_def kl_entry_def a_def [symmetric] b_def [symmetric] Let_def)
qed

lemma takeWhile_remove1:
  "key \<in> set ks \<Longrightarrow> \<exists>ks2. ks = takeWhile (\<lambda>k. k \<noteq> key) ks @ key # ks2
     \<and> remove1 key ks = takeWhile (\<lambda>k. k \<noteq> key) ks @ ks2"
  by (induction ks) auto

lemma rmvkey_encode:
  assumes "kl_sorted ks" "key \<in> set ks" "n = length (kl_encode ks)"
    and "length dest = n - trig_new_keylist_size key"
  shows "trig_keylist_rmvkey dest l (kl_encode ks @ zs) n key
    = Some (TRIG_OK, n - trig_new_keylist_size key, kl_encode (remove1 key ks))"
proof -
  obtain ks2 where ks: "ks = takeWhile (\<lambda>k. k \<noteq> key) ks @ key # ks2"
    "remove1 key ks = takeWhile (\<lambda>k. k \<noteq> key) ks @ ks2" using takeWhile_remove1 [OF assms(2)] by blast
  define a where "a = kl_encode (takeWhile (\<lambda>k. k \<noteq> key) ks)"
  have e: "kl_encode ks = a @ kl_entry key @ kl_encode ks2" "kl_encode (remove1 key ks) = a @ kl_encode ks2"
    using arg_cong [OF ks(1), of kl_encode] ks(2) by (simp_all add: a_def)
  have pos: "trig_rmv_pos (a @ kl_entry key @ kl_encode ks2 @ zs) n key 0 = Some (length a)"
    using rmv_pos_encode [OF assms(1), of 0 "[]" n zs] assms(3) e by (simp add: a_def)
  have n: "n = length a + Suc (length key) + length (kl_encode ks2)"
    "length dest = length a + length (kl_encode ks2)"
    using assms(3,4) e by (simp_all add: trig_new_keylist_size_def)
  have "drop (length a + length key + 1) (a @ kl_entry key @ kl_encode ks2 @ zs) = kl_encode ks2 @ zs"
    by (simp add: kl_entry_def)
  then show ?thesis using pos n
    by (simp add: trig_keylist_rmvkey_def e slice_def memcpy_at_def trig_new_keylist_size_def)
qed

lemma next_entry:
  assumes "kl_sorted (k # ks)" "i = length xs" "n = length (xs @ kl_encode (k # ks))"
  shows "trig_keylist_next (xs @ kl_encode (k # ks) @ zs) n (Some i) =
    (case ks of [] \<Rightarrow> Some (TRIG_NOTFOUND, Some (i + (length k + 1)), [])
     | k' # ks' \<Rightarrow> Some (TRIG_OK, Some (i + (length k + 1)), k'))"
proof -
  have r: "rd8 (xs @ kl_encode (k # ks) @ zs) i = Some (length k)"
    using assms by (simp add: rd8_entry)
  show ?thesis
  proof (cases ks)
    case Nil
    then show ?thesis using assms r by (simp add: trig_keylist_next_def)
  next
    case (Cons k' ks')
    define ys where "ys = xs @ kl_entry k"
    have b: "xs @ kl_encode (k # ks) @ zs = ys @ kl_entry k' @ kl_encode ks' @ zs"
      "i + (length k + 1) = length ys"
      using assms(2) by (simp_all add: Cons ys_def)
    have "rd8 (ys @ kl_entry k' @ kl_encode ks' @ zs) (length ys) = Some (length k')"
      using assms(1) Cons by (intro rd8_entry) auto
    moreover have "slice (ys @ kl_entry k' @ kl_encode ks' @ zs) (length ys + 1) (length k') = Some k'"
      by (simp add: slice_def kl_entry_def)
    ultimately show ?thesis using r assms(3) unfolding b
      by (simp add: trig_keylist_next_def Cons ys_def [symmetric] b(2) [simplified] del: append_assoc)
        (use b(2) assms(2) in \<open>simp add: ys_def\<close>)
  qed
qed

lemma keys_from_entry:
  assumes "kl_sorted (k # ks)" "i = length xs" "n = length (xs @ kl_encode (k # ks))" "length ks < m"
  shows "trig_keys_from m (xs @ kl_encode (k # ks) @ zs) n (Some i) = Some ks"
  using assms
proof (induction ks arbitrary: k xs i m)
  case Nil
  then show ?case using next_entry [OF Nil(1-3), of zs] by (cases m) simp_all
next
  case (Cons k' ks)
  obtain m' where m: "m = Suc m'" "length ks < m'" using Cons.prems(4) by (cases m) auto
  have "trig_keys_from m' ((xs @ kl_entry k) @ kl_encode (k' # ks) @ zs) n (Some (i + (length k + 1))) = Some ks"
    using Cons.prems m(2) by (intro Cons.IH) auto
  then show ?case using next_entry [OF Cons.prems(1-3), of zs] by (simp add: m(1))
qed

lemma length_kl_encode_ge: "length ks \<le> length (kl_encode ks)"
  by (induction ks) simp_all

lemma trig_keys_encode:
  assumes "kl_sorted ks" "n = length (kl_encode ks)"
  shows "trig_keys (kl_encode ks @ zs) n = Some ks"
proof (cases ks)
  case Nil
  then show ?thesis using assms by (simp add: trig_keys_def trig_keylist_next_def)
next
  case (Cons k ks')
  have k: "length k < 256" using assms(1) Cons by simp
  have "trig_keylist_next (kl_encode ks @ zs) n None = Some (TRIG_OK, Some 0, k)"
    using assms(2) rd8_entry [of 0 "[]" k] k
    by (simp add: trig_keylist_next_def Cons) (simp add: slice_def kl_entry_def)
  moreover have "trig_keys_from n (kl_encode ks @ zs) n (Some 0) = Some ks'"
    using keys_from_entry [of k ks' 0 "[]" n n zs] assms length_kl_encode_ge [of ks'] Cons by simp
  ultimately show ?thesis by (simp add: trig_keys_def Cons)
qed

subsection \<open>Registration of keys in the value of an item\<close>

text \<open>The two ways the item layer updates a list that is the value of an item: a key is added
  into a new value of exactly the needed size when the check does not find it
  (\<open>_item_assoc_key_tid\<close> and its siblings), and removed into a smaller one when the check finds it
  (\<open>_item_remove_entry_from_list\<close>). \<open>dest\<close> is the uninitialised memory of the new value.\<close>

definition keylist_add :: "bytes \<Rightarrow> bytes \<Rightarrow> bytes \<Rightarrow> bytes option" where
  "keylist_add dest key data = do {
     st \<leftarrow> trig_check_keylist data (length data) key;
     if st = TRIG_NOTFOUND then do {
       r \<leftarrow> trig_keylist_addkey (take (length data + trig_new_keylist_size key) dest) 0 data (length data) key;
       Some (snd (snd r))
     } else Some data
   }"

definition keylist_remove :: "bytes \<Rightarrow> bytes \<Rightarrow> bytes \<Rightarrow> bytes option" where
  "keylist_remove dest key data = do {
     st \<leftarrow> trig_check_keylist data (length data) key;
     if st = TRIG_OK then do {
       r \<leftarrow> trig_keylist_rmvkey (take (length data - trig_new_keylist_size key) dest) 0 data (length data) key;
       Some (snd (snd r))
     } else Some data
   }"

definition keylist_member :: "bytes \<Rightarrow> bytes \<Rightarrow> bool option" where
  "keylist_member key data = map_option (\<lambda>st. st = TRIG_OK) (trig_check_keylist data (length data) key)"

definition keylist_keys :: "bytes \<Rightarrow> bytes list option" where
  "keylist_keys data = trig_keys data (length data)"

text \<open>A well-formed list, and the keys it holds.\<close>

definition kl_wf :: "bytes \<Rightarrow> bool" where
  "kl_wf data \<longleftrightarrow> (\<exists>ks. kl_sorted ks \<and> data = kl_encode ks)"

definition kl_set :: "bytes \<Rightarrow> bytes set" where
  "kl_set data = (case keylist_keys data of None \<Rightarrow> {} | Some ks \<Rightarrow> set ks)"

lemma keylist_keys_encode: "kl_sorted ks \<Longrightarrow> keylist_keys (kl_encode ks) = Some ks"
  using trig_keys_encode [of ks _ "[]"] by (simp add: keylist_keys_def)

lemma kl_set_encode: "kl_sorted ks \<Longrightarrow> kl_set (kl_encode ks) = set ks"
  by (simp add: kl_set_def keylist_keys_encode)

lemma keylist_member_encode: "kl_sorted ks \<Longrightarrow> keylist_member key (kl_encode ks) = Some (key \<in> set ks)"
  using trig_check_encode [of ks _ "[]" key] by (simp add: keylist_member_def)

lemma keylist_add_encode:
  assumes "kl_sorted ks" "length (kl_encode ks) + length key < length dest"
  shows "keylist_add dest key (kl_encode ks)
    = Some (kl_encode (if key \<in> set ks then ks else kl_insert key ks))"
  using assms trig_check_encode [of ks _ "[]" key]
    addkey_encode [of ks key _ "take (length (kl_encode ks) + trig_new_keylist_size key) dest" 0 "[]"]
  by (simp add: keylist_add_def trig_new_keylist_size_def)

lemma keylist_remove_encode:
  assumes "kl_sorted ks" "length (kl_encode ks) \<le> length dest"
  shows "keylist_remove dest key (kl_encode ks) = Some (kl_encode (remove1 key ks))"
  using assms trig_check_encode [of ks _ "[]" key]
    rmvkey_encode [of ks key _ "take (length (kl_encode ks) - trig_new_keylist_size key) dest" 0 "[]"]
  by (auto simp: keylist_remove_def trig_new_keylist_size_def remove1_idem)

lemma kl_sorted_remove1: "kl_sorted ks \<Longrightarrow> kl_sorted (remove1 key ks)"
  by (induction ks) (auto dest: subsetD [OF set_remove1_subset])

subsection \<open>Interface: a set of keys in a value\<close>

text \<open>What the item layer relies on. The size bound on \<open>dest\<close> is the room of the new value.\<close>

locale key_set =
  fixes inv :: "'v \<Rightarrow> bool" and elems :: "'v \<Rightarrow> 'k set" and valid :: "'k \<Rightarrow> bool" and empty :: 'v
    and fits :: "'m \<Rightarrow> 'k \<Rightarrow> 'v \<Rightarrow> bool"
    and add :: "'m \<Rightarrow> 'k \<Rightarrow> 'v \<Rightarrow> 'v option" and remove :: "'m \<Rightarrow> 'k \<Rightarrow> 'v \<Rightarrow> 'v option"
    and mem :: "'k \<Rightarrow> 'v \<Rightarrow> bool option" and enum :: "'v \<Rightarrow> 'k list option"
  assumes empty: "inv empty" "elems empty = {}"
    and add: "inv v \<Longrightarrow> valid k \<Longrightarrow> fits m k v \<Longrightarrow> \<exists>v'. add m k v = Some v' \<and> inv v' \<and> elems v' = insert k (elems v)"
    and remove: "inv v \<Longrightarrow> fits m k v \<Longrightarrow> \<exists>v'. remove m k v = Some v' \<and> inv v' \<and> elems v' = elems v - {k}"
    and mem: "inv v \<Longrightarrow> mem k v = Some (k \<in> elems v)"
    and enum: "inv v \<Longrightarrow> \<exists>ks. enum v = Some ks \<and> distinct ks \<and> set ks = elems v"
begin

lemma add_then_mem:
  assumes "inv v" "valid k" "fits m k v" "add m k v = Some v'"
  shows "mem j v' = Some (j = k \<or> j \<in> elems v)" "\<exists>ks. enum v' = Some ks \<and> distinct ks \<and> set ks = insert k (elems v)"
  using add [OF assms(1-3)] assms(4) mem [of v' j] enum [of v'] by auto

lemma remove_then_mem:
  assumes "inv v" "fits m k v" "remove m k v = Some v'"
  shows "mem j v' = Some (j \<noteq> k \<and> j \<in> elems v)" "\<exists>ks. enum v' = Some ks \<and> distinct ks \<and> set ks = elems v - {k}"
  using remove [OF assms(1,2)] assms(3) mem [of v' j] enum [of v'] by auto

end

definition kl_fits :: "bytes \<Rightarrow> bytes \<Rightarrow> bytes \<Rightarrow> bool" where
  "kl_fits dest key data \<longleftrightarrow> length data + length key < length dest"

interpretation keylist: key_set kl_wf kl_set "\<lambda>k. length k < 256" "[]" kl_fits
    keylist_add keylist_remove keylist_member keylist_keys
proof (unfold_locales, goal_cases)
  case 1
  show ?case unfolding kl_wf_def by (rule exI [of _ "[]"]) simp
next
  case 2
  show ?case using kl_set_encode [of "[]"] by simp
next
  case (3 v k m)
  then obtain ks where "kl_sorted ks" "v = kl_encode ks" by (auto simp: kl_wf_def)
  then show ?case using 3 keylist_add_encode [of ks k m] kl_sorted_insert [of ks k]
    by (auto simp: kl_fits_def kl_wf_def kl_set_encode insert_absorb)
next
  case (4 v m k)
  then obtain ks where "kl_sorted ks" "v = kl_encode ks" by (auto simp: kl_wf_def)
  then show ?case using 4 keylist_remove_encode [of ks m k] kl_sorted_remove1 [of ks k] kl_sorted_distinct [of ks]
    by (auto simp: kl_fits_def kl_wf_def kl_set_encode)
next
  case (5 v k)
  then show ?case by (auto simp: kl_wf_def keylist_member_encode kl_set_encode)
next
  case (6 v)
  then show ?case by (auto simp: kl_wf_def keylist_keys_encode kl_set_encode kl_sorted_distinct)
qed

lemma size_loop_encode:
  assumes "kl_sorted ks" "i = length xs" "n = length (xs @ kl_encode ks)"
  shows "trig_size_loop (xs @ kl_encode ks @ zs) n i c = Some (c + length ks)"
  using assms
proof (induction ks arbitrary: xs i c)
  case Nil
  then show ?case by (simp add: trig_size_loop.simps)
next
  case (Cons k ks)
  have "trig_size_loop ((xs @ kl_entry k) @ kl_encode ks @ zs) n (i + 1 + length k) (c + 1)
      = Some (c + 1 + length ks)"
    using Cons by (intro Cons.IH) auto
  then show ?case
    using Cons.prems rd8_entry [of i xs k "kl_encode ks @ zs"] by (subst trig_size_loop.simps) auto
qed

lemma trig_size_encode:
  "kl_sorted ks \<Longrightarrow> trig_size_keylist (kl_encode ks) (length (kl_encode ks)) = Some (length ks)"
  using size_loop_encode [of ks 0 "[]" _ "[]" 0] by (auto simp: trig_size_keylist_def)

lemma trig_size_kl_set: "kl_wf v \<Longrightarrow> trig_size_keylist v (length v) = Some (card (kl_set v))"
  by (auto simp: kl_wf_def trig_size_encode kl_set_encode kl_sorted_distinct distinct_card)

subsection \<open>Properties\<close>

text \<open>A history of a list: keys registered and removed one at a time, each time into a new value
  of the needed size whose memory holds an arbitrary byte \<open>c\<close>.\<close>

datatype kl_op = KAdd bytes | KRemove bytes

fun keylist_run :: "char \<Rightarrow> kl_op list \<Rightarrow> bytes \<Rightarrow> bytes option" where
  "keylist_run c [] v = Some v"
| "keylist_run c (KAdd k # ops) v =
    (case keylist_add (replicate (length v + trig_new_keylist_size k) c) k v of
       None \<Rightarrow> None | Some v' \<Rightarrow> keylist_run c ops v')"
| "keylist_run c (KRemove k # ops) v =
    (case keylist_remove (replicate (length v + trig_new_keylist_size k) c) k v of
       None \<Rightarrow> None | Some v' \<Rightarrow> keylist_run c ops v')"

fun kl_spec :: "kl_op list \<Rightarrow> bytes set \<Rightarrow> bytes set" where
  "kl_spec [] S = S"
| "kl_spec (KAdd k # ops) S = kl_spec ops (insert k S)"
| "kl_spec (KRemove k # ops) S = kl_spec ops (S - {k})"

definition kl_op_ok :: "kl_op \<Rightarrow> bool" where
  "kl_op_ok op = (case op of KAdd k \<Rightarrow> length k < 256 | KRemove k \<Rightarrow> True)"

lemma keylist_run_inv:
  assumes "kl_wf v" "list_all kl_op_ok ops"
  shows "\<exists>v'. keylist_run c ops v = Some v' \<and> kl_wf v' \<and> kl_set v' = kl_spec ops (kl_set v)"
  using assms
proof (induction ops arbitrary: v)
  case (Cons op ops)
  show ?case
  proof (cases op)
    case (KAdd k)
    then obtain v' where "keylist_add (replicate (length v + trig_new_keylist_size k) c) k v = Some v'"
      "kl_wf v'" "kl_set v' = insert k (kl_set v)"
      using keylist.add [of v k "replicate (length v + trig_new_keylist_size k) c"] Cons.prems
      by (auto simp: kl_fits_def trig_new_keylist_size_def kl_op_ok_def)
    then show ?thesis using Cons.IH [of v'] Cons.prems KAdd by simp
  next
    case (KRemove k)
    then obtain v' where "keylist_remove (replicate (length v + trig_new_keylist_size k) c) k v = Some v'"
      "kl_wf v'" "kl_set v' = kl_set v - {k}"
      using keylist.remove [of v "replicate (length v + trig_new_keylist_size k) c" k] Cons.prems
      by (auto simp: kl_fits_def trig_new_keylist_size_def)
    then show ?thesis using Cons.IH [of v'] Cons.prems KRemove by simp
  qed
qed simp

text \<open>C19: whatever keys are registered in and removed from the value of a lease, transaction or
  session item, no access leaves the buffers, the loop over the list visits each registered key
  exactly once and no other, the membership test answers exactly for them, and the size is their
  number.\<close>

theorem keylist_history:
  assumes "list_all kl_op_ok ops"
  shows "\<exists>v ks. keylist_run c ops [] = Some v \<and> keylist_keys v = Some ks \<and> distinct ks
    \<and> set ks = kl_spec ops {} \<and> keylist_member key v = Some (key \<in> kl_spec ops {})
    \<and> trig_size_keylist v (length v) = Some (card (kl_spec ops {}))"
proof -
  obtain v where "keylist_run c ops [] = Some v" "kl_wf v" "kl_set v = kl_spec ops {}"
    using keylist_run_inv [OF keylist.empty(1) assms, of c] keylist.empty(2) by auto
  then show ?thesis
    using keylist.enum [of v] keylist.mem [of v key] trig_size_kl_set [of v] by auto
qed

theorem keylist_history_witness:
  "\<exists>v ks. keylist_run CHR ''x'' [KAdd ''b'', KAdd ''ab'', KAdd ''c'', KRemove ''b''] [] = Some v
    \<and> keylist_keys v = Some ks \<and> distinct ks \<and> set ks = {''ab'', ''c''}
    \<and> keylist_member ''c'' v = Some True \<and> trig_size_keylist v (length v) = Some 2"
  using keylist_history [of "[KAdd ''b'', KAdd ''ab'', KAdd ''c'', KRemove ''b'']" "CHR ''x''" "''c''"]
  by (simp add: kl_op_ok_def insert_Diff_if insert_commute numeral_2_eq_2)

end
