(* ===== verification/MC_State.thy ===== *)
theory MC_State
  imports MC_Assoc MC_Util MC_Time MC_Lease MC_Keylist
begin

text \<open>
  The state of the cache: item headers and payloads (\<open>struct item\<close> of \<open>mc_items.h\<close>), slabs and
  slab classes (\<open>mc_slabs.h\<close>), the queues, the hash table, the counters and the settings the
  cache reads, and the inline accessors of \<open>mc_items.h\<close>.

  An item pointer is its slab and its index in the slab; a slab is named by the order of its
  allocation. The bits of the \<open>flags\<close> and \<open>coflags\<close> bytes are sets of the enumerators. The
  payload \<open>it_end\<close> holds the bytes of the chunk after the header. Statistics, logging, the
  constant magic numbers and the mutexes have no counterpart: no control flow depends on
  them, and every operation runs under \<open>cache_lock\<close>.
\<close>

type_synonym ptr = "nat \<times> nat"

datatype item_flag = ITEM_LINKED | ITEM_CAS | ITEM_SLABBED | ITEM_RALIGN | ITEM_I_LEASE
  | ITEM_Q_INV_LEASE | ITEM_Q_REF_LEASE | ITEM_Q_INC_LEASE

datatype item_coflag = C_LEASE | O_LEASE_INV | PTRANS | HK | SESS | O_LEASE_REF

datatype evict_flag = EVICT_LRU | EVICT_RS | EVICT_AS | EVICT_CS

datatype sess_state = ALIVE | ABORT

datatype req_type = REQ_UNKNOWN | REQ_IQSET | REQ_SET | REQ_ADD | REQ_REPLACE | REQ_APPEND
  | REQ_PREPEND | REQ_CAS | REQ_IQGET | REQ_GET | REQ_GETS | REQ_INCR | REQ_DECR | REQ_DELETE
  | REQ_QUIT | REQ_STATS | REQ_CONFIG | REQ_VERSION | REQ_FLUSHALL | REQ_VERBOSITY | REQ_UNLEASE
  | REQ_QAREG | REQ_DAR | REQ_QAREAD | REQ_SAR | REQ_IQAPPEND | REQ_IQPREPEND | REQ_IQINCR
  | REQ_IQDECR | REQ_COMMIT | REQ_RELEASE | REQ_CIGET | REQ_COUNLEASE | REQ_OQREG | REQ_DCOMMIT
  | REQ_CHECK | REQ_FTRANS | REQ_GETPRIK | REQ_OQREAD | REQ_OQSWAP | REQ_SWAP | REQ_VALIDATE
  | REQ_OQAPPEND | REQ_OQPREPEND | REQ_OQINCR | REQ_OQDECR | REQ_OQWRITE | REQ_UPDATECONFIG
  | REQ_ISET

datatype item_store_result = NOT_STORED | STORED | EXISTS | NOT_FOUND | STORE_ERROR

datatype item_iq_result = IQ_VALUE | IQ_NO_VALUE | IQ_LEASE | IQ_LEASE_NO_VALUE | IQ_NO_LEASE
  | IQ_ABORT | IQ_MISS | IQ_CLIENT_ERROR | IQ_SERVER_ERROR | IQ_OK | IQ_NOT_FOUND

datatype item_co_result = CO_OK | CO_ABORT | CO_NOT_FOUND | CO_INVALID | CO_RETRY | CO_NOVALUE

datatype item_delta_result = DELTA_OK | DELTA_NON_NUMERIC | DELTA_EOM | DELTA_NOT_FOUND

record item =
  it_atime :: u32
  it_exptime :: u32
  it_nbyte :: nat
  it_offset :: nat
  it_dataflags :: u32
  it_refcount :: u16
  it_flags :: "item_flag set"
  it_coflags :: "item_coflag set"
  it_p :: u8
  it_id :: nat
  it_nkey :: nat
  it_sess_status :: sess_state
  it_config_number :: int
  it_end :: bytes

record slab =
  sl_id :: nat
  sl_refcount :: u16
  sl_utime :: u32

record slabclass =
  sc_nitem :: nat
  sc_size :: nat
  sc_nfree_itemq :: nat
  sc_free_itemq :: "ptr list"
  sc_nfree_item :: nat
  sc_free_item :: "ptr option"

record slab_heapinfo =
  hi_nslab :: nat
  hi_max_nslab :: nat
  hi_slab_table :: "nat list"
  hi_slab_lruq :: "nat list"

record settings =
  set_use_cas :: bool
  set_use_freeq :: bool
  set_use_lruq :: bool
  set_evict_opt :: "evict_flag set"
  set_prealloc :: bool
  set_slab_size :: nat
  set_maxbytes :: nat
  set_reserved_percentage :: nat
  set_reserved_maxbytes :: nat
  set_hash_power :: nat
  set_profile :: "nat list"
  set_lease_token_expiry :: nat
  set_oldest_live :: u32

text \<open>The last three fields are the environment: the outcome of each \<open>mc_alloc\<close> and of each
  \<open>rand\<close>, read in order.\<close>

record mc =
  st_settings :: settings
  st_time :: time_st
  st_heap :: "ptr \<Rightarrow> item"
  st_slabs :: "nat \<Rightarrow> slab"
  st_slabclass :: "nat \<Rightarrow> slabclass"
  st_reserved_slabclass :: "nat \<Rightarrow> slabclass"
  st_slabclass_max_id :: nat
  st_heapinfo :: slab_heapinfo
  st_reserved_heapinfo :: slab_heapinfo
  st_next_slab :: nat
  st_item_lruq :: "nat \<Rightarrow> ptr list"
  st_reserved_item_lruq :: "nat \<Rightarrow> ptr list"
  st_assoc :: "ptr assoc_st"
  st_cas_id :: u64
  st_lease_current_token :: u64
  st_malloc_ok :: "nat \<Rightarrow> bool"
  st_rand :: "nat \<Rightarrow> nat"
  st_env_pos :: nat

definition SLABCLASS_MIN_ID :: nat where "SLABCLASS_MIN_ID = 1"
definition SLABCLASS_MAX_ID :: nat where "SLABCLASS_MAX_ID = 254"
definition SLABCLASS_INVALID_ID :: nat where "SLABCLASS_INVALID_ID = 255"
definition ITEM_HDR_SIZE :: nat where "ITEM_HDR_SIZE = 64"
definition SLAB_HDR_SIZE :: nat where "SLAB_HDR_SIZE = 32"
definition CRLF_LEN :: nat where "CRLF_LEN = 2"
definition KEY_MAX_LEN :: nat where "KEY_MAX_LEN = 250"

subsection \<open>Header predicates\<close>

definition item_has_cas :: "item \<Rightarrow> bool" where "item_has_cas it \<longleftrightarrow> ITEM_CAS \<in> it_flags it"
definition item_is_linked :: "item \<Rightarrow> bool" where "item_is_linked it \<longleftrightarrow> ITEM_LINKED \<in> it_flags it"
definition item_is_slabbed :: "item \<Rightarrow> bool" where "item_is_slabbed it \<longleftrightarrow> ITEM_SLABBED \<in> it_flags it"
definition item_is_raligned :: "item \<Rightarrow> bool" where "item_is_raligned it \<longleftrightarrow> ITEM_RALIGN \<in> it_flags it"

definition item_has_co_lease :: "item \<Rightarrow> bool" where
  "item_has_co_lease it \<longleftrightarrow>
    C_LEASE \<in> it_coflags it \<or> O_LEASE_INV \<in> it_coflags it \<or> O_LEASE_REF \<in> it_coflags it"

definition item_has_c_lease :: "item \<Rightarrow> bool" where "item_has_c_lease it \<longleftrightarrow> C_LEASE \<in> it_coflags it"

definition item_has_o_lease :: "item \<Rightarrow> bool" where
  "item_has_o_lease it \<longleftrightarrow> O_LEASE_INV \<in> it_coflags it \<or> O_LEASE_REF \<in> it_coflags it"

definition item_has_o_lease_inv :: "item \<Rightarrow> bool" where
  "item_has_o_lease_inv it \<longleftrightarrow> O_LEASE_INV \<in> it_coflags it"

definition item_has_o_lease_ref :: "item \<Rightarrow> bool" where
  "item_has_o_lease_ref it \<longleftrightarrow> O_LEASE_REF \<in> it_coflags it"

definition item_has_i_lease :: "item \<Rightarrow> bool" where
  "item_has_i_lease it \<longleftrightarrow> ITEM_I_LEASE \<in> it_flags it"

definition item_has_q_ref_lease :: "item \<Rightarrow> bool" where
  "item_has_q_ref_lease it \<longleftrightarrow> ITEM_Q_REF_LEASE \<in> it_flags it"

definition item_has_q_incr_lease :: "item \<Rightarrow> bool" where
  "item_has_q_incr_lease it \<longleftrightarrow> ITEM_Q_INC_LEASE \<in> it_flags it"

definition item_has_q_inv_lease :: "item \<Rightarrow> bool" where
  "item_has_q_inv_lease it \<longleftrightarrow> ITEM_Q_INV_LEASE \<in> it_flags it"

definition item_is_sess :: "item \<Rightarrow> bool" where "item_is_sess it \<longleftrightarrow> SESS \<in> it_coflags it"

definition item_is_lease_holder :: "item \<Rightarrow> bool" where
  "item_is_lease_holder it \<longleftrightarrow> ITEM_I_LEASE \<in> it_flags it \<or> ITEM_Q_INV_LEASE \<in> it_flags it
     \<or> ITEM_Q_REF_LEASE \<in> it_flags it \<or> ITEM_Q_INC_LEASE \<in> it_flags it"

definition item_is_ptrans :: "item \<Rightarrow> bool" where "item_is_ptrans it \<longleftrightarrow> PTRANS \<in> it_coflags it"
definition item_is_hotkeys :: "item \<Rightarrow> bool" where "item_is_hotkeys it \<longleftrightarrow> HK \<in> it_coflags it"

definition item_is_co_lease_holder :: "item \<Rightarrow> bool" where
  "item_is_co_lease_holder it \<longleftrightarrow> item_has_co_lease it"

definition item_has_q_lease :: "item \<Rightarrow> bool" where
  "item_has_q_lease it \<longleftrightarrow> ITEM_Q_INV_LEASE \<in> it_flags it
     \<or> ITEM_Q_REF_LEASE \<in> it_flags it \<or> ITEM_Q_INC_LEASE \<in> it_flags it"

lemmas item_flag_defs [mc_defs] = item_has_cas_def item_is_linked_def item_is_slabbed_def
  item_is_raligned_def item_has_co_lease_def item_has_c_lease_def item_has_o_lease_def
  item_has_o_lease_inv_def item_has_o_lease_ref_def item_has_i_lease_def item_has_q_ref_lease_def
  item_has_q_incr_lease_def item_has_q_inv_lease_def item_is_sess_def item_is_lease_holder_def
  item_is_ptrans_def item_is_hotkeys_def item_is_co_lease_holder_def item_has_q_lease_def

subsection \<open>Payload\<close>

text \<open>A 64-bit number as its eight bytes in memory, little-endian.\<close>

fun le_bytes :: "nat \<Rightarrow> nat \<Rightarrow> bytes" where
  "le_bytes 0 n = []"
| "le_bytes (Suc w) n = char_of (n mod 256) # le_bytes w (n div 256)"

fun le_nat :: "bytes \<Rightarrow> nat" where
  "le_nat [] = 0"
| "le_nat (c # cs) = byte_nat c + 256 * le_nat cs"

definition item_cas :: "item \<Rightarrow> u64" where
  "item_cas it = (if item_has_cas it then of_nat (le_nat (take 8 (it_end it))) else 0)"

definition item_set_cas :: "u64 \<Rightarrow> item \<Rightarrow> item" where
  "item_set_cas cas it =
    (if item_has_cas it then it\<lparr>it_end := le_bytes 8 (unat cas) @ drop 8 (it_end it)\<rparr> else it)"

definition item_key_off :: "item \<Rightarrow> nat" where
  "item_key_off it = (if item_has_cas it then 8 else 0)"

definition item_key :: "item \<Rightarrow> bytes" where
  "item_key it = take (it_nkey it) (drop (item_key_off it) (it_end it))"

text \<open>The offset of the value in the payload; \<open>sz\<close> is \<open>slab_item_size(it->id)\<close>.\<close>

definition item_data_off :: "nat \<Rightarrow> item \<Rightarrow> nat" where
  "item_data_off sz it =
    (if item_is_raligned it then sz - ITEM_HDR_SIZE - it_nbyte it
     else it_nkey it + 1 + (if item_has_cas it then 8 else 0))"

definition item_ntotal :: "nat \<Rightarrow> nat \<Rightarrow> bool \<Rightarrow> nat" where
  "item_ntotal nkey nbyte use_cas =
    (if use_cas then 8 else 0) + (ITEM_HDR_SIZE + nkey + 1 + nbyte + CRLF_LEN)"

definition item_size :: "item \<Rightarrow> nat" where
  "item_size it = item_ntotal (it_nkey it) (it_nbyte it) (item_has_cas it)"

subsection \<open>Access to the state\<close>

abbreviation heap_at :: "mc \<Rightarrow> ptr \<Rightarrow> item" where
  "heap_at st p \<equiv> st_heap st p"

definition upd_item :: "ptr \<Rightarrow> (item \<Rightarrow> item) \<Rightarrow> mc \<Rightarrow> mc" where
  "upd_item p f st = st\<lparr>st_heap := (st_heap st)(p := f (st_heap st p))\<rparr>"

definition upd_slab :: "nat \<Rightarrow> (slab \<Rightarrow> slab) \<Rightarrow> mc \<Rightarrow> mc" where
  "upd_slab sl f st = st\<lparr>st_slabs := (st_slabs st)(sl := f (st_slabs st sl))\<rparr>"

text \<open>The pointers \<open>target_slabclass\<close> and \<open>target_heapinfo\<close> the slab functions take select the
  normal or the reserved pool.\<close>

definition slabclass_of :: "bool \<Rightarrow> mc \<Rightarrow> nat \<Rightarrow> slabclass" where
  "slabclass_of res st = (if res then st_reserved_slabclass st else st_slabclass st)"

definition upd_class :: "bool \<Rightarrow> nat \<Rightarrow> (slabclass \<Rightarrow> slabclass) \<Rightarrow> mc \<Rightarrow> mc" where
  "upd_class res cid f st =
    (if res then st\<lparr>st_reserved_slabclass := (st_reserved_slabclass st)(cid := f (st_reserved_slabclass st cid))\<rparr>
     else st\<lparr>st_slabclass := (st_slabclass st)(cid := f (st_slabclass st cid))\<rparr>)"

definition heapinfo_of :: "bool \<Rightarrow> mc \<Rightarrow> slab_heapinfo" where
  "heapinfo_of res st = (if res then st_reserved_heapinfo st else st_heapinfo st)"

definition upd_heapinfo :: "bool \<Rightarrow> (slab_heapinfo \<Rightarrow> slab_heapinfo) \<Rightarrow> mc \<Rightarrow> mc" where
  "upd_heapinfo res f st =
    (if res then st\<lparr>st_reserved_heapinfo := f (st_reserved_heapinfo st)\<rparr>
     else st\<lparr>st_heapinfo := f (st_heapinfo st)\<rparr>)"

definition lruq_of :: "bool \<Rightarrow> mc \<Rightarrow> nat \<Rightarrow> ptr list" where
  "lruq_of res st = (if res then st_reserved_item_lruq st else st_item_lruq st)"

definition upd_lruq :: "bool \<Rightarrow> nat \<Rightarrow> ptr list \<Rightarrow> mc \<Rightarrow> mc" where
  "upd_lruq res cid q st =
    (if res then st\<lparr>st_reserved_item_lruq := (st_reserved_item_lruq st)(cid := q)\<rparr>
     else st\<lparr>st_item_lruq := (st_item_lruq st)(cid := q)\<rparr>)"

definition st_now :: "mc \<Rightarrow> u32" where
  "st_now st = time_now (st_time st)"

definition key_at :: "mc \<Rightarrow> ptr \<Rightarrow> bytes" where
  "key_at st p = item_key (st_heap st p)"

definition slab_item_size :: "nat \<Rightarrow> mc \<Rightarrow> nat" where
  "slab_item_size cid st = sc_size (st_slabclass st cid)"

text \<open>\<open>item_data(it)\<close>: the bytes from the value to the end of the chunk, and the value itself.\<close>

definition item_data :: "ptr \<Rightarrow> mc \<Rightarrow> bytes" where
  "item_data p st = (let it = heap_at st p in
     drop (item_data_off (slab_item_size (it_id it) st) it) (it_end it))"

definition item_value :: "ptr \<Rightarrow> mc \<Rightarrow> bytes" where
  "item_value p st = take (it_nbyte (heap_at st p)) (item_data p st)"

text \<open>\<open>memcpy(item_data(it) + off, bs, ...)\<close>; a write past the chunk is a fault.\<close>

definition item_memcpy :: "ptr \<Rightarrow> nat \<Rightarrow> bytes \<Rightarrow> mc \<Rightarrow> mc option" where
  "item_memcpy p off bs st = (let it = heap_at st p in
     case memcpy_at (it_end it) (item_data_off (slab_item_size (it_id it) st) it + off) bs of
       None \<Rightarrow> None
     | Some e \<Rightarrow> Some (upd_item p (\<lambda>it. it\<lparr>it_end := e\<rparr>) st))"

end
