(* ===== verification/MC_Klog.thy ===== *)
theory MC_Klog
  imports MC_State
begin

text \<open>
  The command logger, \<open>mc_klog.c\<close>: a ring buffer per worker, which the worker fills and the collector
  thread drains into a file. Worker and collector share the buffer without a lock: the worker
  alone moves \<open>w_idx\<close>, the collector alone moves \<open>r_idx\<close> and works on a snapshot of \<open>w_idx\<close>.

  The formatted time is an input of the model (\<open>None\<close> where \<open>strftime\<close> returns zero), and so are the
  results of the \<open>write\<close> system calls. \<open>None\<close> as the result of an operation is a fault: a division by a
  sampling rate of zero or a copy outside the buffer.
\<close>

definition KLOG_ENTRY_SIZE :: nat where "KLOG_ENTRY_SIZE = 384"
definition KLOG_MAX_SIZE :: int where "KLOG_MAX_SIZE = 2 ^ 30"

text \<open>\<open>_scnprintf\<close>: the buffer gets the text, cut to the size and terminated, and the result is the
  length of the text in the buffer.\<close>

definition scnprintf :: "nat \<Rightarrow> bytes \<Rightarrow> bytes \<times> nat" where
  "scnprintf sz str = (take (sz - 1) str @ [CHR 0x00], if length str < sz then length str else sz - 1)"

record kbuf =
  kb_r_idx :: nat
  kb_w_idx :: nat
  kb_entries :: nat
  kb_errors :: nat
  kb_buf :: bytes
  kb_size :: nat

record klog_st =
  kl_running :: bool
  kl_open :: bool
  kl_kfs :: int
  kl_file :: bytes

definition klog_enabled :: "klog_st \<Rightarrow> bool" where
  "klog_enabled g \<longleftrightarrow> kl_running g"

definition CIRCULAR_INCR :: "nat \<Rightarrow> nat \<Rightarrow> nat \<Rightarrow> nat" where
  "CIRCULAR_INCR i d s = (i + d) mod s"

definition klog_remain :: "kbuf \<Rightarrow> int" where
  "klog_remain kb =
    (let remain = int (kb_r_idx kb) - int (kb_w_idx kb);
         remain = (if remain \<le> 0 then remain + int (kb_size kb) else remain)
     in remain - 1)"

text \<open>The memory \<open>malloc\<close> returns is unspecified, here zero bytes.\<close>

definition klog_buf_create :: "nat \<Rightarrow> bool \<Rightarrow> kbuf option" where
  "klog_buf_create klog_entry ok =
    (let size = KLOG_ENTRY_SIZE * klog_entry in
     if \<not> ok then None
     else Some \<lparr>kb_r_idx = 0, kb_w_idx = 0, kb_entries = 0, kb_errors = 0,
       kb_buf = replicate size (CHR 0x00), kb_size = size\<rparr>)"

subsection \<open>Writing\<close>

definition klog_text :: "req_type \<Rightarrow> bytes \<Rightarrow> bytes \<Rightarrow> bytes \<Rightarrow> int \<Rightarrow> int \<Rightarrow> bytes" where
  "klog_text rtype peer ts cmdkey status res_len =
    peer @ '' - ['' @ ts @ ''] '' @ [CHR 0x22]
    @ (case rtype of REQ_IQGET \<Rightarrow> ''get '' | REQ_GETS \<Rightarrow> ''gets '' | _ \<Rightarrow> [])
    @ cmdkey @ [CHR 0x22] @ '' '' @ dec_int status @ '' '' @ dec_int res_len @ [CHR 0x0A]"

definition klog_fmt :: "kbuf \<Rightarrow> req_type \<Rightarrow> bytes \<Rightarrow> bytes option \<Rightarrow> bytes \<Rightarrow> int \<Rightarrow> int \<Rightarrow> bytes \<times> nat \<times> kbuf" where
  "klog_fmt kb rtype peer timestr cmdkey status res_len =
    (case timestr of
       None \<Rightarrow> ([], 0, kb\<lparr>kb_errors := kb_errors kb + 1\<rparr>)
     | Some ts \<Rightarrow>
         (let (msg, len) = scnprintf KLOG_ENTRY_SIZE (klog_text rtype peer ts cmdkey status res_len) in
          if len \<ge> KLOG_ENTRY_SIZE then (msg, 0, kb\<lparr>kb_errors := kb_errors kb + 1\<rparr>)
          else (msg, len, kb)))"

text \<open>The three ways the text gets into the buffer; \<open>msg\<close> ends with the terminator.\<close>

definition klog_store :: "bytes \<Rightarrow> nat \<Rightarrow> kbuf \<Rightarrow> bytes option" where
  "klog_store msg ret kb =
    (let remain = kb_size kb - kb_w_idx kb in
     if remain < KLOG_ENTRY_SIZE then
       (if ret > remain then do {
          buf \<leftarrow> memcpy_at (kb_buf kb) (kb_w_idx kb) (take remain msg);
          memcpy_at buf 0 (take (ret - remain) (drop remain msg))
        } else memcpy_at (kb_buf kb) (kb_w_idx kb) (take ret msg))
     else memcpy_at (kb_buf kb) (kb_w_idx kb) msg)"

text \<open>\<open>_klog_write\<close> in two halves, between which the collector may run: everything before the write index
  is moved, with the number \<open>ret\<close> of bytes to publish (0 on the early returns), and the move.\<close>

definition klog_compose :: "klog_st \<Rightarrow> nat \<Rightarrow> req_type \<Rightarrow> bytes \<Rightarrow> bytes option \<Rightarrow> bytes \<Rightarrow> int \<Rightarrow> int \<Rightarrow> kbuf \<Rightarrow> (nat \<times> kbuf) option" where
  "klog_compose g rate rtype peer timestr cmdkey status res_len kb =
    (if \<not> klog_enabled g then Some (0, kb)
     else if rate = 0 then None
     else let kb = kb\<lparr>kb_entries := kb_entries kb + 1\<rparr> in
       if kb_entries kb mod rate \<noteq> 0 then Some (0, kb)
       else let kb = kb\<lparr>kb_entries := 0\<rparr> in
         if klog_remain kb < int KLOG_ENTRY_SIZE then Some (0, kb)
         else do {
           let (msg, ret, kb) = klog_fmt kb rtype peer timestr cmdkey status res_len;
           buf \<leftarrow> klog_store msg ret kb;
           Some (ret, kb\<lparr>kb_buf := buf\<rparr>)
         })"

definition klog_publish :: "nat \<Rightarrow> kbuf \<Rightarrow> kbuf" where
  "klog_publish ret kb = (if ret > 0 then kb\<lparr>kb_w_idx := CIRCULAR_INCR (kb_w_idx kb) ret (kb_size kb)\<rparr> else kb)"

definition klog_write :: "klog_st \<Rightarrow> nat \<Rightarrow> req_type \<Rightarrow> bytes \<Rightarrow> bytes option \<Rightarrow> bytes \<Rightarrow> int \<Rightarrow> int \<Rightarrow> kbuf \<Rightarrow> kbuf option" where
  "klog_write g rate rtype peer timestr cmdkey status res_len kb = do {
     (ret, kb) \<leftarrow> klog_compose g rate rtype peer timestr cmdkey status res_len kb;
     Some (klog_publish ret kb)
   }"

subsection \<open>Reading\<close>

text \<open>The results of the calls of \<open>mc_write\<close>, \<open>n1\<close> and \<open>n2\<close>, and of \<open>open\<close> in \<open>klog_reopen\<close>; what is written
  of a call is a prefix of its bytes. The snapshot is the pair \<open>(w_idx, r_idx)\<close> of local copies.\<close>

definition klog_reopen :: "bool \<Rightarrow> klog_st \<Rightarrow> klog_st" where
  "klog_reopen open_ok g =
    (if \<not> kl_open g then g
     else if open_ok then g\<lparr>kl_open := True\<rparr> else g\<lparr>kl_open := False, kl_running := False\<rparr>)"

definition klog_emit :: "int \<Rightarrow> bytes \<Rightarrow> klog_st \<Rightarrow> klog_st" where
  "klog_emit n bs g = g\<lparr>kl_file := kl_file g @ take (nat n) bs\<rparr>"

definition klog_read_error :: "kbuf \<Rightarrow> klog_st \<Rightarrow> int \<times> kbuf \<times> klog_st" where
  "klog_read_error kb g = (0, kb\<lparr>kb_errors := kb_errors kb + 1\<rparr>, g)"

definition klog_read_done :: "nat \<Rightarrow> int \<Rightarrow> bool \<Rightarrow> kbuf \<Rightarrow> klog_st \<Rightarrow> int \<times> kbuf \<times> klog_st" where
  "klog_read_done r_idx ret open_ok kb g =
    (let kb = (if ret > 0 then kb\<lparr>kb_r_idx := CIRCULAR_INCR r_idx (nat ret) (kb_size kb)\<rparr> else kb);
         g = g\<lparr>kl_kfs := kl_kfs g + ret\<rparr>;
         g = (if kl_kfs g > KLOG_MAX_SIZE then (klog_reopen open_ok g)\<lparr>kl_kfs := 0\<rparr> else g)
     in (ret, kb, g))"

definition klog_read :: "nat \<times> nat \<Rightarrow> int \<Rightarrow> int \<Rightarrow> bool \<Rightarrow> kbuf \<Rightarrow> klog_st \<Rightarrow> int \<times> kbuf \<times> klog_st" where
  "klog_read snap n1 n2 open_ok kb g =
    (let (w_idx, r_idx) = snap; buf = kb_buf kb in
     if r_idx \<le> w_idx then
       (if r_idx < w_idx then
          (if n1 < 0 then klog_read_error kb g
           else klog_read_done r_idx n1 open_ok kb (klog_emit n1 (take (w_idx - r_idx) (drop r_idx buf)) g))
        else klog_read_done r_idx 0 open_ok kb g)
     else if n1 < 0 then klog_read_error kb g
     else (let g = klog_emit n1 (drop r_idx buf) g in
           if n1 = int (kb_size kb - r_idx) then
             (if n2 < 0 then klog_read_error kb g
              else klog_read_done r_idx (n1 + n2) open_ok kb (klog_emit n2 (take w_idx buf) g))
           else klog_read_done r_idx n1 open_ok kb g))"

text \<open>One round of the collector over the buffers of the workers, with the results of the system calls
  for each of them. Here no worker writes between the snapshot and the end of a read.\<close>

fun klog_collect_loop :: "(int \<times> int \<times> bool) list \<Rightarrow> kbuf list \<Rightarrow> klog_st \<Rightarrow> int \<times> kbuf list \<times> klog_st" where
  "klog_collect_loop ((n1, n2, ok) # rs) (kb # kbs) g =
    (let (n, kb, g) = klog_read (kb_w_idx kb, kb_r_idx kb) n1 n2 ok kb g;
         (sum, kbs, g) = klog_collect_loop rs kbs g
     in (n + sum, kb # kbs, g))"
| "klog_collect_loop _ kbs g = (0, kbs, g)"

definition klog_collect :: "(int \<times> int \<times> bool) list \<Rightarrow> kbuf list \<Rightarrow> klog_st \<Rightarrow> kbuf list \<times> klog_st" where
  "klog_collect rs kbs g = (if \<not> klog_enabled g then (kbs, g) else snd (klog_collect_loop rs kbs g))"

subsection \<open>The ring as a queue of bytes\<close>

definition kb_ok :: "kbuf \<Rightarrow> bool" where
  "kb_ok kb \<longleftrightarrow> length (kb_buf kb) = kb_size kb \<and> kb_r_idx kb < kb_size kb \<and> kb_w_idx kb < kb_size kb"

definition used :: "kbuf \<Rightarrow> nat" where
  "used kb = (kb_w_idx kb + kb_size kb - kb_r_idx kb) mod kb_size kb"

definition content :: "kbuf \<Rightarrow> bytes" where
  "content kb = map (\<lambda>i. kb_buf kb ! ((kb_r_idx kb + i) mod kb_size kb)) [0..<used kb]"

lemma ring_inj:
  fixes r s i j :: nat
  assumes "(r + i) mod s = (r + j) mod s" "i < s" "j < s" shows "i = j"
proof -
  have "i = j" if "i \<le> j" "(r + i) mod s = (r + j) mod s" "j < s" for i j :: nat
  proof -
    have "s dvd (r + j) - (r + i)" using that by (metis add_left_mono mod_eq_dvd_iff_nat)
    then show ?thesis using that by (auto dest!: dvd_imp_le)
  qed
  then show ?thesis using assms by (metis nat_le_linear)
qed

lemma used_spec:
  assumes "kb_ok kb" shows "used kb < kb_size kb" "(kb_r_idx kb + used kb) mod kb_size kb = kb_w_idx kb"
proof -
  have s: "0 < kb_size kb" using assms by (auto simp: kb_ok_def)
  then show "used kb < kb_size kb" by (simp add: used_def)
  have "(kb_r_idx kb + used kb) mod kb_size kb = (kb_r_idx kb + (kb_w_idx kb + kb_size kb - kb_r_idx kb)) mod kb_size kb"
    by (simp add: used_def mod_add_right_eq)
  also have "kb_r_idx kb + (kb_w_idx kb + kb_size kb - kb_r_idx kb) = kb_w_idx kb + kb_size kb" using assms by (simp add: kb_ok_def)
  finally show "(kb_r_idx kb + used kb) mod kb_size kb = kb_w_idx kb" using assms by (simp add: kb_ok_def)
qed

lemma used_eqI:
  assumes "kb_ok kb" "u < kb_size kb" "(kb_r_idx kb + u) mod kb_size kb = kb_w_idx kb" shows "used kb = u"
  using ring_inj [OF _ used_spec(1) [OF assms(1)] assms(2)] used_spec(2) [OF assms(1)] assms(3) by metis

lemma length_content [simp]: "length (content kb) = used kb"
  by (simp add: content_def)

lemma nth_content: "i < used kb \<Longrightarrow> content kb ! i = kb_buf kb ! ((kb_r_idx kb + i) mod kb_size kb)"
  by (simp add: content_def)

lemma used_cases:
  assumes "kb_ok kb"
  shows "used kb = (if kb_r_idx kb \<le> kb_w_idx kb then kb_w_idx kb - kb_r_idx kb else kb_w_idx kb + kb_size kb - kb_r_idx kb)"
  using assms by (intro used_eqI) (auto simp: kb_ok_def)

lemma klog_remain_used: "kb_ok kb \<Longrightarrow> klog_remain kb = int (kb_size kb) - 1 - int (used kb)"
  using used_cases [of kb] by (auto simp: klog_remain_def Let_def kb_ok_def)

text \<open>The effect of copying \<open>m\<close>, and one more byte, to the ring at \<open>w\<close>.\<close>

definition ring_wrote :: "nat \<Rightarrow> nat \<Rightarrow> bytes \<Rightarrow> bytes \<Rightarrow> bytes \<Rightarrow> bool" where
  "ring_wrote s w m buf buf' \<longleftrightarrow> length buf' = length buf \<and> (\<forall>k < length m. buf' ! ((w + k) mod s) = m ! k)
     \<and> (\<forall>j < s. (\<forall>k \<le> length m. j \<noteq> (w + k) mod s) \<longrightarrow> buf' ! j = buf ! j)"

lemma content_append:
  assumes ok: "kb_ok kb" and w: "ring_wrote (kb_size kb) (kb_w_idx kb) m (kb_buf kb) buf'"
    and room: "used kb + length m < kb_size kb"
    and kb': "kb_buf kb' = buf'" "kb_size kb' = kb_size kb" "kb_r_idx kb' = kb_r_idx kb"
      "kb_w_idx kb' = CIRCULAR_INCR (kb_w_idx kb) (length m) (kb_size kb)"
  shows "kb_ok kb'" "content kb' = content kb @ m"
proof -
  let ?s = "kb_size kb" and ?r = "kb_r_idx kb"
  note u = used_spec [OF ok]
  have s: "0 < ?s" using ok by (auto simp: kb_ok_def)
  show ok': "kb_ok kb'" using ok w s by (simp add: kb_ok_def kb' ring_wrote_def CIRCULAR_INCR_def)
  have pos: "(kb_w_idx kb + k) mod ?s = (?r + (used kb + k)) mod ?s" for k
    using u(2) by (metis add.assoc mod_add_left_eq)
  have u': "used kb' = used kb + length m"
    by (rule used_eqI [OF ok']) (use room pos in \<open>simp_all add: kb' CIRCULAR_INCR_def\<close>)
  show "content kb' = content kb @ m"
  proof (rule nth_equalityI)
    fix i assume "i < length (content kb')"
    then have i: "i < used kb + length m" by (simp add: u')
    show "content kb' ! i = (content kb @ m) ! i"
    proof (cases "i < used kb")
      case True
      have "(?r + i) mod ?s \<noteq> (kb_w_idx kb + k) mod ?s" if "k \<le> length m" for k
      proof
        assume "(?r + i) mod ?s = (kb_w_idx kb + k) mod ?s"
        from ring_inj [OF trans [OF this pos]] have "i = used kb + k" using that room True by simp
        then show False using True by simp
      qed
      then have "buf' ! ((?r + i) mod ?s) = kb_buf kb ! ((?r + i) mod ?s)" using w s by (simp add: ring_wrote_def)
      then show ?thesis using True i by (simp add: nth_append nth_content u' kb')
    next
      case False
      define k where "k = i - used kb"
      have "buf' ! ((kb_w_idx kb + k) mod ?s) = m ! k" using w i False less_diff_conv2 [of "used kb" i "length m"]
        unfolding ring_wrote_def by (auto simp: k_def add.commute)
      then have "buf' ! ((?r + i) mod ?s) = m ! (i - used kb)" unfolding pos using False by (simp add: k_def)
      then show ?thesis using False i by (simp add: nth_append nth_content u' kb')
    qed
  qed (simp add: u')
qed

lemma nth_memcpy_at:
  assumes "memcpy_at buf i bs = Some buf'" "j < length buf"
  shows "buf' ! j = (if i \<le> j \<and> j < i + length bs then bs ! (j - i) else buf ! j)"
  using assms by (auto simp: memcpy_at_def nth_append min_def split: if_splits)

lemma klog_store_wrote:
  assumes ok: "kb_ok kb" and msg: "msg = m @ [z]" "length m < KLOG_ENTRY_SIZE" "KLOG_ENTRY_SIZE \<le> kb_size kb"
  shows "\<exists>buf'. klog_store msg (length m) kb = Some buf' \<and> ring_wrote (kb_size kb) (kb_w_idx kb) m (kb_buf kb) buf'"
proof -
  let ?s = "kb_size kb" and ?w = "kb_w_idx kb" and ?b = "kb_buf kb"
  have l: "length ?b = ?s" "?w < ?s" using ok by (simp_all add: kb_ok_def)
  define remain where "remain = ?s - ?w"
  consider (direct) "KLOG_ENTRY_SIZE \<le> remain" | (wrap) "remain < KLOG_ENTRY_SIZE" "remain < length m"
    | (tail) "remain < KLOG_ENTRY_SIZE" "length m \<le> remain" by linarith
  then show ?thesis
  proof cases
    case direct
    define buf' where "buf' = take ?w ?b @ msg @ drop (?w + length msg) ?b"
    have r: "memcpy_at ?b ?w msg = Some buf'" using direct l msg by (simp add: memcpy_at_def buf'_def remain_def)
    have "(?w + k) mod ?s = ?w + k" if "k \<le> length m" for k using that direct msg(2) by (simp add: remain_def)
    then have "ring_wrote ?s ?w m ?b buf'"
      unfolding ring_wrote_def using length_memcpy_at [OF r] nth_memcpy_at [OF r] l direct msg
      by (auto simp: remain_def nth_append) (metis add_diff_inverse_nat less_Suc_eq_le nat_add_left_cancel_less not_less)
    then show ?thesis using direct r by (simp add: klog_store_def Let_def remain_def [symmetric])
  next
    case tail
    define buf' where "buf' = take ?w ?b @ m @ drop (?w + length m) ?b"
    have r: "memcpy_at ?b ?w m = Some buf'" using tail l by (simp add: memcpy_at_def buf'_def remain_def)
    have k: "(?w + k) mod ?s = ?w + k" if "k < length m" for k using that tail by (simp add: remain_def)
    have "ring_wrote ?s ?w m ?b buf'"
      unfolding ring_wrote_def
    proof (intro conjI allI impI)
      show "length buf' = length ?b" by (rule length_memcpy_at [OF r])
      show "buf' ! ((?w + i) mod ?s) = m ! i" if "i < length m" for i
        using nth_memcpy_at [OF r, of "?w + i"] k [OF that] that tail l by (simp add: remain_def)
      fix j assume j: "j < ?s" "\<forall>k\<le>length m. j \<noteq> (?w + k) mod ?s"
      have "\<not> (?w \<le> j \<and> j < ?w + length m)"
      proof
        assume a: "?w \<le> j \<and> j < ?w + length m"
        then have "j = (?w + (j - ?w)) mod ?s" using j(1) by simp
        then show False using j(2) a by (metis add_diff_inverse_nat leD less_imp_le_nat nat_add_left_cancel_less)
      qed
      then show "buf' ! j = ?b ! j" using nth_memcpy_at [OF r, of j] j(1) l by auto
    qed
    then show ?thesis using tail r msg by (simp add: klog_store_def Let_def remain_def [symmetric])
  next
    case wrap
    define b1 where "b1 = take ?w ?b @ take remain m @ drop (?w + remain) ?b"
    have r1: "memcpy_at ?b ?w (take remain m) = Some b1" using wrap l by (simp add: memcpy_at_def b1_def remain_def)
    have l1: "length b1 = ?s" using length_memcpy_at [OF r1] l by simp
    let ?m2 = "drop remain m"
    have le: "length ?m2 \<le> ?s" using wrap msg(2,3) by simp
    define b2 where "b2 = ?m2 @ drop (length ?m2) b1"
    have r2: "memcpy_at b1 0 ?m2 = Some b2" using le l1 by (simp add: memcpy_at_def b2_def)
    have sm: "length m - remain \<le> ?w" using msg(2,3) l unfolding remain_def by linarith
    have pos: "(?w + k) mod ?s = (if k < remain then ?w + k else k - remain)" if "k \<le> length m" for k
    proof (cases "k < remain")
      case False
      then have "?w + k = ?s + (k - remain)" using l by (simp add: remain_def)
      moreover have "k - remain < ?s" using that wrap msg(2,3) by simp
      ultimately show ?thesis using False by (metis mod_add_self1 mod_less)
    qed (use l in \<open>simp add: remain_def\<close>)
    have n2: "b2 ! j = (if j < length m - remain then m ! (remain + j) else if ?w \<le> j then m ! (j - ?w) else ?b ! j)" if "j < ?s" for j
      using nth_memcpy_at [OF r2, of j] nth_memcpy_at [OF r1, of j] that l l1 wrap
      by (auto simp: remain_def)
    have "ring_wrote ?s ?w m ?b b2"
      unfolding ring_wrote_def
    proof (intro conjI allI impI)
      show "length b2 = length ?b" using length_memcpy_at [OF r2] l1 l by simp
      show "b2 ! ((?w + i) mod ?s) = m ! i" if "i < length m" for i
      proof (cases "i < remain")
        case True
        then show ?thesis using pos [of i] n2 [of "?w + i"] that sm l by (simp add: remain_def)
      next
        case False
        then have "i - remain < length m - remain" "i - remain < ?s" "remain + (i - remain) = i" using that le by auto
        then show ?thesis using False pos [of i] n2 [of "i - remain"] that by simp
      qed
      fix j assume j: "j < ?s" "\<forall>k\<le>length m. j \<noteq> (?w + k) mod ?s"
      have a: "\<not> j < length m - remain"
      proof
        assume "j < length m - remain"
        then have "remain + j \<le> length m" "j = (?w + (remain + j)) mod ?s" using pos [of "remain + j"] by simp_all
        then show False using j(2) by blast
      qed
      have b: "\<not> ?w \<le> j"
      proof
        assume w: "?w \<le> j"
        then have "j - ?w < remain" using j(1) by (simp add: remain_def)
        then have "j - ?w \<le> length m" "j = (?w + (j - ?w)) mod ?s" using pos [of "j - ?w"] wrap w by simp_all
        then show False using j(2) by blast
      qed
      show "b2 ! j = ?b ! j" using n2 [OF j(1)] a b by simp
    qed
    moreover have "klog_store msg (length m) kb = Some b2"
    proof -
      have "take remain msg = take remain m" "take (length m - remain) (drop remain msg) = ?m2" using wrap msg by simp_all
      then show ?thesis using wrap r1 r2 by (simp add: klog_store_def Let_def remain_def [symmetric])
    qed
    ultimately show ?thesis by blast
  qed
qed

text \<open>A write appends the text to the queue, or leaves the queue alone.\<close>

lemma klog_fmt_text:
  "klog_fmt kb rtype peer timestr cmdkey status res_len = (case timestr of
     None \<Rightarrow> ([], 0, kb\<lparr>kb_errors := kb_errors kb + 1\<rparr>)
   | Some ts \<Rightarrow> (let m = take (KLOG_ENTRY_SIZE - 1) (klog_text rtype peer ts cmdkey status res_len) in (m @ [CHR 0x00], length m, kb)))"
  by (auto simp: klog_fmt_def scnprintf_def KLOG_ENTRY_SIZE_def min_def split: option.splits)

lemma kb_fields [simp]:
  "kb_ok (kb\<lparr>kb_entries := n\<rparr>) = kb_ok kb" "kb_ok (kb\<lparr>kb_errors := e\<rparr>) = kb_ok kb"
  "content (kb\<lparr>kb_entries := n\<rparr>) = content kb" "content (kb\<lparr>kb_errors := e\<rparr>) = content kb"
  "used (kb\<lparr>kb_entries := n\<rparr>) = used kb" "used (kb\<lparr>kb_errors := e\<rparr>) = used kb"
  "klog_remain (kb\<lparr>kb_entries := n\<rparr>) = klog_remain kb"
  by (simp_all add: kb_ok_def content_def used_def klog_remain_def Let_def)

text \<open>The text a call is to log: nothing if logging is off, the call is not sampled, an entry might not fit
  or there is no time; otherwise the formatted line, cut to the size of an entry.\<close>

definition klog_entry :: "klog_st \<Rightarrow> nat \<Rightarrow> req_type \<Rightarrow> bytes \<Rightarrow> bytes option \<Rightarrow> bytes \<Rightarrow> int \<Rightarrow> int \<Rightarrow> kbuf \<Rightarrow> bytes" where
  "klog_entry g rate rtype peer timestr cmdkey status res_len kb =
    (if klog_enabled g \<and> (kb_entries kb + 1) mod rate = 0 \<and> used kb + KLOG_ENTRY_SIZE < kb_size kb
     then (case timestr of None \<Rightarrow> [] | Some ts \<Rightarrow> take (KLOG_ENTRY_SIZE - 1) (klog_text rtype peer ts cmdkey status res_len))
     else [])"

text \<open>What is stored but not published yet does not touch the queue.\<close>

lemma content_kept:
  assumes ok: "kb_ok kb" and w: "ring_wrote (kb_size kb) (kb_w_idx kb) m (kb_buf kb) buf'"
    and room: "used kb + length m < kb_size kb"
  shows "kb_ok (kb\<lparr>kb_buf := buf'\<rparr>)" "content (kb\<lparr>kb_buf := buf'\<rparr>) = content kb"
proof -
  let ?k1 = "kb\<lparr>kb_buf := buf'\<rparr>"
  let ?k2 = "?k1\<lparr>kb_w_idx := CIRCULAR_INCR (kb_w_idx kb) (length m) (kb_size kb)\<rparr>"
  show "kb_ok ?k1" using ok w by (simp add: kb_ok_def ring_wrote_def)
  have u: "used ?k1 = used kb" by (simp add: used_def)
  have c: "content ?k2 = content kb @ m" by (rule content_append(2) [OF ok w room]) simp_all
  then have u2: "used ?k2 = used kb + length m" using length_content [of ?k2] by simp
  show "content ?k1 = content kb"
  proof (rule nth_equalityI)
    fix i assume "i < length (content ?k1)"
    then have i: "i < used kb" by (simp add: u)
    have "content ?k1 ! i = content ?k2 ! i" using i by (simp add: nth_content u u2)
    then show "content ?k1 ! i = content kb ! i" using i by (simp add: c nth_append)
  qed (simp add: u)
qed

text \<open>The first half of a write leaves the queue alone, and the second appends the text to it.\<close>

definition composed :: "nat \<Rightarrow> bytes \<Rightarrow> kbuf \<Rightarrow> bool" where
  "composed ret m kb \<longleftrightarrow> ret = length m \<and> kb_ok (klog_publish ret kb) \<and> content (klog_publish ret kb) = content kb @ m"

lemma klog_compose_entry:
  assumes ok: "kb_ok kb" "KLOG_ENTRY_SIZE < kb_size kb" "0 < rate"
  obtains ret kb' where "klog_compose g rate rtype peer timestr cmdkey status res_len kb = Some (ret, kb')" "kb_ok kb'"
    "kb_size kb' = kb_size kb" "kb_r_idx kb' = kb_r_idx kb" "content kb' = content kb"
    "composed ret (klog_entry g rate rtype peer timestr cmdkey status res_len kb) kb'"
proof -
  let ?e = "klog_entry g rate rtype peer timestr cmdkey status res_len kb"
  define skip where "skip \<longleftrightarrow> \<not> klog_enabled g \<or> (kb_entries kb + 1) mod rate \<noteq> 0 \<or> klog_remain kb < int KLOG_ENTRY_SIZE"
  let ?kb = "kb\<lparr>kb_entries := 0\<rparr>"
  have rm: "klog_remain kb < int KLOG_ENTRY_SIZE \<longleftrightarrow> \<not> used kb + KLOG_ENTRY_SIZE < kb_size kb"
    using klog_remain_used [OF ok(1)] by linarith
  show thesis
  proof (cases skip)
    case True
    then have "\<exists>n. klog_compose g rate rtype peer timestr cmdkey status res_len kb = Some (0, kb\<lparr>kb_entries := n\<rparr>)"
      using ok(3) by (auto simp: klog_compose_def Let_def skip_def intro: exI [of _ "kb_entries kb"])
    then obtain n where n: "klog_compose g rate rtype peer timestr cmdkey status res_len kb = Some (0, kb\<lparr>kb_entries := n\<rparr>)" by blast
    have "?e = []" using True rm by (auto simp: klog_entry_def skip_def)
    then show thesis by (intro that [OF n]) (use ok(1) in \<open>simp_all add: composed_def klog_publish_def\<close>)
  next
    case False
    then have remain: "used kb + KLOG_ENTRY_SIZE < kb_size kb" using rm by (simp add: skip_def)
    have okk: "kb_ok ?kb" using ok(1) by simp
    have run: "klog_compose g rate rtype peer timestr cmdkey status res_len kb = do {
           let (msg, ret, kb) = klog_fmt ?kb rtype peer timestr cmdkey status res_len;
           buf \<leftarrow> klog_store msg ret kb;
           Some (ret, kb\<lparr>kb_buf := buf\<rparr>) }"
      using False ok(3) by (simp add: klog_compose_def Let_def skip_def)
    show thesis
    proof (cases timestr)
      case None
      let ?k2 = "?kb\<lparr>kb_errors := kb_errors kb + 1\<rparr>"
      have st: "klog_store [] 0 ?k2 = Some (kb_buf kb)"
        using ok(1) by (simp add: klog_store_def Let_def memcpy_at_def kb_ok_def)
      have r: "klog_compose g rate rtype peer timestr cmdkey status res_len kb = Some (0, ?k2)"
        unfolding run using st by (simp add: klog_fmt_text None)
      have "?e = []" by (simp add: klog_entry_def None)
      then show thesis by (intro that [OF r]) (use ok(1) in \<open>simp_all add: composed_def klog_publish_def\<close>)
    next
      case (Some ts)
      define m where "m = take (KLOG_ENTRY_SIZE - 1) (klog_text rtype peer ts cmdkey status res_len)"
      have lm: "length m < KLOG_ENTRY_SIZE" by (simp add: m_def KLOG_ENTRY_SIZE_def)
      have ne: "m \<noteq> []" by (auto simp: m_def klog_text_def KLOG_ENTRY_SIZE_def)
      have e: "?e = m" using False rm by (auto simp: klog_entry_def Some m_def skip_def)
      obtain buf' where b: "klog_store (m @ [CHR 0x00]) (length m) ?kb = Some buf'"
        "ring_wrote (kb_size ?kb) (kb_w_idx ?kb) m (kb_buf ?kb) buf'"
        using klog_store_wrote [OF okk refl lm] ok(2) by auto
      have f: "klog_fmt ?kb rtype peer timestr cmdkey status res_len = (m @ [CHR 0x00], length m, ?kb)"
        unfolding klog_fmt_text Some option.case Let_def m_def ..
      have r: "klog_compose g rate rtype peer timestr cmdkey status res_len kb = Some (length m, ?kb\<lparr>kb_buf := buf'\<rparr>)"
        unfolding run f using b(1) by simp
      have u: "used ?kb + length m < kb_size ?kb" using remain lm by simp
      define kb' where "kb' = klog_publish (length m) (?kb\<lparr>kb_buf := buf'\<rparr>)"
      have kb': "kb_buf kb' = buf'" "kb_size kb' = kb_size ?kb" "kb_r_idx kb' = kb_r_idx ?kb"
        "kb_w_idx kb' = CIRCULAR_INCR (kb_w_idx ?kb) (length m) (kb_size ?kb)"
        using ne by (simp_all add: kb'_def klog_publish_def)
      note c = content_append [OF okk b(2) u kb'] and k = content_kept [OF okk b(2) u]
      show thesis by (rule that [OF r]) (use c k in \<open>simp_all add: composed_def e kb'_def\<close>)
    qed
  qed
qed

subsection \<open>Draining\<close>

lemma content_advance:
  assumes ok: "kb_ok kb" and n: "n \<le> used kb" and kb': "kb' = kb\<lparr>kb_r_idx := CIRCULAR_INCR (kb_r_idx kb) n (kb_size kb)\<rparr>"
  shows "kb_ok kb'" "content kb' = drop n (content kb)"
proof -
  let ?s = "kb_size kb" and ?r = "kb_r_idx kb"
  note u = used_spec [OF ok]
  have s: "0 < ?s" using ok by (auto simp: kb_ok_def)
  show ok': "kb_ok kb'" using ok s by (simp add: kb_ok_def kb' CIRCULAR_INCR_def)
  have pos: "((?r + n) mod ?s + i) mod ?s = (?r + (n + i)) mod ?s" for i by (simp add: mod_add_left_eq add.assoc)
  have u': "used kb' = used kb - n"
    by (rule used_eqI [OF ok']) (use u n pos [of "used kb - n"] in \<open>simp_all add: kb' CIRCULAR_INCR_def\<close>)
  show "content kb' = drop n (content kb)"
  proof (rule nth_equalityI)
    fix i assume "i < length (content kb')"
    then have i: "i < used kb - n" by (simp add: u')
    have "kb_r_idx kb' = (?r + n) mod ?s" "kb_buf kb' = kb_buf kb" "kb_size kb' = ?s" by (simp_all add: kb' CIRCULAR_INCR_def)
    then show "content kb' ! i = drop n (content kb) ! i" using i n by (simp add: nth_content u' pos)
  qed (simp add: u')
qed

text \<open>What the two pieces of the buffer hold between the read index and a snapshot of the write index.\<close>

lemma take_content:
  assumes ok: "kb_ok kb" and u: "n \<le> used kb" and w: "w = (kb_r_idx kb + n) mod kb_size kb"
  shows "take n (content kb) = (if kb_r_idx kb \<le> w then take (w - kb_r_idx kb) (drop (kb_r_idx kb) (kb_buf kb))
    else drop (kb_r_idx kb) (kb_buf kb) @ take w (kb_buf kb))"
proof -
  let ?s = "kb_size kb" and ?r = "kb_r_idx kb"
  have l: "length (kb_buf kb) = ?s" "?r < ?s" using ok by (simp_all add: kb_ok_def)
  have n: "n < ?s" using used_spec(1) [OF ok] u by simp
  show ?thesis
  proof (cases "?r + n < ?s")
    case True
    then have "w = ?r + n" using w by simp
    then show ?thesis using True l u by (intro nth_equalityI) (auto simp: nth_content)
  next
    case False
    then have e: "w = ?r + n - ?s" using w n l by (simp add: mod_if)
    then have wr: "w < ?r" using n l False by linarith
    have "(?r + i) mod ?s = (if ?r + i < ?s then ?r + i else ?r + i - ?s)" if "i < n" for i using that n l by (simp add: mod_if)
    then show ?thesis using False l u e wr
      by (intro nth_equalityI) (auto simp: nth_content nth_append add.commute)
  qed
qed

text \<open>The collector, from a snapshot that covers the first \<open>n\<close> bytes of the queue: what it writes to the
  file is what it takes off the queue, unless the second write fails.\<close>

lemma klog_read_drains:
  assumes ok: "kb_ok kb" and n: "n \<le> used kb" and w: "w = (kb_r_idx kb + n) mod kb_size kb"
    and n1: "n1 \<le> int (if kb_r_idx kb \<le> w then w - kb_r_idx kb else kb_size kb - kb_r_idx kb)"
    and n2: "0 \<le> n2" "n2 \<le> int w"
    and run: "klog_read (w, kb_r_idx kb) n1 n2 op kb g = (ret, kb', g')"
  shows "kb_ok kb' \<and> kb_size kb' = kb_size kb \<and> 0 \<le> ret \<and> ret \<le> int n \<and> content kb' = drop (nat ret) (content kb)
    \<and> kl_file g' = kl_file g @ take (nat ret) (content kb)"
proof -
  let ?s = "kb_size kb" and ?r = "kb_r_idx kb" and ?b = "kb_buf kb"
  have l: "length ?b = ?s" "?r < ?s" "w < ?s" using ok w by (auto simp: kb_ok_def)
  note t = take_content [OF ok n w]
  have fin: "kb_ok kb'' \<and> kb_size kb'' = ?s \<and> content kb'' = drop (nat m) (content kb) \<and> kl_file g'' = kl_file h \<and> ret' = m"
    if "klog_read_done ?r m op kb h = (ret', kb'', g'')" "0 \<le> m" "m \<le> int n" for m h ret' kb'' g''
  proof -
    have "nat m \<le> used kb" using that n by simp
    then show ?thesis using that content_advance [OF ok _ refl, of "nat m"] ok
      by (auto simp: klog_read_done_def Let_def klog_reopen_def split: if_splits)
  qed
  show ?thesis
  proof (cases "?r \<le> w")
    case True
    have nw: "n = w - ?r"
    proof -
      have "length (take n (content kb)) = n" using n by simp
      then show ?thesis using t True l by (simp split: if_splits)
    qed
    show ?thesis
    proof (cases "?r < w \<and> 0 \<le> n1")
      case c: True
      then have r: "klog_read_done ?r n1 op kb (klog_emit n1 (take (w - ?r) (drop ?r ?b)) g) = (ret, kb', g')"
        using run by (simp add: klog_read_def)
      have "nat n1 \<le> n" using n1 True nw by simp
      then have "take (nat n1) (take n (content kb)) = take (nat n1) (content kb)" by (simp add: min_def)
      then have "take (nat n1) (take (w - ?r) (drop ?r ?b)) = take (nat n1) (content kb)" unfolding t using True by simp
      then show ?thesis using fin [OF r] c n1 True nw by (simp add: klog_emit_def)
    next
      case c: False
      then show ?thesis using run True fin [of 0 g] ok
        by (cases "?r < w") (auto simp: klog_read_def klog_read_error_def)
    qed
  next
    case False
    have lt: "length (take n (content kb)) = n" using n by simp
    have tn: "take n (content kb) = drop ?r ?b @ take w ?b" using t False by simp
    then have nw: "n = ?s - ?r + w" using lt l by simp
    have t1: "take i (drop ?r ?b) = take i (content kb)" if "i \<le> ?s - ?r" for i
    proof -
      have "take i (content kb) = take i (take n (content kb))" using that nw by (simp add: min_def)
      then show ?thesis unfolding tn using that l by simp
    qed
    consider "n1 < 0" | "0 \<le> n1" "n1 \<noteq> int (?s - ?r)" | "n1 = int (?s - ?r)" by linarith
    then show ?thesis
    proof cases
      case 1
      then show ?thesis using run False ok by (auto simp: klog_read_def klog_read_error_def)
    next
      case 2
      then have r: "klog_read_done ?r n1 op kb (klog_emit n1 (drop ?r ?b) g) = (ret, kb', g')"
        using run False by (simp add: klog_read_def Let_def)
      show ?thesis using fin [OF r] 2 n1 False nw t1 [of "nat n1"] by (simp add: klog_emit_def nat_le_iff)
    next
      case 3
      then have r: "klog_read_done ?r (n1 + n2) op kb (klog_emit n2 (take w ?b) (klog_emit n1 (drop ?r ?b) g)) = (ret, kb', g')"
        using run False n2 by (simp add: klog_read_def Let_def)
      have "nat (n1 + n2) \<le> n" using 3 n2 nw by linarith
      then have "take (nat (n1 + n2)) (content kb) = take (nat (n1 + n2)) (take n (content kb))" by (simp add: min_def)
      also have "\<dots> = drop ?r ?b @ take (nat n2) (take w ?b)"
      proof -
        have "nat (n1 + n2) = length (drop ?r ?b) + nat n2" using 3 n2 l by (simp add: nat_add_distrib)
        then show ?thesis unfolding tn by simp
      qed
      finally show ?thesis using fin [OF r] 3 n2 nw l by (simp add: klog_emit_def)
    qed
  qed
qed

text \<open>All a read changes of the ring is the read index, by what it returns, and the error count.\<close>

lemma klog_read_kb:
  assumes "kb_ok kb" "klog_read (w, kb_r_idx kb) n1 n2 op kb g = (ret, kb', g')"
  shows "\<exists>e. kb' = kb\<lparr>kb_r_idx := CIRCULAR_INCR (kb_r_idx kb) (nat ret) (kb_size kb), kb_errors := e\<rparr>"
proof -
  have z: "CIRCULAR_INCR (kb_r_idx kb) 0 (kb_size kb) = kb_r_idx kb" using assms(1) by (simp add: CIRCULAR_INCR_def kb_ok_def)
  have d: "\<exists>e. kb'' = kb\<lparr>kb_r_idx := CIRCULAR_INCR (kb_r_idx kb) (nat m') (kb_size kb), kb_errors := e\<rparr>"
    if "klog_read_done (kb_r_idx kb) m op kb h = (m', kb'', h')" for m m' kb'' h h'
    using that z by (auto simp: klog_read_done_def Let_def intro!: exI [of _ "kb_errors kb"] split: if_splits)
  have e: "\<exists>e. kb'' = kb\<lparr>kb_r_idx := CIRCULAR_INCR (kb_r_idx kb) (nat m') (kb_size kb), kb_errors := e\<rparr>"
    if "klog_read_error kb h = (m', kb'', h')" for m' kb'' h h'
    using that z by (auto simp: klog_read_error_def)
  show ?thesis using assms(2) d e by (auto simp: klog_read_def Let_def split: if_splits)
qed

lemma composed_read:
  assumes ok: "kb_ok kb" and c: "composed ret m kb" and n: "n \<le> used kb"
    and kb': "kb' = kb\<lparr>kb_r_idx := CIRCULAR_INCR (kb_r_idx kb) n (kb_size kb), kb_errors := e\<rparr>"
  shows "composed ret m kb'"
proof -
  let ?p = "klog_publish ret kb"
  have p: "kb_ok ?p" "content ?p = content kb @ m" "ret = length m" using c unfolding composed_def by blast+
  then have "n \<le> used ?p" using n length_content [of ?p] by simp
  note a = content_advance [OF p(1) this refl] and b = content_advance [OF ok n refl]
  have "klog_publish ret kb' = ?p\<lparr>kb_r_idx := CIRCULAR_INCR (kb_r_idx ?p) n (kb_size ?p), kb_errors := e\<rparr>"
    by (simp add: kb' klog_publish_def)
  then show ?thesis using a b n p by (simp add: composed_def kb')
qed

subsection \<open>Worker and collector interleaved\<close>

text \<open>The worker between calls, or with a text stored and not yet published (\<open>sys_pending\<close> holds the value of
  \<open>ret\<close> and the text the call is to log); the collector between rounds, or at work on a snapshot. Two
  histories record what should be in the log and what is written: \<open>sys_logged\<close> is the texts of the
  completed calls, as \<open>klog_entry\<close> specifies them, and \<open>sys_pieces\<close> what each round of the collector
  appended to the file, marked if the second write of the round failed.\<close>

record klog_sys =
  sys_kb :: kbuf
  sys_g :: klog_st
  sys_pending :: "(nat \<times> bytes) option"
  sys_snap :: "(nat \<times> nat) option"
  sys_logged :: bytes
  sys_pieces :: "(bool \<times> bytes) list"

inductive klog_step :: "nat \<Rightarrow> klog_sys \<Rightarrow> klog_sys \<Rightarrow> bool" for rate where
  compose: "sys_pending s = None \<Longrightarrow>
     klog_compose (sys_g s) rate rtype peer timestr cmdkey status res_len (sys_kb s) = Some (ret, kb') \<Longrightarrow>
     klog_step rate s (s\<lparr>sys_kb := kb',
       sys_pending := Some (ret, klog_entry (sys_g s) rate rtype peer timestr cmdkey status res_len (sys_kb s))\<rparr>)"
| publish: "sys_pending s = Some (ret, m) \<Longrightarrow>
     klog_step rate s (s\<lparr>sys_kb := klog_publish ret (sys_kb s), sys_pending := None, sys_logged := sys_logged s @ m\<rparr>)"
| snapshot: "sys_snap s = None \<Longrightarrow>
     klog_step rate s (s\<lparr>sys_snap := Some (kb_w_idx (sys_kb s), kb_r_idx (sys_kb s))\<rparr>)"
| collector: "sys_snap s = Some (w, r) \<Longrightarrow>
     n1 \<le> int (if r \<le> w then w - r else kb_size (sys_kb s) - r) \<Longrightarrow> n2 \<le> int w \<Longrightarrow>
     klog_read (w, r) n1 n2 op (sys_kb s) (sys_g s) = (ret, kb', g') \<Longrightarrow>
     klog_step rate s (s\<lparr>sys_kb := kb', sys_g := g', sys_snap := None, sys_pieces := sys_pieces s
       @ [(w < r \<and> n1 = int (kb_size (sys_kb s) - r) \<and> n2 < 0, drop (length (kl_file (sys_g s))) (kl_file g'))]\<rparr>)"

inductive klog_reach :: "nat \<Rightarrow> klog_sys \<Rightarrow> klog_sys \<Rightarrow> bool" for rate s0 where
  start: "klog_reach rate s0 s0"
| step: "klog_reach rate s0 s \<Longrightarrow> klog_step rate s s' \<Longrightarrow> klog_reach rate s0 s'"

text \<open>The pieces of the rounds in which no second write failed.\<close>

definition clean_pieces :: "klog_sys \<Rightarrow> bytes" where
  "clean_pieces s = concat (map snd (filter (\<lambda>p. \<not> fst p) (sys_pieces s)))"

definition klog_inv :: "klog_sys \<Rightarrow> bool" where
  "klog_inv s \<longleftrightarrow> kb_ok (sys_kb s) \<and> KLOG_ENTRY_SIZE < kb_size (sys_kb s)
     \<and> kl_file (sys_g s) = concat (map snd (sys_pieces s))
     \<and> clean_pieces s @ content (sys_kb s) = sys_logged s
     \<and> (\<forall>ret m. sys_pending s = Some (ret, m) \<longrightarrow> composed ret m (sys_kb s))
     \<and> (\<forall>w r. sys_snap s = Some (w, r) \<longrightarrow> r = kb_r_idx (sys_kb s)
          \<and> (\<exists>n \<le> used (sys_kb s). w = (r + n) mod kb_size (sys_kb s)))"

lemma klog_inv_worker:
  assumes inv: "klog_inv s" and kb: "kb_ok kb'" "kb_size kb' = kb_size (sys_kb s)" "kb_r_idx kb' = kb_r_idx (sys_kb s)"
      "content kb' = content (sys_kb s) @ m"
    and p: "\<And>ret m. p = Some (ret, m) \<Longrightarrow> composed ret m kb'"
  shows "klog_inv (s\<lparr>sys_kb := kb', sys_pending := p, sys_logged := sys_logged s @ m\<rparr>)"
proof -
  have u: "used (sys_kb s) \<le> used kb'" using kb(4) length_content [of kb'] by simp
  have "clean_pieces (s\<lparr>sys_kb := kb', sys_pending := p, sys_logged := sys_logged s @ m\<rparr>) = clean_pieces s"
    by (simp add: clean_pieces_def)
  then show ?thesis using inv kb p le_trans [OF _ u] unfolding klog_inv_def by fastforce
qed

lemma klog_inv_collector:
  assumes inv: "klog_inv s" and snap: "sys_snap s = Some (w, r)"
    and n1: "n1 \<le> int (if r \<le> w then w - r else kb_size (sys_kb s) - r)" and n2: "n2 \<le> int w"
    and run: "klog_read (w, r) n1 n2 op (sys_kb s) (sys_g s) = (ret, kb', g')"
    and b: "b \<longleftrightarrow> w < r \<and> n1 = int (kb_size (sys_kb s) - r) \<and> n2 < 0"
  shows "klog_inv (s\<lparr>sys_kb := kb', sys_g := g', sys_snap := None,
    sys_pieces := sys_pieces s @ [(b, drop (length (kl_file (sys_g s))) (kl_file g'))]\<rparr>)" (is "klog_inv ?s")
proof -
  let ?kb = "sys_kb s" and ?f = "kl_file (sys_g s)"
  have ok: "kb_ok ?kb" "r = kb_r_idx ?kb" using inv snap by (simp_all add: klog_inv_def)
  obtain n where n: "n \<le> used ?kb" "w = (kb_r_idx ?kb + n) mod kb_size ?kb"
    using inv snap by (auto simp: klog_inv_def)
  have "\<exists>k \<le> used ?kb. nat ret = k \<and> content kb' = drop k (content ?kb) \<and> kb_ok kb' \<and> kb_size kb' = kb_size ?kb
      \<and> (\<exists>x. kl_file g' = ?f @ x \<and> (\<not> b \<longrightarrow> x = take k (content ?kb)) \<and> (b \<longrightarrow> k = 0))"
  proof (cases b)
    case True
    then have "ret = 0 \<and> kb' = ?kb\<lparr>kb_errors := kb_errors ?kb + 1\<rparr> \<and> kl_file g' = ?f @ drop r (kb_buf ?kb)"
      using run b ok(1) by (auto simp: klog_read_def Let_def klog_read_error_def klog_emit_def kb_ok_def)
    then show ?thesis using ok(1) True by auto
  next
    case False
    define k2 where "k2 = (if n2 < 0 then 0 else n2)"
    have "klog_read (w, kb_r_idx ?kb) n1 k2 op ?kb (sys_g s) = (ret, kb', g')"
      using run False b unfolding ok(2) by (auto simp: klog_read_def Let_def k2_def)
    from klog_read_drains [OF ok(1) n n1 [unfolded ok(2)] _ _ this] n2
    have "kb_ok kb' \<and> kb_size kb' = kb_size ?kb \<and> 0 \<le> ret \<and> ret \<le> int n \<and> content kb' = drop (nat ret) (content ?kb)
      \<and> kl_file g' = ?f @ take (nat ret) (content ?kb)" by (simp add: k2_def)
    then show ?thesis using n(1) False by (intro exI [of _ "nat ret"]) auto
  qed
  then obtain k x where k: "k \<le> used ?kb" "nat ret = k" "content kb' = drop k (content ?kb)" "kb_ok kb'" "kb_size kb' = kb_size ?kb"
    "kl_file g' = ?f @ x" "\<not> b \<longrightarrow> x = take k (content ?kb)" "b \<longrightarrow> k = 0" by blast
  have "composed ret' m kb'" if "sys_pending s = Some (ret', m)" for ret' m
  proof -
    have "composed ret' m ?kb" using inv that by (simp add: klog_inv_def)
    then show ?thesis using klog_read_kb [OF ok(1) run [unfolded ok(2)]] composed_read [OF ok(1) _ k(1)] k(2) by blast
  qed
  moreover have "clean_pieces ?s @ content kb' = sys_logged s"
    using inv k(3,6-8) by (cases b) (simp_all add: klog_inv_def clean_pieces_def)
  ultimately show ?thesis using inv k(4-6) by (simp add: klog_inv_def)
qed

lemma klog_inv_step:
  assumes "klog_step rate s s'" "klog_inv s" "0 < rate" shows "klog_inv s'"
  using assms
proof cases
  case (compose rtype peer timestr cmdkey status res_len ret kb')
  let ?m = "klog_entry (sys_g s) rate rtype peer timestr cmdkey status res_len (sys_kb s)"
  have ok: "kb_ok (sys_kb s)" "KLOG_ENTRY_SIZE < kb_size (sys_kb s)" using assms(2) by (simp_all add: klog_inv_def)
  have k: "kb_ok kb'" "kb_size kb' = kb_size (sys_kb s)" "kb_r_idx kb' = kb_r_idx (sys_kb s)" "content kb' = content (sys_kb s)"
    "composed ret ?m kb'"
    using klog_compose_entry [OF ok assms(3), of "sys_g s" rtype peer timestr cmdkey status res_len] compose(3)
    by (metis option.inject prod.inject)+
  show ?thesis unfolding compose(1)
    using klog_inv_worker [OF assms(2) k(1-3), of "[]" "Some (ret, ?m)"] k(4,5) by simp
next
  case (publish ret m)
  have "composed ret m (sys_kb s)" using assms(2) publish(2) by (simp add: klog_inv_def)
  then have k: "kb_ok (klog_publish ret (sys_kb s))" "content (klog_publish ret (sys_kb s)) = content (sys_kb s) @ m"
    unfolding composed_def by blast+
  have f: "kb_size (klog_publish ret (sys_kb s)) = kb_size (sys_kb s)" "kb_r_idx (klog_publish ret (sys_kb s)) = kb_r_idx (sys_kb s)"
    by (simp_all add: klog_publish_def)
  show ?thesis unfolding publish(1) by (rule klog_inv_worker [OF assms(2) k(1) f k(2)]) simp
next
  case snapshot
  then show ?thesis using assms(2) used_spec(2) [of "sys_kb s"]
    by (auto simp: klog_inv_def clean_pieces_def intro!: exI [of _ "used (sys_kb s)"])
next
  case (collector w r n1 n2 op ret kb' g')
  show ?thesis unfolding collector(1) by (rule klog_inv_collector [OF assms(2) collector(2-5) refl])
qed

lemma klog_reach_inv: "klog_reach rate s0 s \<Longrightarrow> klog_inv s0 \<Longrightarrow> 0 < rate \<Longrightarrow> klog_inv s"
  by (induction rule: klog_reach.induct) (auto intro: klog_inv_step)

text \<open>The system at start: an empty ring of the configured size and an empty file.\<close>

definition klog_sys_init :: "nat \<Rightarrow> klog_sys" where
  "klog_sys_init entries = \<lparr>sys_kb = the (klog_buf_create entries True),
     sys_g = \<lparr>kl_running = True, kl_open = True, kl_kfs = 0, kl_file = []\<rparr>, sys_pending = None, sys_snap = None,
     sys_logged = [], sys_pieces = []\<rparr>"

lemma klog_inv_init: "1 < entries \<Longrightarrow> klog_inv (klog_sys_init entries)"
  by (simp add: klog_inv_def klog_sys_init_def klog_buf_create_def clean_pieces_def Let_def kb_ok_def content_def used_def
      KLOG_ENTRY_SIZE_def)

text \<open>C20: the worker and the collector share the ring without a lock, and still no text is lost, torn or
  reordered: in every interleaving, also with the collector running between the moment a text is stored
  and the moment it is published, and with partial and failed writes, the file holds the pieces the rounds of
  the collector wrote (whatever rotation does with the files), and the pieces of the rounds whose second write
  did not fail, followed by the bytes still in the ring, are exactly the lines the calls logged so far were
  to log, in order. So if no second write ever failed, the file followed by the ring is exactly what was
  logged.\<close>

theorem klog_no_loss:
  assumes "1 < entries" "0 < rate" "klog_reach rate (klog_sys_init entries) s"
  shows "kl_file (sys_g s) = concat (map snd (sys_pieces s))
    \<and> concat (map snd (filter (\<lambda>p. \<not> fst p) (sys_pieces s))) @ content (sys_kb s) = sys_logged s
    \<and> ((\<forall>p \<in> set (sys_pieces s). \<not> fst p) \<longrightarrow> kl_file (sys_g s) @ content (sys_kb s) = sys_logged s)"
proof -
  have i: "kl_file (sys_g s) = concat (map snd (sys_pieces s))"
    "concat (map snd (filter (\<lambda>p. \<not> fst p) (sys_pieces s))) @ content (sys_kb s) = sys_logged s"
    using klog_reach_inv [OF assms(3) klog_inv_init [OF assms(1)] assms(2)] by (simp_all add: klog_inv_def clean_pieces_def)
  moreover have "filter (\<lambda>p. \<not> fst p) (sys_pieces s) = sys_pieces s" if "\<forall>p \<in> set (sys_pieces s). \<not> fst p"
    using that by (rule filter_True)
  ultimately show ?thesis by metis
qed

theorem klog_no_loss_witness:
  "\<exists>s. klog_reach 1 (klog_sys_init 2) s
    \<and> sys_logged s = klog_text REQ_GETS ''::1'' ''now'' ''k'' 0 5 \<and> kl_file (sys_g s) @ content (sys_kb s) = sys_logged s"
proof -
  let ?s0 = "klog_sys_init 2"
  have ok: "kb_ok (sys_kb ?s0)" "KLOG_ENTRY_SIZE < kb_size (sys_kb ?s0)"
    using klog_inv_init [of 2] by (simp_all add: klog_inv_def)
  obtain ret kb' where c: "klog_compose (sys_g ?s0) 1 REQ_GETS ''::1'' (Some ''now'') ''k'' 0 5 (sys_kb ?s0) = Some (ret, kb')"
    by (rule klog_compose_entry [OF ok, of 1]) simp_all
  have e: "klog_entry (sys_g ?s0) 1 REQ_GETS ''::1'' (Some ''now'') ''k'' 0 5 (sys_kb ?s0) = klog_text REQ_GETS ''::1'' ''now'' ''k'' 0 5"
    by (simp add: klog_entry_def klog_sys_init_def klog_buf_create_def klog_enabled_def used_def KLOG_ENTRY_SIZE_def klog_text_def
        dec_int_def dec.simps Let_def)
  define s1 where "s1 = ?s0\<lparr>sys_kb := kb', sys_pending := Some (ret, klog_text REQ_GETS ''::1'' ''now'' ''k'' 0 5)\<rparr>"
  define s2 where "s2 = s1\<lparr>sys_kb := klog_publish ret (sys_kb s1), sys_pending := None,
    sys_logged := sys_logged s1 @ klog_text REQ_GETS ''::1'' ''now'' ''k'' 0 5\<rparr>"
  have "sys_pending ?s0 = None" by (simp add: klog_sys_init_def)
  from klog_reach.step [OF klog_reach.start klog_step.compose [OF this c]]
  have "klog_reach 1 ?s0 s1" unfolding e s1_def .
  then have reach: "klog_reach 1 ?s0 s2"
    unfolding s2_def by (rule klog_reach.step) (rule klog_step.publish, simp add: s1_def)
  have "sys_logged s2 = klog_text REQ_GETS ''::1'' ''now'' ''k'' 0 5" "sys_pieces s2 = []"
    by (simp_all add: s2_def s1_def klog_sys_init_def)
  then show ?thesis using reach klog_no_loss [OF _ _ reach] by auto
qed

text \<open>C21: a call of \<open>_klog_write\<close> on a ring that is larger than an entry never faults. It appends to the ring
  exactly the formatted line, cut to 383 bytes, and leaves what is there as it is; it appends nothing when logging
  is off, the call is not sampled, an entry might not fit or the time cannot be formatted.\<close>

theorem klog_write_appends:
  assumes "kb_ok kb" "KLOG_ENTRY_SIZE < kb_size kb" "0 < rate"
  shows "\<exists>kb'. klog_write g rate rtype peer timestr cmdkey status res_len kb = Some kb' \<and> kb_ok kb'
    \<and> content kb' = content kb @ (if klog_enabled g \<and> (kb_entries kb + 1) mod rate = 0 \<and> used kb + KLOG_ENTRY_SIZE < kb_size kb
        then (case timestr of None \<Rightarrow> [] | Some ts \<Rightarrow> take 383 (klog_text rtype peer ts cmdkey status res_len)) else [])"
proof -
  obtain ret kb' where k: "klog_compose g rate rtype peer timestr cmdkey status res_len kb = Some (ret, kb')"
    "content kb' = content kb" "composed ret (klog_entry g rate rtype peer timestr cmdkey status res_len kb) kb'"
    by (rule klog_compose_entry [OF assms]) blast
  have e: "KLOG_ENTRY_SIZE - 1 = 383" by (simp add: KLOG_ENTRY_SIZE_def)
  have w: "klog_write g rate rtype peer timestr cmdkey status res_len kb = Some (klog_publish ret kb')"
    by (simp add: klog_write_def k(1))
  show ?thesis using k(3) unfolding w composed_def k(2) klog_entry_def e by blast
qed

theorem klog_write_appends_witness:
  "\<exists>kb'. klog_write \<lparr>kl_running = True, kl_open = True, kl_kfs = 0, kl_file = []\<rparr> 1 REQ_GETS ''::1'' (Some ''now'') ''k'' 0 5
       (the (klog_buf_create 2 True)) = Some kb' \<and> content kb' = klog_text REQ_GETS ''::1'' ''now'' ''k'' 0 5"
proof -
  let ?g = "\<lparr>kl_running = True, kl_open = True, kl_kfs = 0, kl_file = []\<rparr>" and ?kb = "the (klog_buf_create 2 True)"
  have ok: "kb_ok ?kb" "KLOG_ENTRY_SIZE < kb_size ?kb"
    using klog_inv_init [of 2] by (simp_all add: klog_inv_def klog_sys_init_def)
  have "content ?kb = []" "klog_enabled ?g" "used ?kb + KLOG_ENTRY_SIZE < kb_size ?kb"
    by (simp_all add: klog_buf_create_def content_def used_def klog_enabled_def KLOG_ENTRY_SIZE_def Let_def)
  moreover have "length (klog_text REQ_GETS ''::1'' ''now'' ''k'' 0 5) \<le> 383"
    by (simp add: klog_text_def dec_int_def dec.simps)
  ultimately show ?thesis
    using klog_write_appends [OF ok, of 1 ?g REQ_GETS "''::1''" "Some ''now''" "''k''" 0 5] by auto
qed

text \<open>The results of the writes when the disk takes everything.\<close>

definition full_writes :: "kbuf \<Rightarrow> int \<times> int \<times> bool" where
  "full_writes kb = (int (if kb_r_idx kb \<le> kb_w_idx kb then kb_w_idx kb - kb_r_idx kb else kb_size kb - kb_r_idx kb),
     int (kb_w_idx kb), True)"

lemma klog_read_full:
  assumes "kb_ok kb" "full_writes kb = (n1, n2, op)" "klog_read (kb_w_idx kb, kb_r_idx kb) n1 n2 op kb g = (ret, kb', g')"
  shows "content kb' = []" "kl_file g' = kl_file g @ content kb"
proof -
  let ?r = "kb_r_idx kb" and ?w = "kb_w_idx kb"
  note u = used_spec [OF assms(1)]
  have n: "n1 = int (if ?r \<le> ?w then ?w - ?r else kb_size kb - ?r)" "n2 = int ?w" "op" using assms(2) by (simp_all add: full_writes_def)
  have d: "kb_ok kb' \<and> kb_size kb' = kb_size kb \<and> 0 \<le> ret \<and> ret \<le> int (used kb) \<and> content kb' = drop (nat ret) (content kb)
      \<and> kl_file g' = kl_file g @ take (nat ret) (content kb)"
    using n u(2) by (intro klog_read_drains [OF assms(1) _ _ _ _ _ assms(3)]) simp_all
  have "ret = int (used kb)"
    using assms(3) used_cases [OF assms(1)] n assms(1)
    by (auto simp: klog_read_def klog_read_done_def Let_def kb_ok_def split: if_splits)
  then show "content kb' = []" "kl_file g' = kl_file g @ content kb" using d by simp_all
qed

text \<open>C38: when the second write of a round fails, the first piece has reached the file but stays in the
  ring, so it is in the log twice once the next round has written all there is: that round appends the
  first piece again, followed by the second.\<close>

theorem klog_second_write_fails:
  assumes "kb_w_idx kb < kb_r_idx kb" "kb_ok kb" "n2 < 0"
    and "klog_read (kb_w_idx kb, kb_r_idx kb) (int (kb_size kb - kb_r_idx kb)) n2 op kb g = (ret, kb', g')"
    and "full_writes kb' = (m1, m2, op')" "klog_read (kb_w_idx kb', kb_r_idx kb') m1 m2 op' kb' g' = (ret', kb'', g'')"
  shows "kl_file g' = kl_file g @ drop (kb_r_idx kb) (kb_buf kb)
    \<and> kl_file g'' = kl_file g @ drop (kb_r_idx kb) (kb_buf kb) @ drop (kb_r_idx kb) (kb_buf kb) @ take (kb_w_idx kb) (kb_buf kb)
    \<and> content kb'' = [] \<and> drop (kb_r_idx kb) (kb_buf kb) \<noteq> []"
proof -
  have f: "kb' = kb\<lparr>kb_errors := kb_errors kb + 1\<rparr>" "kl_file g' = kl_file g @ drop (kb_r_idx kb) (kb_buf kb)"
    using assms(1-4) by (auto simp: klog_read_def Let_def klog_read_error_def klog_emit_def kb_ok_def)
  have "content kb = drop (kb_r_idx kb) (kb_buf kb) @ take (kb_w_idx kb) (kb_buf kb)"
    using take_content [OF assms(2) order_refl] used_spec(2) [OF assms(2)] assms(1) by simp
  then have c: "content kb' = drop (kb_r_idx kb) (kb_buf kb) @ take (kb_w_idx kb) (kb_buf kb)" by (simp add: f(1))
  have ok: "kb_ok kb'" using assms(2) by (simp add: f(1))
  have "drop (kb_r_idx kb) (kb_buf kb) \<noteq> []" using assms(2) by (simp add: kb_ok_def)
  then show ?thesis using klog_read_full [OF ok assms(5,6)] c f(2) by simp
qed

theorem klog_second_write_fails_witness:
  "\<exists>kb' g' g''. klog_read (1, 2) 1 (- 1) True
      \<lparr>kb_r_idx = 2, kb_w_idx = 1, kb_entries = 0, kb_errors = 0, kb_buf = ''abc'', kb_size = 3\<rparr>
      \<lparr>kl_running = True, kl_open = True, kl_kfs = 0, kl_file = []\<rparr> = (0, kb', g')
    \<and> g'' = snd (snd (klog_read (1, 2) 1 1 True kb' g')) \<and> kl_file g'' = ''cca''"
proof -
  let ?kb = "\<lparr>kb_r_idx = 2, kb_w_idx = 1, kb_entries = 0, kb_errors = 0, kb_buf = ''abc'', kb_size = 3\<rparr>"
  let ?k2 = "\<lparr>kb_r_idx = 2, kb_w_idx = 1, kb_entries = 0, kb_errors = 1, kb_buf = ''abc'', kb_size = 3\<rparr>"
  let ?g = "\<lparr>kl_running = True, kl_open = True, kl_kfs = 0, kl_file = []\<rparr>"
  let ?g2 = "\<lparr>kl_running = True, kl_open = True, kl_kfs = 0, kl_file = ''c''\<rparr>"
  have r: "klog_read (1, 2) 1 (- 1) True ?kb ?g = (0, ?k2, ?g2)"
    by (simp add: klog_read_def klog_read_error_def klog_emit_def)
  obtain ret' kb'' g'' where r2: "klog_read (1, 2) 1 1 True ?k2 ?g2 = (ret', kb'', g'')" by (metis prod.exhaust)
  have "kl_file g'' = ''cca''"
    using klog_second_write_fails [of ?kb "- 1" True ?g 0 ?k2 ?g2 1 1 True ret' kb'' g''] r r2
    by (simp add: kb_ok_def full_writes_def)
  then show ?thesis using r r2 by auto
qed

text \<open>C22: a round of the collector in which every write is complete empties the rings of all workers and
  appends their contents to the file, worker by worker.\<close>

theorem klog_collect_drains:
  assumes "\<forall>kb \<in> set kbs. kb_ok kb" "klog_enabled g" "klog_collect (map full_writes kbs) kbs g = (kbs', g')"
  shows "length kbs' = length kbs \<and> (\<forall>kb \<in> set kbs'. content kb = []) \<and> kl_file g' = kl_file g @ concat (map content kbs)"
proof -
  have "length kbs' = length kbs \<and> (\<forall>kb \<in> set kbs'. content kb = []) \<and> kl_file g' = kl_file g @ concat (map content kbs)"
    if "\<forall>kb \<in> set kbs. kb_ok kb" "klog_collect_loop (map full_writes kbs) kbs g = (n, kbs', g')" for n kbs' g' g
    using that
  proof (induction kbs arbitrary: g n kbs' g')
    case (Cons kb kbs)
    obtain n1 n2 op where f: "full_writes kb = (n1, n2, op)" by (metis prod.exhaust)
    obtain ret kb1 g1 where r: "klog_read (kb_w_idx kb, kb_r_idx kb) n1 n2 op kb g = (ret, kb1, g1)" by (metis prod.exhaust)
    obtain m kbs1 g2 where l: "klog_collect_loop (map full_writes kbs) kbs g1 = (m, kbs1, g2)" by (metis prod.exhaust)
    have "kbs' = kb1 # kbs1" "g' = g2" using Cons.prems(2) f r l by auto
    then show ?case using klog_read_full [OF _ f r] Cons.IH [OF _ l] Cons.prems(1) by simp
  qed simp
  from this [OF assms(1)] show ?thesis using assms(2,3)
    by (metis klog_collect_def prod.collapse)
qed

theorem klog_collect_drains_witness:
  "kl_file (snd (klog_collect
      (map full_writes [\<lparr>kb_r_idx = 2, kb_w_idx = 1, kb_entries = 0, kb_errors = 0, kb_buf = ''abc'', kb_size = 3\<rparr>])
      [\<lparr>kb_r_idx = 2, kb_w_idx = 1, kb_entries = 0, kb_errors = 0, kb_buf = ''abc'', kb_size = 3\<rparr>]
      \<lparr>kl_running = True, kl_open = True, kl_kfs = 0, kl_file = []\<rparr>)) = ''ca''"
proof -
  let ?kb = "\<lparr>kb_r_idx = 2, kb_w_idx = 1, kb_entries = 0, kb_errors = 0, kb_buf = ''abc'', kb_size = 3\<rparr>"
  let ?g = "\<lparr>kl_running = True, kl_open = True, kl_kfs = 0, kl_file = []\<rparr>"
  have "content ?kb = ''ca''" by (simp add: content_def used_def upt_rec numeral_2_eq_2)
  then show ?thesis
    using klog_collect_drains [of "[?kb]" ?g, OF _ _ prod.collapse [symmetric]] by (simp add: kb_ok_def klog_enabled_def)
qed

end
