(* ===== verification/MC_Cache.thy ===== *)
theory MC_Cache
  imports MC_Prelude
begin

text \<open>
  The object cache, \<open>mc_cache.c\<close>: a growing stack of buffers of one size, so that buffers are reused
  rather than returned to the C heap. An address is a number; the results of \<open>malloc\<close>, \<open>calloc\<close> and
  \<open>realloc\<close> are inputs of the model, and \<open>None\<close> is \<open>NULL\<close>. The mutex has no counterpart: each
  operation runs under it.
\<close>

definition initial_pool_size :: nat where "initial_pool_size = 64"

text \<open>The array \<open>ptr\<close> is the memory behind the pointer, in words of eight bytes; its first \<open>freecurr\<close>
  entries are the free buffers. \<open>cache_create\<close> sizes it as 64 objects of \<open>bufsize\<close> bytes, not as 64 pointers.\<close>

record cache =
  ca_name :: bytes
  ca_ptr :: "nat list"
  ca_bufsize :: nat
  ca_freetotal :: nat
  ca_freecurr :: nat

definition cache_create :: "bytes \<Rightarrow> nat \<Rightarrow> bool \<times> bool \<times> bool \<times> bool \<Rightarrow> cache option" where
  "cache_create name bufsize oks =
    (let (ret_ok, name_ok, ptr_ok, mutex_ok) = oks in
     if \<not> ret_ok \<or> \<not> name_ok \<or> \<not> ptr_ok \<or> \<not> mutex_ok then None
     else Some \<lparr>ca_name = name, ca_ptr = replicate (initial_pool_size * bufsize div 8) 0, ca_bufsize = bufsize,
       ca_freetotal = initial_pool_size, ca_freecurr = 0\<rparr>)"

text \<open>The buffers \<open>cache_destroy\<close> frees, in the order it frees them.\<close>

fun destroy_loop :: "nat \<Rightarrow> nat list \<Rightarrow> nat list" where
  "destroy_loop 0 ptr = []"
| "destroy_loop (Suc n) ptr = ptr ! n # destroy_loop n ptr"

definition cache_destroy :: "cache \<Rightarrow> nat list" where
  "cache_destroy c = destroy_loop (ca_freecurr c) (ca_ptr c)"

definition cache_alloc :: "nat option \<Rightarrow> cache \<Rightarrow> nat option \<times> cache" where
  "cache_alloc malloc c =
    (if ca_freecurr c > 0
     then (Some (ca_ptr c ! (ca_freecurr c - 1)), c\<lparr>ca_freecurr := ca_freecurr c - 1\<rparr>)
     else (malloc, c))"

text \<open>The first result is whether the buffer was kept; otherwise it was returned to the C heap. A write
  behind the array and an overflow of the \<open>int\<close> product are faults.\<close>

definition ptr_write :: "nat \<Rightarrow> nat \<Rightarrow> nat list \<Rightarrow> nat list option" where
  "ptr_write i b ptr = (if i < length ptr then Some (ptr[i := b]) else None)"

definition ptr_realloc :: "nat \<Rightarrow> nat list \<Rightarrow> nat list" where
  "ptr_realloc n ptr = take n ptr @ replicate (n - length ptr) 0"

definition cache_free :: "bool \<Rightarrow> nat \<Rightarrow> cache \<Rightarrow> (bool \<times> cache) option" where
  "cache_free realloc_ok buf c =
    (if ca_freecurr c < ca_freetotal c
     then do {
       ptr \<leftarrow> ptr_write (ca_freecurr c) buf (ca_ptr c);
       Some (True, c\<lparr>ca_ptr := ptr, ca_freecurr := ca_freecurr c + 1\<rparr>) }
     else if ca_freetotal c * 2 \<ge> 2 ^ 31 then None
     else (let newtotal = ca_freetotal c * 2 in
       if realloc_ok
       then do {
         ptr \<leftarrow> ptr_write (ca_freecurr c) buf (ptr_realloc newtotal (ca_ptr c));
         Some (True, c\<lparr>ca_freetotal := newtotal, ca_ptr := ptr, ca_freecurr := ca_freecurr c + 1\<rparr>) }
       else Some (False, c)))"

subsection \<open>The cache as a stack\<close>

definition cache_ok :: "cache \<Rightarrow> bool" where
  "cache_ok c \<longleftrightarrow> ca_freetotal c \<le> length (ca_ptr c) \<and> ca_freecurr c \<le> ca_freetotal c \<and> 0 < ca_freetotal c"

definition stack :: "cache \<Rightarrow> nat list" where
  "stack c = rev (take (ca_freecurr c) (ca_ptr c))"

lemma cache_create_stack:
  "cache_create name bufsize oks = Some c \<Longrightarrow> 8 \<le> bufsize \<Longrightarrow> cache_ok c \<and> stack c = []"
  by (auto simp: cache_create_def cache_ok_def stack_def initial_pool_size_def split: if_splits prod.splits)

lemma cache_alloc_stack:
  assumes "cache_ok c" "cache_alloc malloc c = (r, c')"
  shows "cache_ok c'" "case stack c of [] \<Rightarrow> r = malloc \<and> c' = c | b # s \<Rightarrow> r = Some b \<and> stack c' = s"
proof -
  show "cache_ok c'" using assms by (auto simp: cache_alloc_def cache_ok_def split: if_splits)
  show "case stack c of [] \<Rightarrow> r = malloc \<and> c' = c | b # s \<Rightarrow> r = Some b \<and> stack c' = s"
  proof (cases "ca_freecurr c")
    case 0
    then show ?thesis using assms by (simp add: stack_def cache_alloc_def)
  next
    case (Suc n)
    then have "take (Suc n) (ca_ptr c) = take n (ca_ptr c) @ [ca_ptr c ! n]"
      using assms(1) by (simp add: cache_ok_def take_Suc_conv_app_nth)
    then show ?thesis using assms Suc by (auto simp: stack_def cache_alloc_def)
  qed
qed

lemma ptr_write_take:
  "ptr_write n b xs = Some ys \<Longrightarrow> length ys = length xs \<and> take (Suc n) ys = take n xs @ [b]"
  by (auto simp: ptr_write_def take_Suc_conv_app_nth split: if_splits)

lemma ptr_realloc_take: "n \<le> m \<Longrightarrow> n \<le> length xs \<Longrightarrow> take n (ptr_realloc m xs) = take n xs"
  by (simp add: ptr_realloc_def min_def)

lemma cache_free_stack:
  assumes "cache_ok c" "cache_free ok buf c = Some (kept, c')"
  shows "cache_ok c'" "kept \<Longrightarrow> stack c' = buf # stack c" "\<not> kept \<Longrightarrow> c' = c \<and> \<not> ok"
proof -
  have len: "n \<le> length (ptr_realloc n xs)" for n xs by (simp add: ptr_realloc_def)
  show "cache_ok c'"
    using assms len by (fastforce simp: cache_free_def cache_ok_def Let_def dest: ptr_write_take
        split: if_splits Option.bind_splits)
  show "kept \<Longrightarrow> stack c' = buf # stack c"
    using assms by (auto simp: cache_free_def cache_ok_def Let_def stack_def ptr_realloc_take
        dest!: ptr_write_take split: if_splits Option.bind_splits)
  show "\<not> kept \<Longrightarrow> c' = c \<and> \<not> ok"
    using assms by (auto simp: cache_free_def Let_def split: if_splits Option.bind_splits)
qed

lemma cache_free_total:
  assumes "cache_ok c" "ca_freetotal c < 2 ^ 30"
  shows "cache_free ok buf c \<noteq> None"
  using assms by (auto simp: cache_free_def cache_ok_def Let_def ptr_write_def ptr_realloc_def)

lemma cache_destroy_stack: "cache_ok c \<Longrightarrow> cache_destroy c = stack c"
proof -
  have "n \<le> length ptr \<Longrightarrow> destroy_loop n ptr = rev (take n ptr)" for n ptr
    by (induction n) (simp_all add: take_Suc_conv_app_nth)
  then show "cache_ok c \<Longrightarrow> cache_destroy c = stack c" by (simp add: cache_destroy_def stack_def cache_ok_def)
qed

subsection \<open>Buffers in use\<close>

text \<open>\<open>inuse\<close> are the buffers clients hold. \<open>malloc\<close> returns an address that is neither in use nor free.\<close>

inductive cache_step :: "cache \<times> nat set \<Rightarrow> cache \<times> nat set \<Rightarrow> bool" where
  alloc: "cache_alloc malloc c = (r, c') \<Longrightarrow> (\<forall>a. malloc = Some a \<longrightarrow> a \<notin> inuse \<and> a \<notin> set (stack c)) \<Longrightarrow>
     cache_step (c, inuse) (c', inuse \<union> set_option r)"
| free: "buf \<in> inuse \<Longrightarrow> cache_free ok buf c = Some (kept, c') \<Longrightarrow> cache_step (c, inuse) (c', inuse - {buf})"

inductive cache_reach :: "cache \<Rightarrow> cache \<times> nat set \<Rightarrow> bool" for c0 where
  start: "cache_reach c0 (c0, {})"
| step: "cache_reach c0 s \<Longrightarrow> cache_step s s' \<Longrightarrow> cache_reach c0 s'"

inductive_cases cache_stepE: "cache_step (c, inuse) s"

lemma cache_reach_inv:
  assumes "cache_reach c0 s" "cache_ok c0" "stack c0 = []"
  shows "cache_ok (fst s) \<and> distinct (stack (fst s)) \<and> set (stack (fst s)) \<inter> snd s = {}"
  using assms
proof (induction rule: cache_reach.induct)
  case (step s s')
  obtain c inuse where s: "s = (c, inuse)" by force
  have i: "cache_ok c" "distinct (stack c)" "set (stack c) \<inter> inuse = {}" using step s by simp_all
  from step(2) [unfolded s] show ?case
  proof (rule cache_stepE)
    fix malloc r c' assume a: "s' = (c', inuse \<union> set_option r)" "cache_alloc malloc c = (r, c')"
      "\<forall>a. malloc = Some a \<longrightarrow> a \<notin> inuse \<and> a \<notin> set (stack c)"
    note st = cache_alloc_stack [OF i(1) a(2)]
    show ?thesis
    proof (cases "stack c")
      case Nil
      then show ?thesis using st a i by (auto split: option.splits)
    next
      case (Cons b bs)
      then show ?thesis using st a(1) i by auto
    qed
  next
    fix buf ok kept c' assume a: "s' = (c', inuse - {buf})" "buf \<in> inuse" "cache_free ok buf c = Some (kept, c')"
    note st = cache_free_stack [OF i(1) a(3)]
    show ?thesis using st a(1,2) i by (cases kept) auto
  qed
qed simp

text \<open>C30: a buffer is never handed to two clients: whatever the sequence of operations, the next
  allocation returns a buffer that nobody holds.\<close>

theorem cache_alloc_exclusive:
  assumes "cache_create name bufsize oks = Some c0" "8 \<le> bufsize" "cache_reach c0 (c, inuse)" "cache_alloc malloc c = (Some b, c')"
    and "\<forall>a. malloc = Some a \<longrightarrow> a \<notin> inuse"
  shows "b \<notin> inuse"
proof -
  have i: "cache_ok c" "set (stack c) \<inter> inuse = {}"
    using cache_reach_inv [OF assms(3)] cache_create_stack [OF assms(1,2)] by auto
  show ?thesis using cache_alloc_stack(2) [OF i(1) assms(4)] i(2) assms(5) by (cases "stack c") auto
qed

theorem cache_alloc_exclusive_witness:
  "\<exists>c c'. cache_reach (the (cache_create ''suffix'' 24 (True, True, True, True))) (c, {8, 9})
     \<and> cache_alloc (Some 10) c = (Some 7, c') \<and> (7 :: nat) \<notin> {8, 9}"
proof -
  let ?c0 = "the (cache_create ''suffix'' 24 (True, True, True, True))"
  have c0: "cache_create ''suffix'' 24 (True, True, True, True) = Some ?c0" by (simp add: cache_create_def)
  have z: "ca_freecurr ?c0 = 0" "ca_freetotal ?c0 = 64" "length (ca_ptr ?c0) = 192" "stack ?c0 = []"
    by (simp_all add: cache_create_def stack_def initial_pool_size_def)
  have al: "cache_alloc m ?c0 = (m, ?c0)" for m by (simp add: cache_alloc_def z)
  have 1: "cache_reach ?c0 (?c0, {7})"
    using cache_reach.step [OF cache_reach.start cache_step.alloc [OF al [of "Some 7"]]] by (simp add: z)
  have 2: "cache_reach ?c0 (?c0, {8, 7})"
    using cache_reach.step [OF 1 cache_step.alloc [OF al [of "Some 8"]]] by (simp add: z insert_commute)
  have 3: "cache_reach ?c0 (?c0, {9, 8, 7})"
    using cache_reach.step [OF 2 cache_step.alloc [OF al [of "Some 9"]]] by (simp add: z insert_commute)
  let ?c1 = "?c0\<lparr>ca_ptr := (ca_ptr ?c0)[0 := 7], ca_freecurr := 1\<rparr>"
  have f: "cache_free True 7 ?c0 = Some (True, ?c1)" by (simp add: cache_free_def ptr_write_def z)
  have "{9, 8, 7} - {7} = {8, 9 :: nat}" by auto
  then have 4: "cache_reach ?c0 (?c1, {8, 9})" using cache_reach.step [OF 3 cache_step.free [OF _ f]] by simp
  have a: "cache_alloc (Some 10) ?c1 = (Some 7, ?c1\<lparr>ca_freecurr := 0\<rparr>)" by (simp add: cache_alloc_def z)
  from cache_alloc_exclusive [OF c0 _ 4 a] have "(7 :: nat) \<notin> {8, 9}" by simp
  then show ?thesis using 4 a by blast
qed

end
