(* ===== verification/MC_Slabs.thy ===== *)
theory MC_Slabs
  imports MC_State
begin

text \<open>
  The slab allocator, \<open>mc_slabs.c\<close>, with the item primitives of \<open>mc_items.c\<close> it shares the queues
  with: reference counts, the LRU queues and \<open>item_reuse\<close>, which eviction calls. The functions
  that \<open>mc_slabs.c\<close> parameterises by a target slab class table and heap info take a boolean that
  selects the reserved pool. Slab class ids are naturals: the ids of the configured classes are
  at most 254, so the 8-bit arithmetic of the source never wraps. \<open>None\<close> is a fault of the
  source: a queue removal of an element that is not on the queue, an index outside an array, a
  division by zero.
\<close>

subsection \<open>Reference counts and headers\<close>

definition item_next_cas :: "mc \<Rightarrow> u64 \<times> mc" where
  "item_next_cas st =
    (if set_use_cas (st_settings st)
     then (st_cas_id st + 1, st\<lparr>st_cas_id := st_cas_id st + 1\<rparr>) else (0, st))"

definition item_expired :: "ptr \<Rightarrow> mc \<Rightarrow> bool" where
  "item_expired p st \<longleftrightarrow> it_exptime (heap_at st p) > 0 \<and> it_exptime (heap_at st p) < st_now st"

definition item_2_slab :: "ptr \<Rightarrow> nat" where
  "item_2_slab p = fst p"

definition slab_acquire_refcount :: "nat \<Rightarrow> mc \<Rightarrow> mc" where
  "slab_acquire_refcount sl = upd_slab sl (\<lambda>s. s\<lparr>sl_refcount := sl_refcount s + 1\<rparr>)"

definition slab_release_refcount :: "nat \<Rightarrow> mc \<Rightarrow> mc" where
  "slab_release_refcount sl = upd_slab sl (\<lambda>s. s\<lparr>sl_refcount := sl_refcount s - 1\<rparr>)"

definition item_acquire_refcount :: "ptr \<Rightarrow> mc \<Rightarrow> mc" where
  "item_acquire_refcount p st = slab_acquire_refcount (item_2_slab p)
     (upd_item p (\<lambda>it. it\<lparr>it_refcount := it_refcount it + 1\<rparr>) st)"

definition item_release_refcount :: "ptr \<Rightarrow> mc \<Rightarrow> mc" where
  "item_release_refcount p st = slab_release_refcount (item_2_slab p)
     (upd_item p (\<lambda>it. it\<lparr>it_refcount := it_refcount it - 1\<rparr>) st)"

definition item_set_pinned :: "ptr \<Rightarrow> mc \<Rightarrow> mc" where
  "item_set_pinned p st = item_acquire_refcount p st"

definition item_unset_pinned :: "ptr \<Rightarrow> mc \<Rightarrow> mc" where
  "item_unset_pinned p st = item_release_refcount p st"

text \<open>\<open>item_hdr_init\<close> leaves the payload as it is; the payload of a chunk that is carved anew is
  unspecified memory of the size of the class, here zero bytes.\<close>

definition item_hdr_init :: "ptr \<Rightarrow> nat \<Rightarrow> nat \<Rightarrow> nat \<Rightarrow> mc \<Rightarrow> mc" where
  "item_hdr_init p offset cid sz = upd_item p (\<lambda>it. it\<lparr>it_offset := offset, it_id := cid,
     it_refcount := 0, it_flags := {}, it_end := replicate (sz - ITEM_HDR_SIZE) (CHR 0x00)\<rparr>)"

subsection \<open>Slab LRU queue\<close>

definition SLAB_LRU_UPDATE_INTERVAL :: u32 where
  "SLAB_LRU_UPDATE_INTERVAL = 1"

definition slab_lruq_append :: "bool \<Rightarrow> nat \<Rightarrow> mc \<Rightarrow> mc" where
  "slab_lruq_append res sl = upd_heapinfo res (\<lambda>h. h\<lparr>hi_slab_lruq := hi_slab_lruq h @ [sl]\<rparr>)"

definition slab_lruq_remove :: "bool \<Rightarrow> nat \<Rightarrow> mc \<Rightarrow> mc option" where
  "slab_lruq_remove res sl st = (case tq_remove sl (hi_slab_lruq (heapinfo_of res st)) of
     None \<Rightarrow> None
   | Some q \<Rightarrow> Some (upd_heapinfo res (\<lambda>h. h\<lparr>hi_slab_lruq := q\<rparr>) st))"

definition slab_link_lruq :: "bool \<Rightarrow> nat \<Rightarrow> mc \<Rightarrow> mc" where
  "slab_link_lruq res sl st =
    slab_lruq_append res sl (upd_slab sl (\<lambda>s. s\<lparr>sl_utime := st_now st\<rparr>) st)"

definition slab_lruq_touch :: "bool \<Rightarrow> nat \<Rightarrow> bool \<Rightarrow> mc \<Rightarrow> mc option" where
  "slab_lruq_touch res sl allocated st =
    (let opt = set_evict_opt (st_settings st) in
     if \<not> (allocated \<and> EVICT_CS \<in> opt) \<and> \<not> EVICT_AS \<in> opt then Some st
     else if sl_utime (st_slabs st sl) \<ge> st_now st - SLAB_LRU_UPDATE_INTERVAL then Some st
     else do {
       st \<leftarrow> slab_lruq_remove res sl st;
       Some (slab_link_lruq res sl st)
     })"

subsection \<open>Item LRU queues\<close>

definition item_link_q :: "ptr \<Rightarrow> bool \<Rightarrow> mc \<Rightarrow> mc option" where
  "item_link_q p allocated st =
    (let st = upd_item p (\<lambda>it. it\<lparr>it_atime := st_now st\<rparr>) st;
         res = item_is_lease_holder (heap_at st p);
         cid = it_id (heap_at st p);
         st = upd_lruq res cid (lruq_of res st cid @ [p]) st
     in slab_lruq_touch res (item_2_slab p) allocated st)"

definition item_unlink_q :: "ptr \<Rightarrow> mc \<Rightarrow> mc option" where
  "item_unlink_q p st =
    (let res = item_is_lease_holder (heap_at st p);
         cid = it_id (heap_at st p)
     in case tq_remove p (lruq_of res st cid) of
          None \<Rightarrow> None
        | Some q \<Rightarrow> Some (upd_lruq res cid q st))"

definition item_assoc_delete :: "ptr \<Rightarrow> mc \<Rightarrow> mc option" where
  "item_assoc_delete p st = (case assoc_delete (key_at st) (key_at st p) (st_assoc st) of
     None \<Rightarrow> None
   | Some a \<Rightarrow> Some (st\<lparr>st_assoc := a\<rparr>))"

definition clear_flag :: "item_flag \<Rightarrow> ptr \<Rightarrow> mc \<Rightarrow> mc" where
  "clear_flag f p = upd_item p (\<lambda>it. it\<lparr>it_flags := it_flags it - {f}\<rparr>)"

definition set_flag :: "item_flag \<Rightarrow> ptr \<Rightarrow> mc \<Rightarrow> mc" where
  "set_flag f p = upd_item p (\<lambda>it. it\<lparr>it_flags := insert f (it_flags it)\<rparr>)"

definition item_reuse :: "ptr \<Rightarrow> mc \<Rightarrow> mc option" where
  "item_reuse p st = do {
     let st = (if item_is_lease_holder (heap_at st p) then item_unset_pinned p st else st);
     let st = clear_flag ITEM_LINKED p st;
     st \<leftarrow> item_assoc_delete p st;
     item_unlink_q p st
   }"

subsection \<open>Slab classes\<close>

definition slab_size :: "mc \<Rightarrow> nat" where
  "slab_size st = set_slab_size (st_settings st) - SLAB_HDR_SIZE"

definition slab_has_reserved_slabs :: "mc \<Rightarrow> bool" where
  "slab_has_reserved_slabs st \<longleftrightarrow> set_reserved_percentage (st_settings st) > 0"

text \<open>The binary search of \<open>_slab_id\<close> over the class sizes; \<open>None\<close> is leaving the loop by its
  condition.\<close>

function slab_id_loop :: "(nat \<Rightarrow> nat) \<Rightarrow> nat \<Rightarrow> nat \<Rightarrow> nat \<Rightarrow> nat option" where
  "slab_id_loop sizes sz imin imax =
    (if imax \<ge> imin then
       (let cid = (imin + imax) div 2 in
        if sz > sizes cid then slab_id_loop sizes sz (cid + 1) imax
        else if cid > SLABCLASS_MIN_ID \<and> sz \<le> sizes (cid - 1) then slab_id_loop sizes sz imin (cid - 1)
        else Some cid)
     else None)"
  by pat_completeness auto
termination
  by (relation "measure (\<lambda>(s, z, imin, imax). Suc imax - imin)") (auto simp: SLABCLASS_MIN_ID_def)

lemmas [simp del] = slab_id_loop.simps

definition slab_id_of :: "bool \<Rightarrow> nat \<Rightarrow> mc \<Rightarrow> nat" where
  "slab_id_of res sz st =
    (case slab_id_loop (\<lambda>i. sc_size (slabclass_of res st i)) sz SLABCLASS_MIN_ID (st_slabclass_max_id st) of
       None \<Rightarrow> SLABCLASS_INVALID_ID
     | Some cid \<Rightarrow> cid)"

definition slab_id :: "nat \<Rightarrow> mc \<Rightarrow> nat" where
  "slab_id sz st = slab_id_of False sz st"

definition slab_reserved_id :: "nat \<Rightarrow> mc \<Rightarrow> nat" where
  "slab_reserved_id sz st = slab_id_of True sz st"

definition slab_class_new :: "nat \<Rightarrow> nat \<Rightarrow> slabclass" where
  "slab_class_new ssize item_sz = \<lparr>sc_nitem = ssize div item_sz, sc_size = item_sz,
     sc_nfree_itemq = 0, sc_free_itemq = [], sc_nfree_item = 0, sc_free_item = None\<rparr>"

definition slab_slabclass_init :: "mc \<Rightarrow> mc" where
  "slab_slabclass_init st =
    (let profile = set_profile (st_settings st);
         max_id = length profile - 1;
         init = (\<lambda>tab cid. if SLABCLASS_MIN_ID \<le> cid \<and> cid \<le> max_id
                   then slab_class_new (slab_size st) (profile ! cid) else tab cid)
     in st\<lparr>st_slabclass_max_id := max_id, st_slabclass := init (st_slabclass st),
           st_reserved_slabclass := init (st_reserved_slabclass st)\<rparr>)"

text \<open>The environment: the next outcome of \<open>mc_alloc\<close> and of \<open>rand\<close>.\<close>

definition mc_alloc_next :: "mc \<Rightarrow> bool \<times> mc" where
  "mc_alloc_next st = (st_malloc_ok st (st_env_pos st), st\<lparr>st_env_pos := st_env_pos st + 1\<rparr>)"

definition rand_next :: "mc \<Rightarrow> nat \<times> mc" where
  "rand_next st = (st_rand st (st_env_pos st), st\<lparr>st_env_pos := st_env_pos st + 1\<rparr>)"

text \<open>The boolean result is \<open>MC_OK\<close>; the two allocations are that of the whole heap, when it is
  preallocated, and that of the slab table.\<close>

definition slab_heapinfo_init :: "bool \<Rightarrow> nat \<Rightarrow> mc \<Rightarrow> bool \<times> mc" where
  "slab_heapinfo_init res maxbytes st =
    (let st = upd_heapinfo res (\<lambda>h. h\<lparr>hi_nslab := 0, hi_max_nslab := maxbytes div set_slab_size (st_settings st)\<rparr>) st;
         (ok, st) = (if set_prealloc (st_settings st) then mc_alloc_next st else (True, st))
     in if \<not> ok then (False, st)
        else (let (ok, st) = mc_alloc_next st in
          if \<not> ok then (False, st)
          else (True, upd_heapinfo res (\<lambda>h. h\<lparr>hi_slab_table := [], hi_slab_lruq := []\<rparr>) st)))"

definition slab_init :: "mc \<Rightarrow> bool \<times> mc" where
  "slab_init st =
    (let st = slab_slabclass_init st;
         (ok, st) = slab_heapinfo_init False (set_maxbytes (st_settings st)) st
     in if ok \<and> slab_has_reserved_slabs st
        then slab_heapinfo_init True (set_reserved_maxbytes (st_settings st)) st
        else (ok, st))"

subsection \<open>Slabs\<close>

definition slab_hdr_init :: "nat \<Rightarrow> nat \<Rightarrow> mc \<Rightarrow> mc" where
  "slab_hdr_init sl cid = upd_slab sl (\<lambda>s. s\<lparr>sl_id := cid, sl_refcount := 0\<rparr>)"

definition slab_heap_full :: "bool \<Rightarrow> mc \<Rightarrow> bool" where
  "slab_heap_full res st \<longleftrightarrow> hi_nslab (heapinfo_of res st) \<ge> hi_max_nslab (heapinfo_of res st)"

text \<open>A slab is carved from the preallocated heap or allocated; either way it is a new one.\<close>

definition slab_heap_alloc :: "mc \<Rightarrow> nat option \<times> mc" where
  "slab_heap_alloc st =
    (let (ok, st) = (if set_prealloc (st_settings st) then (True, st) else mc_alloc_next st) in
     if ok then (Some (st_next_slab st), st\<lparr>st_next_slab := st_next_slab st + 1\<rparr>) else (None, st))"

definition slab_table_update :: "bool \<Rightarrow> nat \<Rightarrow> mc \<Rightarrow> mc" where
  "slab_table_update res sl =
    upd_heapinfo res (\<lambda>h. h\<lparr>hi_slab_table := hi_slab_table h @ [sl], hi_nslab := hi_nslab h + 1\<rparr>)"

definition slab_table_rand :: "bool \<Rightarrow> mc \<Rightarrow> (nat \<times> mc) option" where
  "slab_table_rand res st =
    (let (r, st) = rand_next st; h = heapinfo_of res st in
     if hi_nslab h = 0 \<or> hi_nslab h > length (hi_slab_table h) then None
     else Some (hi_slab_table h ! (r mod hi_nslab h), st))"

definition slab_get_new :: "bool \<Rightarrow> mc \<Rightarrow> nat option \<times> mc" where
  "slab_get_new res st =
    (if slab_heap_full res st then (None, st)
     else case slab_heap_alloc st of
       (None, st) \<Rightarrow> (None, st)
     | (Some sl, st) \<Rightarrow> (Some sl, slab_table_update res sl st))"

subsection \<open>Eviction of a slab\<close>

definition slab_evict_item :: "bool \<Rightarrow> nat \<Rightarrow> nat \<Rightarrow> mc \<Rightarrow> mc option" where
  "slab_evict_item res sl i st =
    (let p = (sl, i); cid = sl_id (st_slabs st sl) in
     if item_is_linked (heap_at st p) then item_reuse p st
     else if item_is_slabbed (heap_at st p) then
       (let st = clear_flag ITEM_SLABBED p st in
        case tq_remove p (sc_free_itemq (slabclass_of res st cid)) of
          None \<Rightarrow> None
        | Some q \<Rightarrow> Some (upd_class res cid
            (\<lambda>c. c\<lparr>sc_nfree_itemq := sc_nfree_itemq c - 1, sc_free_itemq := q\<rparr>) st))
     else Some st)"

definition slab_evict_one :: "bool \<Rightarrow> nat \<Rightarrow> mc \<Rightarrow> mc option" where
  "slab_evict_one res sl st = do {
     let cid = sl_id (st_slabs st sl);
     let st = (case sc_free_item (slabclass_of res st cid) of
         Some p \<Rightarrow> if item_2_slab p = sl
           then upd_class res cid (\<lambda>c. c\<lparr>sc_nfree_item := 0, sc_free_item := None\<rparr>) st else st
       | None \<Rightarrow> st);
     st \<leftarrow> foldm (slab_evict_item res sl) [0..<sc_nitem (slabclass_of res st cid)] st;
     slab_lruq_remove res sl st
   }"

definition SLAB_RAND_MAX_TRIES :: nat where "SLAB_RAND_MAX_TRIES = 50"
definition SLAB_LRU_MAX_TRIES :: nat where "SLAB_LRU_MAX_TRIES = 50"

text \<open>The loop that draws a random slab: the slab and the tries left when it ends.\<close>

fun slab_rand_loop :: "bool \<Rightarrow> nat \<Rightarrow> mc \<Rightarrow> (nat \<times> nat \<times> mc) option" where
  "slab_rand_loop res 0 st = None"
| "slab_rand_loop res (Suc tries) st =
    (case slab_table_rand res st of
       None \<Rightarrow> None
     | Some (sl, st) \<Rightarrow>
         if tries > 0 \<and> sl_refcount (st_slabs st sl) \<noteq> 0 then slab_rand_loop res tries st
         else Some (sl, tries, st))"

definition slab_evict_rand :: "bool \<Rightarrow> mc \<Rightarrow> (nat option \<times> mc) option" where
  "slab_evict_rand res st = do {
     (sl, tries, st) \<leftarrow> slab_rand_loop res SLAB_RAND_MAX_TRIES st;
     if tries = 0 then Some (None, st)
     else do { st \<leftarrow> slab_evict_one res sl st; Some (Some sl, st) }
   }"

definition slab_evict_lru :: "bool \<Rightarrow> mc \<Rightarrow> (nat option \<times> mc) option" where
  "slab_evict_lru res st =
    (case find (\<lambda>sl. sl_refcount (st_slabs st sl) = 0)
            (take SLAB_LRU_MAX_TRIES (hi_slab_lruq (heapinfo_of res st))) of
       None \<Rightarrow> Some (None, st)
     | Some sl \<Rightarrow> do { st \<leftarrow> slab_evict_one res sl st; Some (Some sl, st) })"

subsection \<open>Obtaining an item\<close>

definition slab_add_one :: "bool \<Rightarrow> nat \<Rightarrow> nat \<Rightarrow> mc \<Rightarrow> mc" where
  "slab_add_one res sl cid st =
    (let c = slabclass_of res st cid;
         st = slab_hdr_init sl cid st;
         st = slab_lruq_append res sl st;
         st = fold (\<lambda>i. item_hdr_init (sl, i) (SLAB_HDR_SIZE + i * sc_size c) cid (sc_size c))
                [0..<sc_nitem c] st
     in upd_class res cid (\<lambda>c. c\<lparr>sc_nfree_item := sc_nitem c, sc_free_item := Some (sl, 0)\<rparr>) st)"

definition slab_get :: "bool \<Rightarrow> nat \<Rightarrow> mc \<Rightarrow> (bool \<times> mc) option" where
  "slab_get res cid st = do {
     let opt = set_evict_opt (st_settings st);
     let (slab, st) = slab_get_new res st;
     (slab, st) \<leftarrow> (if slab = None \<and> (EVICT_CS \<in> opt \<or> EVICT_AS \<in> opt)
                    then slab_evict_lru res st else Some (slab, st));
     (slab, st) \<leftarrow> (if slab = None \<and> EVICT_RS \<in> opt
                    then slab_evict_rand res st else Some (slab, st));
     case slab of
       Some sl \<Rightarrow> Some (True, slab_add_one res sl cid st)
     | None \<Rightarrow> Some (False, st)
   }"

definition slab_get_evict :: "bool \<Rightarrow> nat \<Rightarrow> mc \<Rightarrow> (bool \<times> mc) option" where
  "slab_get_evict res cid st = do {
     (slab, st) \<leftarrow> slab_evict_rand res st;
     case slab of
       Some sl \<Rightarrow> Some (True, slab_add_one res sl cid st)
     | None \<Rightarrow> Some (False, st)
   }"

definition slab_get_item_from_freeq :: "bool \<Rightarrow> nat \<Rightarrow> mc \<Rightarrow> (ptr option \<times> mc) option" where
  "slab_get_item_from_freeq res cid st =
    (if \<not> set_use_freeq (st_settings st) then Some (None, st)
     else let c = slabclass_of res st cid in
       if sc_nfree_itemq c = 0 then Some (None, st)
       else case sc_free_itemq c of
         [] \<Rightarrow> None
       | p # q \<Rightarrow> Some (Some p, upd_class res cid
           (\<lambda>c. c\<lparr>sc_nfree_itemq := sc_nfree_itemq c - 1, sc_free_itemq := q\<rparr>) (clear_flag ITEM_SLABBED p st)))"

text \<open>The next item of the current slab, common to the two ways of getting one. \<open>--p->nfree_item\<close>
  wraps at zero, which the class never is while \<open>free_item\<close> is set.\<close>

definition slab_take_free_item :: "bool \<Rightarrow> nat \<Rightarrow> mc \<Rightarrow> (ptr option \<times> mc) option" where
  "slab_take_free_item res cid st =
    (let c = slabclass_of res st cid in
     case sc_free_item c of
       None \<Rightarrow> None
     | Some (sl, i) \<Rightarrow>
         let n = (if sc_nfree_item c = 0 then 2 ^ 32 - 1 else sc_nfree_item c - 1);
             nxt = (if n \<noteq> 0 then Some (sl, i + 1) else None)
         in Some (Some (sl, i), upd_class res cid (\<lambda>c. c\<lparr>sc_nfree_item := n, sc_free_item := nxt\<rparr>) st))"

definition slab_get_item_of :: "bool \<Rightarrow> nat \<Rightarrow> mc \<Rightarrow> (ptr option \<times> mc) option" where
  "slab_get_item_of res cid st = do {
     (it, st) \<leftarrow> slab_get_item_from_freeq res cid st;
     case it of
       Some p \<Rightarrow> Some (Some p, st)
     | None \<Rightarrow> do {
         (ok, st) \<leftarrow> (if sc_free_item (slabclass_of res st cid) = None
                      then slab_get res cid st else Some (True, st));
         if \<not> ok then Some (None, st) else slab_take_free_item res cid st
       }
   }"

definition slab_get_item_by_evict_of :: "bool \<Rightarrow> nat \<Rightarrow> mc \<Rightarrow> (ptr option \<times> mc) option" where
  "slab_get_item_by_evict_of res cid st = do {
     (ok, st) \<leftarrow> (if sc_free_item (slabclass_of res st cid) = None
                  then slab_get_evict res cid st else Some (True, st));
     if \<not> ok then Some (None, st) else slab_take_free_item res cid st
   }"

definition slab_get_item :: "nat \<Rightarrow> mc \<Rightarrow> (ptr option \<times> mc) option" where
  "slab_get_item cid st = slab_get_item_of False cid st"

definition slab_get_item_by_evict_slab :: "nat \<Rightarrow> mc \<Rightarrow> (ptr option \<times> mc) option" where
  "slab_get_item_by_evict_slab cid st = slab_get_item_by_evict_of False cid st"

definition slab_get_item_by_evict_reserved_slab :: "nat \<Rightarrow> mc \<Rightarrow> (ptr option \<times> mc) option" where
  "slab_get_item_by_evict_reserved_slab cid st = slab_get_item_by_evict_of True cid st"

definition slab_get_reserved_item :: "nat \<Rightarrow> mc \<Rightarrow> (ptr option \<times> mc) option" where
  "slab_get_reserved_item cid st = slab_get_item_of (slab_has_reserved_slabs st) cid st"

definition slab_put_item_into_freeq :: "bool \<Rightarrow> ptr \<Rightarrow> mc \<Rightarrow> mc" where
  "slab_put_item_into_freeq res p st =
    (let cid = it_id (heap_at st p) in
     upd_class res cid (\<lambda>c. c\<lparr>sc_nfree_itemq := sc_nfree_itemq c + 1, sc_free_itemq := p # sc_free_itemq c\<rparr>)
       (set_flag ITEM_SLABBED p st))"

definition slab_put_item :: "ptr \<Rightarrow> mc \<Rightarrow> mc" where
  "slab_put_item p st = slab_put_item_into_freeq False p st"

definition slab_put_reserved_item :: "ptr \<Rightarrow> mc \<Rightarrow> mc" where
  "slab_put_reserved_item p st = slab_put_item_into_freeq (slab_has_reserved_slabs st) p st"

subsection \<open>The class of a size\<close>

lemma slab_id_loop_correct:
  assumes "\<And>i j. SLABCLASS_MIN_ID \<le> i \<Longrightarrow> i \<le> j \<Longrightarrow> j \<le> maxid \<Longrightarrow> sizes i \<le> sizes j"
    and "SLABCLASS_MIN_ID \<le> imin" "imax \<le> maxid"
    and "\<And>i. SLABCLASS_MIN_ID \<le> i \<Longrightarrow> i < imin \<Longrightarrow> sizes i < sz"
    and "imax < maxid \<Longrightarrow> SLABCLASS_MIN_ID \<le> imax \<and> sz \<le> sizes imax"
  shows "case slab_id_loop sizes sz imin imax of
      None \<Rightarrow> (\<forall>i. SLABCLASS_MIN_ID \<le> i \<longrightarrow> i \<le> maxid \<longrightarrow> sizes i < sz)
    | Some cid \<Rightarrow> SLABCLASS_MIN_ID \<le> cid \<and> cid \<le> maxid \<and> sz \<le> sizes cid
        \<and> (\<forall>i. SLABCLASS_MIN_ID \<le> i \<longrightarrow> i < cid \<longrightarrow> sizes i < sz)"
  using assms
proof (induction sizes sz imin imax rule: slab_id_loop.induct)
  case (1 sizes sz imin imax)
  note mono = "1.prems"(1)
  define cid where "cid = (imin + imax) div 2"
  show ?case
  proof (cases "imax \<ge> imin")
    case False
    then show ?thesis using "1.prems" by (subst slab_id_loop.simps) force
  next
    case True
    then have c: "imin \<le> cid" "cid \<le> imax" by (auto simp: cid_def)
    show ?thesis
    proof (cases "sz > sizes cid")
      case True
      then have "sizes i < sz" if "SLABCLASS_MIN_ID \<le> i" "i < cid + 1" for i
        using mono [of i cid] that c "1.prems"(3) by simp
      then show ?thesis
        using "1.IH"(1) [OF \<open>imax \<ge> imin\<close> cid_def True] "1.prems" c \<open>imax \<ge> imin\<close> True
        by (subst slab_id_loop.simps) (simp add: cid_def [symmetric] Let_def)
    next
      case small: False
      show ?thesis
      proof (cases "cid > SLABCLASS_MIN_ID \<and> sz \<le> sizes (cid - 1)")
        case True
        then have "cid - 1 \<le> maxid" "SLABCLASS_MIN_ID \<le> cid - 1" using c "1.prems"(3) by linarith+
        then show ?thesis
          using True "1.IH"(2) [OF \<open>imax \<ge> imin\<close> cid_def small True] "1.prems" c \<open>imax \<ge> imin\<close> small
          by (subst slab_id_loop.simps) (simp add: cid_def [symmetric] Let_def)
      next
        case False
        have "sizes i < sz" if "SLABCLASS_MIN_ID \<le> i" "i < cid" for i
        proof -
          have "i \<le> cid - 1" "cid - 1 \<le> maxid" using that c "1.prems"(3) by linarith+
          then show ?thesis using mono [of i "cid - 1"] that False by auto
        qed
        moreover have "slab_id_loop sizes sz imin imax = Some cid"
          using \<open>imax \<ge> imin\<close> small False
          by (subst slab_id_loop.simps) (auto simp: cid_def [symmetric] Let_def)
        ultimately show ?thesis using "1.prems"(2,3) c small by simp
      qed
    qed
  qed
qed

definition class_sizes_ascending :: "bool \<Rightarrow> mc \<Rightarrow> bool" where
  "class_sizes_ascending res st \<longleftrightarrow> (\<forall>i j. SLABCLASS_MIN_ID \<le> i \<longrightarrow> i \<le> j \<longrightarrow> j \<le> st_slabclass_max_id st
     \<longrightarrow> sc_size (slabclass_of res st i) \<le> sc_size (slabclass_of res st j))"

lemma slab_id_of_cases:
  assumes "class_sizes_ascending res st" "st_slabclass_max_id st \<le> SLABCLASS_MAX_ID"
  shows "slab_id_of res sz st = SLABCLASS_INVALID_ID
      \<and> (\<forall>i. SLABCLASS_MIN_ID \<le> i \<longrightarrow> i \<le> st_slabclass_max_id st \<longrightarrow> sc_size (slabclass_of res st i) < sz)
    \<or> SLABCLASS_MIN_ID \<le> slab_id_of res sz st \<and> slab_id_of res sz st \<le> st_slabclass_max_id st
      \<and> sz \<le> sc_size (slabclass_of res st (slab_id_of res sz st))
      \<and> (\<forall>i. SLABCLASS_MIN_ID \<le> i \<longrightarrow> i < slab_id_of res sz st \<longrightarrow> sc_size (slabclass_of res st i) < sz)"
  using slab_id_loop_correct [of "st_slabclass_max_id st" "\<lambda>i. sc_size (slabclass_of res st i)"
      SLABCLASS_MIN_ID "st_slabclass_max_id st" sz] assms
  by (auto simp: slab_id_of_def class_sizes_ascending_def split: option.splits)

text \<open>C28: with the class sizes in ascending order the binary search returns the smallest class
  whose chunks hold the size, and the invalid id exactly when no class does.\<close>

theorem slab_id_least:
  assumes "class_sizes_ascending False st" "st_slabclass_max_id st \<le> SLABCLASS_MAX_ID"
  shows "slab_id sz st = (if \<exists>i. SLABCLASS_MIN_ID \<le> i \<and> i \<le> st_slabclass_max_id st \<and> sz \<le> slab_item_size i st
    then LEAST i. SLABCLASS_MIN_ID \<le> i \<and> sz \<le> slab_item_size i st else SLABCLASS_INVALID_ID)"
  using slab_id_of_cases [OF assms, of sz]
proof (elim disjE)
  assume "slab_id_of False sz st = SLABCLASS_INVALID_ID
      \<and> (\<forall>i. SLABCLASS_MIN_ID \<le> i \<longrightarrow> i \<le> st_slabclass_max_id st \<longrightarrow> sc_size (slabclass_of False st i) < sz)"
  then show ?thesis by (fastforce simp: slab_id_def slab_item_size_def slabclass_of_def)
next
  let ?c = "slab_id_of False sz st"
  assume c: "SLABCLASS_MIN_ID \<le> ?c \<and> ?c \<le> st_slabclass_max_id st \<and> sz \<le> sc_size (slabclass_of False st ?c)
      \<and> (\<forall>i. SLABCLASS_MIN_ID \<le> i \<longrightarrow> i < ?c \<longrightarrow> sc_size (slabclass_of False st i) < sz)"
  then have "(LEAST i. SLABCLASS_MIN_ID \<le> i \<and> sz \<le> slab_item_size i st) = ?c"
    by (intro Least_equality) (auto simp: slab_item_size_def slabclass_of_def not_less [symmetric])
  then show ?thesis using c by (auto simp: slab_id_def slab_item_size_def slabclass_of_def)
qed

subsection \<open>Start-up\<close>

text \<open>Static storage is zero at start. The part of \<open>core_init\<close> that sets up the cache; \<open>None\<close> is
  an error status, which ends the process. \<open>wall\<close> is the system time.\<close>

definition zero_item :: item where
  "zero_item = \<lparr>it_atime = 0, it_exptime = 0, it_nbyte = 0, it_offset = 0, it_dataflags = 0,
     it_refcount = 0, it_flags = {}, it_coflags = {}, it_p = 0, it_id = 0, it_nkey = 0,
     it_sess_status = ALIVE, it_config_number = 0, it_end = []\<rparr>"

definition zero_slabclass :: slabclass where
  "zero_slabclass = \<lparr>sc_nitem = 0, sc_size = 0, sc_nfree_itemq = 0, sc_free_itemq = [],
     sc_nfree_item = 0, sc_free_item = None\<rparr>"

definition zero_heapinfo :: slab_heapinfo where
  "zero_heapinfo = \<lparr>hi_nslab = 0, hi_max_nslab = 0, hi_slab_table = [], hi_slab_lruq = []\<rparr>"

definition item_init :: "mc \<Rightarrow> mc" where
  "item_init st = st\<lparr>
     st_item_lruq := (\<lambda>i. if SLABCLASS_MIN_ID \<le> i \<and> i \<le> SLABCLASS_MAX_ID then [] else st_item_lruq st i),
     st_reserved_item_lruq := (\<lambda>i. if SLABCLASS_MIN_ID \<le> i \<and> i \<le> SLABCLASS_MAX_ID then []
       else st_reserved_item_lruq st i),
     st_cas_id := 0\<rparr>"

definition mc_zero :: "settings \<Rightarrow> ptr assoc_st \<Rightarrow> (nat \<Rightarrow> bool) \<Rightarrow> (nat \<Rightarrow> nat) \<Rightarrow> mc" where
  "mc_zero cfg a ok rnd = \<lparr>st_settings = cfg, st_time = \<lparr>process_started = 0, now = 0\<rparr>,
     st_heap = (\<lambda>_. zero_item), st_slabs = (\<lambda>_. \<lparr>sl_id = 0, sl_refcount = 0, sl_utime = 0\<rparr>),
     st_slabclass = (\<lambda>_. zero_slabclass), st_reserved_slabclass = (\<lambda>_. zero_slabclass),
     st_slabclass_max_id = 0, st_heapinfo = zero_heapinfo, st_reserved_heapinfo = zero_heapinfo,
     st_next_slab = 0, st_item_lruq = (\<lambda>_. []), st_reserved_item_lruq = (\<lambda>_. []), st_assoc = a,
     st_cas_id = 0, st_lease_current_token = 0, st_malloc_ok = ok, st_rand = rnd, st_env_pos = 1\<rparr>"

definition core_init :: "settings \<Rightarrow> int \<Rightarrow> (nat \<Rightarrow> bool) \<Rightarrow> (nat \<Rightarrow> nat) \<Rightarrow> mc option" where
  "core_init cfg wall ok rnd =
    (case assoc_init (set_hash_power cfg) (ok 0) of
       None \<Rightarrow> None
     | Some a \<Rightarrow>
         (let st = item_init (mc_zero cfg a ok rnd);
              st = st\<lparr>st_lease_current_token := lease_init\<rparr>;
              (s_ok, st) = slab_init st
          in if s_ok then Some (st\<lparr>st_time := time_init wall wall\<rparr>) else None))"

text \<open>A small configuration used in concrete evaluations: two slab classes, with 64 and 192 bytes
  of payload, in slabs of three and one items.\<close>

definition demo_settings :: settings where
  "demo_settings = \<lparr>set_use_cas = True, set_use_freeq = True, set_use_lruq = True,
     set_evict_opt = {EVICT_LRU}, set_prealloc = True, set_slab_size = 512, set_maxbytes = 4096,
     set_reserved_percentage = 20, set_reserved_maxbytes = 4096, set_hash_power = 1,
     set_profile = [0, 128, 256], set_lease_token_expiry = 50, set_oldest_live = 0\<rparr>"

definition demo_st :: mc where
  "demo_st = the (core_init demo_settings 1700000000 (\<lambda>_. True) (\<lambda>n. n))"

lemmas core_init_defs = core_init_def slab_init_def slab_heapinfo_init_def slab_slabclass_init_def
  item_init_def mc_zero_def assoc_init_def assoc_create_table_def mc_alloc_next_def
  slab_has_reserved_slabs_def upd_heapinfo_def

lemma demo_st_Some: "core_init demo_settings 1700000000 (\<lambda>_. True) (\<lambda>n. n) = Some demo_st"
  by (simp add: demo_st_def core_init_defs demo_settings_def Let_def)

lemma demo_st_classes:
  "st_slabclass_max_id demo_st = 2"
  "sc_size (st_slabclass demo_st (Suc 0)) = 128" "sc_size (st_slabclass demo_st 2) = 256"
  by (simp_all add: demo_st_def core_init_defs demo_settings_def Let_def slab_class_new_def SLABCLASS_MIN_ID_def)

theorem slab_id_least_witness: "slab_id 200 demo_st = 2"
proof -
  have "class_sizes_ascending False demo_st"
    unfolding class_sizes_ascending_def demo_st_classes(1) SLABCLASS_MIN_ID_def
  proof (intro allI impI)
    fix i j :: nat assume "1 \<le> i" "i \<le> j" "j \<le> 2"
    then have "i = Suc 0 \<and> j = Suc 0 \<or> i = Suc 0 \<and> j = 2 \<or> i = 2 \<and> j = 2" by linarith
    then show "sc_size (slabclass_of False demo_st i) \<le> sc_size (slabclass_of False demo_st j)"
      by (auto simp: slabclass_of_def demo_st_classes)
  qed
  moreover have "st_slabclass_max_id demo_st \<le> SLABCLASS_MAX_ID"
    by (simp add: demo_st_classes SLABCLASS_MAX_ID_def)
  moreover have "(LEAST i. SLABCLASS_MIN_ID \<le> i \<and> 200 \<le> slab_item_size i demo_st) = 2"
  proof (rule Least_equality)
    fix y assume "SLABCLASS_MIN_ID \<le> y \<and> 200 \<le> slab_item_size y demo_st"
    then show "2 \<le> y"
      by (cases "y = 1") (auto simp: SLABCLASS_MIN_ID_def slab_item_size_def demo_st_classes)
  qed (simp add: SLABCLASS_MIN_ID_def slab_item_size_def demo_st_classes)
  moreover have "\<exists>i. SLABCLASS_MIN_ID \<le> i \<and> i \<le> st_slabclass_max_id demo_st \<and> 200 \<le> slab_item_size i demo_st"
    by (rule exI [of _ 2]) (simp add: SLABCLASS_MIN_ID_def slab_item_size_def demo_st_classes)
  ultimately show ?thesis
    using slab_id_least [of demo_st 200] by simp
qed

end
