(* ===== verification/MC_Items.thy ===== *)
theory MC_Items
  imports MC_Slabs
begin

text \<open>
  The item layer, \<open>mc_items.c\<close>: allocation, linking and unlinking, reference counting, lookup with
  lazy expiry, the store operation of the update commands, deltas, and the auxiliary items the
  lease protocols keep (leases, pending versions, transaction and session lists). A function of
  the source that only takes \<open>cache_lock\<close> around its underscored namesake is that namesake here.

  An operation returns \<open>None\<close> where the source faults: a null pointer is dereferenced, a buffer or
  an array is left, an element is removed from a queue it is not on. A result that may be \<open>NULL\<close>
  is an optional pointer.
\<close>

definition ITEM_UPDATE_INTERVAL :: u32 where "ITEM_UPDATE_INTERVAL = 60"
definition ITEM_LRUQ_MAX_TRIES :: nat where "ITEM_LRUQ_MAX_TRIES = 50"

subsection \<open>Allocation\<close>

fun lruq_scan :: "nat \<Rightarrow> ptr list \<Rightarrow> mc \<Rightarrow> ptr option" where
  "lruq_scan 0 q st = None"
| "lruq_scan (Suc tries) [] st = None"
| "lruq_scan (Suc tries) (p # q) st =
    (if it_refcount (heap_at st p) \<noteq> 0 then lruq_scan tries q st
     else if item_expired p st then Some p
     else Some p)"

definition item_get_from_lruq :: "bool \<Rightarrow> nat \<Rightarrow> mc \<Rightarrow> ptr option" where
  "item_get_from_lruq res cid st =
    (if \<not> set_use_lruq (st_settings st) then None
     else lruq_scan ITEM_LRUQ_MAX_TRIES (lruq_of res st cid) st)"

definition item_slabid :: "nat \<Rightarrow> nat \<Rightarrow> mc \<Rightarrow> nat" where
  "item_slabid nkey nbyte st = slab_id (item_ntotal (nkey mod 256) nbyte (set_use_cas (st_settings st))) st"

text \<open>Steps 2 to 4 of \<open>_item_alloc_config\<close>: a slab item, the LRU item \<open>uit\<close>, an evicted slab.\<close>

definition item_alloc_slow :: "nat \<Rightarrow> bool \<Rightarrow> ptr option \<Rightarrow> mc \<Rightarrow> (ptr option \<times> mc) option" where
  "item_alloc_slow cid reserved it st = do {
     let uit = (if EVICT_LRU \<in> set_evict_opt (st_settings st) then it else None);
     (q, st) \<leftarrow> (if reserved then slab_get_reserved_item cid st else slab_get_item cid st);
     case q of
       Some p \<Rightarrow> Some (Some p, st)
     | None \<Rightarrow>
         (case uit of
            Some p \<Rightarrow> do { st \<leftarrow> item_reuse p st; Some (Some p, st) }
          | None \<Rightarrow>
              if set_evict_opt (st_settings st) = {} then Some (None, st)
              else if \<not> reserved then slab_get_item_by_evict_slab cid st
              else slab_get_item_by_evict_reserved_slab cid st)
   }"

definition item_alloc_done ::
    "ptr \<Rightarrow> bytes \<Rightarrow> u32 \<Rightarrow> u32 \<Rightarrow> nat \<Rightarrow> int \<Rightarrow> mc \<Rightarrow> (ptr option \<times> mc) option" where
  "item_alloc_done p key dataflags exptime nbyte config_num st = do {
     let nkey = length key mod 256;
     let st = item_acquire_refcount p st;
     let st = upd_item p (\<lambda>it. it\<lparr>it_flags := (if set_use_cas (st_settings st) then {ITEM_CAS} else {}),
        it_dataflags := dataflags, it_nbyte := nbyte, it_exptime := exptime, it_nkey := nkey,
        it_sess_status := ALIVE, it_coflags := {}, it_p := 0, it_config_number := config_num\<rparr>) st;
     e \<leftarrow> memcpy_at (it_end (heap_at st p)) (item_key_off (heap_at st p)) (take nkey key);
     Some (Some p, upd_item p (\<lambda>it. it\<lparr>it_end := e\<rparr>) st)
   }"

definition item_alloc_config ::
    "nat \<Rightarrow> bytes \<Rightarrow> u32 \<Rightarrow> u32 \<Rightarrow> nat \<Rightarrow> bool \<Rightarrow> int \<Rightarrow> mc \<Rightarrow> (ptr option \<times> mc) option" where
  "item_alloc_config cid key dataflags exptime nbyte reserved config_num st =
    (if cid > SLABCLASS_MAX_ID then None
     else do {
       let it = item_get_from_lruq reserved cid st;
       (r, st) \<leftarrow> (case it of
           Some p \<Rightarrow>
             if item_expired p st then do { st \<leftarrow> item_reuse p st; Some (Some p, st) }
             else item_alloc_slow cid reserved it st
         | None \<Rightarrow> item_alloc_slow cid reserved it st);
       case r of
         None \<Rightarrow> Some (None, st)
       | Some p \<Rightarrow> item_alloc_done p key dataflags exptime nbyte config_num st
     })"

definition item_alloc ::
    "nat \<Rightarrow> bytes \<Rightarrow> u32 \<Rightarrow> u32 \<Rightarrow> nat \<Rightarrow> bool \<Rightarrow> mc \<Rightarrow> (ptr option \<times> mc) option" where
  "item_alloc cid key dataflags exptime nbyte reserved st =
    item_alloc_config cid key dataflags exptime nbyte reserved (-1) st"

subsection \<open>Linking and reference counts\<close>

definition item_free :: "ptr \<Rightarrow> mc \<Rightarrow> mc" where
  "item_free p st =
    (let it = heap_at st p in
     if item_is_lease_holder it \<or> item_has_co_lease it \<or> item_is_sess it
     then slab_put_reserved_item p st else slab_put_item p st)"

definition item_assoc_insert :: "ptr \<Rightarrow> mc \<Rightarrow> mc" where
  "item_assoc_insert p st =
    (let (ok, st) = mc_alloc_next st in
     st\<lparr>st_assoc := assoc_insert (key_at st) (set_hash_power (st_settings st)) ok p (st_assoc st)\<rparr>)"

definition item_link :: "ptr \<Rightarrow> mc \<Rightarrow> mc option" where
  "item_link p st =
    (let st = set_flag ITEM_LINKED p st;
         (cas, st) = item_next_cas st;
         st = upd_item p (item_set_cas cas) st;
         st = item_assoc_insert p st
     in item_link_q p True st)"

definition item_unlink :: "ptr \<Rightarrow> mc \<Rightarrow> mc option" where
  "item_unlink p st =
    (let it = heap_at st p;
         st = (if item_is_lease_holder it then item_unset_pinned p st
               else if item_is_co_lease_holder it then item_unset_pinned p st
               else if item_is_ptrans it then item_unset_pinned p st
               else if item_is_hotkeys it then item_unset_pinned p st
               else st)
     in if item_is_linked (heap_at st p) then do {
          let st = clear_flag ITEM_LINKED p st;
          st \<leftarrow> item_assoc_delete p st;
          st \<leftarrow> item_unlink_q p st;
          Some (if it_refcount (heap_at st p) = 0 then item_free p st else st)
        } else Some st)"

definition item_remove :: "ptr \<Rightarrow> mc \<Rightarrow> mc" where
  "item_remove p st =
    (let st = (if it_refcount (heap_at st p) \<noteq> 0 then item_release_refcount p st else st)
     in if it_refcount (heap_at st p) = 0 \<and> \<not> item_is_linked (heap_at st p) then item_free p st else st)"

definition item_remove_opt :: "ptr option \<Rightarrow> mc \<Rightarrow> mc" where
  "item_remove_opt r st = (case r of None \<Rightarrow> st | Some p \<Rightarrow> item_remove p st)"

definition item_delete :: "ptr \<Rightarrow> mc \<Rightarrow> mc option" where
  "item_delete p st = do { st \<leftarrow> item_unlink p st; Some (item_remove p st) }"

definition item_touch :: "ptr \<Rightarrow> mc \<Rightarrow> mc option" where
  "item_touch p st =
    (if it_atime (heap_at st p) \<ge> st_now st - ITEM_UPDATE_INTERVAL then Some st
     else if item_is_linked (heap_at st p) then do {
       st \<leftarrow> item_unlink_q p st;
       item_link_q p False st
     } else Some st)"

definition item_replace :: "ptr \<Rightarrow> ptr \<Rightarrow> mc \<Rightarrow> mc option" where
  "item_replace p np st = do { st \<leftarrow> item_unlink p st; item_link np st }"

subsection \<open>Lookup\<close>

definition item_find :: "bytes \<Rightarrow> mc \<Rightarrow> ptr option" where
  "item_find key st = assoc_find (key_at st) key (st_assoc st)"

definition item_get :: "bytes \<Rightarrow> mc \<Rightarrow> (ptr option \<times> mc) option" where
  "item_get key st =
    (case item_find key st of
       None \<Rightarrow> Some (None, st)
     | Some p \<Rightarrow>
         (let it = heap_at st p; oldest_live = set_oldest_live (st_settings st) in
          if it_exptime it \<noteq> 0 \<and> it_exptime it \<le> st_now st then do {
            st \<leftarrow> item_unlink p st; Some (None, st)
          } else if oldest_live \<noteq> 0 \<and> oldest_live \<le> st_now st \<and> it_atime it \<le> oldest_live then do {
            st \<leftarrow> item_unlink p st; Some (None, st)
          } else Some (Some p, item_acquire_refcount p st)))"

text \<open>\<open>_item_flush_expired\<close>. The reverse traversal reads each queue as it was when its turn came:
  unlinking an item takes only that item off a queue.\<close>

fun item_flush_queue :: "ptr list \<Rightarrow> mc \<Rightarrow> mc option" where
  "item_flush_queue [] st = Some st"
| "item_flush_queue (p # ps) st =
    (if it_atime (heap_at st p) < set_oldest_live (st_settings st) then Some st
     else do { st \<leftarrow> item_unlink p st; item_flush_queue ps st })"

definition item_flush_expired :: "mc \<Rightarrow> mc option" where
  "item_flush_expired st =
    (if set_oldest_live (st_settings st) = 0 then Some st
     else foldm (\<lambda>i st. item_flush_queue (rev (st_item_lruq st i)) st)
       [SLABCLASS_MIN_ID..<SLABCLASS_MAX_ID + 1] st)"

subsection \<open>Auxiliary items\<close>

definition set_coflag :: "item_coflag \<Rightarrow> ptr \<Rightarrow> mc \<Rightarrow> mc" where
  "set_coflag f p = upd_item p (\<lambda>it. it\<lparr>it_coflags := insert f (it_coflags it)\<rparr>)"

text \<open>The expiry of a lease: the configured time in seconds, at least one, plus one for rounding.\<close>

definition lease_exptime :: "mc \<Rightarrow> u32" where
  "lease_exptime st =
    (let exptime = set_lease_token_expiry (st_settings st) div 1000;
         exptime = (if exptime = 0 then 1 else exptime)
     in time_reltime (st_time st) (int (exptime + 1)))"

definition item_create_reserved_item :: "bytes \<Rightarrow> nat \<Rightarrow> mc \<Rightarrow> (ptr option \<times> mc) option" where
  "item_create_reserved_item key vlen st = do {
     (r, st) \<leftarrow> item_alloc (item_slabid (length key) vlen st) key 0 (lease_exptime st) vlen True st;
     Some (r, case r of None \<Rightarrow> st | Some p \<Rightarrow> item_set_pinned p st)
   }"

definition item_get_pending_version :: "bytes \<Rightarrow> mc \<Rightarrow> (ptr option \<times> mc) option" where
  "item_get_pending_version key st = item_get (mc_get_version_key key) st"

definition item_create_pending_version :: "ptr \<Rightarrow> mc \<Rightarrow> (ptr option \<times> mc) option" where
  "item_create_pending_version p st =
    (let it = heap_at st p; pv_key = mc_get_version_key (item_key it) in
     item_alloc (item_slabid (length pv_key) (it_nbyte it) st) pv_key (it_dataflags it)
       (lease_exptime st) (it_nbyte it) False st)"

definition item_get_lease :: "bytes \<Rightarrow> mc \<Rightarrow> (ptr option \<times> mc) option" where
  "item_get_lease key st = item_get (mc_get_lease_key key) st"

definition item_get_pending :: "bytes \<Rightarrow> mc \<Rightarrow> (ptr option \<times> mc) option" where
  "item_get_pending key st = item_get (mc_get_pending_key key) st"

definition item_get_ptrans :: "bytes \<Rightarrow> mc \<Rightarrow> (ptr option \<times> mc) option" where
  "item_get_ptrans key st = item_get (mc_get_ptrans_key key) st"

definition item_get_co_lease :: "bytes \<Rightarrow> mc \<Rightarrow> (ptr option \<times> mc) option" where
  "item_get_co_lease key st = item_get (mc_get_co_lease_key key) st"

text \<open>A reserved item that holds a number in decimal, pinned.\<close>

definition item_create_numbered :: "bytes \<Rightarrow> u64 \<Rightarrow> mc \<Rightarrow> (ptr option \<times> mc) option" where
  "item_create_numbered key token st = do {
     let buf = dec (unat token);
     (r, st) \<leftarrow> item_alloc (item_slabid (length key) (length buf) st) key 0 (lease_exptime st) (length buf) True st;
     case r of
       None \<Rightarrow> Some (None, st)
     | Some p \<Rightarrow> do { st \<leftarrow> item_memcpy p 0 buf st; Some (Some p, item_set_pinned p st) }
   }"

definition item_create_lease :: "bytes \<Rightarrow> mc \<Rightarrow> (ptr option \<times> u64 \<times> mc) option" where
  "item_create_lease key st = do {
     let (token, tok') = lease_next_token (st_lease_current_token st);
     let st = st\<lparr>st_lease_current_token := tok'\<rparr>;
     (r, st) \<leftarrow> item_create_numbered (mc_get_lease_key key) token st;
     Some (r, token, st)
   }"

definition item_create_ptrans :: "bytes \<Rightarrow> u64 \<Rightarrow> mc \<Rightarrow> (ptr option \<times> mc) option" where
  "item_create_ptrans key token st = item_create_numbered (mc_get_ptrans_key key) token st"

definition item_lease_value :: "ptr \<Rightarrow> mc \<Rightarrow> u64" where
  "item_lease_value p st =
    (case mc_strtoull_len (item_value p st) 0 of (ok, value) \<Rightarrow> if ok then value else - 1)"

text \<open>\<open>memcpy(item_data(dst) + off, item_data(src), n)\<close>.\<close>

definition item_copy :: "ptr \<Rightarrow> nat \<Rightarrow> ptr \<Rightarrow> nat \<Rightarrow> mc \<Rightarrow> mc option" where
  "item_copy dst off src n st = do { bs \<leftarrow> slice (item_data src st) 0 n; item_memcpy dst off bs st }"

subsection \<open>Store\<close>

text \<open>The \<open>switch\<close> statements of \<open>_item_store\<close> leave the result so far, whether to store, the item to
  store, the new item \<open>nit\<close> and the lease item they hold. The connection is read for its lease
  token only. \<open>NOT_REACHED()\<close> is empty in a build without assertions.\<close>

type_synonym store_plan = "item_store_result \<times> bool \<times> ptr \<times> ptr option \<times> ptr option \<times> mc"

definition item_store_iqset :: "ptr \<Rightarrow> u64 \<Rightarrow> mc \<Rightarrow> store_plan option" where
  "item_store_iqset p token st = do {
     let key = item_key (heap_at st p);
     (lease, st) \<leftarrow> item_get_lease key st;
     case lease of
       None \<Rightarrow> Some (NOT_STORED, False, p, None, None, st)
     | Some l \<Rightarrow>
         if \<not> item_has_i_lease (heap_at st l) then Some (NOT_STORED, False, p, None, Some l, st)
         else if token \<noteq> item_lease_value l st then Some (NOT_STORED, False, p, None, Some l, st)
         else do {
           st \<leftarrow> item_unlink l st;
           if it_nbyte (heap_at st p) = 0 then Some (NOT_STORED, False, p, None, Some l, st)
           else do {
             (pending, st) \<leftarrow> item_get_pending key st;
             st \<leftarrow> (case pending of
                 None \<Rightarrow> Some st
               | Some q \<Rightarrow> item_delete q (upd_item p (\<lambda>it. it\<lparr>it_p := 1\<rparr>) st));
             Some (NOT_STORED, True, p, None, Some l, st)
           }
         }
   }"

definition item_store_miss :: "ptr \<Rightarrow> req_type \<Rightarrow> u64 \<Rightarrow> mc \<Rightarrow> store_plan option" where
  "item_store_miss p type token st =
    (case type of
       REQ_IQSET \<Rightarrow> item_store_iqset p token st
     | REQ_REPLACE \<Rightarrow> Some (NOT_STORED, False, p, None, None, st)
     | REQ_APPEND \<Rightarrow> Some (NOT_STORED, False, p, None, None, st)
     | REQ_PREPEND \<Rightarrow> Some (NOT_STORED, False, p, None, None, st)
     | REQ_CAS \<Rightarrow> Some (NOT_FOUND, False, p, None, None, st)
     | _ \<Rightarrow> Some (NOT_STORED, True, p, None, None, st))"

text \<open>The append and prepend cases: the old and the new value joined in a new item.\<close>

definition item_store_join :: "bool \<Rightarrow> ptr \<Rightarrow> ptr \<Rightarrow> mc \<Rightarrow> store_plan option" where
  "item_store_join prepend p oit st = do {
     let it = heap_at st p;
     let o' = heap_at st oit;
     let total_nbyte = it_nbyte o' + it_nbyte it;
     let cid = item_slabid (it_nkey o') total_nbyte st;
     if cid = SLABCLASS_INVALID_ID then Some (NOT_STORED, False, p, None, None, st)
     else if it_nbyte o' = 0 then Some (NOT_STORED, False, p, None, None, st)
     else do {
       (r, st) \<leftarrow> item_alloc cid (item_key it) (it_dataflags o') (it_exptime o') total_nbyte False st;
       case r of
         None \<Rightarrow> Some (NOT_STORED, False, p, None, None, st)
       | Some nit \<Rightarrow> do {
           st \<leftarrow> (if prepend then do {
                    let st = set_flag ITEM_RALIGN nit st;
                    st \<leftarrow> item_copy nit 0 p (it_nbyte it) st;
                    item_copy nit (it_nbyte it) oit (it_nbyte o') st
                  } else do {
                    st \<leftarrow> item_copy nit 0 oit (it_nbyte o') st;
                    item_copy nit (it_nbyte o') p (it_nbyte it) st
                  });
           Some (NOT_STORED, True, nit, Some nit, None, st)
         }
     }
   }"

definition item_store_hit :: "ptr \<Rightarrow> ptr \<Rightarrow> req_type \<Rightarrow> u64 \<Rightarrow> mc \<Rightarrow> store_plan option" where
  "item_store_hit p oit type token st =
    (case type of
       REQ_IQSET \<Rightarrow> item_store_iqset p token st
     | REQ_ADD \<Rightarrow>
         if it_nbyte (heap_at st oit) = 0 then Some (NOT_STORED, True, p, None, None, st)
         else do { st \<leftarrow> item_touch oit st; Some (NOT_STORED, False, p, None, None, st) }
     | REQ_REPLACE \<Rightarrow> Some (NOT_STORED, it_nbyte (heap_at st oit) \<noteq> 0, p, None, None, st)
     | REQ_APPEND \<Rightarrow> item_store_join False p oit st
     | REQ_PREPEND \<Rightarrow> item_store_join True p oit st
     | REQ_CAS \<Rightarrow>
         if item_cas (heap_at st p) \<noteq> item_cas (heap_at st oit) then Some (EXISTS, True, p, None, None, st)
         else Some (NOT_STORED, True, p, None, None, st)
     | REQ_IQGET \<Rightarrow> Some (NOT_STORED, False, p, None, None, st)
     | _ \<Rightarrow> Some (NOT_STORED, True, p, None, None, st))"

definition item_store :: "ptr \<Rightarrow> req_type \<Rightarrow> u64 \<Rightarrow> mc \<Rightarrow> (item_store_result \<times> mc) option" where
  "item_store p type token st =
    (let it = heap_at st p in
     if it_nbyte it = 0 \<and> \<not> item_is_lease_holder it \<and> \<not> item_has_co_lease it then Some (NOT_STORED, st)
     else do {
       (oit, st) \<leftarrow> item_get (item_key it) st;
       (result, store_it, q, nit, lease, st) \<leftarrow>
         (case oit of None \<Rightarrow> item_store_miss p type token st | Some o' \<Rightarrow> item_store_hit p o' type token st);
       (result, st) \<leftarrow>
         (if result = NOT_STORED \<and> store_it then do {
            st \<leftarrow> (case oit of Some o' \<Rightarrow> item_replace o' q st | None \<Rightarrow> item_link q st);
            Some (STORED, st)
          } else Some (result, st));
       Some (result, item_remove_opt lease (item_remove_opt nit (item_remove_opt oit st)))
     })"

subsection \<open>Arithmetic and deletion\<close>

text \<open>\<open>_item_add_delta\<close>; the second result is \<open>buf\<close>. A negative delta is converted to 64 unsigned bits
  by the comparison and the addition.\<close>

definition item_add_delta ::
    "bytes \<Rightarrow> bool \<Rightarrow> u64 \<Rightarrow> mc \<Rightarrow> (item_delta_result \<times> bytes \<times> mc) option" where
  "item_add_delta key incr delta st = do {
     (r, st) \<leftarrow> item_get key st;
     case r of
       None \<Rightarrow> Some (DELTA_NOT_FOUND, [], st)
     | Some p \<Rightarrow> do {
         let it = heap_at st p;
         let (ok, value) = mc_strtoull_len (item_value p st) 0;
         if \<not> ok then Some (DELTA_NON_NUMERIC, [], item_remove p st)
         else do {
           let value = (if incr then value + delta else if delta > value then 0 else value - delta);
           let buf = dec (unat value);
           if length buf > it_nbyte it then do {
             (r, st) \<leftarrow> item_alloc (item_slabid (it_nkey it) (length buf) st) (item_key it)
                        (it_dataflags it) (it_exptime it) (length buf) False st;
             case r of
               None \<Rightarrow> Some (DELTA_EOM, buf, item_remove p st)
             | Some new_it \<Rightarrow> do {
                 st \<leftarrow> item_memcpy new_it 0 buf st;
                 let st = upd_item new_it (\<lambda>n. n\<lparr>it_p := it_p (heap_at st p)\<rparr>) st;
                 st \<leftarrow> item_replace p new_it st;
                 Some (DELTA_OK, buf, item_remove p (item_remove new_it st))
               }
           } else do {
             let (cas, st) = item_next_cas st;
             let st = upd_item p (item_set_cas cas) st;
             st \<leftarrow> item_memcpy p 0 buf st;
             let st = upd_item p (\<lambda>it. it\<lparr>it_nbyte := length buf\<rparr>) st;
             Some (DELTA_OK, buf, item_remove p st)
           }
         }
       }
   }"

definition item_delete_opt :: "ptr option \<Rightarrow> mc \<Rightarrow> mc option" where
  "item_delete_opt r st = (case r of None \<Rightarrow> Some st | Some p \<Rightarrow> item_delete p st)"

definition item_get_and_delete :: "bytes \<Rightarrow> bool \<Rightarrow> mc \<Rightarrow> (item_store_result \<times> mc) option" where
  "item_get_and_delete key delete_lease st = do {
     st \<leftarrow> (if delete_lease then do {
              (lease, st) \<leftarrow> item_get_lease key st;
              st \<leftarrow> item_delete_opt lease st;
              (pv, st) \<leftarrow> item_get_pending_version key st;
              st \<leftarrow> item_delete_opt pv st;
              (colease, st) \<leftarrow> item_get_co_lease key st;
              item_delete_opt colease st
            } else Some st);
     (r, st) \<leftarrow> item_get key st;
     case r of
       None \<Rightarrow> Some (NOT_FOUND, st)
     | Some p \<Rightarrow> do { st \<leftarrow> item_delete p st; Some (EXISTS, st) }
   }"

end
