(* ===== verification/MC_Conn.thy ===== *)
theory MC_Conn
  imports MC_Cache MC_Items
begin

text \<open>
  Connections, \<open>mc_connection.c\<close>. A response is assembled as a list of message headers, each of which covers a run of
  entries of one array of fragments; a fragment is an address and a length, and its bytes are read
  when it is sent. An address is a constant or formatted text (whose buffer nobody writes until it
  has been sent), or a place in the payload of an item.

  The read buffer is its memory with the offset \<open>rcurr\<close>; \<open>wcurr\<close> is the text that is to be written.
  The outcome of each allocation is read from the environment of the cache state; the results of
  system calls are arguments. \<open>None\<close> is a fault of the source: an access outside an array or
  through a null pointer.
\<close>

datatype conn_state = CONN_LISTEN | CONN_NEW_CMD | CONN_WAIT | CONN_READ | CONN_PARSE | CONN_NREAD
  | CONN_WRITE | CONN_MWRITE | CONN_SWALLOW | CONN_CLOSE

datatype rstatus = MC_OK | MC_ERROR | MC_EAGAIN | MC_ENOMEM | MC_INVALID

datatype ev_flags = EV_NONE | EV_READ | EV_WRITE

definition UDP_HEADER_SIZE :: nat where "UDP_HEADER_SIZE = 8"
definition UDP_MAX_PAYLOAD_SIZE :: nat where "UDP_MAX_PAYLOAD_SIZE = 1400"
definition TCP_BUFFER_SIZE :: nat where "TCP_BUFFER_SIZE = 2048"
definition RSIZE_HIGHWAT :: nat where "RSIZE_HIGHWAT = 8192"
definition ILIST_SIZE :: nat where "ILIST_SIZE = 200"
definition ILIST_HIGHWAT :: nat where "ILIST_HIGHWAT = 400"
definition SLIST_SIZE :: nat where "SLIST_SIZE = 20"
definition IOV_SIZE :: nat where "IOV_SIZE = 400"
definition IOV_HIGHWAT :: nat where "IOV_HIGHWAT = 600"
definition MSG_SIZE :: nat where "MSG_SIZE = 10"
definition MSG_HIGHWAT :: nat where "MSG_HIGHWAT = 100"
definition IOV_MAX :: nat where "IOV_MAX = 1024"

lemmas conn_size_defs = UDP_HEADER_SIZE_def UDP_MAX_PAYLOAD_SIZE_def TCP_BUFFER_SIZE_def RSIZE_HIGHWAT_def
  ILIST_SIZE_def ILIST_HIGHWAT_def SLIST_SIZE_def IOV_SIZE_def IOV_HIGHWAT_def MSG_SIZE_def MSG_HIGHWAT_def
  IOV_MAX_def

text \<open>Memory that a fragment points to: text, or the payload of an item at an offset.\<close>

datatype mem = MemText bytes | MemItem ptr nat

fun mem_bytes :: "mc \<Rightarrow> mem \<Rightarrow> bytes" where
  "mem_bytes st (MemText bs) = bs"
| "mem_bytes st (MemItem p off) = drop off (it_end (heap_at st p))"

fun mem_adv :: "nat \<Rightarrow> mem \<Rightarrow> mem" where
  "mem_adv n (MemText bs) = MemText (drop n bs)"
| "mem_adv n (MemItem p off) = MemItem p (off + n)"

record iovec =
  iov_base :: mem
  iov_len :: nat

record msghdr =
  msg_iov :: nat
  msg_iovlen :: nat

record conn =
  c_state :: conn_state
  c_ev_flags :: ev_flags
  c_rbuf :: bytes
  c_rcurr :: nat
  c_rbytes :: nat
  c_wsize :: nat
  c_wcurr :: bytes
  c_write_and_go :: conn_state
  c_write_and_free :: bool
  c_ritem :: nat
  c_rlbytes :: nat
  c_tid :: bytes
  c_lease_token :: u64
  c_item :: "ptr option"
  c_sbytes :: int
  c_iov :: "iovec list"
  c_iov_used :: nat
  c_msg :: "msghdr list"
  c_msg_used :: nat
  c_msg_curr :: nat
  c_msg_bytes :: nat
  c_ilist :: "ptr option list"
  c_icurr :: nat
  c_ileft :: nat
  c_slist :: "nat list"
  c_scurr :: nat
  c_sleft :: nat
  c_req_type :: req_type
  c_req :: bytes
  c_udp_rid :: nat
  c_udp_hsize :: nat
  c_noreply :: bool
  c_udp :: bool

definition conn_set_state :: "conn_state \<Rightarrow> conn \<Rightarrow> conn" where
  "conn_set_state state c = (if state = c_state c then c else c\<lparr>c_state := state\<rparr>)"

lemma conn_set_state_simp [simp]: "conn_set_state state c = c\<lparr>c_state := state\<rparr>"
  by (simp add: conn_set_state_def)

subsection \<open>Assembling a response\<close>

definition iov_none :: iovec where "iov_none = \<lparr>iov_base = MemText [], iov_len = 0\<rparr>"
definition msg_none :: msghdr where "msg_none = \<lparr>msg_iov = 0, msg_iovlen = 0\<rparr>"

fun conn_repoint :: "nat \<Rightarrow> msghdr list \<Rightarrow> msghdr list" where
  "conn_repoint iovnum [] = []"
| "conn_repoint iovnum (m # ms) = m\<lparr>msg_iov := iovnum\<rparr> # conn_repoint (iovnum + msg_iovlen m) ms"

definition conn_ensure_iov_space :: "conn \<Rightarrow> mc \<Rightarrow> rstatus \<times> conn \<times> mc" where
  "conn_ensure_iov_space c st =
    (if c_iov_used c \<ge> length (c_iov c) then
       (let (ok, st) = mc_alloc_next st in
        if \<not> ok then (MC_ENOMEM, c, st)
        else (MC_OK, c\<lparr>c_iov := c_iov c @ replicate (length (c_iov c)) iov_none,
               c_msg := conn_repoint 0 (take (c_msg_used c) (c_msg c)) @ drop (c_msg_used c) (c_msg c)\<rparr>, st))
     else (MC_OK, c, st))"

text \<open>The end of the loop body of \<open>conn_add_iov\<close>: the fragment becomes the next entry of the last message.\<close>

definition conn_put_iov :: "mem \<Rightarrow> nat \<Rightarrow> conn \<Rightarrow> conn option" where
  "conn_put_iov buf len c =
    (if c_msg_used c = 0 \<or> length (c_msg c) < c_msg_used c then None
     else let m = c_msg c ! (c_msg_used c - 1); i = msg_iov m + msg_iovlen m in
       if i \<ge> length (c_iov c) then None
       else Some (c\<lparr>c_iov := (c_iov c)[i := \<lparr>iov_base = buf, iov_len = len\<rparr>],
         c_msg_bytes := c_msg_bytes c + len, c_iov_used := c_iov_used c + 1,
         c_msg := (c_msg c)[c_msg_used c - 1 := m\<lparr>msg_iovlen := msg_iovlen m + 1\<rparr>]\<rparr>))"

definition conn_msg_room :: "conn \<Rightarrow> mc \<Rightarrow> rstatus \<times> conn \<times> mc" where
  "conn_msg_room c st =
    (if length (c_msg c) = c_msg_used c then
       (let (ok, st) = mc_alloc_next st in
        if \<not> ok then (MC_ENOMEM, c, st)
        else (MC_OK, c\<lparr>c_msg := c_msg c @ replicate (length (c_msg c)) msg_none\<rparr>, st))
     else (MC_OK, c, st))"

definition conn_new_msg :: "conn \<Rightarrow> conn option" where
  "conn_new_msg c =
    (if length (c_msg c) \<le> c_msg_used c then None
     else Some (c\<lparr>c_msg := (c_msg c)[c_msg_used c := \<lparr>msg_iov = c_iov_used c, msg_iovlen = 0\<rparr>],
       c_msg_bytes := 0, c_msg_used := c_msg_used c + 1\<rparr>))"

text \<open>For UDP the function calls \<open>conn_add_iov(c, NULL, UDP_HEADER_SIZE)\<close>, which on the fresh message
  takes one round of its loop: room in the array, then the fragment.\<close>

definition conn_add_msghdr :: "conn \<Rightarrow> mc \<Rightarrow> (rstatus \<times> conn \<times> mc) option" where
  "conn_add_msghdr c st =
    (let (status, c, st) = conn_msg_room c st in
     if status \<noteq> MC_OK then Some (status, c, st)
     else case conn_new_msg c of
       None \<Rightarrow> None
     | Some c \<Rightarrow>
         if c_udp c then
           (let (status, c, st) = conn_ensure_iov_space c st in
            if status \<noteq> MC_OK then Some (status, c, st)
            else map_option (\<lambda>c. (MC_OK, c, st)) (conn_put_iov (MemText []) UDP_HEADER_SIZE c))
         else Some (MC_OK, c, st))"

text \<open>The start of the loop body: a new message if the last one is full, and room for an entry.
  \<open>limit_to_mtu\<close> is computed before the new message is added.\<close>

definition limit_to_mtu :: "conn \<Rightarrow> bool" where
  "limit_to_mtu c \<longleftrightarrow> c_udp c \<or> c_msg_used c = 1"

definition conn_iov_room :: "conn \<Rightarrow> mc \<Rightarrow> (rstatus \<times> conn \<times> mc) option" where
  "conn_iov_room c st =
    (if c_msg_used c = 0 \<or> length (c_msg c) < c_msg_used c then None
     else case (if msg_iovlen (c_msg c ! (c_msg_used c - 1)) = IOV_MAX
                  \<or> limit_to_mtu c \<and> c_msg_bytes c \<ge> UDP_MAX_PAYLOAD_SIZE
                then conn_add_msghdr c st else Some (MC_OK, c, st)) of
       None \<Rightarrow> None
     | Some (status, c, st) \<Rightarrow>
         if status \<noteq> MC_OK then Some (status, c, st) else Some (conn_ensure_iov_space c st))"

text \<open>The parts of a connection that assembling a response leaves alone.\<close>

definition conn_core :: "conn \<Rightarrow> conn" where
  "conn_core c = c\<lparr>c_iov := [], c_iov_used := 0, c_msg := [], c_msg_used := 0, c_msg_bytes := 0\<rparr>"

lemma conn_core_udp: "conn_core c' = conn_core c \<Longrightarrow> c_udp c' = c_udp c"
  by (drule arg_cong [where f = c_udp]) (simp add: conn_core_def)

lemma conn_ensure_iov_space_fields:
  assumes "conn_ensure_iov_space c st = (status, c', st')"
  shows "c_msg_bytes c' = c_msg_bytes c \<and> c_msg_used c' = c_msg_used c \<and> c_iov_used c' = c_iov_used c \<and> conn_core c' = conn_core c"
  using assms by (auto simp: conn_ensure_iov_space_def conn_core_def Let_def split: if_splits prod.splits)

lemma conn_put_iov_fields:
  assumes "conn_put_iov buf len c = Some c'"
  shows "c_msg_bytes c' = c_msg_bytes c + len \<and> c_msg_used c' = c_msg_used c \<and> c_iov_used c' = c_iov_used c + 1 \<and> conn_core c' = conn_core c"
  using assms by (auto simp: conn_put_iov_def conn_core_def Let_def split: if_splits)

lemma conn_msg_room_fields:
  assumes "conn_msg_room c st = (status, c', st')"
  shows "c_msg_bytes c' = c_msg_bytes c \<and> c_msg_used c' = c_msg_used c \<and> c_iov_used c' = c_iov_used c \<and> conn_core c' = conn_core c"
  using assms by (auto simp: conn_msg_room_def conn_core_def Let_def split: if_splits prod.splits)

lemma conn_new_msg_fields:
  assumes "conn_new_msg c = Some c'"
  shows "c_msg_bytes c' = 0 \<and> c_msg_used c' = c_msg_used c + 1 \<and> c_iov_used c' = c_iov_used c \<and> conn_core c' = conn_core c"
  using assms by (auto simp: conn_new_msg_def conn_core_def split: if_splits)

lemma conn_add_msghdr_cases:
  assumes "conn_add_msghdr c st = Some (MC_OK, c', st')"
  obtains c1 st1 c2 where "conn_msg_room c st = (MC_OK, c1, st1)" "conn_new_msg c1 = Some c2"
    "if c_udp c2 then \<exists>c3. conn_ensure_iov_space c2 st1 = (MC_OK, c3, st') \<and> conn_put_iov (MemText []) UDP_HEADER_SIZE c3 = Some c'
     else c' = c2 \<and> st' = st1"
  using assms by (auto simp: conn_add_msghdr_def Let_def split: if_splits prod.splits option.splits)

lemma conn_add_msghdr_fields:
  assumes "conn_add_msghdr c st = Some (MC_OK, c', st')"
  shows "c_msg_bytes c' = (if c_udp c then UDP_HEADER_SIZE else 0) \<and> c_msg_used c' = c_msg_used c + 1 \<and> conn_core c' = conn_core c"
  using assms
  by (rule conn_add_msghdr_cases)
    (auto dest!: conn_msg_room_fields conn_new_msg_fields conn_ensure_iov_space_fields conn_put_iov_fields
      dest: conn_core_udp split: if_splits)

lemma conn_iov_room_bytes:
  assumes "conn_iov_room c st = Some (MC_OK, c', st')" "limit_to_mtu c"
  shows "c_msg_bytes c' < UDP_MAX_PAYLOAD_SIZE"
proof -
  obtain c1 st1 where 1: "(if msg_iovlen (c_msg c ! (c_msg_used c - 1)) = IOV_MAX
        \<or> limit_to_mtu c \<and> c_msg_bytes c \<ge> UDP_MAX_PAYLOAD_SIZE
      then conn_add_msghdr c st else Some (MC_OK, c, st)) = Some (MC_OK, c1, st1)"
    and 2: "conn_ensure_iov_space c1 st1 = (MC_OK, c', st')"
    using assms(1) by (auto simp: conn_iov_room_def split: if_splits option.splits)
  have "c_msg_bytes c1 < UDP_MAX_PAYLOAD_SIZE"
    using 1 assms(2) conn_add_msghdr_fields [of c st c1 st1]
    by (auto simp: conn_size_defs split: if_splits)
  then show ?thesis using conn_ensure_iov_space_fields [OF 2] by simp
qed

function conn_add_iov :: "mem \<Rightarrow> nat \<Rightarrow> conn \<Rightarrow> mc \<Rightarrow> (rstatus \<times> conn \<times> mc) option" where
  "conn_add_iov buf len c st =
    (case conn_iov_room c st of
       None \<Rightarrow> None
     | Some (status, c', st') \<Rightarrow>
         if status \<noteq> MC_OK then Some (status, c', st')
         else let leftover = (if limit_to_mtu c \<and> len + c_msg_bytes c' > UDP_MAX_PAYLOAD_SIZE
                              then len + c_msg_bytes c' - UDP_MAX_PAYLOAD_SIZE else 0);
                  n = len - leftover
           in case conn_put_iov buf n c' of
                None \<Rightarrow> None
              | Some c'' \<Rightarrow>
                  if leftover > 0 then conn_add_iov (mem_adv n buf) leftover c'' st'
                  else Some (MC_OK, c'', st'))"
  by pat_completeness auto
termination
  by (relation "measure (\<lambda>(buf, len, c, st). len)")
    (auto dest!: conn_iov_room_bytes split: if_splits)

declare conn_add_iov.simps [simp del]

definition conn_byte :: "nat \<Rightarrow> char" where
  "conn_byte n = char_of (n mod 256)"

definition udp_header :: "nat \<Rightarrow> nat \<Rightarrow> nat \<Rightarrow> bytes" where
  "udp_header rid i n = [conn_byte (rid div 256), conn_byte rid, conn_byte (i div 256), conn_byte i,
     conn_byte (n div 256), conn_byte n, conn_byte 0, conn_byte 0]"

fun udp_headers_loop :: "nat list \<Rightarrow> conn \<Rightarrow> conn option" where
  "udp_headers_loop [] c = Some c"
| "udp_headers_loop (i # is') c =
    (let k = msg_iov (c_msg c ! i) in
     if k \<ge> length (c_iov c) then None
     else udp_headers_loop is' (c\<lparr>c_iov := (c_iov c)
       [k := \<lparr>iov_base = MemText (udp_header (c_udp_rid c) i (c_msg_used c)), iov_len = UDP_HEADER_SIZE\<rparr>]\<rparr>))"

definition conn_build_udp_headers :: "conn \<Rightarrow> mc \<Rightarrow> (rstatus \<times> conn \<times> mc) option" where
  "conn_build_udp_headers c st =
    (let (ok, c, st) =
       (if c_msg_used c > c_udp_hsize c then
          (let (ok, st) = mc_alloc_next st in
           if \<not> ok then (False, c, st) else (True, c\<lparr>c_udp_hsize := c_msg_used c * 2\<rparr>, st))
        else (True, c, st))
     in if \<not> ok then Some (MC_ENOMEM, c, st)
        else map_option (\<lambda>c. (MC_OK, c, st)) (udp_headers_loop [0..<c_msg_used c] c))"

subsection \<open>Buffers\<close>

text \<open>\<open>memmove\<close> of the unparsed bytes to the start of the read buffer, and \<open>realloc\<close> of a buffer.\<close>

definition rbuf_compact :: "conn \<Rightarrow> bytes" where
  "rbuf_compact c = take (c_rbytes c) (drop (c_rcurr c) (c_rbuf c)) @ drop (c_rbytes c) (c_rbuf c)"

definition conn_shrink_rbuf :: "conn \<Rightarrow> mc \<Rightarrow> conn \<times> mc" where
  "conn_shrink_rbuf c st =
    (if length (c_rbuf c) > RSIZE_HIGHWAT \<and> c_rbytes c < TCP_BUFFER_SIZE then
       (let c = (if c_rcurr c \<noteq> 0 then c\<lparr>c_rbuf := rbuf_compact c\<rparr> else c);
            (ok, st) = mc_alloc_next st;
            c = (if ok then c\<lparr>c_rbuf := take TCP_BUFFER_SIZE (c_rbuf c)\<rparr> else c)
        in (c\<lparr>c_rcurr := 0\<rparr>, st))
     else (c, st))"

definition conn_shrink_ilist :: "conn \<Rightarrow> mc \<Rightarrow> conn \<times> mc" where
  "conn_shrink_ilist c st =
    (if length (c_ilist c) > ILIST_HIGHWAT then
       (let (ok, st) = mc_alloc_next st in
        (if ok then c\<lparr>c_ilist := take ILIST_SIZE (c_ilist c)\<rparr> else c, st))
     else (c, st))"

definition conn_shrink_msg :: "conn \<Rightarrow> mc \<Rightarrow> conn \<times> mc" where
  "conn_shrink_msg c st =
    (if length (c_msg c) > MSG_HIGHWAT then
       (let (ok, st) = mc_alloc_next st in
        (if ok then c\<lparr>c_msg := take MSG_SIZE (c_msg c)\<rparr> else c, st))
     else (c, st))"

definition conn_shrink_iov :: "conn \<Rightarrow> mc \<Rightarrow> conn \<times> mc" where
  "conn_shrink_iov c st =
    (if length (c_iov c) > IOV_HIGHWAT then
       (let (ok, st) = mc_alloc_next st in
        (if ok then c\<lparr>c_iov := take IOV_SIZE (c_iov c)\<rparr> else c, st))
     else (c, st))"

definition conn_shrink :: "conn \<Rightarrow> mc \<Rightarrow> conn \<times> mc" where
  "conn_shrink c st =
    (if c_udp c then (c, st)
     else let (c, st) = conn_shrink_rbuf c st;
              (c, st) = conn_shrink_ilist c st;
              (c, st) = conn_shrink_msg c st
       in conn_shrink_iov c st)"

subsection \<open>The pool and the queues\<close>

text \<open>The free connections, oldest first, with the counter \<open>nfree_connq\<close>. The memory that \<open>malloc\<close>
  returns is unspecified; here it is zero.\<close>

record conn_pool =
  free_connq :: "conn list"
  nfree_connq :: nat

definition conn_init :: conn_pool where
  "conn_init = \<lparr>free_connq = [], nfree_connq = 0\<rparr>"

definition conn_put :: "conn \<Rightarrow> conn_pool \<Rightarrow> conn_pool" where
  "conn_put c q =
    (if length (c_rbuf c) > RSIZE_HIGHWAT then q
     else q\<lparr>nfree_connq := nfree_connq q + 1, free_connq := free_connq q @ [c]\<rparr>)"

definition conn_get_free :: "conn_pool \<Rightarrow> conn option \<times> conn_pool" where
  "conn_get_free q =
    (case free_connq q of
       [] \<Rightarrow> (None, q)
     | c # cs \<Rightarrow> (Some c, q\<lparr>nfree_connq := nfree_connq q - 1, free_connq := cs\<rparr>))"

text \<open>A fresh connection: the allocation of the structure, then those of its six buffers.\<close>

definition conn_buffers :: "nat \<Rightarrow> conn" where
  "conn_buffers rsize = \<lparr>c_state = CONN_LISTEN, c_ev_flags = EV_NONE, c_rbuf = replicate rsize (CHR 0x00),
     c_rcurr = 0, c_rbytes = 0, c_wsize = TCP_BUFFER_SIZE, c_wcurr = [], c_write_and_go = CONN_LISTEN,
     c_write_and_free = False, c_ritem = 0, c_rlbytes = 0, c_tid = [], c_lease_token = 0, c_item = None,
     c_sbytes = 0, c_iov = replicate IOV_SIZE iov_none, c_iov_used = 0, c_msg = replicate MSG_SIZE msg_none,
     c_msg_used = 0, c_msg_curr = 0, c_msg_bytes = 0, c_ilist = replicate ILIST_SIZE None, c_icurr = 0,
     c_ileft = 0, c_slist = replicate SLIST_SIZE 0, c_scurr = 0, c_sleft = 0, c_req_type = REQ_UNKNOWN,
     c_req = [], c_udp_rid = 0, c_udp_hsize = 0, c_noreply = False, c_udp = False\<rparr>"

fun mc_alloc_all :: "nat \<Rightarrow> mc \<Rightarrow> bool \<times> mc" where
  "mc_alloc_all 0 st = (True, st)"
| "mc_alloc_all (Suc n) st =
    (let (ok, st) = mc_alloc_next st; (oks, st) = mc_alloc_all n st in (ok \<and> oks, st))"

definition conn_alloc :: "nat \<Rightarrow> mc \<Rightarrow> conn option \<times> mc" where
  "conn_alloc rsize st =
    (let (ok, st) = mc_alloc_next st in
     if \<not> ok then (None, st)
     else let (ok, st) = mc_alloc_all 6 st in
       (if ok then Some (conn_buffers rsize) else None, st))"

text \<open>Every field \<open>conn_get\<close> sets; \<open>tid\<close> and \<open>lease_token\<close> are left as they were.\<close>

definition conn_reset :: "conn_state \<Rightarrow> ev_flags \<Rightarrow> bool \<Rightarrow> conn \<Rightarrow> conn" where
  "conn_reset state ev udp c = c\<lparr>c_state := state, c_ev_flags := ev, c_rcurr := 0, c_rbytes := 0,
     c_wcurr := [], c_write_and_go := state, c_write_and_free := False, c_ritem := 0, c_rlbytes := 0,
     c_item := None, c_sbytes := 0, c_iov_used := 0, c_msg_used := 0, c_msg_curr := 0, c_msg_bytes := 0,
     c_icurr := 0, c_ileft := 0, c_scurr := 0, c_sleft := 0, c_req_type := REQ_UNKNOWN, c_req := [],
     c_udp := udp, c_udp_rid := 0, c_udp_hsize := 0, c_noreply := False\<rparr>"

definition conn_get :: "conn_state \<Rightarrow> ev_flags \<Rightarrow> nat \<Rightarrow> bool \<Rightarrow> conn_pool \<Rightarrow> mc \<Rightarrow> conn option \<times> conn_pool \<times> mc" where
  "conn_get state ev rsize udp q st =
    (let (r, q) = conn_get_free q;
         (r, st) = (case r of Some c \<Rightarrow> (Some c, st) | None \<Rightarrow> conn_alloc rsize st)
     in (map_option (conn_reset state ev udp) r, q, st))"

definition conn_cq_push :: "'a \<Rightarrow> 'a list \<Rightarrow> 'a list" where
  "conn_cq_push c cq = cq @ [c]"

definition conn_cq_pop :: "'a list \<Rightarrow> 'a option \<times> 'a list" where
  "conn_cq_pop cq = (case cq of [] \<Rightarrow> (None, []) | c # cs \<Rightarrow> (Some c, cs))"

subsection \<open>Releasing what a connection holds\<close>

text \<open>The state of a worker: the cache, the cache of suffix buffers with the next address \<open>malloc\<close>
  returns for one, and the server variables that commands read and write. \<open>sv_version\<close> is a constant
  of the build, \<open>sv_stats_text\<close> the text the statistics module produces for a subcommand (none if
  memory runs out), and \<open>sv_tv_sec\<close> the second \<open>gettimeofday\<close> returns.\<close>

record srv =
  sv_mc :: mc
  sv_suffix_cache :: cache
  sv_brk :: nat
  sv_configuration_number :: int
  sv_klog_name :: bool
  sv_klog_running :: bool
  sv_klog_sampling_rate :: int
  sv_stats_agg_intvl :: "int \<times> int"
  sv_log_level :: int
  sv_version :: bytes
  sv_stats_text :: "bytes \<Rightarrow> bytes option"
  sv_tv_sec :: int

text \<open>\<open>cache_free\<close> of a suffix, with the outcome of its \<open>realloc\<close>.\<close>

definition srv_free_suffix :: "nat \<Rightarrow> srv \<Rightarrow> srv option" where
  "srv_free_suffix suffix s =
    (let (ok, st) = (if ca_freecurr (sv_suffix_cache s) < ca_freetotal (sv_suffix_cache s)
                     then (True, sv_mc s) else mc_alloc_next (sv_mc s))
     in case cache_free ok suffix (sv_suffix_cache s) of
          None \<Rightarrow> None
        | Some (_, cache) \<Rightarrow> Some (s\<lparr>sv_mc := st, sv_suffix_cache := cache\<rparr>))"

fun release_suffixes :: "nat list \<Rightarrow> srv \<Rightarrow> srv option" where
  "release_suffixes [] s = Some s"
| "release_suffixes (b # bs) s = Option.bind (srv_free_suffix b s) (release_suffixes bs)"

definition conn_suffixes :: "conn \<Rightarrow> nat list option" where
  "conn_suffixes c =
    (if c_sleft c = 0 \<or> c_scurr c + c_sleft c \<le> length (c_slist c) then Some (take (c_sleft c) (drop (c_scurr c) (c_slist c)))
     else None)"

definition conn_items :: "conn \<Rightarrow> ptr option list option" where
  "conn_items c =
    (if c_ileft c = 0 \<or> c_icurr c + c_ileft c \<le> length (c_ilist c) then Some (take (c_ileft c) (drop (c_icurr c) (c_ilist c)))
     else None)"

definition conn_release_suffixes :: "conn \<Rightarrow> srv \<Rightarrow> (conn \<times> srv) option" where
  "conn_release_suffixes c s = do {
     bs \<leftarrow> conn_suffixes c;
     s \<leftarrow> release_suffixes bs s;
     Some (c\<lparr>c_scurr := c_scurr c + c_sleft c, c_sleft := 0\<rparr>, s)
   }"

text \<open>The loop of \<open>conn_cleanup\<close> passes each entry to \<open>item_remove\<close>; a null entry is a fault.\<close>

fun remove_all :: "ptr option list \<Rightarrow> mc \<Rightarrow> mc option" where
  "remove_all [] st = Some st"
| "remove_all (None # ps) st = None"
| "remove_all (Some p # ps) st = remove_all ps (item_remove p st)"

definition conn_cleanup :: "conn \<Rightarrow> srv \<Rightarrow> (conn \<times> srv) option" where
  "conn_cleanup c s = do {
     let st = item_remove_opt (c_item c) (sv_mc s);
     let c = c\<lparr>c_item := None\<rparr>;
     ps \<leftarrow> conn_items c;
     st \<leftarrow> remove_all ps st;
     let c = c\<lparr>c_icurr := c_icurr c + c_ileft c, c_ileft := 0\<rparr>;
     (c, s) \<leftarrow> conn_release_suffixes c (s\<lparr>sv_mc := st\<rparr>);
     let c = c\<lparr>c_write_and_free := False\<rparr>;
     Some (if c_udp c then conn_set_state CONN_READ c else c, s)
   }"

subsection \<open>The fragments of a response\<close>

definition msg_frags :: "iovec list \<Rightarrow> msghdr \<Rightarrow> iovec list" where
  "msg_frags iov m = take (msg_iovlen m) (drop (msg_iov m) iov)"

definition conn_msgs :: "conn \<Rightarrow> msghdr list" where
  "conn_msgs c = take (c_msg_used c) (c_msg c)"

definition conn_frags :: "conn \<Rightarrow> iovec list list" where
  "conn_frags c = map (msg_frags (c_iov c)) (conn_msgs c)"

definition frags_len :: "iovec list \<Rightarrow> nat" where
  "frags_len vs = sum_list (map iov_len vs)"

definition iov_text :: "mc \<Rightarrow> iovec \<Rightarrow> bytes" where
  "iov_text st v = take (iov_len v) (mem_bytes st (iov_base v))"

definition frags_text :: "mc \<Rightarrow> iovec list \<Rightarrow> bytes" where
  "frags_text st vs = concat (map (iov_text st) vs)"

text \<open>The messages lie one after the other in the array, within its bounds; \<open>msg_bytes\<close> is the size of the
  last one; and a message that is limited to the MTU keeps to it.\<close>

definition conn_ok :: "conn \<Rightarrow> bool" where
  "conn_ok c \<longleftrightarrow> c_msg_used c \<le> length (c_msg c) \<and> 0 < length (c_msg c) \<and> 0 < length (c_iov c)
    \<and> conn_repoint 0 (conn_msgs c) = conn_msgs c
    \<and> sum_list (map msg_iovlen (conn_msgs c)) = c_iov_used c \<and> c_iov_used c \<le> length (c_iov c)
    \<and> (c_msg_used c \<noteq> 0 \<longrightarrow> c_msg_bytes c = frags_len (last (conn_frags c)))"

definition within_mtu :: "conn \<Rightarrow> bool" where
  "within_mtu c \<longleftrightarrow> (\<forall>i < c_msg_used c. c_udp c \<or> i = 0 \<longrightarrow> frags_len (conn_frags c ! i) \<le> UDP_MAX_PAYLOAD_SIZE)"

lemma frags_simps [simp]:
  "frags_len [] = 0" "frags_len (v # vs) = iov_len v + frags_len vs" "frags_len (vs @ ws) = frags_len vs + frags_len ws"
  "frags_text st [] = []" "frags_text st (v # vs) = iov_text st v @ frags_text st vs"
  "frags_text st (vs @ ws) = frags_text st vs @ frags_text st ws"
  by (simp_all add: frags_len_def frags_text_def)

lemma conn_repoint_append:
  "conn_repoint k (ms @ ms') = conn_repoint k ms @ conn_repoint (k + sum_list (map msg_iovlen ms)) ms'"
  by (induction ms arbitrary: k) (simp_all add: algebra_simps)

lemma length_conn_repoint [simp]: "length (conn_repoint k ms) = length ms"
  by (induction ms arbitrary: k) simp_all

lemma conn_repoint_snoc:
  "conn_repoint k (ms @ [m]) = ms @ [m] \<longleftrightarrow> conn_repoint k ms = ms \<and> msg_iov m = k + sum_list (map msg_iovlen ms)"
  by (cases m) (auto simp: conn_repoint_append)

lemma conn_repoint_range:
  "conn_repoint k ms = ms \<Longrightarrow> m \<in> set ms \<Longrightarrow> k \<le> msg_iov m \<and> msg_iov m + msg_iovlen m \<le> k + sum_list (map msg_iovlen ms)"
proof (induction ms arbitrary: k)
  case (Cons a ms)
  from Cons.prems(1) have a: "msg_iov a = k" "conn_repoint (k + msg_iovlen a) ms = ms"
    by (cases a, auto)+
  show ?case
  proof (cases "m = a")
    case False
    then show ?thesis using Cons.IH [OF a(2)] Cons.prems(2) by auto
  qed (use a in simp)
qed simp

lemma conn_ok_range:
  assumes "conn_ok c" "m \<in> set (conn_msgs c)"
  shows "msg_iov m + msg_iovlen m \<le> c_iov_used c" "msg_iov m + msg_iovlen m \<le> length (c_iov c)"
  using conn_repoint_range [of 0 "conn_msgs c" m] assms by (auto simp: conn_ok_def)

lemma msg_frags_cong:
  "msg_iov m + msg_iovlen m \<le> i \<Longrightarrow> msg_frags (iov[i := v]) m = msg_frags iov m"
  "msg_iov m + msg_iovlen m \<le> length iov \<Longrightarrow> msg_frags (iov @ ws) m = msg_frags iov m"
  by (simp_all add: msg_frags_def take_drop)

lemma msgs_snoc:
  assumes "conn_ok c" "c_msg_used c \<noteq> 0"
  obtains ms m where "conn_msgs c = ms @ [m]" "m = c_msg c ! (c_msg_used c - 1)"
    "msg_iov m + msg_iovlen m = c_iov_used c" "conn_frags c = map (msg_frags (c_iov c)) ms @ [msg_frags (c_iov c) m]"
proof -
  let ?n = "c_msg_used c - 1"
  have l: "?n < length (c_msg c)" "Suc ?n = c_msg_used c" using assms by (auto simp: conn_ok_def)
  then have s: "conn_msgs c = take ?n (c_msg c) @ [c_msg c ! ?n]"
    unfolding conn_msgs_def by (metis take_Suc_conv_app_nth)
  moreover have "msg_iov (c_msg c ! ?n) + msg_iovlen (c_msg c ! ?n) = c_iov_used c"
    using assms(1) by (auto simp: conn_ok_def s conn_repoint_snoc)
  ultimately show ?thesis using that by (simp add: conn_frags_def)
qed

lemma conn_ensure_iov_space_frags:
  assumes "conn_ok c" "conn_ensure_iov_space c st = (status, c', st')"
  shows "conn_ok c'" "conn_frags c' = conn_frags c" "status = MC_OK \<Longrightarrow> c_iov_used c' < length (c_iov c')"
    "\<exists>e. st' = st\<lparr>st_env_pos := e\<rparr>"
proof -
  have sp: "conn_repoint 0 (take (c_msg_used c) (c_msg c)) @ drop (c_msg_used c) (c_msg c) = c_msg c"
    using assms(1) by (simp add: conn_ok_def conn_msgs_def)
  have fr: "map (msg_frags (c_iov c @ ws)) (conn_msgs c) = map (msg_frags (c_iov c)) (conn_msgs c)" for ws
    using conn_ok_range(2) [OF assms(1)] by (simp add: msg_frags_cong)
  let ?c = "c\<lparr>c_iov := c_iov c @ replicate (length (c_iov c)) iov_none\<rparr>"
  have c': "c' = c \<or> c' = ?c \<and> status = MC_OK"
    using assms(2) by (auto simp: conn_ensure_iov_space_def sp Let_def split: if_splits prod.splits)
  have f: "conn_frags ?c = conn_frags c" by (simp add: conn_frags_def conn_msgs_def fr [unfolded conn_msgs_def])
  have "conn_ok ?c" using assms(1) f by (simp add: conn_ok_def conn_msgs_def)
  then show "conn_ok c'" "conn_frags c' = conn_frags c" using c' f assms(1) by auto
  show "status = MC_OK \<Longrightarrow> c_iov_used c' < length (c_iov c')"
    using assms by (auto simp: conn_ensure_iov_space_def conn_ok_def sp Let_def split: if_splits prod.splits)
      (metis length_greater_0_conv)+
  show "\<exists>e. st' = st\<lparr>st_env_pos := e\<rparr>"
    using assms(2) by (auto simp: conn_ensure_iov_space_def mc_alloc_next_def Let_def split: if_splits intro: exI [of _ "st_env_pos st"])
qed

lemma conn_msg_room_frags:
  assumes "conn_ok c" "conn_msg_room c st = (status, c', st')"
  shows "conn_ok c'" "conn_frags c' = conn_frags c" "status = MC_OK \<Longrightarrow> c_msg_used c' < length (c_msg c')"
    "\<exists>e. st' = st\<lparr>st_env_pos := e\<rparr>"
proof -
  let ?c = "c\<lparr>c_msg := c_msg c @ replicate (length (c_msg c)) msg_none\<rparr>"
  have le: "c_msg_used c \<le> length (c_msg c)" "0 < length (c_msg c)" using assms(1) by (simp_all add: conn_ok_def)
  have c': "c' = c \<or> c' = ?c"
    using assms(2) by (auto simp: conn_msg_room_def Let_def split: if_splits prod.splits)
  have m: "conn_msgs ?c = conn_msgs c" using le by (simp add: conn_msgs_def)
  then have "conn_frags ?c = conn_frags c" by (simp add: conn_frags_def)
  moreover from this have "conn_ok ?c" using assms(1) m by (simp add: conn_ok_def)
  ultimately show "conn_ok c'" "conn_frags c' = conn_frags c" using c' assms(1) by auto
  show "status = MC_OK \<Longrightarrow> c_msg_used c' < length (c_msg c')"
    using assms(2) le by (auto simp: conn_msg_room_def Let_def split: if_splits prod.splits)
      (metis length_greater_0_conv)
  show "\<exists>e. st' = st\<lparr>st_env_pos := e\<rparr>"
    using assms(2) by (auto simp: conn_msg_room_def mc_alloc_next_def Let_def split: if_splits intro: exI [of _ "st_env_pos st"])
qed

lemma conn_new_msg_frags:
  assumes "conn_ok c" "c_msg_used c < length (c_msg c)"
  obtains c' where "conn_new_msg c = Some c'" "conn_ok c'" "conn_frags c' = conn_frags c @ [[]]"
proof -
  let ?m = "\<lparr>msg_iov = c_iov_used c, msg_iovlen = 0\<rparr>"
  let ?c = "c\<lparr>c_msg := (c_msg c)[c_msg_used c := ?m], c_msg_bytes := 0, c_msg_used := Suc (c_msg_used c)\<rparr>"
  have m: "conn_msgs ?c = conn_msgs c @ [?m]"
    using assms(2) by (simp add: conn_msgs_def take_Suc_conv_app_nth)
  then have f: "conn_frags ?c = conn_frags c @ [[]]" by (simp add: conn_frags_def msg_frags_def)
  moreover have "conn_ok ?c" using assms by (auto simp: conn_ok_def m f conn_repoint_snoc)
  moreover have "conn_new_msg c = Some ?c" using assms(2) by (simp add: conn_new_msg_def)
  ultimately show ?thesis using that by blast
qed

lemma take_drop_update:
  "k + n < length xs \<Longrightarrow> take (Suc n) (drop k (xs[k + n := v])) = take n (drop k xs) @ [v]"
  by (simp add: take_Suc_conv_app_nth drop_update_swap)

lemma conn_put_iov_frags:
  assumes "conn_ok c" "c_msg_used c \<noteq> 0" "c_iov_used c < length (c_iov c)"
  obtains c' where "conn_put_iov buf len c = Some c'" "conn_ok c'"
    "conn_frags c' = butlast (conn_frags c) @ [last (conn_frags c) @ [\<lparr>iov_base = buf, iov_len = len\<rparr>]]"
proof -
  obtain ms m where ms: "conn_msgs c = ms @ [m]" "m = c_msg c ! (c_msg_used c - 1)"
    "msg_iov m + msg_iovlen m = c_iov_used c" "conn_frags c = map (msg_frags (c_iov c)) ms @ [msg_frags (c_iov c) m]"
    using msgs_snoc [OF assms(1,2)] by blast
  let ?v = "\<lparr>iov_base = buf, iov_len = len\<rparr>" and ?i = "c_iov_used c" and ?m = "m\<lparr>msg_iovlen := Suc (msg_iovlen m)\<rparr>"
  define c2 where "c2 = c\<lparr>c_iov := (c_iov c)[?i := ?v], c_msg_bytes := c_msg_bytes c + len, c_iov_used := Suc ?i,
      c_msg := (c_msg c)[c_msg_used c - 1 := ?m]\<rparr>"
  have le: "c_msg_used c \<le> length (c_msg c)" using assms(1) by (simp add: conn_ok_def)
  then have put: "conn_put_iov buf len c = Some c2"
    using assms(2,3) ms(2,3) by (simp add: conn_put_iov_def c2_def Let_def)
  have fields: "c_msg_used c2 = c_msg_used c" "length (c_msg c2) = length (c_msg c)" "length (c_iov c2) = length (c_iov c)"
    "c_iov_used c2 = Suc ?i" "c_msg_bytes c2 = c_msg_bytes c + len"
    by (simp_all add: c2_def)
  have n: "length ms = c_msg_used c - 1"
    using arg_cong [OF ms(1), of length] le by (simp add: conn_msgs_def)
  have m: "conn_msgs c2 = ms @ [?m]"
    using ms(1) n assms(2) le by (simp add: conn_msgs_def c2_def take_update_swap list_update_append)
  have "msg_frags ((c_iov c)[?i := ?v]) m' = msg_frags (c_iov c) m'" if "m' \<in> set ms" for m'
  proof -
    have "msg_iov m' + msg_iovlen m' \<le> ?i" using conn_ok_range(1) [OF assms(1)] ms(1) that by simp
    then show ?thesis by (rule msg_frags_cong(1))
  qed
  moreover have "msg_frags ((c_iov c)[?i := ?v]) ?m = msg_frags (c_iov c) m @ [?v]"
    using take_drop_update [of "msg_iov m" "msg_iovlen m" "c_iov c" ?v] ms(3) assms(3) by (simp add: msg_frags_def)
  ultimately have f: "conn_frags c2 = map (msg_frags (c_iov c)) ms @ [msg_frags (c_iov c) m @ [?v]]"
    using m by (simp add: conn_frags_def c2_def)
  have "conn_ok c2"
    using assms ms(1,4) by (auto simp: conn_ok_def m f conn_repoint_snoc fields)
  then show ?thesis using that [OF put] f ms(4) by simp
qed

text \<open>What assembling keeps: everything but the response, and of the cache all but the environment.\<close>

definition same_mc :: "mc \<Rightarrow> mc \<Rightarrow> bool" where
  "same_mc st st' \<longleftrightarrow> (\<exists>e. st' = st\<lparr>st_env_pos := e\<rparr>)"

lemma same_mc_refl [simp]: "same_mc st st"
  unfolding same_mc_def by (rule exI [of _ "st_env_pos st"]) simp

lemma same_mc_trans: "same_mc st st' \<Longrightarrow> same_mc st' st'' \<Longrightarrow> same_mc st st''"
  by (auto simp: same_mc_def)

lemma same_mc_heap: "same_mc st st' \<Longrightarrow> st_heap st' = st_heap st"
  by (auto simp: same_mc_def)

lemma same_mc_text: "same_mc st st' \<Longrightarrow> mem_bytes st' b = mem_bytes st b"
  by (cases b) (auto simp: same_mc_def)

lemma conn_add_msghdr_frags:
  assumes "conn_ok c"
  obtains r c' st' where "conn_add_msghdr c st = Some (r, c', st')" "conn_ok c'" "same_mc st st'"
    "conn_core c' = conn_core c"
    "r = MC_OK \<Longrightarrow> conn_frags c' = conn_frags c @ [if c_udp c then [\<lparr>iov_base = MemText [], iov_len = UDP_HEADER_SIZE\<rparr>] else []]"
proof -
  obtain r1 c1 st1 where 1: "conn_msg_room c st = (r1, c1, st1)" by (metis prod.exhaust)
  note r1 = conn_msg_room_frags [OF assms 1] and k1 = conn_msg_room_fields [OF 1]
  show ?thesis
  proof (cases "r1 = MC_OK")
    case False
    then have "conn_add_msghdr c st = Some (r1, c1, st1)" by (simp add: conn_add_msghdr_def 1)
    then show ?thesis using that r1 k1 False by (simp add: same_mc_def)
  next
    case True
    obtain c2 where 2: "conn_new_msg c1 = Some c2" "conn_ok c2" "conn_frags c2 = conn_frags c1 @ [[]]"
      using conn_new_msg_frags [OF r1(1) r1(3) [OF True]] by blast
    have k2: "conn_core c2 = conn_core c" "c_msg_used c2 \<noteq> 0" using conn_new_msg_fields [OF 2(1)] k1 by simp_all
    show ?thesis
    proof (cases "c_udp c")
      case udp: False
      then have "conn_add_msghdr c st = Some (MC_OK, c2, st1)"
        using True 1 2 conn_core_udp [OF k2(1)] by (simp add: conn_add_msghdr_def)
      then show ?thesis using that 2 r1 k2 udp by (simp add: same_mc_def)
    next
      case udp: True
      obtain r3 c3 st3 where 3: "conn_ensure_iov_space c2 st1 = (r3, c3, st3)" by (metis prod.exhaust)
      note r3 = conn_ensure_iov_space_frags [OF 2(2) 3] and k3 = conn_ensure_iov_space_fields [OF 3]
      have env: "same_mc st st3" using r1(4) r3(4) by (auto simp: same_mc_def)
      show ?thesis
      proof (cases "r3 = MC_OK")
        case False
        then have "conn_add_msghdr c st = Some (r3, c3, st3)"
          using True 1 2 3 udp conn_core_udp [OF k2(1)] by (simp add: conn_add_msghdr_def)
        then show ?thesis using that r3 k3 k2 env False by simp
      next
        case ok: True
        obtain c4 where 4: "conn_put_iov (MemText []) UDP_HEADER_SIZE c3 = Some c4" "conn_ok c4"
          "conn_frags c4 = butlast (conn_frags c3) @ [last (conn_frags c3) @ [\<lparr>iov_base = MemText [], iov_len = UDP_HEADER_SIZE\<rparr>]]"
          using conn_put_iov_frags [OF r3(1) _ r3(3) [OF ok]] k3 k2(2) by metis
        have "conn_add_msghdr c st = Some (MC_OK, c4, st3)"
          using True 1 2 3 4 ok udp conn_core_udp [OF k2(1)] by (simp add: conn_add_msghdr_def)
        then show ?thesis using that 4 r3 2 r1 k3 k2 conn_put_iov_fields [OF 4(1)] env udp by simp
      qed
    qed
  qed
qed

definition framed :: "conn \<Rightarrow> bool" where
  "framed c \<longleftrightarrow> (c_udp c \<longrightarrow> [] \<notin> set (conn_frags c))"

text \<open>The payload of a response: the text of its messages, without the headers of UDP.\<close>

definition conn_payload :: "mc \<Rightarrow> conn \<Rightarrow> bytes" where
  "conn_payload st c = concat (map (\<lambda>vs. frags_text st (if c_udp c then tl vs else vs)) (conn_frags c))"

lemma same_mc_frags: "same_mc st st' \<Longrightarrow> frags_text st' = frags_text st"
proof -
  assume "same_mc st st'"
  then have "iov_text st' = iov_text st" by (intro ext) (simp add: iov_text_def same_mc_text)
  then show "frags_text st' = frags_text st" by (intro ext) (simp add: frags_text_def)
qed

lemma same_mc_payload: "same_mc st st' \<Longrightarrow> conn_payload st' c = conn_payload st c"
  by (simp add: conn_payload_def same_mc_frags)

definition building :: "conn \<Rightarrow> bool" where
  "building c \<longleftrightarrow> conn_ok c \<and> c_msg_used c \<noteq> 0 \<and> framed c \<and> within_mtu c"

lemma length_conn_frags [simp]: "conn_ok c \<Longrightarrow> length (conn_frags c) = c_msg_used c"
  by (simp add: conn_frags_def conn_msgs_def conn_ok_def)

lemma building_frags:
  assumes "building c" "conn_ok c'" "conn_core c' = conn_core c" "conn_frags c' = conn_frags c"
  shows "building c' \<and> conn_payload st c' = conn_payload st c"
proof -
  have "c_msg_used c' = c_msg_used c" using assms length_conn_frags [of c] length_conn_frags [of c'] by (simp add: building_def)
  then show ?thesis using assms conn_core_udp [OF assms(3)]
    by (simp add: building_def framed_def within_mtu_def conn_payload_def)
qed

lemma building_new:
  assumes "building c" "conn_ok c'" "conn_core c' = conn_core c"
    "conn_frags c' = conn_frags c @ [if c_udp c then [\<lparr>iov_base = MemText [], iov_len = UDP_HEADER_SIZE\<rparr>] else []]"
  shows "building c' \<and> conn_payload st c' = conn_payload st c"
proof -
  have "c_msg_used c' = c_msg_used c + 1" using assms length_conn_frags [of c] length_conn_frags [of c'] by (simp add: building_def)
  then show ?thesis using assms conn_core_udp [OF assms(3)]
    by (auto simp: building_def framed_def within_mtu_def conn_payload_def nth_append less_Suc_eq conn_size_defs)
qed

lemma building_put:
  assumes "building c" "conn_ok c'" "conn_core c' = conn_core c"
    "conn_frags c' = butlast (conn_frags c) @ [last (conn_frags c) @ [v]]"
    "c_udp c \<or> c_msg_used c = 1 \<Longrightarrow> c_msg_bytes c + iov_len v \<le> UDP_MAX_PAYLOAD_SIZE"
  shows "building c'" "conn_payload st c' = conn_payload st c @ iov_text st v"
proof -
  have u: "c_udp c' = c_udp c" by (rule conn_core_udp [OF assms(3)])
  have ok: "conn_ok c" "c_msg_used c \<noteq> 0" "framed c" "within_mtu c" using assms(1) by (simp_all add: building_def)
  have ne: "conn_frags c \<noteq> []" using ok(1,2) length_conn_frags by (metis list.size(3))
  then have n: "c_msg_used c' = c_msg_used c"
    using assms(4) length_conn_frags [OF ok(1)] length_conn_frags [OF assms(2)] ok(2) by simp
  obtain vss vs where f: "conn_frags c = vss @ [vs]" using ne by (metis rev_exhaust)
  have b: "c_msg_bytes c = frags_len vs" using ok(1,2) f by (simp add: conn_ok_def)
  have l: "length vss = c_msg_used c - 1" using length_conn_frags [OF ok(1)] f by simp
  have "frags_len ((vss @ [vs @ [v]]) ! i) \<le> UDP_MAX_PAYLOAD_SIZE" if "i < c_msg_used c" "c_udp c \<or> i = 0" for i
  proof (cases "i < length vss")
    case True
    then show ?thesis using ok(4) that f by (auto simp: within_mtu_def nth_append dest: spec [of _ i])
  next
    case False
    then have "i = length vss" using that(1) l by simp
    then show ?thesis using assms(5) b that l by (auto simp: nth_append)
  qed
  then have "within_mtu c'" using assms(4) f n u by (simp add: within_mtu_def)
  moreover have "framed c'" using ok(3) assms(4) f u by (auto simp: framed_def)
  ultimately show "building c'" using assms(2) ok(2) n by (simp add: building_def)
  show "conn_payload st c' = conn_payload st c @ iov_text st v"
  proof (cases "c_udp c")
    case True
    then have "vs \<noteq> []" using ok(3) f by (auto simp: framed_def)
    then show ?thesis using assms(4) f u by (simp add: conn_payload_def)
  qed (use assms(4) f u in \<open>simp add: conn_payload_def\<close>)
qed

lemma conn_iov_room_building:
  assumes "building c"
  obtains r c' st' where "conn_iov_room c st = Some (r, c', st')" "same_mc st st'" "conn_core c' = conn_core c"
    "conn_ok c'" "r = MC_OK \<Longrightarrow> building c' \<and> conn_payload st c' = conn_payload st c \<and> c_iov_used c' < length (c_iov c')"
    "r = MC_OK \<Longrightarrow> c_msg_used c \<le> c_msg_used c'"
proof -
  have ok: "conn_ok c" "c_msg_used c \<noteq> 0" "c_msg_used c \<le> length (c_msg c)" using assms by (simp_all add: building_def conn_ok_def)
  define full where "full \<longleftrightarrow> msg_iovlen (c_msg c ! (c_msg_used c - 1)) = IOV_MAX
      \<or> limit_to_mtu c \<and> c_msg_bytes c \<ge> UDP_MAX_PAYLOAD_SIZE"
  have room: "conn_iov_room c st = (case (if full then conn_add_msghdr c st else Some (MC_OK, c, st)) of
       None \<Rightarrow> None | Some (status, c, st) \<Rightarrow>
         if status \<noteq> MC_OK then Some (status, c, st) else Some (conn_ensure_iov_space c st))"
    using ok by (simp add: conn_iov_room_def full_def)
  obtain r1 c1 st1 where 1: "(if full then conn_add_msghdr c st else Some (MC_OK, c, st)) = Some (r1, c1, st1)"
    "conn_ok c1" "same_mc st st1" "conn_core c1 = conn_core c"
    "r1 = MC_OK \<Longrightarrow> building c1 \<and> conn_payload st c1 = conn_payload st c" "r1 = MC_OK \<Longrightarrow> c_msg_used c \<le> c_msg_used c1"
  proof (cases full)
    case True
    obtain r1 c1 st1 where a: "conn_add_msghdr c st = Some (r1, c1, st1)" "conn_ok c1" "same_mc st st1"
      "conn_core c1 = conn_core c"
      "r1 = MC_OK \<Longrightarrow> conn_frags c1 = conn_frags c @ [if c_udp c then [\<lparr>iov_base = MemText [], iov_len = UDP_HEADER_SIZE\<rparr>] else []]"
      using conn_add_msghdr_frags [OF ok(1)] by metis
    show ?thesis
    proof (rule that [of r1 c1 st1])
      show "building c1 \<and> conn_payload st c1 = conn_payload st c" if "r1 = MC_OK"
        using building_new [OF assms a(2,4) a(5) [OF that]] .
      show "c_msg_used c \<le> c_msg_used c1" if "r1 = MC_OK" using conn_add_msghdr_fields a(1) that by fastforce
    qed (use True a in simp_all)
  next
    case False
    show ?thesis by (rule that [of MC_OK c st]) (use False assms ok in simp_all)
  qed
  show ?thesis
  proof (cases "r1 = MC_OK")
    case False
    then show ?thesis using that 1 room by simp
  next
    case True
    obtain r2 c2 st2 where 2: "conn_ensure_iov_space c1 st1 = (r2, c2, st2)" by (metis prod.exhaust)
    note r2 = conn_ensure_iov_space_frags [OF 1(2) 2] and k2 = conn_ensure_iov_space_fields [OF 2]
    have b: "building c2 \<and> conn_payload st c2 = conn_payload st c1"
      using building_frags [OF _ r2(1) _ r2(2)] 1(5) [OF True] k2 by auto
    show ?thesis
    proof (rule that [of r2 c2 st2])
      show "conn_iov_room c st = Some (r2, c2, st2)" using room 1(1) 2 True by simp
      show "same_mc st st2" using 1(3) r2(4) by (auto simp: same_mc_def)
      show "conn_core c2 = conn_core c" using 1(4) k2 by simp
      show "conn_ok c2" by (rule r2(1))
      show "building c2 \<and> conn_payload st c2 = conn_payload st c \<and> c_iov_used c2 < length (c_iov c2)" if "r2 = MC_OK"
        using b 1(5) [OF True] r2(3) [OF that] by simp
      show "c_msg_used c \<le> c_msg_used c2" if "r2 = MC_OK" using 1(6) [OF True] k2 by simp
    qed
  qed
qed

lemma mem_adv_text: "take n (mem_bytes st b) @ take k (mem_bytes st (mem_adv n b)) = take (n + k) (mem_bytes st b)"
proof (cases b)
  case (MemItem p off)
  show ?thesis unfolding MemItem by (simp add: take_add add.commute [of off n])
qed (simp add: take_add)

lemma conn_add_iov_building:
  assumes "building c"
  obtains r c' st' where "conn_add_iov buf len c st = Some (r, c', st')" "same_mc st st'" "conn_core c' = conn_core c"
    "conn_ok c'" "r = MC_OK \<Longrightarrow> building c' \<and> conn_payload st c' = conn_payload st c @ take len (mem_bytes st buf)"
  using assms
proof (induction buf len c st arbitrary: thesis rule: conn_add_iov.induct)
  case (1 buf len c st)
  obtain r1 c1 st1 where room: "conn_iov_room c st = Some (r1, c1, st1)" "same_mc st st1" "conn_core c1 = conn_core c"
    "conn_ok c1" "r1 = MC_OK \<Longrightarrow> building c1 \<and> conn_payload st c1 = conn_payload st c \<and> c_iov_used c1 < length (c_iov c1)"
    "r1 = MC_OK \<Longrightarrow> c_msg_used c \<le> c_msg_used c1"
    using conn_iov_room_building [OF 1(3), of st] by metis
  show ?case
  proof (cases "r1 = MC_OK")
    case False
    show ?thesis by (rule 1(2) [of r1 c1 st1]) (use room False in \<open>simp_all add: conn_add_iov.simps [of buf len c st]\<close>)
  next
    case True
    define left where "left = (if limit_to_mtu c \<and> len + c_msg_bytes c1 > UDP_MAX_PAYLOAD_SIZE
                              then len + c_msg_bytes c1 - UDP_MAX_PAYLOAD_SIZE else 0)"
    define n where "n = len - left"
    have b1: "building c1" "conn_payload st c1 = conn_payload st c" "c_iov_used c1 < length (c_iov c1)"
      using room(5) [OF True] by simp_all
    have le: "left \<le> len" "limit_to_mtu c \<Longrightarrow> c_msg_bytes c1 + n \<le> UDP_MAX_PAYLOAD_SIZE"
      using conn_iov_room_bytes [of c st c1 st1] room(1) True by (auto simp: left_def n_def)
    obtain c2 where put: "conn_put_iov buf n c1 = Some c2" "conn_ok c2"
      "conn_frags c2 = butlast (conn_frags c1) @ [last (conn_frags c1) @ [\<lparr>iov_base = buf, iov_len = n\<rparr>]]"
      using conn_put_iov_frags [OF room(4) _ b1(3)] b1(1) by (metis building_def)
    have core2: "conn_core c2 = conn_core c1" using conn_put_iov_fields [OF put(1)] by simp
    have lim: "limit_to_mtu c" if "c_udp c1 \<or> c_msg_used c1 = 1"
      using that conn_core_udp [OF room(3)] room(6) [OF True] 1(3) by (auto simp: limit_to_mtu_def building_def)
    have b2: "building c2" "conn_payload st c2 = conn_payload st c1 @ take n (mem_bytes st buf)"
      using building_put [OF b1(1) put(2) core2 put(3)] le(2) lim by (simp_all add: iov_text_def)
    have eq: "conn_add_iov buf len c st =
        (if left > 0 then conn_add_iov (mem_adv n buf) left c2 st1 else Some (MC_OK, c2, st1))"
      using room(1) True put(1) by (subst conn_add_iov.simps) (simp add: left_def [symmetric] n_def Let_def)
    show ?thesis
    proof (cases "left > 0")
      case False
      show ?thesis
        by (rule 1(2) [of MC_OK c2 st1]) (use eq False room core2 put b1 b2 in \<open>simp_all add: n_def\<close>)
    next
      case left: True
      obtain r c' st' where rec: "conn_add_iov (mem_adv n buf) left c2 st1 = Some (r, c', st')" "same_mc st1 st'"
        "conn_core c' = conn_core c2" "conn_ok c'"
        "r = MC_OK \<Longrightarrow> building c' \<and> conn_payload st1 c' = conn_payload st1 c2 @ take left (mem_bytes st1 (mem_adv n buf))"
        using 1(1) [OF room(1) refl refl _ left_def n_def put(1) left _ b2(1)] True by blast
      note pay = same_mc_payload [OF room(2)]
      show ?thesis
      proof (rule 1(2) [of r c' st'])
        show "building c' \<and> conn_payload st c' = conn_payload st c @ take len (mem_bytes st buf)" if "r = MC_OK"
          using rec(5) [OF that] b2(2) b1(2) le(1) mem_adv_text [of n st buf left] same_mc_text [OF room(2)]
          by (simp add: pay n_def)
      qed (use eq left rec room core2 in \<open>auto intro: same_mc_trans\<close>)
    qed
  qed
qed

end
