(* ===== verification/MC_Transmit.thy ===== *)
theory MC_Transmit
  imports MC_Conn
begin

text \<open>
  Sending a response: \<open>core_update\<close> and \<open>core_transmit\<close> of \<open>mc_core.c\<close>. One call sends part of one message
  and removes the bytes the kernel accepted from its fragments; the theorem at the end is that
  whatever parts the kernel accepts, what goes out is the response.
\<close>

subsection \<open>Transmission\<close>

text \<open>The result of a system call that reads or writes: bytes, the value 0, \<open>EAGAIN\<close>, another error.\<close>

datatype 'a io = IoGot 'a | IoEof | IoAgain | IoError

datatype transmit_result = TRANSMIT_COMPLETE | TRANSMIT_INCOMPLETE | TRANSMIT_SOFT_ERROR | TRANSMIT_HARD_ERROR

text \<open>\<open>core_update\<close>, with the outcomes of \<open>event_del\<close> and \<open>event_add\<close>.\<close>

definition core_update :: "ev_flags \<Rightarrow> bool \<times> bool \<Rightarrow> conn \<Rightarrow> rstatus \<times> conn" where
  "core_update flags oks c =
    (if c_ev_flags c = flags then (MC_OK, c)
     else if \<not> fst oks then (MC_ERROR, c)
     else let c = c\<lparr>c_ev_flags := flags\<rparr> in if \<not> snd oks then (MC_ERROR, c) else (MC_OK, c))"

fun transmit_skip :: "iovec list \<Rightarrow> nat \<Rightarrow> nat \<Rightarrow> nat \<Rightarrow> nat \<times> nat \<times> nat" where
  "transmit_skip iov res i 0 = (res, i, 0)"
| "transmit_skip iov res i (Suc n) =
    (if iov_len (iov ! i) \<le> res then transmit_skip iov (res - iov_len (iov ! i)) (i + 1) n else (res, i, Suc n))"

definition transmit_sent :: "nat \<Rightarrow> conn \<Rightarrow> conn option" where
  "transmit_sent res c =
    (let m = c_msg c ! c_msg_curr c;
         (res, i, n) = transmit_skip (c_iov c) res (msg_iov m) (msg_iovlen m);
         c = c\<lparr>c_msg := (c_msg c)[c_msg_curr c := \<lparr>msg_iov = i, msg_iovlen = n\<rparr>]\<rparr>
     in if res = 0 then Some c
        else if i \<ge> length (c_iov c) then None
        else let v = c_iov c ! i in
          Some (c\<lparr>c_iov := (c_iov c)[i := \<lparr>iov_base = mem_adv res (iov_base v), iov_len = iov_len v - res\<rparr>]\<rparr>))"

definition transmit_next :: "conn \<Rightarrow> conn" where
  "transmit_next c = (if c_msg_curr c < c_msg_used c \<and> msg_iovlen (c_msg c ! c_msg_curr c) = 0
              then c\<lparr>c_msg_curr := c_msg_curr c + 1\<rparr> else c)"

definition core_transmit :: "nat io \<Rightarrow> bool \<times> bool \<Rightarrow> conn \<Rightarrow> (transmit_result \<times> conn) option" where
  "core_transmit sendmsg upd c =
    (let c = transmit_next c
     in if c_msg_curr c < c_msg_used c then
          (case sendmsg of
             IoGot res \<Rightarrow> map_option (\<lambda>c. (TRANSMIT_INCOMPLETE, c)) (transmit_sent res c)
           | IoAgain \<Rightarrow>
               (let (status, c) = core_update EV_WRITE upd c in
                if status \<noteq> MC_OK then Some (TRANSMIT_HARD_ERROR, conn_set_state CONN_CLOSE c)
                else Some (TRANSMIT_SOFT_ERROR, c))
           | _ \<Rightarrow> Some (TRANSMIT_HARD_ERROR, conn_set_state (if c_udp c then CONN_READ else CONN_CLOSE) c))
        else Some (TRANSMIT_COMPLETE, c))"

subsection \<open>What is still to be sent\<close>

text \<open>The messages cover disjoint runs of the array.\<close>

definition tx_ok :: "conn \<Rightarrow> bool" where
  "tx_ok c \<longleftrightarrow> c_msg_used c \<le> length (c_msg c)
    \<and> (\<forall>i < c_msg_used c. msg_iov (c_msg c ! i) + msg_iovlen (c_msg c ! i) \<le> length (c_iov c))
    \<and> (\<forall>i < c_msg_used c. \<forall>j < i. msg_iov (c_msg c ! j) + msg_iovlen (c_msg c ! j) \<le> msg_iov (c_msg c ! i))"

definition frags_full :: "mc \<Rightarrow> iovec list \<Rightarrow> bool" where
  "frags_full st iov \<longleftrightarrow> (\<forall>v \<in> set iov. iov_len v \<le> length (mem_bytes st (iov_base v)))"

definition tx_full :: "mc \<Rightarrow> conn \<Rightarrow> bool" where
  "tx_full st c \<longleftrightarrow> (\<forall>i < c_msg_used c. frags_full st (msg_frags (c_iov c) (c_msg c ! i)))"

definition msg_text :: "mc \<Rightarrow> conn \<Rightarrow> nat \<Rightarrow> bytes" where
  "msg_text st c i = frags_text st (msg_frags (c_iov c) (c_msg c ! i))"

definition pending_text :: "mc \<Rightarrow> conn \<Rightarrow> bytes" where
  "pending_text st c = concat (map (msg_text st c) [c_msg_curr c..<c_msg_used c])"

lemma length_frags_text: "frags_full st vs \<Longrightarrow> length (frags_text st vs) = frags_len vs"
  by (induction vs) (auto simp: frags_full_def iov_text_def)

lemma transmit_skip_split:
  assumes "transmit_skip iov res i n = (res', i', n')" "i + n \<le> length iov" "res \<le> frags_len (take n (drop i iov))"
  shows "\<exists>sent. take n (drop i iov) = sent @ take n' (drop i' iov) \<and> frags_len sent + res' = res
    \<and> i' + n' = i + n \<and> i \<le> i' \<and> (0 < res' \<longrightarrow> 0 < n' \<and> res' < iov_len (iov ! i'))"
  using assms
proof (induction iov res i n rule: transmit_skip.induct)
  case (2 iov res i n)
  let ?v = "iov ! i"
  have t: "take (Suc n) (drop i iov) = ?v # take n (drop (Suc i) iov)"
    using 2(3) by (metis Cons_nth_drop_Suc add_Suc_right less_eq_Suc_le less_add_same_cancel1 order_less_le_trans take_Suc_Cons zero_less_Suc)
  show ?case
  proof (cases "iov_len ?v \<le> res")
    case True
    have "res - iov_len ?v \<le> frags_len (take n (drop (Suc i) iov))" using 2(4) t by simp
    with True obtain sent where "take n (drop (Suc i) iov) = sent @ take n' (drop i' iov)"
      "frags_len sent + res' = res - iov_len ?v" "i' + n' = i + 1 + n" "i + 1 \<le> i'"
      "0 < res' \<longrightarrow> 0 < n' \<and> res' < iov_len (iov ! i')"
      using 2 t by auto
    then show ?thesis using t True by (intro exI [of _ "?v # sent"]) auto
  next
    case False
    then show ?thesis using 2 by (intro exI [of _ "[]"]) auto
  qed
qed auto

lemma frags_full_append [simp]: "frags_full st (vs @ ws) \<longleftrightarrow> frags_full st vs \<and> frags_full st ws"
  by (auto simp: frags_full_def)

lemma mem_adv_drop: "mem_bytes st (mem_adv n b) = drop n (mem_bytes st b)"
  by (cases b) (simp_all add: add.commute)

lemma msg_frags_outside:
  "i < msg_iov m \<or> msg_iov m + msg_iovlen m \<le> i \<Longrightarrow> msg_frags (iov[i := v]) m = msg_frags iov m"
  by (elim disjE) (simp add: msg_frags_def, simp add: msg_frags_def take_drop)

text \<open>The bytes the kernel accepted leave the current message; the other messages are not touched.\<close>

lemma transmit_sent_text:
  assumes "tx_ok c" "tx_full st c" "c_msg_curr c < c_msg_used c"
    "res \<le> frags_len (msg_frags (c_iov c) (c_msg c ! c_msg_curr c))"
  obtains c' where "transmit_sent res c = Some c'" "tx_ok c'" "tx_full st c'"
    "c_msg_curr c' = c_msg_curr c" "c_msg_used c' = c_msg_used c"
    "\<And>j. j \<noteq> c_msg_curr c \<Longrightarrow> j < c_msg_used c \<Longrightarrow> msg_text st c' j = msg_text st c j"
    "msg_text st c (c_msg_curr c) = take res (msg_text st c (c_msg_curr c)) @ msg_text st c' (c_msg_curr c)"
proof -
  define k m where "k = c_msg_curr c" and "m = c_msg c ! k"
  obtain res' i n where sk: "transmit_skip (c_iov c) res (msg_iov m) (msg_iovlen m) = (res', i, n)" by (metis prod.exhaust)
  have k: "k < length (c_msg c)" "msg_iov m + msg_iovlen m \<le> length (c_iov c)"
    using assms(1,3) by (auto simp: tx_ok_def k_def m_def)
  obtain sent where sent: "msg_frags (c_iov c) m = sent @ take n (drop i (c_iov c))" "frags_len sent + res' = res"
    "i + n = msg_iov m + msg_iovlen m" "msg_iov m \<le> i" "0 < res' \<Longrightarrow> 0 < n \<and> res' < iov_len (c_iov c ! i)"
    using transmit_skip_split [OF sk k(2)] assms(4) by (auto simp: k_def m_def msg_frags_def)
  define v where "v = c_iov c ! i"
  define iov where "iov = (if res' = 0 then c_iov c
    else (c_iov c)[i := \<lparr>iov_base = mem_adv res' (iov_base v), iov_len = iov_len v - res'\<rparr>])"
  define c' where "c' = c\<lparr>c_msg := (c_msg c)[k := \<lparr>msg_iov = i, msg_iovlen = n\<rparr>], c_iov := iov\<rparr>"
  have il: "res' = 0 \<or> i < length (c_iov c)" using sent(3,5) k(2) by fastforce
  have run: "transmit_sent res c = Some c'"
    using sk il by (cases "res' = 0") (auto simp: transmit_sent_def k_def m_def c'_def iov_def v_def Let_def)
  have fm: "frags_full st sent" "frags_full st (take n (drop i (c_iov c)))"
    using assms(2,3) sent(1) by (auto simp: tx_full_def k_def m_def)
  have v: "take n (drop i (c_iov c)) = v # take (n - 1) (drop (Suc i) (c_iov c))"
      "take n (drop i iov) = \<lparr>iov_base = mem_adv res' (iov_base v), iov_len = iov_len v - res'\<rparr> # take (n - 1) (drop (Suc i) (c_iov c))"
    if "res' \<noteq> 0"
    using il sent(5) that by (cases n; simp add: v_def iov_def drop_update_swap Cons_nth_drop_Suc [symmetric])+
  have full: "frags_full st (take n (drop i iov))"
    using fm(2) v by (cases "res' = 0") (auto simp: iov_def frags_full_def mem_adv_drop)
  have other: "msg_frags iov (c_msg c ! j) = msg_frags (c_iov c) (c_msg c ! j)" if "j \<noteq> k" "j < c_msg_used c" for j
  proof (cases "res' = 0")
    case False
    then have "i < msg_iov m + msg_iovlen m" using sent(3,5) by fastforce
    moreover have "msg_iov m + msg_iovlen m \<le> msg_iov (c_msg c ! j) \<or> msg_iov (c_msg c ! j) + msg_iovlen (c_msg c ! j) \<le> msg_iov m"
      using assms(1,3) that by (cases "j < k") (auto simp: tx_ok_def m_def k_def)
    ultimately show ?thesis using sent(4) False by (auto simp: iov_def intro!: msg_frags_outside)
  qed (simp add: iov_def)
  have cur: "frags_text st (sent @ take n (drop i (c_iov c))) = take res (frags_text st (sent @ take n (drop i (c_iov c)))) @ frags_text st (take n (drop i iov))"
  proof -
    have ls: "length (frags_text st sent) = res - res'" using length_frags_text [OF fm(1)] sent(2) by simp
    show ?thesis
    proof (cases "res' = 0")
      case True
      then show ?thesis using ls by (simp add: iov_def)
    next
      case False
      have "drop res' (iov_text st v) = iov_text st \<lparr>iov_base = mem_adv res' (iov_base v), iov_len = iov_len v - res'\<rparr>"
        by (simp add: iov_text_def mem_adv_drop drop_take)
      moreover have "length (iov_text st v) = iov_len v" "res' \<le> iov_len v" "res' \<le> res"
        using fm(2) v(1) [OF False] False sent(2,5) by (auto simp: iov_text_def v_def frags_full_def)
      ultimately show ?thesis using ls append_take_drop_id [of res' "iov_text st v"] by (simp add: v [OF False])
    qed
  qed
  have tx: "tx_ok c'" using assms(1) k sent(3,4) by (auto simp: tx_ok_def c'_def iov_def nth_list_update m_def)
      (meson order_trans)+
  show ?thesis
  proof (rule that [OF run tx])
    have "frags_full st (msg_frags iov ((c_msg c)[k := \<lparr>msg_iov = i, msg_iovlen = n\<rparr>] ! j))" if "j < c_msg_used c" for j
      using that other [of j] full assms(2) k(1) by (cases "j = k") (simp_all add: tx_full_def msg_frags_def)
    then show "tx_full st c'" by (simp add: tx_full_def c'_def)
    show "msg_text st c' j = msg_text st c j" if "j \<noteq> c_msg_curr c" "j < c_msg_used c" for j
      using other that by (simp add: msg_text_def c'_def k_def)
    have mt: "msg_text st c k = frags_text st (sent @ take n (drop i (c_iov c)))"
      using sent(1) by (simp add: msg_text_def m_def)
    have mt': "msg_text st c' k = frags_text st (take n (drop i iov))"
      using k(1) by (simp add: msg_text_def c'_def msg_frags_def)
    show "msg_text st c (c_msg_curr c) = take res (msg_text st c (c_msg_curr c)) @ msg_text st c' (c_msg_curr c)"
      unfolding k_def [symmetric] mt mt' by (rule cur)
  qed (simp_all add: c'_def)
qed

subsection \<open>A whole transmission\<close>

text \<open>Calls of \<open>core_transmit\<close> until the connection goes on; \<open>sendmsg\<close> accepts a nonempty prefix of the
  message it is given, or asks to be called again. The second argument is what has been sent.\<close>

inductive transmits :: "mc \<Rightarrow> conn \<Rightarrow> bytes \<Rightarrow> conn \<Rightarrow> bool" for st where
  start: "transmits st c [] c"
| sent: "core_transmit (IoGot n) upd c = Some (TRANSMIT_INCOMPLETE, c1) \<Longrightarrow> 0 < n \<Longrightarrow>
    n \<le> length (msg_text st c (c_msg_curr (transmit_next c))) \<Longrightarrow> transmits st c1 out c2 \<Longrightarrow>
    transmits st c (take n (msg_text st c (c_msg_curr (transmit_next c))) @ out) c2"
| again: "core_transmit IoAgain upd c = Some (TRANSMIT_SOFT_ERROR, c1) \<Longrightarrow> transmits st c1 out c2 \<Longrightarrow>
    transmits st c out c2"

lemma msg_text_fields [simp]:
  "msg_text st (c\<lparr>c_msg_curr := k\<rparr>) = msg_text st c" "msg_text st (c\<lparr>c_ev_flags := f\<rparr>) = msg_text st c"
  by (simp_all add: fun_eq_iff msg_text_def)

lemma transmit_next_text:
  assumes "tx_ok c" "tx_full st c"
  shows "tx_ok (transmit_next c)" "tx_full st (transmit_next c)" "msg_text st (transmit_next c) = msg_text st c"
    "pending_text st (transmit_next c) = pending_text st c"
proof -
  show "tx_ok (transmit_next c)" "tx_full st (transmit_next c)" "msg_text st (transmit_next c) = msg_text st c"
    using assms by (auto simp: transmit_next_def tx_ok_def tx_full_def msg_text_def)
  show "pending_text st (transmit_next c) = pending_text st c"
    by (auto simp: transmit_next_def pending_text_def msg_text_def msg_frags_def upt_conv_Cons)
qed

lemma core_transmit_sent:
  assumes "tx_ok c" "tx_full st c" "core_transmit (IoGot n) upd c = Some (TRANSMIT_INCOMPLETE, c1)"
    "n \<le> length (msg_text st c (c_msg_curr (transmit_next c)))"
  shows "tx_ok c1 \<and> tx_full st c1 \<and>
    pending_text st c = take n (msg_text st c (c_msg_curr (transmit_next c))) @ pending_text st c1"
proof -
  define d where "d = transmit_next c"
  note d = transmit_next_text [OF assms(1,2), folded d_def]
  have run: "c_msg_curr d < c_msg_used d" "transmit_sent n d = Some c1"
    using assms(3) by (auto simp: core_transmit_def d_def Let_def split: if_splits)
  have "n \<le> frags_len (msg_frags (c_iov d) (c_msg d ! c_msg_curr d))"
    using assms(4) length_frags_text d(2) run(1) unfolding d_def [symmetric] d(3) [symmetric]
    by (simp add: msg_text_def tx_full_def)
  from transmit_sent_text [OF d(1,2) run(1) this] run(2)
  have s: "tx_ok c1" "tx_full st c1" "c_msg_curr c1 = c_msg_curr d" "c_msg_used c1 = c_msg_used d"
    "\<And>j. j \<noteq> c_msg_curr d \<Longrightarrow> j < c_msg_used d \<Longrightarrow> msg_text st c1 j = msg_text st d j"
    "msg_text st d (c_msg_curr d) = take n (msg_text st d (c_msg_curr d)) @ msg_text st c1 (c_msg_curr d)"
    by (metis option.inject)+
  have m: "map (msg_text st c1) [Suc (c_msg_curr d)..<c_msg_used d] = map (msg_text st d) [Suc (c_msg_curr d)..<c_msg_used d]"
    by (rule map_cong) (auto intro: s(5))
  have "pending_text st d = msg_text st d (c_msg_curr d) @ concat (map (msg_text st d) [Suc (c_msg_curr d)..<c_msg_used d])"
    "pending_text st c1 = msg_text st c1 (c_msg_curr d) @ concat (map (msg_text st c1) [Suc (c_msg_curr d)..<c_msg_used d])"
    using run(1) s(3,4) by (simp_all add: pending_text_def upt_conv_Cons)
  then have "pending_text st d = take n (msg_text st d (c_msg_curr d)) @ pending_text st c1"
    unfolding m using s(6) by (metis append.assoc)
  then show ?thesis using s(1,2) d(3,4) unfolding d_def [symmetric] by simp
qed

lemma core_transmit_again:
  assumes "tx_ok c" "tx_full st c" "core_transmit IoAgain upd c = Some (TRANSMIT_SOFT_ERROR, c1)"
  shows "tx_ok c1 \<and> tx_full st c1 \<and> pending_text st c = pending_text st c1"
proof -
  define d where "d = transmit_next c"
  note d = transmit_next_text [OF assms(1,2), folded d_def]
  have "c1 = d \<or> c1 = d\<lparr>c_ev_flags := EV_WRITE\<rparr>"
    using assms(3) by (auto simp: core_transmit_def core_update_def d_def Let_def split: if_splits)
  then show ?thesis using d
    by (auto simp: tx_ok_def tx_full_def pending_text_def msg_text_def)
qed

lemma transmits_text:
  assumes "transmits st c out c'" "tx_ok c" "tx_full st c"
  shows "tx_ok c' \<and> tx_full st c' \<and> pending_text st c = out @ pending_text st c'"
  using assms
proof (induction rule: transmits.induct)
  case (sent n upd c c1 out c2)
  then show ?case using core_transmit_sent [OF sent(6,7,1,3)] by auto
next
  case (again upd c c1 out c2)
  then show ?case using core_transmit_again by metis
qed simp

lemma core_transmit_complete:
  assumes "core_transmit r upd c = Some (TRANSMIT_COMPLETE, c')" "tx_ok c" "tx_full st c"
  shows "pending_text st c = []"
proof -
  have "\<not> c_msg_curr (transmit_next c) < c_msg_used (transmit_next c)"
    using assms(1) by (auto simp: core_transmit_def Let_def split: if_splits io.splits prod.splits)
  then have "pending_text st (transmit_next c) = []" by (simp add: pending_text_def)
  then show ?thesis using transmit_next_text(4) [OF assms(2,3)] by simp
qed

lemma conn_msgs_nth: "conn_ok c \<Longrightarrow> i < c_msg_used c \<Longrightarrow> c_msg c ! i \<in> set (conn_msgs c)"
  by (auto simp: conn_msgs_def conn_ok_def in_set_conv_nth intro!: exI [of _ i])

lemma conn_ok_tx:
  assumes "conn_ok c"
  shows "tx_ok c"
proof -
  have "msg_iov (c_msg c ! j) + msg_iovlen (c_msg c ! j) \<le> msg_iov (c_msg c ! i)" if "j < i" "i < c_msg_used c" for i j
  proof -
    have u: "c_msg_used c \<le> length (c_msg c)" "conn_repoint 0 (conn_msgs c) = conn_msgs c"
      using assms by (simp_all add: conn_ok_def)
    have "conn_msgs c = take i (conn_msgs c) @ c_msg c ! i # drop (Suc i) (conn_msgs c)"
      using id_take_nth_drop [of i "conn_msgs c"] u(1) that(2) by (simp add: conn_msgs_def)
    then have "conn_repoint 0 (take i (conn_msgs c) @ c_msg c ! i # drop (Suc i) (conn_msgs c))
        = take i (conn_msgs c) @ c_msg c ! i # drop (Suc i) (conn_msgs c)"
      using u(2) by simp
    then have r: "conn_repoint 0 (take i (conn_msgs c)) = take i (conn_msgs c)"
        "msg_iov (c_msg c ! i) = sum_list (map msg_iovlen (take i (conn_msgs c)))"
      by (cases "c_msg c ! i", simp_all add: conn_repoint_append)+
    have "c_msg c ! j \<in> set (take i (conn_msgs c))"
      using that u(1) by (auto simp: conn_msgs_def in_set_conv_nth intro!: exI [of _ j])
    from conn_repoint_range [OF r(1) this] show ?thesis using r(2) by simp
  qed
  moreover have "msg_iov (c_msg c ! i) + msg_iovlen (c_msg c ! i) \<le> length (c_iov c)" if "i < c_msg_used c" for i
    using conn_ok_range(2) [OF assms conn_msgs_nth [OF assms that]] .
  ultimately show ?thesis using assms by (auto simp: tx_ok_def conn_ok_def)
qed

lemma pending_text_frags:
  assumes "conn_ok c" "c_msg_curr c = 0"
  shows "pending_text st c = concat (map (frags_text st) (conn_frags c))"
proof -
  have "map (msg_text st c) [0..<c_msg_used c] = map (frags_text st) (conn_frags c)"
    using assms by (intro nth_equalityI) (auto simp: conn_frags_def conn_msgs_def conn_ok_def msg_text_def)
  then show ?thesis using assms(2) by (simp add: pending_text_def)
qed

lemma conn_frags_full:
  assumes "conn_ok c" "\<And>vs. vs \<in> set (conn_frags c) \<Longrightarrow> frags_full st vs"
  shows "tx_full st c"
  using assms conn_msgs_nth [OF assms(1)] by (simp add: tx_full_def conn_frags_def)

text \<open>C29: adding a fragment to a response never faults, and unless memory runs out it appends exactly the
  bytes of the fragment to the payload, however it is split over messages, and every UDP message, and
  the first message of TCP, keeps to the limit of 1400 bytes.\<close>

theorem conn_add_iov_payload:
  assumes "building c"
  shows "\<exists>r c' st'. conn_add_iov buf len c st = Some (r, c', st')
    \<and> (r = MC_OK \<longrightarrow> building c' \<and> conn_payload st' c' = conn_payload st c @ take len (mem_bytes st buf))"
  using conn_add_iov_building [OF assms, of buf len st] by (metis same_mc_payload)

text \<open>C12: whatever parts of its messages the kernel accepts and however often it asks to be called again,
  a transmission that completes has sent the response, each byte once and in order.\<close>

theorem transmits_response:
  assumes "building c" "\<forall>vs \<in> set (conn_frags c). frags_full st vs" "c_msg_curr c = 0"
    and "transmits st c out c'" "core_transmit r upd c' = Some (TRANSMIT_COMPLETE, c'')"
  shows "out = concat (map (frags_text st) (conn_frags c)) \<and> (\<not> c_udp c \<longrightarrow> out = conn_payload st c)"
proof -
  have ok: "conn_ok c" using assms(1) by (simp add: building_def)
  have full: "tx_full st c" using conn_frags_full [OF ok] assms(2) by blast
  note t = transmits_text [OF assms(4) conn_ok_tx [OF ok] full]
  have "pending_text st c' = []" using core_transmit_complete [OF assms(5)] t by blast
  then have "out = concat (map (frags_text st) (conn_frags c))" using t pending_text_frags [OF ok assms(3)] by simp
  then show ?thesis by (simp add: conn_payload_def)
qed

subsection \<open>Examples\<close>

definition demo_conn :: conn where
  "demo_conn = (conn_buffers 8)\<lparr>c_iov := [\<lparr>iov_base = MemText ''AB'', iov_len = 2\<rparr>, iov_none], c_iov_used := 1,
     c_msg := [\<lparr>msg_iov = 0, msg_iovlen = 1\<rparr>], c_msg_used := 1, c_msg_bytes := 2\<rparr>"

lemma demo_conn_building: "building demo_conn"
  by (simp add: building_def conn_ok_def framed_def within_mtu_def conn_frags_def conn_msgs_def msg_frags_def
      demo_conn_def conn_buffers_def conn_size_defs)

theorem conn_add_iov_payload_witness:
  "\<exists>r c' st'. conn_add_iov (MemText ''CDE'') 3 demo_conn demo_st = Some (r, c', st')
    \<and> (r = MC_OK \<longrightarrow> building c' \<and> conn_payload st' c' = ''ABCDE'')"
  using conn_add_iov_payload [OF demo_conn_building, of "MemText ''CDE''" 3 demo_st]
  by (simp add: conn_payload_def conn_frags_def conn_msgs_def msg_frags_def iov_text_def demo_conn_def conn_buffers_def)

theorem transmits_response_witness:
  "\<exists>c' c''. transmits demo_st demo_conn ''AB'' c' \<and> core_transmit IoEof (True, True) c' = Some (TRANSMIT_COMPLETE, c'')
    \<and> ''AB'' = conn_payload demo_st demo_conn"
proof -
  let ?u = "(True, True)" and ?st = demo_st
  let ?c1 = "demo_conn\<lparr>c_iov := [\<lparr>iov_base = MemText ''B'', iov_len = 1\<rparr>, iov_none]\<rparr>"
  let ?c2 = "?c1\<lparr>c_msg := [\<lparr>msg_iov = 1, msg_iovlen = 0\<rparr>]\<rparr>"
  note d = demo_conn_def conn_buffers_def transmit_next_def core_transmit_def transmit_sent_def msg_text_def msg_frags_def iov_text_def
  have 1: "core_transmit (IoGot 1) ?u demo_conn = Some (TRANSMIT_INCOMPLETE, ?c1)" by (simp add: d)
  have 2: "core_transmit (IoGot 1) ?u ?c1 = Some (TRANSMIT_INCOMPLETE, ?c2)" by (simp add: d)
  have 3: "core_transmit IoEof ?u ?c2 = Some (TRANSMIT_COMPLETE, ?c2\<lparr>c_msg_curr := 1\<rparr>)" by (simp add: d)
  have "transmits ?st ?c1 (''B'' @ []) ?c2"
    using transmits.sent [OF 2, of ?st "[]" ?c2] transmits.start by (simp add: d)
  then have t: "transmits ?st demo_conn (''A'' @ ''B'') ?c2"
    using transmits.sent [OF 1, of ?st "''B''" ?c2] by (simp add: d)
  have "\<forall>vs \<in> set (conn_frags demo_conn). frags_full ?st vs" "c_msg_curr demo_conn = 0" "\<not> c_udp demo_conn"
    by (simp_all add: d conn_frags_def conn_msgs_def frags_full_def)
  with transmits_response [OF demo_conn_building _ _ t 3] have "''AB'' = conn_payload ?st demo_conn" by auto
  then show ?thesis using t 3 by auto
qed

end
