(* ===== verification/MC_Ascii.thy ===== *)
theory MC_Ascii
  imports MC_Transmit
begin

text \<open>
  The text protocol, first part of \<open>mc_ascii.c\<close>: splitting a request line into tokens, the request
  types with the number of tokens they take (the table \<open>REQ_CODEC\<close> of \<open>mc_core.h\<close>), and the functions
  that write responses. The key log and the statistics have no counterpart here.

  A request line is the string up to its terminating zero. A token is a pointer into the line and a
  length: \<open>tok_val\<close> is the rest of the line from the pointer on, because the number parsers read on to
  the end of the line, and \<open>None\<close> if the pointer is null. The array of tokens has one element per
  token that was set; reading another one is a fault.
\<close>

definition TOKEN_MAX :: nat where "TOKEN_MAX = 16"
definition SUFFIX_MAX_LEN :: nat where "SUFFIX_MAX_LEN = 44"
definition INT_MAX :: nat where "INT_MAX = 2147483647"
definition TID_MAX_LEN :: nat where "TID_MAX_LEN = 250"

record token =
  tok_val :: "bytes option"
  tok_len :: nat

subsection \<open>Tokens\<close>

text \<open>\<open>slots\<close> is how many tokens may still be saved; \<open>s\<close> and \<open>e\<close> are the line from the two markers on,
  \<open>k\<close> apart.\<close>

fun asc_tokenize_loop :: "nat \<Rightarrow> bytes \<Rightarrow> nat \<Rightarrow> bytes \<Rightarrow> token list" where
  "asc_tokenize_loop 0 s k e = [\<lparr>tok_val = (if e = [] then None else Some e), tok_len = 0\<rparr>]"
| "asc_tokenize_loop (Suc n) s k [] =
    (if k \<noteq> 0 then [\<lparr>tok_val = Some s, tok_len = k\<rparr>] else []) @ [\<lparr>tok_val = None, tok_len = 0\<rparr>]"
| "asc_tokenize_loop (Suc n) s k (c # e) =
    (if c = CHR '' '' then
       (if k \<noteq> 0 then \<lparr>tok_val = Some s, tok_len = k\<rparr> # asc_tokenize_loop n e 0 e
        else asc_tokenize_loop (Suc n) e 0 e)
     else asc_tokenize_loop (Suc n) s (k + 1) e)"

definition asc_tokenize :: "bytes \<Rightarrow> nat \<Rightarrow> token list" where
  "asc_tokenize command ntoken_max = asc_tokenize_loop (ntoken_max - 1) command 0 command"

text \<open>Reading the tokens: the string at a token for the number parsers, where a null pointer is a fault,
  and the bytes of a token.\<close>

definition tok_at :: "token list \<Rightarrow> nat \<Rightarrow> token option" where
  "tok_at ts i = (if i < length ts then Some (ts ! i) else None)"

definition tok_str :: "token list \<Rightarrow> nat \<Rightarrow> bytes option" where
  "tok_str ts i = Option.bind (tok_at ts i) tok_val"

definition tok_text :: "token \<Rightarrow> bytes" where
  "tok_text t = take (tok_len t) (case tok_val t of None \<Rightarrow> [] | Some v \<Rightarrow> v)"

definition tok_bytes :: "token list \<Rightarrow> nat \<Rightarrow> bytes option" where
  "tok_bytes ts i = map_option tok_text (tok_at ts i)"

text \<open>\<open>strncmp(t->val, lit, t->len) == 0\<close>.\<close>

definition tok_is :: "token \<Rightarrow> bytes \<Rightarrow> bool" where
  "tok_is t lit \<longleftrightarrow> tok_text t = take (tok_len t) lit"

subsection \<open>Request types\<close>

fun ntoken_bound :: "req_type \<Rightarrow> (nat \<times> nat) \<times> (nat \<times> nat)" where
  "ntoken_bound REQ_UNKNOWN = ((0, 0), (0, 0))"
| "ntoken_bound REQ_IQSET = ((9, 9), (11, 11))"
| "ntoken_bound REQ_SET = ((8, 8), (9, 9))"
| "ntoken_bound REQ_ADD = ((8, 8), (9, 9))"
| "ntoken_bound REQ_REPLACE = ((7, 7), (8, 8))"
| "ntoken_bound REQ_APPEND = ((7, 7), (8, 8))"
| "ntoken_bound REQ_PREPEND = ((7, 7), (8, 8))"
| "ntoken_bound REQ_CAS = ((9, 9), (11, 11))"
| "ntoken_bound REQ_IQGET = ((5, INT_MAX), (5, INT_MAX))"
| "ntoken_bound REQ_GET = ((4, INT_MAX), (43, INT_MAX))"
| "ntoken_bound REQ_GETS = ((4, INT_MAX), (4, INT_MAX))"
| "ntoken_bound REQ_INCR = ((5, 5), (6, 6))"
| "ntoken_bound REQ_DECR = ((5, 5), (6, 6))"
| "ntoken_bound REQ_DELETE = ((4, INT_MAX), (4, INT_MAX))"
| "ntoken_bound REQ_QUIT = ((2, 2), (2, 2))"
| "ntoken_bound REQ_STATS = ((2, 5), (2, 5))"
| "ntoken_bound REQ_CONFIG = ((3, 5), (3, 5))"
| "ntoken_bound REQ_VERSION = ((2, 2), (2, 2))"
| "ntoken_bound REQ_FLUSHALL = ((2, 3), (3, 4))"
| "ntoken_bound REQ_VERBOSITY = ((4, 4), (3, 4))"
| "ntoken_bound REQ_UNLEASE = ((5, 5), (6, 6))"
| "ntoken_bound REQ_QAREG = ((5, 5), (6, 6))"
| "ntoken_bound REQ_DAR = ((4, 4), (5, 5))"
| "ntoken_bound REQ_QAREAD = ((5, 7), (5, 7))"
| "ntoken_bound REQ_SAR = ((8, 8), (9, 9))"
| "ntoken_bound REQ_IQAPPEND = ((6, 6), (7, 7))"
| "ntoken_bound REQ_IQPREPEND = ((6, 5), (6, 6))"
| "ntoken_bound REQ_IQINCR = ((6, 6), (7, 7))"
| "ntoken_bound REQ_IQDECR = ((6, 6), (7, 7))"
| "ntoken_bound REQ_COMMIT = ((5, 7), (8, 8))"
| "ntoken_bound REQ_RELEASE = ((4, 4), (5, 5))"
| "ntoken_bound REQ_CIGET = ((5, INT_MAX), (5, INT_MAX))"
| "ntoken_bound REQ_COUNLEASE = ((3, 4), (3, 4))"
| "ntoken_bound REQ_OQREG = ((5, 5), (5, 5))"
| "ntoken_bound REQ_DCOMMIT = ((3, 3), (3, 4))"
| "ntoken_bound REQ_CHECK = ((4, INT_MAX), (4, INT_MAX))"
| "ntoken_bound REQ_FTRANS = ((4, INT_MAX), (4, INT_MAX))"
| "ntoken_bound REQ_GETPRIK = ((3, 2), (3, 3))"
| "ntoken_bound REQ_OQREAD = ((3, 5), (4, 6))"
| "ntoken_bound REQ_OQSWAP = ((7, 7), (8, 8))"
| "ntoken_bound REQ_SWAP = ((9, 9), (10, 10))"
| "ntoken_bound REQ_VALIDATE = ((3, 5), (4, 6))"
| "ntoken_bound REQ_OQAPPEND = ((5, 5), (6, 6))"
| "ntoken_bound REQ_OQPREPEND = ((5, 5), (6, 6))"
| "ntoken_bound REQ_OQINCR = ((5, 5), (6, 6))"
| "ntoken_bound REQ_OQDECR = ((5, 5), (6, 6))"
| "ntoken_bound REQ_OQWRITE = ((7, 7), (8, 8))"
| "ntoken_bound REQ_UPDATECONFIG = ((3, INT_MAX), (3, INT_MAX))"
| "ntoken_bound REQ_ISET = ((4, INT_MAX), (4, INT_MAX))"

definition asc_ntoken_valid :: "conn \<Rightarrow> nat \<Rightarrow> bool" where
  "asc_ntoken_valid c ntoken =
    (let b = ntoken_bound (c_req_type c); (min, max) = (if c_noreply c then snd b else fst b)
     in ntoken \<ge> min \<and> ntoken \<le> max)"

definition asc_set_noreply_maybe :: "token list \<Rightarrow> conn \<Rightarrow> conn" where
  "asc_set_noreply_maybe ts c =
    (if length ts < 2 then c
     else let t = ts ! (length ts - 2) in
       if tok_len t = 7 \<and> tok_text t = ''noreply'' then c\<lparr>c_noreply := True\<rparr> else c)"

text \<open>The comparisons of the source look at the bytes of the line from the token on; those with a space
  include the byte after the token.\<close>

fun asc_match :: "bytes \<Rightarrow> (bytes \<times> req_type) list \<Rightarrow> req_type" where
  "asc_match s [] = REQ_UNKNOWN"
| "asc_match s ((lit, type) # cs) = (if take (length lit) s = lit then type else asc_match s cs)"

definition asc_parse_type :: "token list \<Rightarrow> req_type" where
  "asc_parse_type ts =
    (if length ts < 2 then REQ_UNKNOWN
     else let tval = (case tok_val (ts ! 0) of None \<Rightarrow> [] | Some v \<Rightarrow> v); tlen = tok_len (ts ! 0) in
       if tlen = 3 then asc_match tval [(''get '', REQ_GET), (''set '', REQ_SET), (''add '', REQ_ADD),
         (''cas '', REQ_CAS), (''dar '', REQ_DAR), (''sar '', REQ_SAR)]
       else if tlen = 4 then asc_match tval [(''gets'', REQ_GETS), (''incr'', REQ_INCR), (''decr'', REQ_DECR),
         (''quit'', REQ_QUIT), (''swap'', REQ_SWAP), (''iset'', REQ_ISET)]
       else if tlen = 5 then asc_match tval [(''iqget'', REQ_IQGET), (''iqset'', REQ_IQSET), (''stats'', REQ_STATS),
         (''qareg'', REQ_QAREG), (''ciget'', REQ_CIGET), (''oqreg'', REQ_OQREG), (''check'', REQ_CHECK)]
       else if tlen = 6 then asc_match tval [(''append'', REQ_APPEND), (''delete'', REQ_DELETE), (''config'', REQ_CONFIG),
         (''qaread'', REQ_QAREAD), (''iqincr'', REQ_IQINCR), (''iqdecr'', REQ_IQDECR), (''commit'', REQ_COMMIT),
         (''ftrans'', REQ_FTRANS), (''oqread'', REQ_OQREAD), (''oqswap'', REQ_OQSWAP), (''oqincr'', REQ_OQINCR),
         (''oqdecr'', REQ_OQDECR)]
       else if tlen = 7 then asc_match tval [(''replace '', REQ_REPLACE), (''prepend '', REQ_PREPEND),
         (''version'', REQ_VERSION), (''unlease'', REQ_UNLEASE), (''release'', REQ_RELEASE), (''dcommit'', REQ_DCOMMIT),
         (''getprik'', REQ_GETPRIK), (''oqwrite'', REQ_OQWRITE)]
       else if tlen = 8 then asc_match tval [(''iqappend'', REQ_IQAPPEND), (''validate'', REQ_VALIDATE),
         (''oqappend'', REQ_OQAPPEND)]
       else if tlen = 9 then asc_match tval [(''flush_all'', REQ_FLUSHALL), (''verbosity'', REQ_VERBOSITY),
         (''iqprepend'', REQ_IQPREPEND), (''counlease'', REQ_COUNLEASE), (''oqprepend'', REQ_OQPREPEND)]
       else if tlen = 10 then asc_match tval [(''updateconf'', REQ_UPDATECONFIG)]
       else REQ_UNKNOWN)"

subsection \<open>One-line responses\<close>

definition CRLF :: bytes where "CRLF = [CHR 0x0D, CHR 0x0A]"

definition asc_write_string :: "bytes \<Rightarrow> conn \<Rightarrow> conn" where
  "asc_write_string str c =
    (if c_noreply c then conn_set_state CONN_NEW_CMD (c\<lparr>c_noreply := False\<rparr>)
     else let str = (if length str + CRLF_LEN > c_wsize c then ''SERVER_ERROR'' else str)
       in (conn_set_state CONN_WRITE (c\<lparr>c_wcurr := str @ CRLF\<rparr>))\<lparr>c_write_and_go := CONN_NEW_CMD\<rparr>)"

definition asc_write_crash :: "conn \<Rightarrow> conn" where "asc_write_crash = asc_write_string ''FAIL''"
definition asc_write_abort :: "conn \<Rightarrow> conn" where "asc_write_abort = asc_write_string ''ABORT''"
definition asc_write_stored :: "conn \<Rightarrow> conn" where "asc_write_stored = asc_write_string ''STORED''"
definition asc_write_exists :: "conn \<Rightarrow> conn" where "asc_write_exists = asc_write_string ''EXISTS''"
definition asc_write_not_found :: "conn \<Rightarrow> conn" where "asc_write_not_found = asc_write_string ''NOT_FOUND''"
definition asc_write_not_stored :: "conn \<Rightarrow> conn" where "asc_write_not_stored = asc_write_string ''NOT_STORED''"
definition asc_write_deleted :: "conn \<Rightarrow> conn" where "asc_write_deleted = asc_write_string ''DELETED''"
definition asc_write_invalid :: "conn \<Rightarrow> conn" where "asc_write_invalid = asc_write_string ''INVALID''"
definition asc_write_invalid_deleted :: "conn \<Rightarrow> conn" where "asc_write_invalid_deleted = asc_write_string ''INVALID''"
definition asc_write_client_error :: "conn \<Rightarrow> conn" where "asc_write_client_error = asc_write_string ''CLIENT_ERROR''"
definition asc_write_server_error :: "conn \<Rightarrow> conn" where "asc_write_server_error = asc_write_string ''SERVER_ERROR''"
definition asc_write_ok :: "conn \<Rightarrow> conn" where "asc_write_ok = asc_write_string ''OK''"
definition asc_write_ok_novalue :: "conn \<Rightarrow> conn" where "asc_write_ok_novalue = asc_write_string ''OK_NOVALUE''"
definition asc_write_retry :: "conn \<Rightarrow> conn" where "asc_write_retry = asc_write_string ''RETRY''"

definition asc_write_version :: "bytes \<Rightarrow> conn \<Rightarrow> conn" where
  "asc_write_version version = asc_write_string (''VERSION '' @ version)"

definition asc_write_q_inv_leasehold :: "u8 \<Rightarrow> conn \<Rightarrow> conn" where
  "asc_write_q_inv_leasehold markedVal = asc_write_string (''LEASE'' @ '' '' @ dec (unat markedVal))"

lemmas asc_write_defs = asc_write_crash_def asc_write_abort_def asc_write_stored_def asc_write_exists_def
  asc_write_not_found_def asc_write_not_stored_def asc_write_deleted_def asc_write_invalid_def
  asc_write_invalid_deleted_def asc_write_client_error_def asc_write_server_error_def asc_write_ok_def
  asc_write_ok_novalue_def asc_write_retry_def asc_write_version_def asc_write_q_inv_leasehold_def

text \<open>The configuration check: the result is the server's number, or -1 if the request must be refused.\<close>

definition asc_check_config :: "int \<Rightarrow> conn \<Rightarrow> srv \<Rightarrow> int \<times> conn" where
  "asc_check_config client c s =
    (let server_config = sv_configuration_number s in
     if client \<noteq> -1 \<and> client \<noteq> server_config then (-1, asc_write_crash c) else (server_config, c))"

subsection \<open>Responses with values\<close>

text \<open>A response is built step by step; a step whose status is not \<open>MC_OK\<close> ends it. \<open>add_frags\<close> adds
  fragments, each with the mark whether its status is looked at.\<close>

definition ok_then :: "(rstatus \<times> conn \<times> srv) option \<Rightarrow> (conn \<Rightarrow> srv \<Rightarrow> (rstatus \<times> conn \<times> srv) option)
    \<Rightarrow> (rstatus \<times> conn \<times> srv) option" where
  "ok_then m f = (case m of None \<Rightarrow> None | Some (r, c, s) \<Rightarrow> if r \<noteq> MC_OK then Some (r, c, s) else f c s)"

fun add_frags :: "(bool \<times> mem \<times> nat) list \<Rightarrow> conn \<Rightarrow> srv \<Rightarrow> (rstatus \<times> conn \<times> srv) option" where
  "add_frags [] c s = Some (MC_OK, c, s)"
| "add_frags ((checked, buf, len) # fs) c s =
    (case conn_add_iov buf len c (sv_mc s) of
       None \<Rightarrow> None
     | Some (r, c, st) \<Rightarrow>
         (let s = s\<lparr>sv_mc := st\<rparr> in if checked \<and> r \<noteq> MC_OK then Some (r, c, s) else add_frags fs c s))"

definition frag :: "bytes \<Rightarrow> bool \<times> mem \<times> nat" where
  "frag str = (True, MemText str, length str)"

definition frag_key :: "ptr \<Rightarrow> mc \<Rightarrow> bool \<times> mem \<times> nat" where
  "frag_key p st = (True, MemItem p (item_key_off (heap_at st p)), it_nkey (heap_at st p))"

definition frag_data :: "ptr \<Rightarrow> mc \<Rightarrow> bool \<times> mem \<times> nat" where
  "frag_data p st = (let it = heap_at st p in
     (True, MemItem p (item_data_off (slab_item_size (it_id it) st) it), it_nbyte it))"

text \<open>\<open>mc_snprintf(suffix, SUFFIX_MAX_LEN, ...)\<close>: the buffer holds the text cut to the size, and the result is
  the length of the whole text, which is then used as the length of the fragment.\<close>

definition frag_suffix :: "bool \<Rightarrow> bytes \<Rightarrow> bool \<times> mem \<times> nat" where
  "frag_suffix checked text = (checked, MemText (take (SUFFIX_MAX_LEN - 1) text @ [CHR 0x00]), length text)"

definition u32_text :: "int \<Rightarrow> bytes" where
  "u32_text n = dec (nat (n mod 2 ^ 32))"

definition srv_alloc_suffix :: "srv \<Rightarrow> nat option \<times> srv" where
  "srv_alloc_suffix s =
    (if ca_freecurr (sv_suffix_cache s) > 0 then
       (let (r, cache) = cache_alloc None (sv_suffix_cache s) in (r, s\<lparr>sv_suffix_cache := cache\<rparr>))
     else (let (ok, st) = mc_alloc_next (sv_mc s);
               (r, cache) = cache_alloc (if ok then Some (sv_brk s) else None) (sv_suffix_cache s)
       in (r, s\<lparr>sv_mc := st, sv_suffix_cache := cache, sv_brk := sv_brk s + 1\<rparr>)))"

definition asc_create_suffix :: "nat \<Rightarrow> conn \<Rightarrow> srv \<Rightarrow> (rstatus \<times> conn \<times> srv) option" where
  "asc_create_suffix valid_key_iter c s =
    (let (r, c, s) =
       (if valid_key_iter \<ge> length (c_slist c) then
          (let (ok, st) = mc_alloc_next (sv_mc s) in
           if \<not> ok then (MC_ENOMEM, c, s\<lparr>sv_mc := st\<rparr>)
           else (MC_OK, c\<lparr>c_slist := c_slist c @ replicate (length (c_slist c)) 0\<rparr>, s\<lparr>sv_mc := st\<rparr>))
        else (MC_OK, c, s))
     in if r \<noteq> MC_OK then Some (r, c, s)
        else let (suffix, s) = srv_alloc_suffix s in
          case suffix of
            None \<Rightarrow> Some (MC_ENOMEM, asc_write_server_error c, s)
          | Some b \<Rightarrow>
              if valid_key_iter < length (c_slist c)
              then Some (MC_OK, c\<lparr>c_slist := (c_slist c)[valid_key_iter := b]\<rparr>, s) else None)"

text \<open>The end of a response of several fragments: \<open>END\<close>, for UDP the headers, and the next state.\<close>

definition asc_end :: "conn \<Rightarrow> srv \<Rightarrow> (conn \<times> srv) option" where
  "asc_end c s =
    (case add_frags [frag (''END'' @ CRLF)] c s of
       None \<Rightarrow> None
     | Some (r, c, s) \<Rightarrow>
         if r \<noteq> MC_OK then Some (asc_write_server_error c, s)
         else (case (if c_udp c then conn_build_udp_headers c (sv_mc s) else Some (MC_OK, c, sv_mc s)) of
             None \<Rightarrow> None
           | Some (r, c, st) \<Rightarrow>
               (let s = s\<lparr>sv_mc := st\<rparr> in
                if r \<noteq> MC_OK then Some (asc_write_server_error c, s)
                else Some ((conn_set_state CONN_MWRITE c)\<lparr>c_msg_curr := 0\<rparr>, s))))"

definition conn_set_slist :: "nat \<Rightarrow> conn \<Rightarrow> conn" where
  "conn_set_slist n c = c\<lparr>c_scurr := 0, c_sleft := n\<rparr>"

definition conn_set_ilist :: "nat \<Rightarrow> conn \<Rightarrow> conn" where
  "conn_set_ilist n c = c\<lparr>c_icurr := 0, c_ileft := n\<rparr>"

definition conn_keep_item :: "nat \<Rightarrow> ptr option \<Rightarrow> conn \<Rightarrow> conn option" where
  "conn_keep_item i r c = (if i < length (c_ilist c) then Some (c\<lparr>c_ilist := (c_ilist c)[i := r]\<rparr>) else None)"

definition asc_write_novalue :: "conn \<Rightarrow> srv \<Rightarrow> (rstatus \<times> conn \<times> srv) option" where
  "asc_write_novalue c s =
    ok_then (add_frags [frag ''NOVALUE ''] c s) (\<lambda>c s.
    ok_then (asc_create_suffix 0 c s) (\<lambda>c s.
    ok_then (add_frags [frag_suffix False ('' '' @ dec 0), frag CRLF] c s) (\<lambda>c s.
      do { (c, s) \<leftarrow> asc_end c s; Some (MC_OK, conn_set_slist 1 c, s) })))"

text \<open>\<open>asc_write_ciget_value\<close> and \<open>asc_write_iqget_value\<close> differ in the numbers of the suffix.\<close>

definition asc_write_value :: "bytes \<Rightarrow> ptr \<Rightarrow> conn \<Rightarrow> srv \<Rightarrow> (rstatus \<times> conn \<times> srv) option" where
  "asc_write_value suffix p c s =
    ok_then (add_frags [frag ''VALUE '', frag_key p (sv_mc s)] c s) (\<lambda>c s.
    ok_then (asc_create_suffix 0 c s) (\<lambda>c s.
    ok_then (add_frags [frag_suffix False suffix, frag CRLF, frag_data p (sv_mc s), frag CRLF] c s) (\<lambda>c s. do {
      c \<leftarrow> conn_keep_item 0 (Some p) c;
      (c, s) \<leftarrow> asc_end (conn_set_slist 1 (conn_set_ilist 1 c)) s;
      Some (MC_OK, c, s)
    })))"

definition asc_write_ciget_value :: "ptr \<Rightarrow> conn \<Rightarrow> srv \<Rightarrow> (rstatus \<times> conn \<times> srv) option" where
  "asc_write_ciget_value p c s = (let it = heap_at (sv_mc s) p in
     asc_write_value ('' '' @ dec (unat (it_dataflags it)) @ '' '' @ dec (it_nbyte it)) p c s)"

definition asc_write_iqget_value :: "ptr \<Rightarrow> conn \<Rightarrow> srv \<Rightarrow> (rstatus \<times> conn \<times> srv) option" where
  "asc_write_iqget_value p c s = (let it = heap_at (sv_mc s) p in
     asc_write_value ('' '' @ dec (unat (it_dataflags it)) @ '' '' @ dec (unat (it_p it)) @ '' '' @ dec (it_nbyte it)
       @ '' '' @ u32_text (it_config_number it)) p c s)"

definition asc_write_ciget_lease :: "ptr \<Rightarrow> u64 \<Rightarrow> conn \<Rightarrow> srv \<Rightarrow> (rstatus \<times> conn \<times> srv) option" where
  "asc_write_ciget_lease p new_lease_token c s =
    ok_then (add_frags [frag ''LVALUE '', frag_key p (sv_mc s)] c s) (\<lambda>c s.
    ok_then (asc_create_suffix 0 c s) (\<lambda>c s.
    ok_then (add_frags [frag_suffix False ('' '' @ dec (unat (it_dataflags (heap_at (sv_mc s) p))) @ '' ''
      @ dec (unat new_lease_token)), frag CRLF] c s) (\<lambda>c s. do {
      (c, s) \<leftarrow> asc_end c s;
      Some (MC_OK, c, s\<lparr>sv_mc := item_remove p (sv_mc s)\<rparr>)
    })))"

text \<open>\<open>it->p\<close> is read even where \<open>it\<close> may be null, which is a fault.\<close>

definition asc_write_iqget_lease :: "ptr option \<Rightarrow> u64 \<Rightarrow> conn \<Rightarrow> srv \<Rightarrow> (rstatus \<times> conn \<times> srv) option" where
  "asc_write_iqget_lease r new_lease_token c s =
    ok_then (add_frags [frag ''LVALUE '', (case r of Some p \<Rightarrow> frag_key p (sv_mc s) | None \<Rightarrow> frag ''nokey'')] c s) (\<lambda>c s.
    ok_then (asc_create_suffix 0 c s) (\<lambda>c s.
      case r of
        None \<Rightarrow> None
      | Some p \<Rightarrow>
          (let it = heap_at (sv_mc s) p in
           ok_then (add_frags [frag_suffix False ('' '' @ dec (unat (it_dataflags it)) @ '' '' @ dec (unat (it_p it)) @ '' ''
             @ dec (unat new_lease_token)), frag CRLF] c s) (\<lambda>c s.
             do { (c, s) \<leftarrow> asc_end c s; Some (MC_OK, conn_set_slist 1 c, s) }))))"

definition asc_write_qaread :: "ptr option \<Rightarrow> bytes \<Rightarrow> u64 \<Rightarrow> u8 \<Rightarrow> conn \<Rightarrow> srv \<Rightarrow> (rstatus \<times> conn \<times> srv) option" where
  "asc_write_qaread r key lease_token p c s =
    ok_then (add_frags [frag (if r = None then ''LVALUE '' else ''LEASE ''), frag key] c s) (\<lambda>c s.
    ok_then (asc_create_suffix 0 c s) (\<lambda>c s.
    ok_then (case r of
        None \<Rightarrow> add_frags [frag_suffix False ('' '' @ dec 0 @ '' '' @ dec (unat p) @ '' '' @ dec (unat lease_token)), frag CRLF, frag CRLF] c s
      | Some q \<Rightarrow> (let it = heap_at (sv_mc s) q in
          add_frags [frag_suffix False ('' '' @ dec (unat (it_dataflags it)) @ '' '' @ dec (unat p) @ '' ''
            @ dec (unat lease_token) @ '' '' @ dec (it_nbyte it)), frag CRLF, frag_data q (sv_mc s), frag CRLF] c s)) (\<lambda>c s. do {
      c \<leftarrow> (case r of None \<Rightarrow> Some c | Some q \<Rightarrow> map_option (conn_set_ilist 1) (conn_keep_item 0 r c));
      (c, s) \<leftarrow> asc_end (conn_set_slist 1 c) s;
      Some (MC_OK, c, s)
    })))"

text \<open>A null item is kept in the item list too.\<close>

definition asc_write_oqread :: "ptr option \<Rightarrow> bytes \<Rightarrow> conn \<Rightarrow> srv \<Rightarrow> (rstatus \<times> conn \<times> srv) option" where
  "asc_write_oqread r key c s =
    ok_then (add_frags [frag (if r = None then ''NOVALUE '' else ''VALUE ''), frag key] c s) (\<lambda>c s.
    ok_then (asc_create_suffix 0 c s) (\<lambda>c s.
    ok_then (case r of
        None \<Rightarrow> add_frags [frag_suffix False ('' '' @ dec 0), frag CRLF, frag CRLF] c s
      | Some q \<Rightarrow> (let it = heap_at (sv_mc s) q in
          add_frags [frag_suffix False ('' '' @ dec (unat (it_dataflags it)) @ '' '' @ dec (it_nbyte it)), frag CRLF,
            frag_data q (sv_mc s), frag CRLF] c s)) (\<lambda>c s. do {
      c \<leftarrow> conn_keep_item 0 r c;
      (c, s) \<leftarrow> asc_end (conn_set_slist 1 (conn_set_ilist 1 c)) s;
      Some (MC_OK, c, s)
    })))"

definition asc_write_ok_pending :: "u8 \<Rightarrow> u64 \<Rightarrow> conn \<Rightarrow> srv \<Rightarrow> (rstatus \<times> conn \<times> srv) option" where
  "asc_write_ok_pending pending lease_token c s =
    ok_then (asc_create_suffix 0 c s) (\<lambda>c s.
    ok_then (add_frags [frag_suffix True (''OK '' @ dec (unat pending) @ '' '' @ dec (unat lease_token)), frag CRLF] c s) (\<lambda>c s.
      Some (MC_OK, conn_set_slist 1 ((conn_set_state CONN_WRITE c)\<lparr>c_write_and_go := CONN_NEW_CMD\<rparr>), s)))"

definition asc_write_ok_novalue_pending :: "u8 \<Rightarrow> u64 \<Rightarrow> conn \<Rightarrow> srv \<Rightarrow> (rstatus \<times> conn \<times> srv) option" where
  "asc_write_ok_novalue_pending pending lease_token c s =
    ok_then (asc_create_suffix 0 c s) (\<lambda>c s.
    ok_then (add_frags [frag_suffix True (''OK_NOVALUE '' @ dec (unat pending) @ '' '' @ dec (unat lease_token)), frag CRLF] c s) (\<lambda>c s.
      Some (MC_OK, conn_set_slist 1 ((conn_set_state CONN_MWRITE c)\<lparr>c_msg_curr := 0\<rparr>), s)))"

definition asc_write_ok_val :: "u64 \<Rightarrow> conn \<Rightarrow> srv \<Rightarrow> (rstatus \<times> conn \<times> srv) option" where
  "asc_write_ok_val val c s =
    ok_then (add_frags [frag ''VALUE''] c s) (\<lambda>c s.
    ok_then (asc_create_suffix 0 c s) (\<lambda>c s.
    ok_then (add_frags [frag_suffix False ('' '' @ dec (unat val)), frag CRLF] c s) (\<lambda>c s.
      do { (c, s) \<leftarrow> asc_end c s; Some (MC_OK, c, s) })))"

definition asc_respond_get :: "nat \<Rightarrow> ptr \<Rightarrow> bool \<Rightarrow> conn \<Rightarrow> srv \<Rightarrow> (rstatus \<times> conn \<times> srv) option" where
  "asc_respond_get valid_key_iter p return_cas c s =
    (let it = heap_at (sv_mc s) p; data = frag_data p (sv_mc s) in
     ok_then (add_frags [frag ''VALUE '', frag_key p (sv_mc s)] c s) (\<lambda>c s.
     ok_then (asc_create_suffix valid_key_iter c s) (\<lambda>c s.
       add_frags [frag_suffix True ('' '' @ dec (unat (it_dataflags it)) @ '' '' @ dec (it_nbyte it) @ '' ''
         @ (if return_cas then dec (unat (item_cas it)) else u32_text (it_config_number it))), frag CRLF, data, frag CRLF] c s)))"

end
