(* ===== verification/MC_IQ.thy ===== *)
theory MC_IQ
  imports MC_Items
begin

text \<open>
  The commands of the IQ lease protocol, the single-transaction half of \<open>mc_items.c\<close>: I leases for
  readers that miss, Q leases for writers (\<open>Q_INV\<close> of invalidating sessions, which is a list of the
  transactions that hold it, \<open>Q_REF\<close> of refreshing and \<open>Q_INC\<close> of incrementing ones, which hold
  a token), pending versions, and the item of a transaction, which is the list of its keys.

  The loops over the keys of a transaction read its list once: the item is referenced while the
  loop runs, so its chunk is neither reused nor written. \<open>item_delete\<close> stands for the pair of
  \<open>_item_unlink\<close> and \<open>_item_remove\<close>. Key lengths are at most 255: the command parser rejects
  keys of more than \<open>KEY_MAX_LEN\<close> bytes and the prefixes add three. Out parameters of the source
  that a branch may leave alone are arguments (the value before) and results (the value after).
\<close>

subsection \<open>Lists held in items\<close>

definition item_addkey :: "ptr \<Rightarrow> ptr option \<Rightarrow> bytes \<Rightarrow> mc \<Rightarrow> mc option" where
  "item_addkey dst src key st = do {
     let (buf, n) = (case src of None \<Rightarrow> ([], 0) | Some s \<Rightarrow> (item_data s st, it_nbyte (heap_at st s)));
     (_, _, dest) \<leftarrow> trig_keylist_addkey (item_data dst st) 0 buf n key;
     item_memcpy dst 0 dest st
   }"

definition item_rmvkey :: "ptr \<Rightarrow> ptr \<Rightarrow> bytes \<Rightarrow> mc \<Rightarrow> mc option" where
  "item_rmvkey dst src key st = do {
     (_, _, dest) \<leftarrow> trig_keylist_rmvkey (item_data dst st) 0 (item_data src st) (it_nbyte (heap_at st src)) key;
     item_memcpy dst 0 dest st
   }"

definition item_check_keylist :: "ptr option \<Rightarrow> bytes \<Rightarrow> mc \<Rightarrow> trig_status option" where
  "item_check_keylist r key st =
    (case r of None \<Rightarrow> Some TRIG_NOTFOUND
     | Some p \<Rightarrow> trig_check_keylist (item_data p st) (it_nbyte (heap_at st p)) key)"

definition item_keys :: "ptr \<Rightarrow> mc \<Rightarrow> bytes list option" where
  "item_keys p st = trig_keys (item_data p st) (it_nbyte (heap_at st p))"

text \<open>What the five \<open>_item_assoc_...\<close> functions share: a new reserved item under \<open>list_key\<close> with the
  old list and the entry, marked by \<open>mark\<close>, in place of the old item, which \<open>unpin\<close> releases.\<close>

definition item_assoc_list ::
    "(ptr \<Rightarrow> mc \<Rightarrow> mc) \<Rightarrow> bool \<Rightarrow> ptr option \<Rightarrow> bytes \<Rightarrow> bytes \<Rightarrow> u64 \<Rightarrow> mc \<Rightarrow> mc option" where
  "item_assoc_list mark unpin old list_key entry token st = do {
     s \<leftarrow> item_check_keylist old entry st;
     if s \<noteq> TRIG_NOTFOUND then Some st
     else do {
       let old_keylistlen = (case old of None \<Rightarrow> 0 | Some p \<Rightarrow> it_nbyte (heap_at st p));
       (r, st) \<leftarrow> item_create_reserved_item list_key (old_keylistlen + trig_new_keylist_size entry) st;
       n \<leftarrow> r;
       let st = mark n st;
       st \<leftarrow> item_addkey n old entry st;
       let st = (case old of None \<Rightarrow> st | Some p \<Rightarrow> if unpin then item_unset_pinned p st else st);
       (_, st) \<leftarrow> item_store n REQ_SET token st;
       Some (item_remove n st)
     }
   }"

definition item_assoc_key_tid :: "ptr option \<Rightarrow> bytes \<Rightarrow> bytes \<Rightarrow> u64 \<Rightarrow> mc \<Rightarrow> mc option" where
  "item_assoc_key_tid trans_it key tid token st =
    item_assoc_list (set_coflag SESS) True trans_it tid key token st"

definition item_assoc_key_sid :: "ptr option \<Rightarrow> bytes \<Rightarrow> bytes \<Rightarrow> u64 \<Rightarrow> mc \<Rightarrow> mc option" where
  "item_assoc_key_sid sess_it key sid token st =
    item_assoc_list (\<lambda>p st. set_coflag SESS p (upd_item p (\<lambda>it. it\<lparr>it_sess_status := ALIVE\<rparr>) st))
      True sess_it sid key token st"

definition item_assoc_sid_colease ::
    "ptr option \<Rightarrow> bytes \<Rightarrow> bytes \<Rightarrow> item_coflag \<Rightarrow> u64 \<Rightarrow> mc \<Rightarrow> mc option" where
  "item_assoc_sid_colease colease_it key sid type token st =
    item_assoc_list (\<lambda>p st. if type \<in> {C_LEASE, O_LEASE_INV, O_LEASE_REF} then set_coflag type p st else st)
      False colease_it (mc_get_co_lease_key key) sid token st"

definition item_assoc_tid_ptrans :: "ptr option \<Rightarrow> bytes \<Rightarrow> bytes \<Rightarrow> u64 \<Rightarrow> mc \<Rightarrow> mc option" where
  "item_assoc_tid_ptrans ptrans_it key tid token st =
    item_assoc_list (\<lambda>p st. set_coflag PTRANS p (upd_item p (\<lambda>it. it\<lparr>it_exptime := 0\<rparr>) st))
      False ptrans_it (mc_get_ptrans_key key) tid token st"

definition item_assoc_tid_lease :: "ptr option \<Rightarrow> bytes \<Rightarrow> bytes \<Rightarrow> u64 \<Rightarrow> mc \<Rightarrow> mc option" where
  "item_assoc_tid_lease lease_it key tid token st =
    item_assoc_list (set_flag ITEM_Q_INV_LEASE) False lease_it (mc_get_lease_key key) tid token st"

definition item_assoc_entry_to_list :: "ptr option \<Rightarrow> bytes \<Rightarrow> bytes \<Rightarrow> u64 \<Rightarrow> mc \<Rightarrow> mc option" where
  "item_assoc_entry_to_list it entry_id key token st =
    item_assoc_list (\<lambda>p st. st) True it key entry_id token st"

text \<open>\<open>_item_remove_entry_from_list\<close> and \<open>_item_remove_tid_ptrans\<close> differ in how the new item is
  marked.\<close>

definition item_remove_from_list ::
    "(item \<Rightarrow> ptr \<Rightarrow> mc \<Rightarrow> mc) \<Rightarrow> ptr option \<Rightarrow> bytes \<Rightarrow> bytes \<Rightarrow> u64 \<Rightarrow> mc \<Rightarrow> mc option" where
  "item_remove_from_list mark r list_key entry token st =
    (case r of
       None \<Rightarrow> Some st
     | Some p \<Rightarrow> do {
         s \<leftarrow> item_check_keylist r entry st;
         if s \<noteq> TRIG_OK then Some st
         else if it_nbyte (heap_at st p) = length entry + 1 then item_unlink p st
         else do {
           let num_of_bytes = it_nbyte (heap_at st p) - trig_new_keylist_size entry;
           (q, st) \<leftarrow> item_create_reserved_item list_key num_of_bytes st;
           n \<leftarrow> q;
           let st = mark (heap_at st p) n st;
           st \<leftarrow> item_rmvkey n p entry st;
           (_, st) \<leftarrow> item_store n REQ_SET token st;
           Some (item_remove n st)
         }
       })"

definition item_mark_lease_as :: "item \<Rightarrow> ptr \<Rightarrow> mc \<Rightarrow> mc" where
  "item_mark_lease_as it n st =
    (if item_has_c_lease it then set_coflag C_LEASE n (upd_item n (\<lambda>i. i\<lparr>it_coflags := it_coflags it\<rparr>) st)
     else if item_has_o_lease it then upd_item n (\<lambda>i. i\<lparr>it_coflags := it_coflags it\<rparr>) st
     else if item_has_q_lease it then set_flag ITEM_Q_INV_LEASE n st
     else st)"

definition item_remove_entry_from_list :: "ptr option \<Rightarrow> bytes \<Rightarrow> bytes \<Rightarrow> u64 \<Rightarrow> mc \<Rightarrow> mc option" where
  "item_remove_entry_from_list it key entry_id token st =
    item_remove_from_list item_mark_lease_as it key entry_id token st"

definition item_remove_sid_colease :: "ptr option \<Rightarrow> bytes \<Rightarrow> bytes \<Rightarrow> u64 \<Rightarrow> mc \<Rightarrow> mc option" where
  "item_remove_sid_colease colease_it key sid token st =
    item_remove_entry_from_list colease_it (mc_get_co_lease_key key) sid token st"

definition item_remove_tid_lease :: "ptr option \<Rightarrow> bytes \<Rightarrow> bytes \<Rightarrow> u64 \<Rightarrow> mc \<Rightarrow> mc option" where
  "item_remove_tid_lease lease_it key tid token st =
    item_remove_entry_from_list lease_it (mc_get_lease_key key) tid token st"

definition item_remove_tid_ptrans :: "ptr option \<Rightarrow> bytes \<Rightarrow> bytes \<Rightarrow> u64 \<Rightarrow> mc \<Rightarrow> mc option" where
  "item_remove_tid_ptrans ptrans_it key tid token st =
    item_remove_from_list (\<lambda>it n. upd_item n (\<lambda>i. i\<lparr>it_exptime := 0, it_coflags := it_coflags it\<rparr>))
      ptrans_it (mc_get_ptrans_key key) tid token st"

subsection \<open>Readers\<close>

text \<open>\<open>unlease\<close> command: \<open>item_get_and_unlease\<close>.\<close>

definition item_get_and_unlease :: "bytes \<Rightarrow> u64 \<Rightarrow> mc \<Rightarrow> mc option" where
  "item_get_and_unlease key token_val st = do {
     (r, st) \<leftarrow> item_get_lease key st;
     case r of
       None \<Rightarrow> Some st
     | Some l \<Rightarrow> if item_lease_value l st = token_val then item_delete l st else Some (item_remove l st)
   }"

text \<open>The pending mark of a key: of the item if there is one, otherwise whether a pending item exists.\<close>

definition item_pending_of :: "ptr option \<Rightarrow> bytes \<Rightarrow> u8 \<Rightarrow> mc \<Rightarrow> (u8 \<times> mc) option" where
  "item_pending_of r key pending st =
    (case r of
       Some p \<Rightarrow> Some (it_p (heap_at st p), st)
     | None \<Rightarrow> do {
         (q, st) \<leftarrow> item_get_pending key st;
         case q of None \<Rightarrow> Some (pending, st) | Some q \<Rightarrow> Some (1, item_remove q st)
       })"

definition HOTMISS :: u64 where
  "HOTMISS = lease_type_code LEASE_HOTMISS"

text \<open>The answer of \<open>iqget\<close> when a lease is to be granted and there may be one already: the status,
  \<open>*item\<close>, the lease item, \<open>*new_lease_token\<close>.\<close>

definition item_iqget_leased ::
    "ptr \<Rightarrow> u64 \<Rightarrow> u8 \<Rightarrow> u64 \<Rightarrow> mc \<Rightarrow> item_iq_result \<times> ptr option \<times> ptr option \<times> u64 \<times> mc" where
  "item_iqget_leased l lease_token pending ntok st =
    (let st = upd_item l (\<lambda>it. it\<lparr>it_p := pending\<rparr>) st in
     if item_lease_value l st = lease_token then (IQ_NO_VALUE, Some l, Some l, ntok, st)
     else (IQ_MISS, Some l, Some l, HOTMISS, st))"

definition item_iqget_grant ::
    "ptr option \<Rightarrow> bytes \<Rightarrow> u64 \<Rightarrow> u8 \<Rightarrow> mc
      \<Rightarrow> (item_iq_result \<times> ptr option \<times> ptr option \<times> u64 \<times> mc) option" where
  "item_iqget_grant unlink_it key token pending st = do {
     (r, ntok, st) \<leftarrow> item_create_lease key st;
     case r of
       None \<Rightarrow> Some (IQ_SERVER_ERROR, None, None, ntok, st)
     | Some l \<Rightarrow> do {
         let st = set_flag ITEM_I_LEASE l st;
         st \<leftarrow> (case unlink_it of None \<Rightarrow> Some st | Some p \<Rightarrow> item_unlink p st);
         (_, st) \<leftarrow> item_store l REQ_SET token st;
         Some (IQ_LEASE, Some l, Some l, ntok, upd_item l (\<lambda>it. it\<lparr>it_p := pending\<rparr>) st)
       }
   }"

text \<open>The branch for a key that is not the transaction's own (\<open>ILEASE_MEET_QLEASE\<close> is 0).\<close>

definition item_iqget_other ::
    "ptr option \<Rightarrow> bytes \<Rightarrow> u64 \<Rightarrow> u64 \<Rightarrow> u8 \<Rightarrow> bool \<Rightarrow> u64 \<Rightarrow> mc
      \<Rightarrow> (item_iq_result \<times> ptr option \<times> ptr option \<times> u64 \<times> mc) option" where
  "item_iqget_other it key lease_token token pending override ntok st = do {
     (lease, st) \<leftarrow> item_get_lease key st;
     case it of
       Some p \<Rightarrow>
         (case lease of
            Some l \<Rightarrow>
              if item_has_q_ref_lease (heap_at st l) \<and> item_lease_value l st = lease_token
              then Some (IQ_NO_VALUE, None, lease, ntok, st)
              else if override then Some (item_iqget_leased l lease_token pending ntok st)
              else do { st \<leftarrow> item_touch p st; Some (IQ_VALUE, Some p, lease, ntok, st) }
          | None \<Rightarrow>
              if override then item_iqget_grant (Some p) key token pending st
              else do { st \<leftarrow> item_touch p st; Some (IQ_VALUE, Some p, None, ntok, st) })
     | None \<Rightarrow>
         (case lease of
            None \<Rightarrow> item_iqget_grant None key token pending st
          | Some l \<Rightarrow> Some (item_iqget_leased l lease_token pending ntok st))
   }"

text \<open>The branch for a key of the transaction; with a \<open>Q_INC\<close> lease and \<open>foreground\<close> the source
  dereferences \<open>it\<close> for the statistics.\<close>

definition item_iqget_own ::
    "ptr option \<Rightarrow> bytes \<Rightarrow> bool \<Rightarrow> u64 \<Rightarrow> mc
      \<Rightarrow> (item_iq_result \<times> ptr option \<times> ptr option \<times> u64 \<times> mc) option" where
  "item_iqget_own it key foreground ntok st = do {
     (lease, st) \<leftarrow> item_get_lease key st;
     case lease of
       None \<Rightarrow> Some (IQ_NO_VALUE, None, None, ntok, st)
     | Some l \<Rightarrow>
         if item_has_q_inv_lease (heap_at st l) then Some (IQ_NO_VALUE, None, lease, ntok, st)
         else if item_has_q_incr_lease (heap_at st l) then do {
           (pv, st) \<leftarrow> item_get_pending_version key st;
           case pv of
             Some v \<Rightarrow> if foreground \<and> it = None then None else Some (IQ_VALUE, Some v, lease, ntok, st)
           | None \<Rightarrow> Some (IQ_NO_VALUE, None, lease, ntok, st)
         } else Some (IQ_NO_VALUE, None, lease, ntok, st)
   }"

definition item_iqget ::
    "bytes \<Rightarrow> u64 \<Rightarrow> bytes \<Rightarrow> u64 \<Rightarrow> u64 \<Rightarrow> bool \<Rightarrow> bool \<Rightarrow> mc
      \<Rightarrow> (item_iq_result \<times> ptr option \<times> u64 \<times> mc) option" where
  "item_iqget key lease_token tid token ntok override foreground st = do {
     (trans_it, st) \<leftarrow> (if tid = [] then Some (None, st) else item_get tid st);
     (it, st) \<leftarrow> item_get key st;
     (pending, st) \<leftarrow> item_pending_of it key 0 st;
     own \<leftarrow> item_check_keylist trans_it key st;
     (status, item, lease, ntok, st) \<leftarrow>
       (if own \<noteq> TRIG_OK then item_iqget_other it key lease_token token pending override ntok st
        else item_iqget_own it key foreground ntok st);
     let st = (case item of None \<Rightarrow> st | Some p \<Rightarrow> item_acquire_refcount p st);
     Some (status, item, ntok, item_remove_opt lease (item_remove_opt it (item_remove_opt trans_it st)))
   }"

subsection \<open>Invalidating writers\<close>

definition item_quarantine_and_register :: "bytes \<Rightarrow> bytes \<Rightarrow> u64 \<Rightarrow> mc \<Rightarrow> mc option" where
  "item_quarantine_and_register tid key token st = do {
     (trans_it, st) \<leftarrow> item_get tid st;
     (lease, st) \<leftarrow> item_get_lease key st;
     (lease, st) \<leftarrow>
       (case lease of
          None \<Rightarrow> Some (None, st)
        | Some l \<Rightarrow>
            if item_has_i_lease (heap_at st l) then do { st \<leftarrow> item_delete l st; Some (None, st) }
            else Some (Some l, st));
     st \<leftarrow> item_assoc_tid_lease lease key tid token st;
     st \<leftarrow> item_assoc_key_tid trans_it key tid token st;
     let st = item_remove_opt lease st;
     (it, st) \<leftarrow> item_get key st;
     (lease, st) \<leftarrow> item_get_lease key st;
     let st = (case it of
         None \<Rightarrow> st
       | Some p \<Rightarrow> item_remove p (case lease of
             None \<Rightarrow> st
           | Some l \<Rightarrow> upd_item p (\<lambda>i. i\<lparr>it_exptime := it_exptime (heap_at st l)\<rparr>) st));
     Some (item_remove_opt trans_it (item_remove_opt lease st))
   }"

text \<open>One key of \<open>delete_and_release\<close>.\<close>

definition item_dar_key :: "bytes \<Rightarrow> u64 \<Rightarrow> bytes \<Rightarrow> mc \<Rightarrow> mc option" where
  "item_dar_key tid token key st = do {
     (it, st) \<leftarrow> item_get key st;
     st \<leftarrow> item_delete_opt it st;
     (lease, st) \<leftarrow> item_get_lease key st;
     case lease of
       None \<Rightarrow> Some st
     | Some l \<Rightarrow>
         if item_has_q_inv_lease (heap_at st l) then do {
           st \<leftarrow> item_remove_tid_lease lease key tid token st;
           Some (item_remove l st)
         } else item_delete l st
   }"

text \<open>\<open>False\<close> is \<open>MC_INVALID\<close>: there is no such transaction.\<close>

definition item_delete_and_release :: "bytes \<Rightarrow> u64 \<Rightarrow> mc \<Rightarrow> (bool \<times> mc) option" where
  "item_delete_and_release tid token st = do {
     (trans_it, st) \<leftarrow> item_get tid st;
     case trans_it of
       None \<Rightarrow> Some (False, st)
     | Some t \<Rightarrow> do {
         keys \<leftarrow> item_keys t st;
         st \<leftarrow> foldm (item_dar_key tid token) keys st;
         st \<leftarrow> item_unlink t st;
         Some (True, item_remove t (item_unset_pinned t st))
       }
   }"

subsection \<open>Commit and release\<close>

text \<open>The pending version of a key becomes its value.\<close>

definition item_install :: "ptr \<Rightarrow> bytes \<Rightarrow> int \<Rightarrow> int \<Rightarrow> u64 \<Rightarrow> mc \<Rightarrow> mc option" where
  "item_install v key pending server_cfg_id token st = do {
     let n = it_nbyte (heap_at st v);
     (r, st) \<leftarrow> item_alloc_config (item_slabid (length key) n st) key (it_dataflags (heap_at st v)) 0 n False
                server_cfg_id st;
     new_it \<leftarrow> r;
     st \<leftarrow> item_copy new_it 0 v n st;
     let st = upd_item new_it (\<lambda>it. it\<lparr>it_p := of_int pending\<rparr>) st;
     (_, st) \<leftarrow> item_store new_it REQ_SET token st;
     Some (item_remove new_it st)
   }"

definition item_create_pending :: "bytes \<Rightarrow> int \<Rightarrow> u64 \<Rightarrow> mc \<Rightarrow> mc option" where
  "item_create_pending key server_cfg_id token st = do {
     let pending_key = mc_get_pending_key key;
     (r, st) \<leftarrow> item_alloc_config (item_slabid (length pending_key) 1 st) pending_key 0 0 1 False
                server_cfg_id st;
     q \<leftarrow> r;
     (_, st) \<leftarrow> item_store q REQ_SET token st;
     Some (item_remove q st)
   }"

definition item_commit_key :: "bytes \<Rightarrow> int \<Rightarrow> int \<Rightarrow> u64 \<Rightarrow> bytes \<Rightarrow> mc \<Rightarrow> mc option" where
  "item_commit_key tid pending server_cfg_id token key st = do {
     (lease, st) \<leftarrow> item_get_lease key st;
     (pv, st) \<leftarrow> item_get_pending_version key st;
     case lease of
       None \<Rightarrow> Some st
     | Some l \<Rightarrow>
         if \<not> item_has_q_lease (heap_at st l) then Some (item_remove l st)
         else do {
           st \<leftarrow> (if item_has_q_inv_lease (heap_at st l) then item_remove_tid_lease lease key tid token st
                  else item_unlink l st);
           let st = item_remove l st;
           st \<leftarrow> (case pv of None \<Rightarrow> Some st | Some v \<Rightarrow> item_install v key pending server_cfg_id token st);
           (it, st) \<leftarrow> item_get key st;
           st \<leftarrow> (case it of
               None \<Rightarrow> Some st
             | Some p \<Rightarrow> if pv = None \<or> item_has_q_inv_lease (heap_at st l) then item_unlink p st else Some st);
           (pend, st) \<leftarrow> item_get_pending key st;
           st \<leftarrow> (case it of
               None \<Rightarrow>
                 if pending = 1 \<and> pend = None then item_create_pending key server_cfg_id token st
                 else if pending = 0 then item_delete_opt pend st
                 else Some (item_remove_opt pend st)
             | Some _ \<Rightarrow> item_delete_opt pend st);
           item_delete_opt pv (item_remove_opt it st)
         }
   }"

definition item_commit :: "bytes \<Rightarrow> int \<Rightarrow> int \<Rightarrow> u64 \<Rightarrow> mc \<Rightarrow> (item_iq_result \<times> mc) option" where
  "item_commit tid pending server_cfg_id token st = do {
     (trans_it, st) \<leftarrow> item_get tid st;
     case trans_it of
       None \<Rightarrow> Some (IQ_NOT_FOUND, st)
     | Some t \<Rightarrow> do {
         keys \<leftarrow> item_keys t st;
         st \<leftarrow> foldm (item_commit_key tid pending server_cfg_id token) keys st;
         st \<leftarrow> item_unlink t (item_unset_pinned t st);
         Some (IQ_OK, item_remove t st)
       }
   }"

definition item_release_key :: "ptr \<Rightarrow> bytes \<Rightarrow> u64 \<Rightarrow> bytes \<Rightarrow> mc \<Rightarrow> mc option" where
  "item_release_key t tid token key st = do {
     (lease, st) \<leftarrow> item_get_lease key st;
     (pv, st) \<leftarrow> item_get_pending_version key st;
     case lease of
       None \<Rightarrow> Some st
     | Some l \<Rightarrow>
         if \<not> item_has_q_lease (heap_at st l) then Some (item_remove l st)
         else do {
           st \<leftarrow> (if item_has_q_inv_lease (heap_at st l) then item_remove_tid_lease (Some t) key tid token st
                  else Some st);
           st \<leftarrow> item_delete l st;
           item_delete_opt pv st
         }
   }"

definition item_release :: "bytes \<Rightarrow> u64 \<Rightarrow> mc \<Rightarrow> (item_iq_result \<times> mc) option" where
  "item_release tid token st = do {
     (trans_it, st) \<leftarrow> item_get tid st;
     case trans_it of
       None \<Rightarrow> Some (IQ_NOT_FOUND, st)
     | Some t \<Rightarrow> do {
         keys \<leftarrow> item_keys t st;
         st \<leftarrow> foldm (item_release_key t tid token) keys st;
         st \<leftarrow> item_unlink t (item_unset_pinned t st);
         Some (IQ_OK, item_remove t st)
       }
   }"

subsection \<open>Refreshing writers\<close>

text \<open>The pending version of \<open>p\<close> with its value, its pending mark and the expiry of the lease \<open>l\<close>.\<close>

definition item_fork :: "ptr \<Rightarrow> ptr \<Rightarrow> u64 \<Rightarrow> mc \<Rightarrow> (ptr \<times> mc) option" where
  "item_fork p l token st = do {
     (r, st) \<leftarrow> item_create_pending_version p st;
     v \<leftarrow> r;
     let st = upd_item v (\<lambda>it. it\<lparr>it_p := it_p (heap_at st p), it_exptime := it_exptime (heap_at st l)\<rparr>) st;
     st \<leftarrow> item_copy v 0 p (it_nbyte (heap_at st p)) st;
     (_, st) \<leftarrow> item_store v REQ_SET token st;
     Some (v, st)
   }"

text \<open>The results are \<open>*it\<close>, \<open>*new_lease_token\<close> and \<open>*pending\<close>; the status is \<open>MC_OK\<close> on every path.\<close>

definition item_quarantine_and_read ::
    "bytes \<Rightarrow> bytes \<Rightarrow> u64 \<Rightarrow> u8 \<Rightarrow> req_type \<Rightarrow> u64 \<Rightarrow> mc \<Rightarrow> (ptr option \<times> u64 \<times> u8 \<times> mc) option" where
  "item_quarantine_and_read tid key lease_token pending type token st = do {
     (trans_it, st) \<leftarrow> item_get tid st;
     (lease, st) \<leftarrow> item_get_lease key st;
     let q_lease = (case lease of None \<Rightarrow> None | Some l \<Rightarrow> if item_has_q_lease (heap_at st l) then Some l else None);
     (lease, it, ntok, pending, st) \<leftarrow>
       (case q_lease of
          Some l \<Rightarrow>
            if (item_has_q_ref_lease (heap_at st l) \<or> item_has_q_incr_lease (heap_at st l))
              \<and> item_lease_value l st = lease_token
            then do {
              (pv, st) \<leftarrow> item_get_pending_version key st;
              (pending, st) \<leftarrow> item_pending_of pv key pending st;
              Some (l, pv, lease_token, pending, st)
            } else Some (l, None, HOTMISS, pending, st)
        | None \<Rightarrow> do {
            (r, ntok, st) \<leftarrow> item_create_lease key st;
            l \<leftarrow> r;
            let st = set_flag ITEM_Q_REF_LEASE l st;
            (_, st) \<leftarrow> item_store l type token st;
            (orig, st) \<leftarrow> item_get key st;
            (pending, st) \<leftarrow> item_pending_of orig key pending st;
            (it, st) \<leftarrow>
              (case orig of
                 None \<Rightarrow> Some (None, st)
               | Some p \<Rightarrow> do { (v, st) \<leftarrow> item_fork p l token st; Some (Some v, item_remove p st) });
            let st = (case it of None \<Rightarrow> st
              | Some v \<Rightarrow> upd_item v (\<lambda>i. i\<lparr>it_exptime := it_exptime (heap_at st l)\<rparr>) st);
            st \<leftarrow> item_assoc_key_tid trans_it key tid token st;
            Some (l, it, ntok, pending, st)
          });
     Some (it, ntok, pending, item_remove_opt trans_it (item_remove lease st))
   }"

definition item_swap_and_release :: "ptr \<Rightarrow> u64 \<Rightarrow> mc \<Rightarrow> (item_store_result \<times> mc) option" where
  "item_swap_and_release p token st = do {
     let key = item_key (heap_at st p);
     (lease, st) \<leftarrow> item_get_lease key st;
     case lease of
       None \<Rightarrow> Some (NOT_FOUND, st)
     | Some l \<Rightarrow>
         if item_lease_value l st \<noteq> token then Some (NOT_FOUND, item_remove l st)
         else do {
           st \<leftarrow> item_delete l st;
           if it_nbyte (heap_at st p) = 0 then Some (STORE_ERROR, st)
           else do {
             (oit, st) \<leftarrow> item_get key st;
             st \<leftarrow> (case oit of
                 None \<Rightarrow> map_option snd (item_store p REQ_SET token st)
               | Some o' \<Rightarrow> item_replace o' p st);
             Some (STORED, item_remove_opt oit st)
           }
         }
   }"

definition item_swap :: "ptr \<Rightarrow> u64 \<Rightarrow> mc \<Rightarrow> (item_store_result \<times> mc) option" where
  "item_swap p token st = do {
     let key = item_key (heap_at st p);
     (lease, st) \<leftarrow> item_get_lease key st;
     case lease of
       None \<Rightarrow> Some (NOT_FOUND, st)
     | Some l \<Rightarrow>
         if item_lease_value l st \<noteq> token then Some (NOT_FOUND, item_remove l st)
         else do {
           let st = item_remove l st;
           if it_nbyte (heap_at st p) = 0 then Some (STORED, st)
           else do {
             (pv, st) \<leftarrow> item_get_pending_version key st;
             (pending, st) \<leftarrow>
               (case pv of
                  Some v \<Rightarrow> do { let pending = it_p (heap_at st v); st \<leftarrow> item_delete v st; Some (pending, st) }
                | None \<Rightarrow> do {
                    (q, st) \<leftarrow> item_get_pending key st;
                    case q of None \<Rightarrow> Some (0, st)
                    | Some q \<Rightarrow> do { st \<leftarrow> item_delete q st; Some (1, st) }
                  });
             (r, st) \<leftarrow> item_create_pending_version p st;
             v \<leftarrow> r;
             st \<leftarrow> item_copy v 0 p (it_nbyte (heap_at st p)) st;
             let st = upd_item v (\<lambda>it. it\<lparr>it_p := pending\<rparr>) st;
             (_, st) \<leftarrow> item_store v REQ_SET token st;
             Some (STORED, item_remove v st)
           }
         }
   }"

definition item_ftrans :: "bytes \<Rightarrow> bytes \<Rightarrow> u64 \<Rightarrow> mc \<Rightarrow> mc option" where
  "item_ftrans tid key token st = do {
     (r, st) \<leftarrow> item_get_ptrans key st;
     st \<leftarrow> item_remove_tid_ptrans r key tid token st;
     Some (item_remove_opt r st)
   }"

subsection \<open>Incremental writers\<close>

definition item_add_delta_iq :: "req_type \<Rightarrow> bytes \<Rightarrow> u64 \<Rightarrow> mc \<Rightarrow> (item_iq_result \<times> mc) option" where
  "item_add_delta_iq type key delta st = do {
     (dret, st) \<leftarrow>
       (case type of
          REQ_IQINCR \<Rightarrow> map_option (\<lambda>(d, _, st). (d, st)) (item_add_delta (mc_get_version_key key) True delta st)
        | REQ_IQDECR \<Rightarrow> map_option (\<lambda>(d, _, st). (d, st)) (item_add_delta (mc_get_version_key key) False delta st)
        | _ \<Rightarrow> Some (DELTA_OK, st));
     Some (case dret of DELTA_EOM \<Rightarrow> IQ_SERVER_ERROR | DELTA_NON_NUMERIC \<Rightarrow> IQ_CLIENT_ERROR
       | DELTA_OK \<Rightarrow> IQ_LEASE | DELTA_NOT_FOUND \<Rightarrow> IQ_ABORT, st)
   }"

text \<open>\<open>nit->p\<close> is set before \<open>nit\<close> is tested, so a failed allocation is a fault.\<close>

definition item_append_prepend_iq :: "req_type \<Rightarrow> ptr \<Rightarrow> ptr \<Rightarrow> u64 \<Rightarrow> mc \<Rightarrow> (item_iq_result \<times> mc) option" where
  "item_append_prepend_iq type p src token st = do {
     let it = heap_at st p;
     let nbyte = it_nbyte (heap_at st src);
     let total_size = it_nbyte it + nbyte;
     (r, st) \<leftarrow> item_alloc (item_slabid (it_nkey it) total_size st) (item_key it) (it_dataflags it)
                (it_exptime it) total_size False st;
     nit \<leftarrow> r;
     let st = upd_item nit (\<lambda>i. i\<lparr>it_p := it_p it\<rparr>) st;
     st \<leftarrow> (case type of
         REQ_IQAPPEND \<Rightarrow> do {
           st \<leftarrow> item_copy nit 0 p (it_nbyte it) st;
           item_copy nit (it_nbyte it) src nbyte st
         }
       | REQ_IQPREPEND \<Rightarrow> do {
           st \<leftarrow> item_copy nit 0 src nbyte st;
           item_copy nit nbyte p (it_nbyte it) st
         }
       | _ \<Rightarrow> Some st);
     (_, st) \<leftarrow> item_store nit REQ_SET token st;
     Some (IQ_LEASE, item_remove nit st)
   }"

text \<open>The protocol common to \<open>_item_iqincr_iqdecr\<close> and \<open>item_iqappend_iqprepend\<close>: obtain a \<open>Q_INC\<close>
  lease and a pending version, or find those of the same transaction, and \<open>apply\<close> the change to
  the version. \<open>void\<close> is what is done with an I lease; \<open>tested\<close> says that a lease is tested to be a
  Q lease before it is used as one. The results are the status, \<open>*new_lease_token\<close> and \<open>*pending\<close>,
  which the callers set to 0 before.\<close>

definition item_iq_modify ::
    "(ptr \<Rightarrow> mc \<Rightarrow> mc option) \<Rightarrow> bool \<Rightarrow> (ptr \<Rightarrow> mc \<Rightarrow> (item_iq_result \<times> mc) option) \<Rightarrow> bytes \<Rightarrow> bytes
      \<Rightarrow> u8 \<Rightarrow> u64 \<Rightarrow> u64 \<Rightarrow> mc \<Rightarrow> (item_iq_result \<times> u64 \<times> u8 \<times> mc) option" where
  "item_iq_modify void tested apply_to key tid pending ntok token st = do {
     (it, st) \<leftarrow> item_get key st;
     (trans_it, st) \<leftarrow> item_get tid st;
     (lease, st) \<leftarrow> item_get_lease key st;
     (ret, pv, lease, ntok, pending, st) \<leftarrow>
       (if lease = None \<or> item_has_i_lease (heap_at st (the lease)) then do {
          st \<leftarrow> (case lease of None \<Rightarrow> Some st | Some l \<Rightarrow> void l st);
          (r, ntok, st) \<leftarrow> item_create_lease key st;
          l \<leftarrow> r;
          let st = set_flag ITEM_Q_INC_LEASE l st;
          (stored, st) \<leftarrow> item_store l REQ_SET token st;
          if stored = NOT_STORED then Some (IQ_SERVER_ERROR, None, l, ntok, pending, st)
          else do {
            st \<leftarrow> item_assoc_key_tid trans_it key tid token st;
            (pending, st) \<leftarrow> item_pending_of it key pending st;
            case it of
              Some p \<Rightarrow> do {
                (v, st) \<leftarrow> item_fork p l token st;
                (ret, st) \<leftarrow> apply_to v st;
                Some (ret, Some v, l, ntok, pending, st)
              }
            | None \<Rightarrow> Some (IQ_LEASE_NO_VALUE, None, l, ntok, pending, st)
          }
        } else do {
          let l = the lease;
          own \<leftarrow> (if tested \<and> \<not> item_has_q_lease (heap_at st l) then Some None
                 else map_option Some (item_check_keylist trans_it key st));
          if own = None then Some (IQ_LEASE, None, l, ntok, pending, st)
          else if own = Some TRIG_NOTFOUND then Some (IQ_ABORT, None, l, ntok, pending, st)
          else do {
            let ntok = item_lease_value l st;
            (pv, st) \<leftarrow> item_get_pending_version key st;
            (pending, st) \<leftarrow> item_pending_of pv key pending st;
            case pv of
              None \<Rightarrow> Some (IQ_LEASE_NO_VALUE, None, l, ntok, pending, st)
            | Some v \<Rightarrow> do { (ret, st) \<leftarrow> apply_to v st; Some (ret, pv, l, ntok, pending, st) }
          }
        });
     Some (ret, ntok, pending,
       item_remove lease (item_remove_opt pv (item_remove_opt trans_it (item_remove_opt it st))))
   }"

definition item_iqincr_iqdecr ::
    "req_type \<Rightarrow> bytes \<Rightarrow> u64 \<Rightarrow> bytes \<Rightarrow> u8 \<Rightarrow> u64 \<Rightarrow> u64 \<Rightarrow> mc \<Rightarrow> (item_iq_result \<times> u64 \<times> u8 \<times> mc) option" where
  "item_iqincr_iqdecr type key delta tid pending ntok token st =
    item_iq_modify item_unlink True (\<lambda>v. item_add_delta_iq type key delta) key tid pending ntok token st"

definition item_iqappend_iqprepend ::
    "req_type \<Rightarrow> ptr \<Rightarrow> bytes \<Rightarrow> u8 \<Rightarrow> u64 \<Rightarrow> u64 \<Rightarrow> mc \<Rightarrow> (item_iq_result \<times> u64 \<times> u8 \<times> mc) option" where
  "item_iqappend_iqprepend type p tid pending ntok token st =
    item_iq_modify item_delete False (\<lambda>v. item_append_prepend_iq type v p token)
      (item_key (heap_at st p)) tid pending ntok token st"

end
