(* ===== verification/MC_CO.thy ===== *)
theory MC_CO
  imports MC_IQ
begin

text \<open>
  The commands of the CO lease protocol, the session half of \<open>mc_items.c\<close>: C leases of readers and O
  leases of writers, held in one item per key that lists the sessions, session items that list
  the keys of a session and carry its status, and the commands that validate, commit and abort a
  session. Conventions are those of the IQ half. The second \<open>pthread_mutex_unlock\<close> that
  \<open>clean_session\<close> issues for an aborted session has no counterpart in a model without mutexes.
\<close>

subsection \<open>Sessions\<close>

text \<open>Removing a session item that was aborted or is finished.\<close>

definition item_end_session :: "ptr \<Rightarrow> mc \<Rightarrow> mc option" where
  "item_end_session p st = do { st \<leftarrow> item_unlink p st; Some (item_remove p (item_unset_pinned p st)) }"

text \<open>The test each command starts with: \<open>True\<close> if the session is aborted, and then it is removed.\<close>

definition session_aborted :: "bytes \<Rightarrow> mc \<Rightarrow> (bool \<times> mc) option" where
  "session_aborted sid st = do {
     (r, st) \<leftarrow> item_get sid st;
     case r of
       None \<Rightarrow> Some (False, st)
     | Some p \<Rightarrow>
         if it_sess_status (heap_at st p) = ABORT then do { st \<leftarrow> item_end_session p st; Some (True, st) }
         else Some (False, item_remove p st)
   }"

text \<open>\<open>abort_sessions\<close>: one key of a session that loses to a writer, one session, all of them. The
  comparison of session ids looks at the first \<open>nsid\<close> bytes; beyond the end of the listed id it
  reads the bytes of the list that follow.\<close>

definition abort_session_key :: "ptr \<Rightarrow> bytes \<Rightarrow> u64 \<Rightarrow> bytes \<Rightarrow> mc \<Rightarrow> mc option" where
  "abort_session_key colease_it psid token tkey st = do {
     (r, st) \<leftarrow> item_get_co_lease tkey st;
     case r of
       None \<Rightarrow> Some st
     | Some t \<Rightarrow> do {
         st \<leftarrow> (if t \<noteq> colease_it then do {
                  s \<leftarrow> item_check_keylist r psid st;
                  st \<leftarrow> (if s = TRIG_OK then item_remove_sid_colease r tkey psid token st else Some st);
                  (l, st) \<leftarrow> item_get_lease tkey st;
                  item_delete_opt l st
                } else Some st);
         Some (item_remove t st)
       }
   }"

definition abort_session :: "ptr \<Rightarrow> bytes \<Rightarrow> u64 \<Rightarrow> bytes \<times> bytes \<Rightarrow> mc \<Rightarrow> mc option" where
  "abort_session colease_it sid token entry st = do {
     let (psid, from_psid) = entry;
     (r, st) \<leftarrow> item_get psid st;
     case r of
       None \<Rightarrow> Some st
     | Some p \<Rightarrow> do {
         prefix \<leftarrow> slice from_psid 0 (length sid);
         st \<leftarrow> (if prefix \<noteq> sid then do {
                  let st = upd_item p (\<lambda>it. it\<lparr>it_sess_status := ABORT\<rparr>) st;
                  keys \<leftarrow> item_keys p st;
                  foldm (abort_session_key colease_it psid token) keys st
                } else Some st);
         Some (item_remove p st)
       }
   }"

text \<open>The entries of a list, each with the memory from the entry on.\<close>

fun list_suffixes :: "bytes list \<Rightarrow> bytes \<Rightarrow> (bytes \<times> bytes) list" where
  "list_suffixes [] buf = []"
| "list_suffixes (k # ks) buf = (k, drop 1 buf) # list_suffixes ks (drop (length k + 1) buf)"

definition abort_sessions :: "ptr \<Rightarrow> bytes \<Rightarrow> u64 \<Rightarrow> mc \<Rightarrow> mc option" where
  "abort_sessions colease_it sid token st = do {
     sids \<leftarrow> item_keys colease_it st;
     foldm (abort_session colease_it sid token) (list_suffixes sids (item_data colease_it st)) st
   }"

text \<open>What \<open>clean_session\<close> and \<open>item_co_unlease\<close> do for each key of the session.\<close>

definition clean_session_key :: "bytes \<Rightarrow> u64 \<Rightarrow> bytes \<Rightarrow> mc \<Rightarrow> mc option" where
  "clean_session_key sid token key st = do {
     (lease, st) \<leftarrow> item_get_lease key st;
     st \<leftarrow> item_delete_opt lease st;
     (colease, st) \<leftarrow> item_get_co_lease key st;
     st \<leftarrow> item_remove_sid_colease colease key sid token st;
     let st = item_remove_opt colease st;
     (pv, st) \<leftarrow> item_get_pending_version key st;
     item_delete_opt pv st
   }"

definition item_co_unlease :: "bytes \<Rightarrow> u64 \<Rightarrow> mc \<Rightarrow> (item_co_result \<times> mc) option" where
  "item_co_unlease sid token st = do {
     (r, st) \<leftarrow> item_get sid st;
     case r of
       None \<Rightarrow> Some (CO_NOT_FOUND, st)
     | Some p \<Rightarrow>
         if it_sess_status (heap_at st p) = ABORT then do { st \<leftarrow> item_end_session p st; Some (CO_ABORT, st) }
         else do {
           keys \<leftarrow> item_keys p st;
           st \<leftarrow> foldm (clean_session_key sid token) keys st;
           st \<leftarrow> item_end_session p st;
           Some (CO_OK, st)
         }
   }"

definition clean_session :: "bytes \<Rightarrow> u64 \<Rightarrow> mc \<Rightarrow> mc option" where
  "clean_session sid token st = do {
     (r, st) \<leftarrow> item_get sid st;
     case r of
       None \<Rightarrow> Some st
     | Some p \<Rightarrow>
         if it_sess_status (heap_at st p) = ABORT then item_end_session p st
         else do {
           keys \<leftarrow> item_keys p st;
           st \<leftarrow> foldm (clean_session_key sid token) keys st;
           item_end_session p st
         }
   }"

text \<open>\<open>item_validate\<close> reads the list after it has released its reference on the session item; no
  item is allocated in between, so the bytes are still there.\<close>

fun validate_keys :: "bytes \<Rightarrow> bytes list \<Rightarrow> item_co_result \<Rightarrow> mc \<Rightarrow> (item_co_result \<times> mc) option" where
  "validate_keys sid [] status st = Some (status, st)"
| "validate_keys sid (key # keys) status st = do {
     (r, st) \<leftarrow> item_get_co_lease key st;
     case r of
       None \<Rightarrow> validate_keys sid keys status st
     | Some p \<Rightarrow> do {
         s \<leftarrow> item_check_keylist r sid st;
         validate_keys sid keys (if s \<noteq> TRIG_OK then CO_ABORT else status) (item_remove p st)
       }
   }"

definition item_validate :: "bytes \<Rightarrow> u64 \<Rightarrow> mc \<Rightarrow> (item_co_result \<times> mc) option" where
  "item_validate sid token st = do {
     (r, st) \<leftarrow> item_get sid st;
     case r of
       None \<Rightarrow> Some (CO_ABORT, st)
     | Some p \<Rightarrow>
         if it_sess_status (heap_at st p) = ABORT then do { st \<leftarrow> item_end_session p st; Some (CO_ABORT, st) }
         else do {
           let st = item_remove p st;
           keys \<leftarrow> item_keys p st;
           (status, st) \<leftarrow> validate_keys sid keys CO_OK st;
           st \<leftarrow> (if status = CO_ABORT then clean_session sid token st else Some st);
           Some (status, st)
         }
   }"

subsection \<open>Readers: ciget\<close>

text \<open>The answer for a key with an I or a Q lease; \<open>None\<close> is falling through. The list of a session is
  read with the length of the session id, as the source passes it.\<close>

definition item_ciget_iq ::
    "bytes \<Rightarrow> bytes \<Rightarrow> u64 \<Rightarrow> ptr \<Rightarrow> mc \<Rightarrow> ((item_co_result \<times> ptr option) option \<times> mc) option" where
  "item_ciget_iq sid key lease_token l st =
    (if item_has_i_lease (heap_at st l) then
       Some (Some (if item_lease_value l st = lease_token then CO_OK else CO_RETRY, None), item_remove l st)
     else if item_has_q_lease (heap_at st l) then do {
       (sess, st) \<leftarrow> item_get sid st;
       s \<leftarrow> (case sess of None \<Rightarrow> Some TRIG_NOTFOUND | Some p \<Rightarrow> trig_check_keylist (item_data p st) (length sid) key);
       (status, it, st) \<leftarrow>
         (if s = TRIG_OK then do { (it, st) \<leftarrow> item_get key st; Some (CO_OK, it, st) }
          else Some (CO_RETRY, None, st));
       Some (Some (status, it), item_remove l (item_remove_opt sess st))
     } else Some (None, st))"

text \<open>The rest of \<open>ciget\<close>, for a key with no O lease.\<close>

definition item_ciget_free ::
    "bytes \<Rightarrow> bytes \<Rightarrow> u64 \<Rightarrow> u64 \<Rightarrow> u64 \<Rightarrow> ptr option \<Rightarrow> mc
      \<Rightarrow> (item_co_result \<times> ptr option \<times> u64 \<times> mc) option" where
  "item_ciget_free sid key lease_token token ntok colease st = do {
     (iqlease, st) \<leftarrow> item_get_lease key st;
     (ans, st) \<leftarrow> (case iqlease of None \<Rightarrow> Some (None, st) | Some l \<Rightarrow> item_ciget_iq sid key lease_token l st);
     case ans of
       Some (status, it) \<Rightarrow> Some (status, it, ntok, item_remove_opt colease st)
     | None \<Rightarrow> do {
         (sess, st) \<leftarrow> item_get sid st;
         st \<leftarrow> item_assoc_key_sid sess key sid token st;
         (it, st) \<leftarrow> item_get key st;
         (item, ntok, st) \<leftarrow>
           (case it of
              Some p \<Rightarrow> Some (Some p, ntok, st)
            | None \<Rightarrow> do {
                (r, ntok, st) \<leftarrow> item_create_lease key st;
                case r of
                  None \<Rightarrow> Some (None, ntok, st)
                | Some l \<Rightarrow> do {
                    (_, st) \<leftarrow> item_store l REQ_SET token (set_flag ITEM_I_LEASE l st);
                    Some (Some l, ntok, st)
                  }
              });
         st \<leftarrow> item_assoc_sid_colease colease key sid C_LEASE token st;
         Some (CO_OK, item, ntok, item_remove_opt sess (item_remove_opt colease st))
       }
   }"

definition item_ciget ::
    "bytes \<Rightarrow> bytes \<Rightarrow> u64 \<Rightarrow> u64 \<Rightarrow> u64 \<Rightarrow> mc \<Rightarrow> (item_co_result \<times> ptr option \<times> u64 \<times> mc) option" where
  "item_ciget sid key lease_token token ntok st = do {
     (aborted, st) \<leftarrow> session_aborted sid st;
     if aborted then Some (CO_ABORT, None, ntok, st)
     else do {
       (colease, st) \<leftarrow> item_get_co_lease key st;
       case colease of
         Some co \<Rightarrow>
           if item_has_o_lease (heap_at st co) then do {
             s \<leftarrow> item_check_keylist colease sid st;
             if s = TRIG_OK then do {
               (it, st) \<leftarrow> item_get_pending_version key st;
               Some (CO_OK, it, ntok, item_remove co st)
             } else do {
               st \<leftarrow> clean_session sid token (item_remove co st);
               Some (CO_ABORT, None, ntok, st)
             }
           } else item_ciget_free sid key lease_token token ntok colease st
       | None \<Rightarrow> item_ciget_free sid key lease_token token ntok colease st
     }
   }"

subsection \<open>Writers\<close>

text \<open>The \<open>Q_REF\<close> lease that \<open>oqread\<close> takes. The reference to a lease that is refused is released
  twice, once in the branch and once after it.\<close>

definition item_oqread_lease :: "bytes \<Rightarrow> u64 \<Rightarrow> mc \<Rightarrow> (item_co_result \<times> ptr option \<times> mc) option" where
  "item_oqread_lease key token st = do {
     (lease, st) \<leftarrow> item_get_lease key st;
     case (case lease of None \<Rightarrow> None | Some l \<Rightarrow> if item_has_q_ref_lease (heap_at st l) then Some l else None) of
       Some l \<Rightarrow> Some (CO_ABORT, None, item_remove l (item_remove l st))
     | None \<Rightarrow> do {
         (it, st) \<leftarrow> item_get key st;
         (r, st) \<leftarrow> item_create_reserved_item (mc_get_lease_key key) 0 st;
         l \<leftarrow> r;
         (_, st) \<leftarrow> item_store l REQ_SET token (set_flag ITEM_Q_REF_LEASE l st);
         let st = (case it of None \<Rightarrow> st
           | Some p \<Rightarrow> upd_item p (\<lambda>i. i\<lparr>it_exptime := it_exptime (heap_at st l)\<rparr>) st);
         Some (CO_OK, it, item_remove l st)
       }
   }"

definition item_oqread_grant :: "bytes \<Rightarrow> bytes \<Rightarrow> u64 \<Rightarrow> mc \<Rightarrow> (item_co_result \<times> ptr option \<times> mc) option" where
  "item_oqread_grant sid key token st = do {
     (status, it, st) \<leftarrow> item_oqread_lease key token st;
     st \<leftarrow> (if status = CO_OK then do {
              (sess, st) \<leftarrow> item_get sid st;
              st \<leftarrow> item_assoc_key_sid sess key sid token st;
              (colease, st) \<leftarrow> item_get_co_lease key st;
              item_assoc_sid_colease colease key sid O_LEASE_REF token st
            } else Some st);
     Some (status, it, st)
   }"

definition item_oqread :: "bytes \<Rightarrow> bytes \<Rightarrow> u64 \<Rightarrow> mc \<Rightarrow> (item_co_result \<times> ptr option \<times> mc) option" where
  "item_oqread sid key token st = do {
     (aborted, st) \<leftarrow> session_aborted sid st;
     if aborted then Some (CO_ABORT, None, st)
     else do {
       (colease, st) \<leftarrow> item_get_co_lease key st;
       case colease of
         None \<Rightarrow> item_oqread_grant sid key token st
       | Some co \<Rightarrow>
           if item_has_c_lease (heap_at st co) then do {
             st \<leftarrow> abort_sessions co sid token st;
             st \<leftarrow> item_delete co st;
             item_oqread_grant sid key token st
           } else if item_has_o_lease (heap_at st co) then do {
             s \<leftarrow> item_check_keylist colease sid st;
             if s = TRIG_OK then do { (it, st) \<leftarrow> item_get key st; Some (CO_OK, it, item_remove co st) }
             else do { st \<leftarrow> clean_session sid token (item_remove co st); Some (CO_ABORT, None, st) }
           } else item_oqread_grant sid key token st
     }
   }"

text \<open>The new pending version of the item's key, with the item's value.\<close>

definition item_store_version :: "ptr \<Rightarrow> u64 \<Rightarrow> mc \<Rightarrow> mc option" where
  "item_store_version p token st = do {
     (r, st) \<leftarrow> item_create_pending_version p st;
     v \<leftarrow> r;
     st \<leftarrow> item_copy v 0 p (it_nbyte (heap_at st p)) st;
     (_, st) \<leftarrow> item_store v REQ_SET token st;
     Some (item_remove v st)
   }"

definition item_oqswap :: "bytes \<Rightarrow> ptr \<Rightarrow> u64 \<Rightarrow> mc \<Rightarrow> (item_co_result \<times> mc) option" where
  "item_oqswap sid p token st = do {
     let key = item_key (heap_at st p);
     (aborted, st) \<leftarrow> session_aborted sid st;
     if aborted then Some (CO_ABORT, st)
     else do {
       (colease, st) \<leftarrow> item_get_co_lease key st;
       case colease of
         None \<Rightarrow> Some (CO_ABORT, st)
       | Some co \<Rightarrow>
           if item_has_c_lease (heap_at st co) then Some (CO_ABORT, item_remove co st)
           else if item_has_o_lease (heap_at st co) then do {
             s \<leftarrow> item_check_keylist colease sid st;
             if s \<noteq> TRIG_OK then do { st \<leftarrow> item_delete co st; Some (CO_ABORT, st) }
             else do {
               (lease, st) \<leftarrow> item_get_lease key (item_remove co st);
               case lease of
                 None \<Rightarrow> Some (CO_INVALID, st)
               | Some l \<Rightarrow>
                   if \<not> item_has_q_ref_lease (heap_at st l) then Some (CO_INVALID, item_remove l st)
                   else do {
                     st \<leftarrow> item_delete l st;
                     if it_nbyte (heap_at st p) = 0 then Some (CO_INVALID, st)
                     else do { st \<leftarrow> item_store_version p token st; Some (CO_OK, st) }
                   }
             }
           } else do { st \<leftarrow> item_delete co st; Some (CO_INVALID, st) }
     }
   }"

text \<open>The end of \<open>oqwrite\<close>: an empty value removes the pending version, another one replaces it, and
  the key joins the session.\<close>

definition item_oqwrite_value :: "bytes \<Rightarrow> ptr \<Rightarrow> u64 \<Rightarrow> mc \<Rightarrow> (item_co_result \<times> mc) option" where
  "item_oqwrite_value sid p token st = do {
     let key = item_key (heap_at st p);
     st \<leftarrow> (if it_nbyte (heap_at st p) = 0 then do {
              (pv, st) \<leftarrow> item_get_pending_version key st;
              item_delete_opt pv st
            } else item_store_version p token st);
     (sess, st) \<leftarrow> item_get sid st;
     st \<leftarrow> item_assoc_key_sid sess key sid token st;
     Some (CO_OK, item_remove_opt sess st)
   }"

definition item_oqwrite :: "bytes \<Rightarrow> ptr \<Rightarrow> u64 \<Rightarrow> mc \<Rightarrow> (item_co_result \<times> mc) option" where
  "item_oqwrite sid p token st = do {
     let key = item_key (heap_at st p);
     (aborted, st) \<leftarrow> session_aborted sid st;
     if aborted then Some (CO_ABORT, st)
     else do {
       (colease, st) \<leftarrow> item_get_co_lease key st;
       (colease, st) \<leftarrow>
         (case colease of
            None \<Rightarrow> Some (None, st)
          | Some co \<Rightarrow>
              if item_has_c_lease (heap_at st co) then do {
                st \<leftarrow> abort_sessions co sid token st;
                st \<leftarrow> item_delete co st;
                (lease, st) \<leftarrow> item_get_lease key st;
                st \<leftarrow> item_delete_opt lease st;
                Some (None, st)
              } else Some (Some co, st));
       case colease of
         None \<Rightarrow> do {
           st \<leftarrow> item_assoc_sid_colease None key sid O_LEASE_REF token st;
           item_oqwrite_value sid p token st
         }
       | Some co \<Rightarrow> do {
           s \<leftarrow> item_check_keylist colease sid st;
           let st = item_remove co st;
           if s \<noteq> TRIG_OK then do { st \<leftarrow> clean_session sid token st; Some (CO_ABORT, st) }
           else do {
             (lease, st) \<leftarrow> item_get_lease key st;
             case lease of
               None \<Rightarrow> item_oqwrite_value sid p token st
             | Some l \<Rightarrow>
                 if \<not> item_has_q_ref_lease (heap_at st l) then Some (CO_INVALID, item_remove l st)
                 else do { st \<leftarrow> item_delete l st; item_oqwrite_value sid p token st }
           }
         }
     }
   }"

subsection \<open>Incremental writers\<close>

definition item_append_prepend_co :: "req_type \<Rightarrow> ptr \<Rightarrow> ptr \<Rightarrow> u64 \<Rightarrow> mc \<Rightarrow> (item_co_result \<times> mc) option" where
  "item_append_prepend_co type p src token st = do {
     let it = heap_at st p;
     let nbyte = it_nbyte (heap_at st src);
     let total_size = it_nbyte it + nbyte;
     (r, st) \<leftarrow> item_alloc (item_slabid (it_nkey it) total_size st) (item_key it) (it_dataflags it)
                (it_exptime it) total_size False st;
     case r of
       None \<Rightarrow> Some (CO_ABORT, st)
     | Some nit \<Rightarrow> do {
         st \<leftarrow> (case type of
             REQ_OQAPPEND \<Rightarrow> do {
               st \<leftarrow> item_copy nit 0 p (it_nbyte it) st;
               item_copy nit (it_nbyte it) src nbyte st
             }
           | REQ_OQPREPEND \<Rightarrow> do {
               st \<leftarrow> item_copy nit 0 src nbyte st;
               item_copy nit nbyte p (it_nbyte it) st
             }
           | _ \<Rightarrow> Some st);
         (_, st) \<leftarrow> item_store nit REQ_SET token st;
         Some (CO_OK, item_remove nit st)
       }
   }"

definition item_add_delta_co :: "req_type \<Rightarrow> bytes \<Rightarrow> u64 \<Rightarrow> mc \<Rightarrow> (item_co_result \<times> mc) option" where
  "item_add_delta_co type key delta st = do {
     (dret, st) \<leftarrow>
       (case type of
          REQ_OQINCR \<Rightarrow> map_option (\<lambda>(d, _, st). (d, st)) (item_add_delta (mc_get_version_key key) True delta st)
        | REQ_OQDECR \<Rightarrow> map_option (\<lambda>(d, _, st). (d, st)) (item_add_delta (mc_get_version_key key) False delta st)
        | _ \<Rightarrow> Some (DELTA_OK, st));
     Some (case dret of DELTA_EOM \<Rightarrow> CO_ABORT | DELTA_NON_NUMERIC \<Rightarrow> CO_ABORT
       | DELTA_OK \<Rightarrow> CO_OK | DELTA_NOT_FOUND \<Rightarrow> CO_OK, st)
   }"

text \<open>The pending version of \<open>oqappend\<close> and \<open>oqincr\<close>: the one there is, otherwise a copy of the item.\<close>

definition item_oq_version :: "ptr option \<Rightarrow> bytes \<Rightarrow> u64 \<Rightarrow> mc \<Rightarrow> (ptr option \<times> mc) option" where
  "item_oq_version it key token st = do {
     (pv, st) \<leftarrow> item_get_pending_version key st;
     case (pv, it) of
       (None, Some p) \<Rightarrow> do {
         (r, st) \<leftarrow> item_create_pending_version p st;
         v \<leftarrow> r;
         st \<leftarrow> item_copy v 0 p (it_nbyte (heap_at st p)) st;
         (_, st) \<leftarrow> item_store v REQ_SET token st;
         Some (Some v, st)
       }
     | _ \<Rightarrow> Some (pv, st)
   }"

definition item_remove_linked :: "ptr option \<Rightarrow> mc \<Rightarrow> mc" where
  "item_remove_linked r st =
    (case r of None \<Rightarrow> st | Some p \<Rightarrow> if item_is_linked (heap_at st p) then item_remove p st else st)"

text \<open>The protocol common to \<open>item_oqappend_oqprepend\<close> and \<open>_item_oqincr_oqdecr\<close>.\<close>

definition item_oq_apply ::
    "(ptr option \<Rightarrow> mc \<Rightarrow> (item_co_result \<times> mc) option) \<Rightarrow> ptr option \<Rightarrow> bytes \<Rightarrow> bytes \<Rightarrow> u64
      \<Rightarrow> mc \<Rightarrow> (item_co_result \<times> mc) option" where
  "item_oq_apply apply_to colease key sid token st = do {
     (it, st) \<leftarrow> item_get key st;
     (lease, st) \<leftarrow> item_get_lease key st;
     (ret, pv, st) \<leftarrow>
       (if lease = None \<or> item_has_i_lease (heap_at st (the lease)) then do {
          st \<leftarrow> (case lease of None \<Rightarrow> Some st | Some l \<Rightarrow> item_unlink l st);
          (pv, st) \<leftarrow> item_oq_version it key token st;
          (ret, st) \<leftarrow> apply_to pv st;
          Some (ret, pv, st)
        } else Some (CO_OK, None, st));
     st \<leftarrow> (if colease = None then item_assoc_sid_colease None key sid O_LEASE_REF token st else Some st);
     (sess, st) \<leftarrow> item_get sid st;
     st \<leftarrow> item_assoc_key_sid sess key sid token st;
     let st = item_remove_opt sess st;
     let st = item_remove_linked pv (item_remove_linked it st);
     Some (ret, item_remove_opt colease (item_remove_opt lease st))
   }"

definition item_oq_modify ::
    "(ptr option \<Rightarrow> mc \<Rightarrow> (item_co_result \<times> mc) option) \<Rightarrow> bytes \<Rightarrow> bytes \<Rightarrow> u64
      \<Rightarrow> mc \<Rightarrow> (item_co_result \<times> mc) option" where
  "item_oq_modify apply_to key sid token st = do {
     (aborted, st) \<leftarrow> session_aborted sid st;
     if aborted then Some (CO_ABORT, st)
     else do {
       (colease, st) \<leftarrow> item_get_co_lease key st;
       case colease of
         None \<Rightarrow> item_oq_apply apply_to None key sid token st
       | Some co \<Rightarrow>
           if item_has_c_lease (heap_at st co) then do {
             st \<leftarrow> abort_sessions co sid token st;
             st \<leftarrow> item_delete co st;
             item_oq_apply apply_to None key sid token st
           } else if item_has_o_lease (heap_at st co) then do {
             s \<leftarrow> item_check_keylist colease sid st;
             if s \<noteq> TRIG_OK then do { st \<leftarrow> clean_session sid token (item_remove co st); Some (CO_ABORT, st) }
             else item_oq_apply apply_to colease key sid token st
           } else item_oq_apply apply_to colease key sid token st
     }
   }"

definition item_oqappend_oqprepend :: "req_type \<Rightarrow> ptr \<Rightarrow> bytes \<Rightarrow> u64 \<Rightarrow> mc \<Rightarrow> (item_co_result \<times> mc) option" where
  "item_oqappend_oqprepend type p sid token st =
    item_oq_modify
      (\<lambda>pv st. case pv of None \<Rightarrow> Some (CO_OK, st)
         | Some v \<Rightarrow> map_option (\<lambda>(_, st). (CO_OK, st)) (item_append_prepend_co type v p token st))
      (item_key (heap_at st p)) sid token st"

text \<open>The second result is \<open>*val\<close>.\<close>

definition item_oqincr_oqdecr ::
    "req_type \<Rightarrow> bytes \<Rightarrow> u64 \<Rightarrow> bytes \<Rightarrow> u64 \<Rightarrow> u64 \<Rightarrow> mc \<Rightarrow> (item_co_result \<times> u64 \<times> mc) option" where
  "item_oqincr_oqdecr type key delta sid val token st = do {
     (ret, st) \<leftarrow> item_oq_modify (\<lambda>pv. item_add_delta_co type key delta) key sid token st;
     (pv, st) \<leftarrow> item_get_pending_version key st;
     Some (case (ret, pv) of
         (CO_OK, Some v) \<Rightarrow> (CO_OK, snd (mc_strtoull_len (item_value v st) val), item_remove v st)
       | (CO_OK, None) \<Rightarrow> (CO_NOVALUE, val, st)
       | _ \<Rightarrow> (ret, val, item_remove_opt pv st))
   }"

subsection \<open>Registration and commit\<close>

definition item_oqreg_colease :: "bytes \<Rightarrow> bytes \<Rightarrow> u64 \<Rightarrow> mc \<Rightarrow> (ptr option \<times> mc) option" where
  "item_oqreg_colease key sid token st = do {
     (colease, st) \<leftarrow> item_get_co_lease key st;
     (colease, st) \<leftarrow> (if colease = None then do {
         st \<leftarrow> item_assoc_sid_colease None key sid O_LEASE_INV token st;
         item_get_co_lease key st
       } else Some (colease, st));
     co \<leftarrow> colease;
     if item_has_c_lease (heap_at st co) then do {
       st \<leftarrow> abort_sessions co sid token st;
       st \<leftarrow> item_delete co st;
       st \<leftarrow> item_assoc_sid_colease None key sid O_LEASE_INV token st;
       Some (None, st)
     } else Some (Some co, st)
   }"

definition item_oqreg :: "bytes \<Rightarrow> bytes \<Rightarrow> u64 \<Rightarrow> mc \<Rightarrow> (item_co_result \<times> mc) option" where
  "item_oqreg sid key token st = do {
     (aborted, st) \<leftarrow> session_aborted sid st;
     if aborted then Some (CO_ABORT, st)
     else do {
       (lease, st) \<leftarrow> item_get_lease key st;
       (lease, st) \<leftarrow>
         (case lease of
            None \<Rightarrow> Some (None, st)
          | Some l \<Rightarrow>
              if item_has_i_lease (heap_at st l) then do { st \<leftarrow> item_delete l st; Some (None, st) }
              else Some (lease, st));
       (it, st) \<leftarrow> item_get key st;
       let st = item_remove_opt it st;
       st \<leftarrow> (if lease = None then do {
           (r, st) \<leftarrow> item_create_reserved_item (mc_get_lease_key key) 0 st;
           l \<leftarrow> r;
           (_, st) \<leftarrow> item_store l REQ_SET token (set_flag ITEM_Q_INV_LEASE l st);
           Some (item_remove l st)
         } else Some st);
       (colease, st) \<leftarrow> item_oqreg_colease key sid token st;
       (sess, st) \<leftarrow> item_get sid st;
       st \<leftarrow> item_assoc_key_sid sess key sid token st;
       Some (CO_OK, item_remove_opt colease (item_remove_opt sess st))
     }
   }"

text \<open>What \<open>dcommit\<close> does to the value, by the kind of lease.\<close>

definition item_dcommit_value :: "ptr option \<Rightarrow> ptr \<Rightarrow> bytes \<Rightarrow> u64 \<Rightarrow> mc \<Rightarrow> mc option" where
  "item_dcommit_value it co key token st =
    (let unlink_it = (\<lambda>st. case it of None \<Rightarrow> Some st | Some p \<Rightarrow> item_unlink p st) in
     if item_has_o_lease_inv (heap_at st co) then unlink_it st
     else if item_has_o_lease_ref (heap_at st co) then do {
       (pv, st) \<leftarrow> item_get_pending_version key st;
       case pv of
         None \<Rightarrow> unlink_it st
       | Some v \<Rightarrow> do {
           let n = it_nbyte (heap_at st v);
           (r, st) \<leftarrow> item_alloc (item_slabid (length key) n st) key (it_dataflags (heap_at st v)) 0 n False st;
           new_it \<leftarrow> r;
           st \<leftarrow> item_copy new_it 0 v n st;
           (_, st) \<leftarrow> item_store new_it REQ_SET token st;
           item_delete v (item_remove new_it st)
         }
     } else if item_has_c_lease (heap_at st co) then
       Some (case it of None \<Rightarrow> st | Some p \<Rightarrow> upd_item p (\<lambda>i. i\<lparr>it_exptime := 0\<rparr>) st)
     else Some st)"

definition item_dcommit_key :: "bytes \<Rightarrow> u64 \<Rightarrow> bytes \<Rightarrow> mc \<Rightarrow> mc option" where
  "item_dcommit_key sid token key st = do {
     (it, st) \<leftarrow> item_get key st;
     (lease, st) \<leftarrow> item_get_lease key st;
     st \<leftarrow> item_delete_opt lease st;
     (colease, st) \<leftarrow> item_get_co_lease key st;
     st \<leftarrow> (case colease of
         None \<Rightarrow> Some st
       | Some co \<Rightarrow> do {
           st \<leftarrow> item_dcommit_value it co key token st;
           st \<leftarrow> item_remove_sid_colease colease key sid token st;
           Some (item_remove co st)
         });
     Some (item_remove_opt it st)
   }"

definition item_dcommit :: "bytes \<Rightarrow> u64 \<Rightarrow> mc \<Rightarrow> (item_co_result \<times> mc) option" where
  "item_dcommit sid token st = do {
     (r, st) \<leftarrow> item_get sid st;
     case r of
       None \<Rightarrow> Some (CO_NOT_FOUND, st)
     | Some p \<Rightarrow>
         if it_sess_status (heap_at st p) = ABORT then do { st \<leftarrow> item_end_session p st; Some (CO_ABORT, st) }
         else do {
           keys \<leftarrow> item_keys p st;
           st \<leftarrow> foldm (item_dcommit_key sid token) keys st;
           st \<leftarrow> item_delete p st;
           Some (CO_OK, st)
         }
   }"

end
