(* ===== verification/MC_Proto.thy ===== *)
theory MC_Proto
  imports MC_Ascii MC_CO
begin

text \<open>
  The text protocol, second part of \<open>mc_ascii.c\<close>: one definition per command, \<open>asc_dispatch\<close>,
  \<open>asc_parse\<close> and \<open>asc_complete_nread\<close>.

  A command takes the tokens, the connection and the server. The result is \<open>None\<close> where the code reads
  a token that was never set, parses a number at a null pointer, reads an uninitialised variable,
  dereferences null or writes outside a buffer. Log messages and counters are left out.
\<close>

definition DEFAULT_TOKEN :: int where "DEFAULT_TOKEN = 0"

type_synonym 'a handled = "('a \<times> srv) option"

subsection \<open>The checks that commands begin with\<close>

text \<open>Each check writes the error response and returns early, or goes on with the value it read.\<close>

definition need_tokens :: "token list \<Rightarrow> conn \<Rightarrow> srv \<Rightarrow> conn handled \<Rightarrow> conn handled" where
  "need_tokens ts c s k =
    (if \<not> asc_ntoken_valid c (length ts) then Some (asc_write_client_error c, s) else k)"

definition need_num ::
    "(bytes \<Rightarrow> 'a option) \<Rightarrow> token list \<Rightarrow> nat \<Rightarrow> conn \<Rightarrow> srv \<Rightarrow> ('a \<Rightarrow> conn handled) \<Rightarrow> conn handled" where
  "need_num parse ts i c s k =
    (case tok_str ts i of
       None \<Rightarrow> None
     | Some str \<Rightarrow> (case parse str of None \<Rightarrow> Some (asc_write_client_error c, s) | Some n \<Rightarrow> k n))"

definition need_num_if ::
    "bool \<Rightarrow> 'a \<Rightarrow> (bytes \<Rightarrow> 'a option) \<Rightarrow> token list \<Rightarrow> nat \<Rightarrow> conn \<Rightarrow> srv \<Rightarrow> ('a \<Rightarrow> conn handled) \<Rightarrow> conn handled" where
  "need_num_if b d parse ts i c s k = (if b then need_num parse ts i c s k else k d)"

definition need_key ::
    "nat \<Rightarrow> token list \<Rightarrow> nat \<Rightarrow> conn \<Rightarrow> srv \<Rightarrow> (bytes \<Rightarrow> conn handled) \<Rightarrow> conn handled" where
  "need_key len_max ts i c s k =
    (case tok_at ts i of
       None \<Rightarrow> None
     | Some t \<Rightarrow> if tok_len t > len_max then Some (asc_write_client_error c, s) else k (tok_text t))"

definition need_config :: "token list \<Rightarrow> conn \<Rightarrow> srv \<Rightarrow> (conn \<Rightarrow> conn handled) \<Rightarrow> conn handled" where
  "need_config ts c s k =
    need_num mc_strtol ts 1 c s (\<lambda>client.
      let (server_config, c) = asc_check_config client c s
      in if server_config = -1 then Some (c, s) else k c)"

definition need_slabid :: "bytes \<Rightarrow> u32 \<Rightarrow> conn \<Rightarrow> srv \<Rightarrow> (nat \<Rightarrow> conn handled) \<Rightarrow> conn handled" where
  "need_slabid key vlen c s k =
    (let cid = item_slabid (length key) (unat vlen) (sv_mc s)
     in if cid = SLABCLASS_INVALID_ID then Some (asc_write_client_error c, s) else k cid)"

text \<open>Reading the data of an item, or swallowing it. \<open>ritem\<close> is counted from \<open>item_data\<close>; the number of
  bytes to swallow is an \<open>int\<close>.\<close>

definition asc_swallow :: "u32 \<Rightarrow> conn \<Rightarrow> conn" where
  "asc_swallow vlen c = c\<lparr>c_write_and_go := CONN_SWALLOW, c_sbytes := to_int32 (uint vlen + int CRLF_LEN)\<rparr>"

definition asc_await_data :: "ptr \<Rightarrow> srv \<Rightarrow> conn \<Rightarrow> conn" where
  "asc_await_data p s c = conn_set_state CONN_NREAD
     (c\<lparr>c_item := Some p, c_ritem := 0, c_rlbytes := it_nbyte (heap_at (sv_mc s) p) + CRLF_LEN\<rparr>)"

definition asc_alloc_failed :: "bool \<Rightarrow> bytes \<Rightarrow> u32 \<Rightarrow> conn \<Rightarrow> srv \<Rightarrow> conn handled" where
  "asc_alloc_failed delete key vlen c s = do {
     let c = asc_swallow vlen (asc_write_server_error c);
     if delete then do {
       (r, st) \<leftarrow> item_get key (sv_mc s);
       st \<leftarrow> item_delete_opt r st;
       Some (c, s\<lparr>sv_mc := st\<rparr>)
     } else Some (c, s)
   }"

text \<open>The length \<open>ntid\<close> of the transaction or session kept in the connection is one byte.\<close>

definition asc_keep_tid :: "bytes \<Rightarrow> conn \<Rightarrow> conn" where
  "asc_keep_tid tid c = c\<lparr>c_tid := take (length tid mod 256) tid\<rparr>"

definition drop_status :: "(rstatus \<times> conn \<times> srv) option \<Rightarrow> conn handled" where
  "drop_status = map_option snd"

subsection \<open>Configuration and reads\<close>

definition asc_process_update_configuration :: "token list \<Rightarrow> conn \<Rightarrow> srv \<Rightarrow> conn handled" where
  "asc_process_update_configuration ts c s =
    (let c = asc_set_noreply_maybe ts c in
     need_tokens ts c s (
     need_num mc_strtol ts 1 c s (\<lambda>n.
       Some (asc_write_ok c, s\<lparr>sv_configuration_number := n\<rparr>))))"

text \<open>One turn of the inner loop of \<open>asc_process_read\<close>: the response was built or the key was not found,
  the loop is left by \<open>break\<close>, or the key is too long.\<close>

datatype read_turn = READ_NEXT | READ_BREAK | READ_TOO_LONG

definition asc_read_grow :: "nat \<Rightarrow> conn \<Rightarrow> srv \<Rightarrow> bool \<times> conn \<times> srv" where
  "asc_read_grow n c s =
    (if n \<ge> length (c_ilist c) then
       (let (ok, st) = mc_alloc_next (sv_mc s) in
        (ok, if ok then c\<lparr>c_ilist := c_ilist c @ replicate (length (c_ilist c)) None\<rparr> else c, s\<lparr>sv_mc := st\<rparr>))
     else (True, c, s))"

definition asc_read_key ::
    "bytes \<Rightarrow> nat \<Rightarrow> bool \<Rightarrow> conn \<Rightarrow> srv \<Rightarrow> (read_turn \<times> nat \<times> conn \<times> srv) option" where
  "asc_read_key key n return_cas c s =
    (if length key > KEY_MAX_LEN then Some (READ_TOO_LONG, n, c, s)
     else do {
       (r, st) \<leftarrow> item_get key (sv_mc s);
       let s = s\<lparr>sv_mc := st\<rparr>;
       case r of
         None \<Rightarrow> Some (READ_NEXT, n, c, s)
       | Some p \<Rightarrow> do {
           let (ok, c, s) = asc_read_grow n c s;
           if \<not> ok then Some (READ_BREAK, n, c, s\<lparr>sv_mc := item_remove p (sv_mc s)\<rparr>)
           else do {
             (status, c, s) \<leftarrow> asc_respond_get n p return_cas c s;
             if status \<noteq> MC_OK then Some (READ_BREAK, n, c, s\<lparr>sv_mc := item_remove p (sv_mc s)\<rparr>)
             else do {
               st \<leftarrow> item_touch p (sv_mc s);
               c \<leftarrow> conn_keep_item n (Some p) c;
               Some (READ_NEXT, n + 1, c, s\<lparr>sv_mc := st\<rparr>)
             }
           }
         }
     })"

text \<open>The two nested loops; the array of tokens is the list from \<open>key_token\<close> on. After a \<open>break\<close> the key is
  tokenized and read again, so that the loop does not end while memory cannot be had. The first result is
  false if a key was too long.\<close>

partial_function (option) asc_read_keys ::
    "token list \<Rightarrow> nat \<Rightarrow> bool \<Rightarrow> conn \<Rightarrow> srv \<Rightarrow> (bool \<times> nat \<times> conn \<times> srv) option" where
  "asc_read_keys ts n return_cas c s =
    (case ts of
       [] \<Rightarrow> None
     | t # rest \<Rightarrow>
         (if tok_len t \<noteq> 0 then
            Option.bind (asc_read_key (tok_text t) n return_cas c s) (\<lambda>(turn, n, c, s).
              case turn of
                READ_NEXT \<Rightarrow> asc_read_keys rest n return_cas c s
              | READ_BREAK \<Rightarrow> asc_read_keys
                  (asc_tokenize (case tok_val t of None \<Rightarrow> [] | Some v \<Rightarrow> v) TOKEN_MAX) n return_cas c s
              | READ_TOO_LONG \<Rightarrow> Some (False, n, c, s))
          else (case tok_val t of
              None \<Rightarrow> Some (True, n, c, s)
            | Some v \<Rightarrow> asc_read_keys (asc_tokenize v TOKEN_MAX) n return_cas c s)))"

definition asc_process_read :: "token list \<Rightarrow> conn \<Rightarrow> srv \<Rightarrow> conn handled" where
  "asc_process_read ts c s =
    need_tokens ts c s (
    need_config ts c s (\<lambda>c. do {
      (done_all, n, c, s) \<leftarrow> asc_read_keys (drop 2 ts) 0 (c_req_type c = REQ_GETS) c s;
      if \<not> done_all then Some (asc_write_client_error c, s)
      else asc_end (conn_set_slist n (conn_set_ilist n c)) s
    }))"

subsection \<open>Storage commands\<close>

definition asc_process_update :: "token list \<Rightarrow> conn \<Rightarrow> srv \<Rightarrow> conn handled" where
  "asc_process_update ts c s =
    (let c = asc_set_noreply_maybe ts c; type = c_req_type c in
     need_tokens ts c s (
     need_num mc_strtol ts 1 c s (\<lambda>client.
     need_num mc_strtol ts 2 c s (\<lambda>next_fragment_cfg_id.
     need_key KEY_MAX_LEN ts 3 c s (\<lambda>key.
     need_num mc_strtoul ts 4 c s (\<lambda>flags.
     need_num mc_strtol ts 5 c s (\<lambda>exptime.
     need_num mc_strtoul ts 6 c s (\<lambda>vlen.
     need_num_if (type = REQ_IQSET) 0 mc_strtoll ts 7 c s (\<lambda>lease_token.
       let (server_config, c) = asc_check_config client c s in
       if server_config = -1 then Some (asc_swallow vlen c, s)
       else
         need_slabid key vlen c s (\<lambda>cid.
         need_num_if (type = REQ_CAS) 0 mc_strtoull ts 6 c s (\<lambda>req_cas_id. do {
           let server_config = (if next_fragment_cfg_id \<noteq> -1 then next_fragment_cfg_id else server_config);
           (r, st) \<leftarrow> item_alloc_config cid key flags (time_reltime (st_time (sv_mc s)) exptime) (unat vlen)
              False server_config (sv_mc s);
           let s = s\<lparr>sv_mc := st\<rparr>;
           case r of
             None \<Rightarrow> asc_alloc_failed (type = REQ_IQSET \<or> type = REQ_SET) key vlen c s
           | Some p \<Rightarrow> do {
               let s = s\<lparr>sv_mc := upd_item p (item_set_cas req_cas_id) (sv_mc s)\<rparr>;
               let c = (if type = REQ_IQSET then c\<lparr>c_lease_token := of_int lease_token\<rparr> else c);
               Some (asc_await_data p s c, s)
             }
         })))))))))))"

definition asc_process_arithmetic :: "token list \<Rightarrow> conn \<Rightarrow> srv \<Rightarrow> conn handled" where
  "asc_process_arithmetic ts c s =
    (let c = asc_set_noreply_maybe ts c in
     need_tokens ts c s (
     need_config ts c s (\<lambda>c.
     need_key KEY_MAX_LEN ts 2 c s (\<lambda>key.
     need_num mc_strtoull ts 3 c s (\<lambda>delta. do {
       (res, temp, st) \<leftarrow> item_add_delta key (c_req_type c = REQ_INCR) delta (sv_mc s);
       Some ((case res of
          DELTA_OK \<Rightarrow> asc_write_string temp c
        | DELTA_NON_NUMERIC \<Rightarrow> asc_write_client_error c
        | DELTA_EOM \<Rightarrow> asc_write_server_error c
        | DELTA_NOT_FOUND \<Rightarrow> asc_write_not_found c), s\<lparr>sv_mc := st\<rparr>)
     })))))"

text \<open>The loops of \<open>asc_process_delete\<close>; \<open>res\<close> is \<open>None\<close> as long as the variable is not set.\<close>

definition tok_weight :: "token \<Rightarrow> nat" where
  "tok_weight t = (if tok_len t \<noteq> 0 then 0 else case tok_val t of None \<Rightarrow> 0 | Some v \<Rightarrow> Suc (length v))"

lemma asc_tokenize_loop_weight:
  "sum_list (map tok_weight (asc_tokenize_loop n s k e)) \<le> Suc (length e)"
  "sum_list (map tok_weight (asc_tokenize_loop (Suc n) s k e)) \<le> length e"
proof -
  show first: "sum_list (map tok_weight (asc_tokenize_loop n s k e)) \<le> Suc (length e)" for n s k e
    by (induction n s k e rule: asc_tokenize_loop.induct) (auto simp: tok_weight_def)
  show "sum_list (map tok_weight (asc_tokenize_loop (Suc n) s k e)) \<le> length e"
    by (induction e arbitrary: s k)
      (auto simp: tok_weight_def intro: order_trans [OF first] le_SucI)
qed

lemma asc_tokenize_weight: "sum_list (map tok_weight (asc_tokenize v TOKEN_MAX)) \<le> length v"
proof -
  have m: "TOKEN_MAX - 1 = Suc 14"
    by (simp add: TOKEN_MAX_def)
  show ?thesis
    unfolding asc_tokenize_def m by (rule asc_tokenize_loop_weight)
qed

function asc_delete_keys ::
    "token list \<Rightarrow> bool \<Rightarrow> item_store_result option \<Rightarrow> srv \<Rightarrow> (bool \<times> item_store_result option \<times> srv) option" where
  "asc_delete_keys [] delete_lease res s = None"
| "asc_delete_keys (t # ts) delete_lease res s =
    (if tok_len t \<noteq> 0 then
       if tok_len t > KEY_MAX_LEN then Some (False, res, s)
       else (case item_get_and_delete (tok_text t) delete_lease (sv_mc s) of
           None \<Rightarrow> None
         | Some (r, st) \<Rightarrow> asc_delete_keys ts delete_lease (Some r) (s\<lparr>sv_mc := st\<rparr>))
     else (case tok_val t of
         None \<Rightarrow> Some (True, res, s)
       | Some v \<Rightarrow> asc_delete_keys (asc_tokenize v TOKEN_MAX) delete_lease res s))"
  by pat_completeness auto
termination
proof (relation "measures [\<lambda>(ts, d, r, s). sum_list (map tok_weight ts), \<lambda>(ts, d, r, s). length ts]")
  show "wf (measures [\<lambda>(ts, d :: bool, r :: item_store_result option, s :: srv). sum_list (map tok_weight ts),
      \<lambda>(ts, d, r, s). length ts])"
    by simp
qed (auto simp: tok_weight_def less_Suc_eq_le intro: order_trans [OF asc_tokenize_weight])

definition asc_process_delete :: "token list \<Rightarrow> conn \<Rightarrow> srv \<Rightarrow> conn handled" where
  "asc_process_delete ts c s =
    (let c = asc_set_noreply_maybe ts c in
     need_tokens ts c s (
     need_config ts c s (\<lambda>c.
     need_num mc_strtol ts 2 c s (\<lambda>delete_lease. do {
       (done_all, res, s) \<leftarrow> asc_delete_keys (drop 3 ts) (delete_lease = 1) None s;
       if \<not> done_all then Some (asc_write_client_error c, s)
       else do {
         res \<leftarrow> res;
         Some (if res = EXISTS \<or> res = STORED then asc_write_deleted c
               else if res = NOT_FOUND then asc_write_not_found c else asc_write_server_error c, s)
       }
     }))))"

subsection \<open>Lease commands\<close>

definition asc_process_unlease :: "token list \<Rightarrow> conn \<Rightarrow> srv \<Rightarrow> conn handled" where
  "asc_process_unlease ts c s =
    (let c = asc_set_noreply_maybe ts c in
     need_tokens ts c s (
     need_config ts c s (\<lambda>c.
     need_key KEY_MAX_LEN ts 2 c s (\<lambda>key.
     need_num mc_strtoll ts 3 c s (\<lambda>lease_token. do {
       st \<leftarrow> item_get_and_unlease key (of_int lease_token) (sv_mc s);
       Some (asc_write_deleted c, s\<lparr>sv_mc := st\<rparr>)
     })))))"

definition asc_process_qareg :: "token list \<Rightarrow> conn \<Rightarrow> srv \<Rightarrow> conn handled" where
  "asc_process_qareg ts c s =
    (let c = asc_set_noreply_maybe ts c in
     need_tokens ts c s (
     need_config ts c s (\<lambda>c.
     need_key KEY_MAX_LEN ts 2 c s (\<lambda>key.
     need_key TID_MAX_LEN ts 3 c s (\<lambda>tid. do {
       st \<leftarrow> item_quarantine_and_register tid key (c_lease_token c) (sv_mc s);
       Some (asc_write_q_inv_leasehold 1 c, s\<lparr>sv_mc := st\<rparr>)
     })))))"

definition asc_process_dar :: "token list \<Rightarrow> conn \<Rightarrow> srv \<Rightarrow> conn handled" where
  "asc_process_dar ts c s =
    (let c = asc_set_noreply_maybe ts c in
     need_tokens ts c s (
     need_config ts c s (\<lambda>c.
     need_key TID_MAX_LEN ts 2 c s (\<lambda>tid. do {
       (found, st) \<leftarrow> item_delete_and_release tid (c_lease_token c) (sv_mc s);
       Some (if found then asc_write_deleted c else asc_write_invalid_deleted c, s\<lparr>sv_mc := st\<rparr>)
     }))))"

definition asc_process_qaread :: "token list \<Rightarrow> conn \<Rightarrow> srv \<Rightarrow> conn handled" where
  "asc_process_qaread ts c s =
    (let c = asc_set_noreply_maybe ts c in
     need_tokens ts c s (
     need_config ts c s (\<lambda>c.
     need_key KEY_MAX_LEN ts 2 c s (\<lambda>key.
     need_num mc_strtol ts 3 c s (\<lambda>read_value.
     need_num_if (length ts > 4) DEFAULT_TOKEN mc_strtoll ts 4 c s (\<lambda>lease_token. do {
       tid \<leftarrow> (if length ts > 5 then tok_bytes ts 5 else Some []);
       (r, ntok, p, st) \<leftarrow> item_quarantine_and_read tid key (of_int lease_token) 0 (c_req_type c)
          (c_lease_token c) (sv_mc s);
       (exc, c, s) \<leftarrow> asc_write_qaread (if read_value = 0 then None else r) key ntok p c (s\<lparr>sv_mc := st\<rparr>);
       Some (c, if exc \<noteq> MC_OK then s\<lparr>sv_mc := item_remove_opt r (sv_mc s)\<rparr> else s)
     }))))))"

text \<open>The end of the commands that read a value: the item is allocated, and removed under its key if that
  fails.\<close>

definition asc_alloc_value :: "nat \<Rightarrow> bytes \<Rightarrow> u32 \<Rightarrow> int \<Rightarrow> u32 \<Rightarrow> int \<Rightarrow> (conn \<Rightarrow> conn) \<Rightarrow> conn \<Rightarrow> srv \<Rightarrow> conn handled" where
  "asc_alloc_value cid key flags exptime vlen config note_conn c s = do {
     (r, st) \<leftarrow> item_alloc_config cid key flags (time_reltime (st_time (sv_mc s)) exptime) (unat vlen) False config (sv_mc s);
     let s = s\<lparr>sv_mc := st\<rparr>;
     case r of
       None \<Rightarrow> asc_alloc_failed True key vlen c s
     | Some p \<Rightarrow> Some (asc_await_data p s (note_conn c), s)
   }"

definition asc_process_sar :: "token list \<Rightarrow> conn \<Rightarrow> srv \<Rightarrow> conn handled" where
  "asc_process_sar ts c s =
    (let c = asc_set_noreply_maybe ts c in
     need_tokens ts c s (
     need_config ts c s (\<lambda>c.
     need_key KEY_MAX_LEN ts 2 c s (\<lambda>key.
     need_num mc_strtoul ts 3 c s (\<lambda>flags.
     need_num mc_strtol ts 4 c s (\<lambda>exptime.
     need_num mc_strtoul ts 5 c s (\<lambda>vlen.
     need_num mc_strtoll ts 6 c s (\<lambda>lease_token.
     need_slabid key vlen c s (\<lambda>cid.
       asc_alloc_value cid key flags exptime vlen (-1) (\<lambda>c. c\<lparr>c_lease_token := of_int lease_token\<rparr>) c s)))))))))"

definition asc_respond_iq :: "item_iq_result \<Rightarrow> u64 \<Rightarrow> u8 \<Rightarrow> conn \<Rightarrow> srv \<Rightarrow> conn handled" where
  "asc_respond_iq res ntok pending c s =
    (case res of
       IQ_LEASE \<Rightarrow> drop_status (asc_write_ok_pending pending ntok c s)
     | IQ_LEASE_NO_VALUE \<Rightarrow> drop_status (asc_write_ok_novalue_pending pending ntok c s)
     | IQ_CLIENT_ERROR \<Rightarrow> Some (asc_write_client_error c, s)
     | IQ_SERVER_ERROR \<Rightarrow> Some (asc_write_server_error c, s)
     | IQ_ABORT \<Rightarrow> Some (asc_write_abort c, s)
     | _ \<Rightarrow> Some (c, s))"

text \<open>The token of the delta is taken for the transaction, too.\<close>

definition asc_process_iqincr_iqdecr :: "token list \<Rightarrow> conn \<Rightarrow> srv \<Rightarrow> conn handled" where
  "asc_process_iqincr_iqdecr ts c s =
    (let c = asc_set_noreply_maybe ts c in
     need_tokens ts c s (
     need_config ts c s (\<lambda>c.
     need_key KEY_MAX_LEN ts 2 c s (\<lambda>key.
     need_num mc_strtoull ts 3 c s (\<lambda>delta. do {
       tid \<leftarrow> (if length ts > 4 then tok_bytes ts 3 else Some []);
       (res, ntok, pending, st) \<leftarrow> item_iqincr_iqdecr (c_req_type c) key delta tid 0 0 (c_lease_token c) (sv_mc s);
       asc_respond_iq res ntok pending c (s\<lparr>sv_mc := st\<rparr>)
     })))))"

definition asc_alloc_part :: "bytes \<Rightarrow> u32 \<Rightarrow> bytes \<Rightarrow> conn \<Rightarrow> srv \<Rightarrow> conn handled" where
  "asc_alloc_part key vlen tid c s = do {
     (r, st) \<leftarrow> item_alloc (item_slabid (length key) (unat vlen) (sv_mc s)) key 0 0 (unat vlen) False (sv_mc s);
     let s = s\<lparr>sv_mc := st\<rparr>;
     case r of
       None \<Rightarrow> asc_alloc_failed False key vlen c s
     | Some p \<Rightarrow> Some (asc_await_data p s (asc_keep_tid tid c), s)
   }"

definition asc_process_iqappend_iqprepend :: "token list \<Rightarrow> conn \<Rightarrow> srv \<Rightarrow> conn handled" where
  "asc_process_iqappend_iqprepend ts c s =
    (let c = asc_set_noreply_maybe ts c in
     need_tokens ts c s (
     need_num mc_strtol ts 1 c s (\<lambda>client.
     need_key KEY_MAX_LEN ts 2 c s (\<lambda>key.
     need_num mc_strtoul ts 3 c s (\<lambda>vlen. do {
       tid \<leftarrow> tok_bytes ts 4;
       let (server_config, c) = asc_check_config client c s;
       if server_config = -1 then Some (asc_swallow vlen c, s) else asc_alloc_part key vlen tid c s
     })))))"

text \<open>The variable \<open>val\<close> is not initialised; it keeps its contents, here 0, unless a version exists.\<close>

definition asc_process_oqincr_oqdecr :: "token list \<Rightarrow> conn \<Rightarrow> srv \<Rightarrow> conn handled" where
  "asc_process_oqincr_oqdecr ts c s =
    (let c = asc_set_noreply_maybe ts c in
     need_tokens ts c s (
     need_config ts c s (\<lambda>c. do {
       sid \<leftarrow> tok_bytes ts 2;
       need_key KEY_MAX_LEN ts 3 c s (\<lambda>key.
       need_num mc_strtoull ts 4 c s (\<lambda>delta. do {
         (res, val, st) \<leftarrow> item_oqincr_oqdecr (c_req_type c) key delta sid 0 (c_lease_token c) (sv_mc s);
         let s = s\<lparr>sv_mc := st\<rparr>;
         (case res of
            CO_OK \<Rightarrow> drop_status (asc_write_ok_val val c s)
          | CO_NOVALUE \<Rightarrow> drop_status (asc_write_novalue c s)
          | CO_ABORT \<Rightarrow> Some (asc_write_abort c, s)
          | _ \<Rightarrow> Some (c, s))
       }))
     })))"

definition asc_process_oqappend_oqprepend :: "token list \<Rightarrow> conn \<Rightarrow> srv \<Rightarrow> conn handled" where
  "asc_process_oqappend_oqprepend ts c s =
    (let c = asc_set_noreply_maybe ts c in
     need_tokens ts c s (do {
       tid \<leftarrow> tok_bytes ts 1;
       need_key KEY_MAX_LEN ts 2 c s (\<lambda>key.
       need_num mc_strtoul ts 3 c s (\<lambda>vlen. asc_alloc_part key vlen tid c s))
     }))"

definition asc_process_commit :: "token list \<Rightarrow> conn \<Rightarrow> srv \<Rightarrow> conn handled" where
  "asc_process_commit ts c s =
    (let c = asc_set_noreply_maybe ts c in
     need_tokens ts c s (
     need_num mc_strtol ts 1 c s (\<lambda>client.
     need_num mc_strtol ts 2 c s (\<lambda>frag_configuration_number.
     need_key TID_MAX_LEN ts 3 c s (\<lambda>tid.
     need_num mc_strtol ts 4 c s (\<lambda>pending.
       let (server_cfg_id, c) = asc_check_config client c s in
       if server_cfg_id = -1 then Some (c, s)
       else do {
         let server_cfg_id = (if frag_configuration_number \<noteq> -1 then frag_configuration_number else server_cfg_id);
         (exc, st) \<leftarrow> item_commit tid pending server_cfg_id (c_lease_token c) (sv_mc s);
         Some (if exc = IQ_OK then asc_write_ok c else if exc = IQ_NOT_FOUND then asc_write_not_found c
               else asc_write_server_error c, s\<lparr>sv_mc := st\<rparr>)
       }))))))"

definition asc_process_release :: "token list \<Rightarrow> conn \<Rightarrow> srv \<Rightarrow> conn handled" where
  "asc_process_release ts c s =
    (let c = asc_set_noreply_maybe ts c in
     need_tokens ts c s (
     need_key TID_MAX_LEN ts 1 c s (\<lambda>tid. do {
       (exc, st) \<leftarrow> item_release tid (c_lease_token c) (sv_mc s);
       Some (if exc = IQ_OK then asc_write_ok c else if exc = IQ_NOT_FOUND then asc_write_not_found c
             else c, s\<lparr>sv_mc := st\<rparr>)
     })))"

text \<open>\<open>asc_process_check\<close> collects the keys that are not cached in a buffer of 1024 bytes.\<close>

fun asc_check_loop :: "nat \<Rightarrow> nat \<Rightarrow> token list \<Rightarrow> bytes \<Rightarrow> mc \<Rightarrow> (bytes \<times> mc) option" where
  "asc_check_loop 0 i ts buf st = Some (buf, st)"
| "asc_check_loop (Suc n) i ts buf st =
    Option.bind (tok_bytes ts (1 + i)) (\<lambda>key.
    Option.bind (item_get key st) (\<lambda>(r, st).
      case r of
        None \<Rightarrow> if length buf + length key + 1 > 1024 then None else asc_check_loop n (i + 1) ts (buf @ key @ '' '') st
      | Some p \<Rightarrow> asc_check_loop n (i + 1) ts buf (item_remove p st)))"

definition asc_process_check :: "token list \<Rightarrow> conn \<Rightarrow> srv \<Rightarrow> conn handled" where
  "asc_process_check ts c s =
    need_tokens ts c s (
    need_num mc_strtoll ts 1 c s (\<lambda>num_keys. do {
      let (ok, st) = mc_alloc_next (sv_mc s);
      if \<not> ok then None
      else do {
        (buf, st) \<leftarrow> asc_check_loop (nat num_keys) 1 ts ''OK '' st;
        Some (asc_write_string buf c, s\<lparr>sv_mc := st\<rparr>)
      }
    }))"

fun asc_ftrans_loop :: "nat \<Rightarrow> nat \<Rightarrow> token list \<Rightarrow> bytes \<Rightarrow> u64 \<Rightarrow> mc \<Rightarrow> mc option" where
  "asc_ftrans_loop 0 i ts tid token st = Some st"
| "asc_ftrans_loop (Suc n) i ts tid token st =
    Option.bind (tok_bytes ts (3 + i)) (\<lambda>key.
    Option.bind (item_ftrans tid key token st) (asc_ftrans_loop n (i + 1) ts tid token))"

definition asc_process_ftrans :: "token list \<Rightarrow> conn \<Rightarrow> srv \<Rightarrow> conn handled" where
  "asc_process_ftrans ts c s =
    (let c = asc_set_noreply_maybe ts c in
     need_tokens ts c s (do {
       tid \<leftarrow> tok_bytes ts 1;
       need_num mc_strtoll ts 2 c s (\<lambda>num_keys. do {
         st \<leftarrow> asc_ftrans_loop (nat num_keys) 0 ts tid (c_lease_token c) (sv_mc s);
         Some (asc_write_ok c, s\<lparr>sv_mc := st\<rparr>)
       })
     }))"

subsection \<open>Commands of consistent sessions\<close>

definition asc_respond_co :: "item_co_result \<Rightarrow> conn \<Rightarrow> conn" where
  "asc_respond_co exc c =
    (case exc of CO_OK \<Rightarrow> asc_write_ok c | CO_INVALID \<Rightarrow> asc_write_invalid c | CO_NOT_FOUND \<Rightarrow> asc_write_not_found c
     | CO_ABORT \<Rightarrow> asc_write_abort c | _ \<Rightarrow> asc_write_server_error c)"

definition asc_process_dcommit :: "token list \<Rightarrow> conn \<Rightarrow> srv \<Rightarrow> conn handled" where
  "asc_process_dcommit ts c s =
    (let c = asc_set_noreply_maybe ts c in
     need_tokens ts c s (
     need_key KEY_MAX_LEN ts 1 c s (\<lambda>sid. do {
       (exc, st) \<leftarrow> item_dcommit sid (c_lease_token c) (sv_mc s);
       Some (asc_respond_co exc c, s\<lparr>sv_mc := st\<rparr>)
     })))"

definition asc_process_co_unlease :: "token list \<Rightarrow> conn \<Rightarrow> srv \<Rightarrow> conn handled" where
  "asc_process_co_unlease ts c s =
    (let c = asc_set_noreply_maybe ts c in
     need_tokens ts c s (
     need_key KEY_MAX_LEN ts 1 c s (\<lambda>sid. do {
       (exc, st) \<leftarrow> item_co_unlease sid (c_lease_token c) (sv_mc s);
       Some (if exc = CO_ABORT then asc_write_server_error c else asc_respond_co exc c, s\<lparr>sv_mc := st\<rparr>)
     })))"

definition asc_process_oqreg :: "token list \<Rightarrow> conn \<Rightarrow> srv \<Rightarrow> conn handled" where
  "asc_process_oqreg ts c s =
    (let c = asc_set_noreply_maybe ts c in
     need_tokens ts c s (
     need_key KEY_MAX_LEN ts 1 c s (\<lambda>sid.
     need_key TID_MAX_LEN ts 2 c s (\<lambda>key. do {
       (exc, st) \<leftarrow> item_oqreg sid key (c_lease_token c) (sv_mc s);
       Some (asc_respond_co exc c, s\<lparr>sv_mc := st\<rparr>)
     }))))"

definition asc_process_oqread :: "token list \<Rightarrow> conn \<Rightarrow> srv \<Rightarrow> conn handled" where
  "asc_process_oqread ts c s =
    (let c = asc_set_noreply_maybe ts c in
     need_tokens ts c s (do {
       sid \<leftarrow> tok_bytes ts 1;
       need_key KEY_MAX_LEN ts 2 c s (\<lambda>key. do {
         (exc, r, st) \<leftarrow> item_oqread sid key (c_lease_token c) (sv_mc s);
         let s = s\<lparr>sv_mc := st\<rparr>;
         (case exc of
            CO_OK \<Rightarrow> do {
              (status, c, s) \<leftarrow> asc_write_oqread r key c s;
              Some (c, if status \<noteq> MC_OK then s\<lparr>sv_mc := item_remove_opt r (sv_mc s)\<rparr> else s)
            }
          | CO_ABORT \<Rightarrow> Some (asc_write_abort c, s)
          | CO_INVALID \<Rightarrow> Some (asc_write_invalid c, s)
          | _ \<Rightarrow> Some (c, s))
       })
     }))"

text \<open>\<open>asc_process_oqwrite\<close> and \<open>asc_process_oqswap\<close> are the same text.\<close>

definition asc_process_oqwrite :: "token list \<Rightarrow> conn \<Rightarrow> srv \<Rightarrow> conn handled" where
  "asc_process_oqwrite ts c s =
    (let c = asc_set_noreply_maybe ts c in
     need_tokens ts c s (do {
       sid \<leftarrow> tok_bytes ts 1;
       need_key KEY_MAX_LEN ts 2 c s (\<lambda>key.
       need_num mc_strtoul ts 3 c s (\<lambda>flags.
       need_num mc_strtol ts 4 c s (\<lambda>exptime.
       need_num mc_strtoul ts 5 c s (\<lambda>vlen.
       need_slabid key vlen c s (\<lambda>cid.
         asc_alloc_value cid key flags exptime vlen (-1) (asc_keep_tid sid) c s)))))
     }))"

definition asc_process_oqswap :: "token list \<Rightarrow> conn \<Rightarrow> srv \<Rightarrow> conn handled" where
  "asc_process_oqswap ts c s = asc_process_oqwrite ts c s"

definition asc_process_swap :: "token list \<Rightarrow> conn \<Rightarrow> srv \<Rightarrow> conn handled" where
  "asc_process_swap ts c s =
    (let c = asc_set_noreply_maybe ts c in
     need_tokens ts c s (
     need_num mc_strtol ts 1 c s (\<lambda>client.
     need_num mc_strtol ts 2 c s (\<lambda>frag_configuration_number.
     need_key KEY_MAX_LEN ts 3 c s (\<lambda>key.
     need_num mc_strtoul ts 4 c s (\<lambda>flags.
     need_num mc_strtol ts 5 c s (\<lambda>exptime.
     need_num mc_strtoul ts 6 c s (\<lambda>vlen.
     need_num mc_strtoll ts 7 c s (\<lambda>lease_token.
       let (server_config, c) = asc_check_config client c s in
       if server_config = -1 then Some (asc_swallow vlen c, s)
       else need_slabid key vlen c s (\<lambda>cid.
         asc_alloc_value cid key flags exptime vlen
           (if frag_configuration_number \<noteq> -1 then frag_configuration_number else server_config)
           (\<lambda>c. c\<lparr>c_lease_token := of_int lease_token\<rparr>) c s))))))))))"

definition asc_process_validate :: "token list \<Rightarrow> conn \<Rightarrow> srv \<Rightarrow> conn handled" where
  "asc_process_validate ts c s =
    (let c = asc_set_noreply_maybe ts c in
     need_tokens ts c s (do {
       sid \<leftarrow> tok_bytes ts 1;
       (exc, st) \<leftarrow> item_validate sid (c_lease_token c) (sv_mc s);
       Some (case exc of CO_OK \<Rightarrow> asc_write_ok c | CO_ABORT \<Rightarrow> asc_write_abort c | _ \<Rightarrow> asc_write_invalid c,
             s\<lparr>sv_mc := st\<rparr>)
     }))"

definition asc_process_ciget :: "token list \<Rightarrow> conn \<Rightarrow> srv \<Rightarrow> conn handled" where
  "asc_process_ciget ts c s =
    (let c = asc_set_noreply_maybe ts c in
     need_tokens ts c s (do {
       sid \<leftarrow> tok_bytes ts 1;
       need_key KEY_MAX_LEN ts 2 c s (\<lambda>key.
       need_num mc_strtoll ts 3 c s (\<lambda>lease_token. do {
         (exc, r, ntok, st) \<leftarrow> item_ciget sid key (of_int lease_token) (c_lease_token c) 0 (sv_mc s);
         let s = s\<lparr>sv_mc := st\<rparr>;
         let rm = s\<lparr>sv_mc := item_remove_opt r (sv_mc s)\<rparr>;
         (case exc of
            CO_OK \<Rightarrow>
              if ntok \<noteq> 0 then (case r of None \<Rightarrow> None | Some p \<Rightarrow> drop_status (asc_write_ciget_lease p ntok c s))
              else (case r of None \<Rightarrow> drop_status (asc_write_novalue c s)
                    | Some p \<Rightarrow> drop_status (asc_write_ciget_value p c s))
          | CO_RETRY \<Rightarrow> Some (asc_write_retry c, rm)
          | CO_ABORT \<Rightarrow> Some (asc_write_abort c, rm)
          | CO_INVALID \<Rightarrow> Some (asc_write_invalid c, rm)
          | _ \<Rightarrow> Some (c, rm))
       }))
     }))"

definition asc_respond_iqget :: "item_iq_result \<Rightarrow> ptr option \<Rightarrow> u64 \<Rightarrow> conn \<Rightarrow> srv \<Rightarrow> conn handled" where
  "asc_respond_iqget exc r ntok c s =
    (if exc = IQ_VALUE then (case r of None \<Rightarrow> None | Some p \<Rightarrow> drop_status (asc_write_iqget_value p c s))
     else do {
       (c, s) \<leftarrow> (case exc of
            IQ_NO_VALUE \<Rightarrow> drop_status (asc_write_novalue c s)
          | IQ_MISS \<Rightarrow> drop_status (asc_write_iqget_lease r ntok c s)
          | IQ_LEASE \<Rightarrow> drop_status (asc_write_iqget_lease r ntok c s)
          | IQ_SERVER_ERROR \<Rightarrow> Some (asc_write_server_error c, s)
          | _ \<Rightarrow> Some (c, s));
       Some (c, s\<lparr>sv_mc := item_remove_opt r (sv_mc s)\<rparr>)
     })"

definition asc_process_iqget :: "token list \<Rightarrow> conn \<Rightarrow> srv \<Rightarrow> conn handled" where
  "asc_process_iqget ts c s =
    (let c = asc_set_noreply_maybe ts c in
     need_tokens ts c s (
     need_config ts c s (\<lambda>c.
     need_key KEY_MAX_LEN ts 2 c s (\<lambda>key.
     need_num mc_strtoll ts 3 c s (\<lambda>lease_token.
     need_num mc_strtol ts 4 c s (\<lambda>foreground. do {
       (exc, r, ntok, st) \<leftarrow> item_iqget key (of_int lease_token) [] (c_lease_token c) 0 False (foreground = 1) (sv_mc s);
       asc_respond_iqget exc r ntok c (s\<lparr>sv_mc := st\<rparr>)
     }))))))"

definition asc_process_iset :: "token list \<Rightarrow> conn \<Rightarrow> srv \<Rightarrow> conn handled" where
  "asc_process_iset ts c s =
    (let c = asc_set_noreply_maybe ts c in
     need_tokens ts c s (
     need_config ts c s (\<lambda>c.
     need_key KEY_MAX_LEN ts 2 c s (\<lambda>key.
     need_num mc_strtoll ts 3 c s (\<lambda>lease_token. do {
       tid \<leftarrow> (if length ts > 4 then tok_bytes ts 4 else Some []);
       (exc, r, ntok, st) \<leftarrow> item_iqget key (of_int lease_token) tid (c_lease_token c) 0 True True (sv_mc s);
       asc_respond_iqget exc r ntok c (s\<lparr>sv_mc := st\<rparr>)
     })))))"

subsection \<open>Administration\<close>

definition stats_enabled :: "srv \<Rightarrow> bool" where
  "stats_enabled s \<longleftrightarrow> \<not> fst (sv_stats_agg_intvl s) < 0"

text \<open>Division and remainder of C, which round towards zero.\<close>

definition stats_set_interval :: "int \<Rightarrow> srv \<Rightarrow> srv" where
  "stats_set_interval interval s = s\<lparr>sv_stats_agg_intvl :=
     (sgn interval * (\<bar>interval\<bar> div 1000000), sgn interval * (\<bar>interval\<bar> mod 1000000))\<rparr>"

definition log_level_set :: "int \<Rightarrow> srv \<Rightarrow> srv" where
  "log_level_set level s = s\<lparr>sv_log_level := max 0 (min level 11)\<rparr>"

definition STATS_DEFAULT_INTVL :: int where "STATS_DEFAULT_INTVL = 100000"
definition KLOG_MIN_INTVL :: int where "KLOG_MIN_INTVL = 100"
definition KLOG_DEFAULT_SMP_RATE :: int where "KLOG_DEFAULT_SMP_RATE = 100"
definition ITEM_CACHEDUMP_MEMLIMIT :: nat where "ITEM_CACHEDUMP_MEMLIMIT = 2 * 1024 * 1024"

definition core_write_and_free :: "bytes option \<Rightarrow> conn \<Rightarrow> conn" where
  "core_write_and_free r c =
    (case r of
       Some text \<Rightarrow> (conn_set_state CONN_WRITE (c\<lparr>c_write_and_free := True, c_wcurr := text\<rparr>))\<lparr>c_write_and_go := CONN_NEW_CMD\<rparr>
     | None \<Rightarrow> asc_write_server_error c)"

text \<open>\<open>%lu\<close> of the sum of \<open>exptime\<close> and \<open>time_started()\<close>; the bound \<open>n\<close> on the lines is the limit, if it is
  not zero.\<close>

definition cache_dump_line :: "ptr \<Rightarrow> mc \<Rightarrow> bytes" where
  "cache_dump_line p st = (let it = heap_at st p in
     ''ITEM '' @ takeWhile (\<lambda>ch. ch \<noteq> CHR 0x00) (item_key it) @ '' ['' @ dec_int (to_int32 (int (it_nbyte it))) @ '' b; ''
     @ dec (nat ((uint (it_exptime it) + process_started (st_time st)) mod 2 ^ 64)) @ '' s]'' @ CRLF)"

fun cache_dump_loop :: "nat option \<Rightarrow> ptr list \<Rightarrow> bytes \<Rightarrow> mc \<Rightarrow> bytes" where
  "cache_dump_loop n [] buffer st = buffer"
| "cache_dump_loop n (p # q) buffer st =
    (if n = Some 0 then buffer
     else let line = cache_dump_line p st in
       if length buffer + length line + 5 > ITEM_CACHEDUMP_MEMLIMIT then buffer
       else cache_dump_loop (map_option (\<lambda>n. n - 1) n) q (buffer @ line) st)"

definition item_cache_dump :: "nat \<Rightarrow> nat \<Rightarrow> mc \<Rightarrow> bytes option \<times> mc" where
  "item_cache_dump cid limit st =
    (let (ok, st) = mc_alloc_next st in
     if \<not> ok then (None, st)
     else (Some (cache_dump_loop (if limit = 0 then None else Some limit) (st_item_lruq st cid) [] st @ ''END'' @ CRLF), st))"

definition asc_process_stats :: "token list \<Rightarrow> conn \<Rightarrow> srv \<Rightarrow> conn handled" where
  "asc_process_stats ts c s =
    (if \<not> stats_enabled s then Some (asc_write_server_error c, s)
     else need_tokens ts c s (
       if length ts = 2 then Some (core_write_and_free (sv_stats_text s []) c, s)
       else do {
         t \<leftarrow> tok_at ts 1;
         if tok_is t ''reset'' then Some (asc_write_server_error c, s)
         else if tok_is t ''settings'' then Some (core_write_and_free (sv_stats_text s ''settings'') c, s)
         else if tok_is t ''cachedump'' then
           (if length ts < 5 then Some (asc_write_client_error c, s)
            else
              need_num mc_strtoul ts 3 c s (\<lambda>cid.
              need_num mc_strtoul ts 4 c s (\<lambda>limit.
                if unat cid < SLABCLASS_MIN_ID \<or> unat cid > SLABCLASS_MAX_ID then Some (asc_write_client_error c, s)
                else let (buf, st) = item_cache_dump (unat cid) (unat limit) (sv_mc s)
                  in Some (core_write_and_free buf c, s\<lparr>sv_mc := st\<rparr>))))
         else if tok_is t ''slabs'' then Some (core_write_and_free (sv_stats_text s ''slabs'') c, s)
         else if tok_is t ''sizes'' then Some (core_write_and_free (sv_stats_text s ''sizes'') c, s)
         else Some (asc_write_client_error c, s)
       }))"

text \<open>The subcommands of \<open>config klog\<close>; a number at a null pointer is a fault.\<close>

definition asc_klog_run :: "token \<Rightarrow> conn \<Rightarrow> srv \<Rightarrow> conn \<times> srv" where
  "asc_klog_run t c s =
    (if tok_is t ''start'' then (asc_write_ok c, s\<lparr>sv_klog_running := True\<rparr>)
     else if tok_is t ''stop'' then (asc_write_ok c, s\<lparr>sv_klog_running := False\<rparr>)
     else (asc_write_client_error c, s))"

definition asc_klog_number ::
    "token list \<Rightarrow> (srv \<Rightarrow> srv) \<Rightarrow> (int \<Rightarrow> bool) \<Rightarrow> (int \<Rightarrow> srv \<Rightarrow> srv) \<Rightarrow> conn \<Rightarrow> srv \<Rightarrow> conn handled" where
  "asc_klog_number ts reset valid assign c s = do {
     t \<leftarrow> tok_at ts 4;
     if tok_is t ''reset'' then Some (asc_write_ok c, reset s)
     else need_num mc_strtol ts 4 c s (\<lambda>n.
       if \<not> valid n then Some (asc_write_client_error c, s) else Some (asc_write_ok c, assign n s))
   }"

definition asc_process_klog :: "token list \<Rightarrow> conn \<Rightarrow> srv \<Rightarrow> conn handled" where
  "asc_process_klog ts c s = need_tokens ts c s (do {
     t \<leftarrow> tok_at ts 3;
     if tok_is t ''run'' then
       (if \<not> sv_klog_name s then Some (asc_write_client_error c, s)
        else map_option (\<lambda>t. asc_klog_run t c s) (tok_at ts 4))
     else if tok_is t ''interval'' then
       asc_klog_number ts (stats_set_interval STATS_DEFAULT_INTVL) (\<lambda>n. n \<ge> KLOG_MIN_INTVL) stats_set_interval c s
     else if tok_is t ''sampling'' then
       asc_klog_number ts (\<lambda>s. s\<lparr>sv_klog_sampling_rate := KLOG_DEFAULT_SMP_RATE\<rparr>) (\<lambda>n. n > 0)
         (\<lambda>n s. s\<lparr>sv_klog_sampling_rate := n\<rparr>) c s
     else Some (asc_write_client_error c, s)
   })"

definition asc_process_verbosity :: "token list \<Rightarrow> conn \<Rightarrow> srv \<Rightarrow> conn handled" where
  "asc_process_verbosity ts c s =
    (let c = asc_set_noreply_maybe ts c in
     if length ts \<noteq> 3 \<and> length ts \<noteq> 4 then Some (asc_write_client_error c, s)
     else need_num mc_strtoul ts 2 c s (\<lambda>level. Some (asc_write_ok c, log_level_set (sint level) s)))"

definition asc_process_aggregate :: "token list \<Rightarrow> conn \<Rightarrow> srv \<Rightarrow> conn handled" where
  "asc_process_aggregate ts c s =
    (if length ts \<noteq> 4 then Some (asc_write_client_error c, s)
     else need_num mc_strtol ts 3 c s (\<lambda>interval.
       Some (asc_write_ok c, stats_set_interval
         (if interval > 0 then interval else if interval = 0 then STATS_DEFAULT_INTVL else - 1000000) s)))"

definition evict_opt_of :: "int \<Rightarrow> evict_flag set" where
  "evict_opt_of option = set (map snd (filter (\<lambda>(k, f). bit option k)
     [(0, EVICT_LRU), (1, EVICT_RS), (2, EVICT_AS), (3, EVICT_CS)]))"

definition asc_process_evict :: "token list \<Rightarrow> conn \<Rightarrow> srv \<Rightarrow> conn handled" where
  "asc_process_evict ts c s =
    (if length ts \<noteq> 4 then Some (asc_write_client_error c, s)
     else need_num mc_strtol ts 3 c s (\<lambda>option.
       if option \<ge> 0 \<and> option < 16
       then Some (asc_write_ok c, s\<lparr>sv_mc := (sv_mc s)\<lparr>st_settings := (st_settings (sv_mc s))\<lparr>set_evict_opt := evict_opt_of option\<rparr>\<rparr>\<rparr>)
       else Some (asc_write_client_error c, s)))"

definition asc_process_config :: "token list \<Rightarrow> conn \<Rightarrow> srv \<Rightarrow> conn handled" where
  "asc_process_config ts c s = do {
     t \<leftarrow> tok_at ts 2;
     if tok_is t ''aggregate'' then asc_process_aggregate ts c s
     else if tok_is t ''klog'' then asc_process_klog ts c s
     else if tok_is t ''evict'' then asc_process_evict ts c s
     else Some (c, s)
   }"

definition mc_set_oldest_live :: "u32 \<Rightarrow> mc \<Rightarrow> mc" where
  "mc_set_oldest_live t st = st\<lparr>st_settings := (st_settings st)\<lparr>set_oldest_live := t\<rparr>\<rparr>"

definition asc_flush :: "u32 \<Rightarrow> conn \<Rightarrow> srv \<Rightarrow> conn handled" where
  "asc_flush t c s = do {
     st \<leftarrow> item_flush_expired (mc_set_oldest_live t (sv_mc s));
     Some (asc_write_ok c, s\<lparr>sv_mc := st\<rparr>)
   }"

definition asc_process_flushall :: "token list \<Rightarrow> conn \<Rightarrow> srv \<Rightarrow> conn handled" where
  "asc_process_flushall ts c s =
    (let s = s\<lparr>sv_mc := (sv_mc s)\<lparr>st_time := time_update (sv_tv_sec s) (st_time (sv_mc s))\<rparr>\<rparr>;
         c = asc_set_noreply_maybe ts c
     in need_tokens ts c s (
       if length ts = fst ((if c_noreply c then snd else fst) (ntoken_bound REQ_FLUSHALL))
       then asc_flush (st_now (sv_mc s) - 1) c s
       else need_num mc_strtol ts 2 c s (\<lambda>exptime.
         asc_flush (if exptime > 0 then time_reltime (st_time (sv_mc s)) exptime - 1 else st_now (sv_mc s) - 1) c s)))"

subsection \<open>Dispatch\<close>

fun asc_process :: "req_type \<Rightarrow> token list \<Rightarrow> conn \<Rightarrow> srv \<Rightarrow> conn handled" where
  "asc_process REQ_UPDATECONFIG ts c s = asc_process_update_configuration ts c s"
| "asc_process REQ_GET ts c s = asc_process_read ts c s"
| "asc_process REQ_GETS ts c s = asc_process_read ts c s"
| "asc_process REQ_CIGET ts c s = asc_process_ciget ts c s"
| "asc_process REQ_IQGET ts c s = asc_process_iqget ts c s"
| "asc_process REQ_ISET ts c s = asc_process_iset ts c s"
| "asc_process REQ_IQSET ts c s = asc_process_update ts c s"
| "asc_process REQ_SET ts c s = asc_process_update ts c s"
| "asc_process REQ_ADD ts c s = asc_process_update ts c s"
| "asc_process REQ_REPLACE ts c s = asc_process_update ts c s"
| "asc_process REQ_APPEND ts c s = asc_process_update ts c s"
| "asc_process REQ_PREPEND ts c s = asc_process_update ts c s"
| "asc_process REQ_CAS ts c s = asc_process_update ts c s"
| "asc_process REQ_INCR ts c s = asc_process_arithmetic ts c s"
| "asc_process REQ_DECR ts c s = asc_process_arithmetic ts c s"
| "asc_process REQ_DELETE ts c s = asc_process_delete ts c s"
| "asc_process REQ_OQREAD ts c s = asc_process_oqread ts c s"
| "asc_process REQ_OQSWAP ts c s = asc_process_oqswap ts c s"
| "asc_process REQ_SWAP ts c s = asc_process_swap ts c s"
| "asc_process REQ_OQWRITE ts c s = asc_process_oqwrite ts c s"
| "asc_process REQ_VALIDATE ts c s = asc_process_validate ts c s"
| "asc_process REQ_STATS ts c s = asc_process_stats ts c s"
| "asc_process REQ_FLUSHALL ts c s = asc_process_flushall ts c s"
| "asc_process REQ_VERSION ts c s = Some (asc_write_version (sv_version s) c, s)"
| "asc_process REQ_QUIT ts c s = Some (conn_set_state CONN_CLOSE c, s)"
| "asc_process REQ_VERBOSITY ts c s = asc_process_verbosity ts c s"
| "asc_process REQ_CONFIG ts c s = asc_process_config ts c s"
| "asc_process REQ_UNLEASE ts c s = asc_process_unlease ts c s"
| "asc_process REQ_COUNLEASE ts c s = asc_process_co_unlease ts c s"
| "asc_process REQ_OQREG ts c s = asc_process_oqreg ts c s"
| "asc_process REQ_DCOMMIT ts c s = asc_process_dcommit ts c s"
| "asc_process REQ_QAREG ts c s = asc_process_qareg ts c s"
| "asc_process REQ_DAR ts c s = asc_process_dar ts c s"
| "asc_process REQ_QAREAD ts c s = asc_process_qaread ts c s"
| "asc_process REQ_SAR ts c s = asc_process_sar ts c s"
| "asc_process REQ_IQAPPEND ts c s = asc_process_iqappend_iqprepend ts c s"
| "asc_process REQ_IQPREPEND ts c s = asc_process_iqappend_iqprepend ts c s"
| "asc_process REQ_IQINCR ts c s = asc_process_iqincr_iqdecr ts c s"
| "asc_process REQ_IQDECR ts c s = asc_process_iqincr_iqdecr ts c s"
| "asc_process REQ_OQAPPEND ts c s = asc_process_oqappend_oqprepend ts c s"
| "asc_process REQ_OQPREPEND ts c s = asc_process_oqappend_oqprepend ts c s"
| "asc_process REQ_OQINCR ts c s = asc_process_oqincr_oqdecr ts c s"
| "asc_process REQ_OQDECR ts c s = asc_process_oqincr_oqdecr ts c s"
| "asc_process REQ_COMMIT ts c s = asc_process_commit ts c s"
| "asc_process REQ_RELEASE ts c s = asc_process_release ts c s"
| "asc_process REQ_CHECK ts c s = asc_process_check ts c s"
| "asc_process REQ_FTRANS ts c s = asc_process_ftrans ts c s"
| "asc_process REQ_GETPRIK ts c s = Some (asc_write_client_error c, s)"
| "asc_process REQ_UNKNOWN ts c s = Some (asc_write_client_error c, s)"

definition asc_dispatch :: "conn \<Rightarrow> srv \<Rightarrow> conn handled" where
  "asc_dispatch c s = do {
     (status, c, st) \<leftarrow> conn_add_msghdr (c\<lparr>c_msg_curr := 0, c_msg_used := 0, c_iov_used := 0\<rparr>) (sv_mc s);
     let s = s\<lparr>sv_mc := st\<rparr>;
     if status \<noteq> MC_OK then Some (asc_write_server_error c, s)
     else do {
       let ts = asc_tokenize (c_req c) TOKEN_MAX;
       let c = c\<lparr>c_req_type := asc_parse_type ts\<rparr>;
       asc_process (c_req_type c) ts c s
     }
   }"

text \<open>\<open>memchr\<close> gives the distance of the first byte, the string functions stop at a zero; skipping spaces
  past the end of the buffer is a fault.\<close>

fun memchr :: "char \<Rightarrow> bytes \<Rightarrow> nat option" where
  "memchr ch [] = None"
| "memchr ch (x # xs) = (if x = ch then Some 0 else map_option Suc (memchr ch xs))"

definition asc_oversized :: "bytes \<Rightarrow> bool option" where
  "asc_oversized rest =
    (let ptr = dropWhile (\<lambda>ch. ch = CHR '' '') rest in
     if ptr = [] then None
     else Some (length rest - length ptr > 100 \<or> (take 4 ptr \<noteq> ''get '' \<and> take 5 ptr \<noteq> ''gets '')))"

definition asc_parse :: "conn \<Rightarrow> srv \<Rightarrow> (rstatus \<times> conn \<times> srv) option" where
  "asc_parse c s =
    (let rest = drop (c_rcurr c) (c_rbuf c) in
     if c_rbytes c = 0 then Some (MC_EAGAIN, c, s)
     else case memchr (CHR 0x0A) (take (c_rbytes c) rest) of
       None \<Rightarrow>
         if c_rbytes c > 1024 then do {
           over \<leftarrow> asc_oversized rest;
           Some (if over then (MC_ERROR, conn_set_state CONN_CLOSE c, s) else (MC_EAGAIN, c, s))
         } else Some (MC_EAGAIN, c, s)
     | Some el \<Rightarrow> do {
         let cont = el + 1;
         let el = (if el > 1 \<and> rest ! (el - 1) = CHR 0x0D then el - 1 else el);
         let rbuf = (c_rbuf c)[c_rcurr c + el := CHR 0x00];
         let c = c\<lparr>c_rbuf := rbuf, c_req := takeWhile (\<lambda>ch. ch \<noteq> CHR 0x00) (drop (c_rcurr c) rbuf)\<rparr>;
         (c, s) \<leftarrow> asc_dispatch c s;
         Some (MC_OK, c\<lparr>c_rbytes := c_rbytes c - cont, c_rcurr := c_rcurr c + cont\<rparr>, s)
       })"

subsection \<open>Completion of the commands that read a value\<close>

fun asc_respond_stored :: "item_store_result \<Rightarrow> conn \<Rightarrow> conn" where
  "asc_respond_stored STORED c = asc_write_stored c"
| "asc_respond_stored EXISTS c = asc_write_exists c"
| "asc_respond_stored NOT_FOUND c = asc_write_not_found c"
| "asc_respond_stored NOT_STORED c = asc_write_not_stored c"
| "asc_respond_stored STORE_ERROR c = asc_write_server_error c"

definition asc_respond_oqstored :: "item_co_result \<Rightarrow> conn \<Rightarrow> conn" where
  "asc_respond_oqstored r c =
    (case r of CO_OK \<Rightarrow> asc_write_stored c | CO_ABORT \<Rightarrow> asc_write_abort c | _ \<Rightarrow> asc_write_invalid c)"

definition asc_complete_store :: "ptr \<Rightarrow> conn \<Rightarrow> srv \<Rightarrow> conn handled" where
  "asc_complete_store p c s =
    (let type = c_req_type c; token = c_lease_token c; sid = c_tid c; st = sv_mc s in
     if type = REQ_IQAPPEND \<or> type = REQ_IQPREPEND then do {
       (res, ntok, pending, st) \<leftarrow> item_iqappend_iqprepend type p sid 0 0 token st;
       asc_respond_iq res ntok pending c (s\<lparr>sv_mc := st\<rparr>)
     } else if type = REQ_OQAPPEND \<or> type = REQ_OQPREPEND then do {
       (r, st) \<leftarrow> item_oqappend_oqprepend type p sid token st;
       Some (case r of CO_OK \<Rightarrow> asc_write_ok c | CO_ABORT \<Rightarrow> asc_write_ok_novalue c | _ \<Rightarrow> c, s\<lparr>sv_mc := st\<rparr>)
     } else if type = REQ_SAR then do {
       (r, st) \<leftarrow> item_swap_and_release p token st;
       Some (case r of STORED \<Rightarrow> asc_write_stored c | NOT_STORED \<Rightarrow> asc_write_not_stored c
             | _ \<Rightarrow> asc_write_invalid_deleted c, s\<lparr>sv_mc := st\<rparr>)
     } else if type = REQ_OQSWAP then do {
       (r, st) \<leftarrow> item_oqswap sid p token st;
       Some (asc_respond_oqstored r c, s\<lparr>sv_mc := st\<rparr>)
     } else if type = REQ_SWAP then do {
       (r, st) \<leftarrow> item_swap p token st;
       Some (case r of STORED \<Rightarrow> asc_write_stored c | NOT_STORED \<Rightarrow> asc_write_abort c | _ \<Rightarrow> asc_write_invalid c,
             s\<lparr>sv_mc := st\<rparr>)
     } else if type = REQ_OQWRITE then do {
       (r, st) \<leftarrow> item_oqwrite sid p token st;
       Some (asc_respond_oqstored r c, s\<lparr>sv_mc := st\<rparr>)
     } else do {
       (r, st) \<leftarrow> item_store p type token st;
       Some (asc_respond_stored r c, s\<lparr>sv_mc := st\<rparr>)
     })"

definition asc_complete_nread :: "conn \<Rightarrow> srv \<Rightarrow> conn handled" where
  "asc_complete_nread c s = do {
     p \<leftarrow> c_item c;
     eol \<leftarrow> slice (item_data p (sv_mc s)) (it_nbyte (heap_at (sv_mc s) p)) 2;
     (c, s) \<leftarrow> (if eol \<noteq> CRLF then Some (asc_write_client_error c, s) else asc_complete_store p c s);
     Some (c\<lparr>c_item := None\<rparr>, s\<lparr>sv_mc := item_remove p (sv_mc s)\<rparr>)
   }"

end
