(* ===== verification/MC_Server.thy ===== *)
theory MC_Server
  imports MC_Proto
begin

text \<open>
  The request loop of \<open>mc_core.c\<close>: reading requests, the state machine \<open>core_drive_machine\<close>, accepting
  connections and handing them to the workers (\<open>thread_dispatch\<close> of \<open>mc_thread.c\<close>).

  The results of the system calls are inputs: one record \<open>os\<close> per turn of the loop holds what the
  successive calls of \<open>read\<close> (or \<open>recvfrom\<close>) return in that turn, what \<open>sendmsg\<close> returns and whether
  libevent could change the events of the connection. A \<open>read\<close> that returns more bytes than asked for,
  or none, has the model stop with \<open>None\<close>.
\<close>

record os =
  os_read :: "nat \<Rightarrow> bytes io"
  os_send :: "nat io"
  os_upd :: "bool \<times> bool"

datatype read_result = READ_DATA_RECEIVED | READ_NO_DATA_RECEIVED | READ_ERROR | READ_MEMORY_ERROR

subsection \<open>Between requests\<close>

definition core_reset_cmd_handler :: "conn \<Rightarrow> srv \<Rightarrow> conn \<times> srv" where
  "core_reset_cmd_handler c s =
    (let st = item_remove_opt (c_item c) (sv_mc s);
         (c, st) = conn_shrink (c\<lparr>c_req_type := REQ_UNKNOWN, c_req := [], c_item := None\<rparr>) st
     in (conn_set_state (if c_rbytes c > 0 then CONN_PARSE else CONN_WAIT) c, s\<lparr>sv_mc := st\<rparr>))"

definition core_parse :: "conn \<Rightarrow> srv \<Rightarrow> conn handled" where
  "core_parse c s = do {
     (status, c, s) \<leftarrow> asc_parse c s;
     Some (if status = MC_EAGAIN then conn_set_state CONN_WAIT c else c, s)
   }"

subsection \<open>Reading\<close>

definition read_into :: "bytes \<Rightarrow> nat \<Rightarrow> bytes \<Rightarrow> bytes option" where
  "read_into buf off bs = (if bs = [] then None else memcpy_at buf off bs)"

definition core_read_udp :: "os \<Rightarrow> conn \<Rightarrow> (read_result \<times> conn) option" where
  "core_read_udp os c =
    (case os_read os 0 of
       IoGot bs \<Rightarrow> do {
         buf \<leftarrow> read_into (c_rbuf c) 0 bs;
         let c = c\<lparr>c_rbuf := buf\<rparr>;
         if length bs > 8 then do {
           let c = c\<lparr>c_udp_rid := byte_nat (bs ! 0) * 256 + byte_nat (bs ! 1)\<rparr>;
           if byte_nat (bs ! 4) \<noteq> 0 \<or> byte_nat (bs ! 5) \<noteq> 1
           then Some (READ_NO_DATA_RECEIVED, asc_write_server_error c)
           else Some (READ_DATA_RECEIVED,
             c\<lparr>c_rbuf := drop 8 bs @ drop (length bs - 8) buf, c_rbytes := length bs - 8, c_rcurr := 0\<rparr>)
         } else Some (READ_NO_DATA_RECEIVED, c)
       }
     | _ \<Rightarrow> Some (READ_NO_DATA_RECEIVED, c))"

text \<open>The loop of \<open>core_read_tcp\<close>: \<open>k\<close> reallocations are left, \<open>i\<close> reads were made. It goes on only if the
  buffer was filled, so that every turn but the first uses up a reallocation.\<close>

definition read_grow :: "conn \<Rightarrow> srv \<Rightarrow> bool \<times> conn \<times> srv" where
  "read_grow c s =
    (let (ok, st) = mc_alloc_next (sv_mc s); s = s\<lparr>sv_mc := st\<rparr> in
     if \<not> ok then (False, (asc_write_server_error (c\<lparr>c_rbytes := 0\<rparr>))\<lparr>c_write_and_go := CONN_CLOSE\<rparr>, s)
     else (True, c\<lparr>c_rbuf := c_rbuf c @ replicate (length (c_rbuf c)) (CHR 0x00), c_rcurr := 0\<rparr>, s))"

fun read_tcp_loop ::
    "nat \<Rightarrow> nat \<Rightarrow> read_result \<Rightarrow> os \<Rightarrow> conn \<Rightarrow> srv \<Rightarrow> (read_result \<times> conn \<times> srv) option"
  and read_tcp_once ::
    "nat \<Rightarrow> nat \<Rightarrow> read_result \<Rightarrow> os \<Rightarrow> conn \<Rightarrow> srv \<Rightarrow> (read_result \<times> conn \<times> srv) option" where
  "read_tcp_loop 0 i gotdata os c s = Some (gotdata, c, s)"
| "read_tcp_loop (Suc k) i gotdata os c s =
    (case read_grow c s of (ok, c, s) \<Rightarrow>
       if \<not> ok then Some (READ_MEMORY_ERROR, c, s) else read_tcp_once k i gotdata os c s)"
| "read_tcp_once k i gotdata os c s =
    (case os_read os i of
       IoGot bs \<Rightarrow>
         (case read_into (c_rbuf c) (c_rbytes c) bs of
            None \<Rightarrow> None
          | Some buf \<Rightarrow>
              (let size = length (c_rbuf c) - c_rbytes c;
                   c = c\<lparr>c_rbuf := buf, c_rbytes := c_rbytes c + length bs\<rparr>
               in if length bs = size then read_tcp_loop k (i + 1) READ_DATA_RECEIVED os c s
                  else Some (READ_DATA_RECEIVED, c, s)))
     | IoAgain \<Rightarrow> Some (gotdata, c, s)
     | _ \<Rightarrow> Some (READ_ERROR, c, s))"

definition core_read_tcp :: "os \<Rightarrow> conn \<Rightarrow> srv \<Rightarrow> (read_result \<times> conn \<times> srv) option" where
  "core_read_tcp os c s =
    (let c = (if c_rcurr c \<noteq> 0 then c\<lparr>c_rbuf := (if c_rbytes c \<noteq> 0 then rbuf_compact c else c_rbuf c), c_rcurr := 0\<rparr>
              else c)
     in if c_rbytes c \<ge> length (c_rbuf c) then read_tcp_loop 4 0 READ_NO_DATA_RECEIVED os c s
        else read_tcp_once 4 0 READ_NO_DATA_RECEIVED os c s)"

definition core_read :: "os \<Rightarrow> conn \<Rightarrow> srv \<Rightarrow> conn handled" where
  "core_read os c s = do {
     (result, c, s) \<leftarrow> (if c_udp c then map_option (\<lambda>(r, c). (r, c, s)) (core_read_udp os c) else core_read_tcp os c s);
     Some (case result of
         READ_NO_DATA_RECEIVED \<Rightarrow> conn_set_state CONN_WAIT c
       | READ_DATA_RECEIVED \<Rightarrow> conn_set_state CONN_PARSE c
       | READ_ERROR \<Rightarrow> conn_set_state CONN_CLOSE c
       | READ_MEMORY_ERROR \<Rightarrow> c, s)
   }"

subsection \<open>The state machine\<close>

text \<open>What a turn of the loop does next; a listening connection accepts, a closed one goes to the pool.\<close>

datatype drive_next = CONTINUE | STOP | ACCEPT | CLOSED

definition wait_for :: "ev_flags \<Rightarrow> os \<Rightarrow> conn \<Rightarrow> drive_next \<times> conn" where
  "wait_for flags os c =
    (let (status, c) = core_update flags (os_upd os) c in
     if status \<noteq> MC_OK then (CONTINUE, conn_set_state CONN_CLOSE c) else (STOP, c))"

definition drive_wait :: "os \<Rightarrow> conn \<Rightarrow> drive_next \<times> conn" where
  "drive_wait os c =
    (let (next, c) = wait_for EV_READ os c in
     if next = STOP then (STOP, conn_set_state CONN_READ c) else (next, c))"

text \<open>The budget of requests is used up: leave the loop, with an event pending if there is input.\<close>

definition drive_yield :: "os \<Rightarrow> conn \<Rightarrow> conn" where
  "drive_yield os c = (if c_rbytes c > 0 then snd (wait_for EV_WRITE os c) else c)"

definition drive_nread_buffered :: "conn \<Rightarrow> mc \<Rightarrow> (conn \<times> mc) option" where
  "drive_nread_buffered c st =
    (if c_rbytes c = 0 then Some (c, st)
     else do {
       p \<leftarrow> c_item c;
       let tocopy = (if c_rbytes c > c_rlbytes c then c_rlbytes c else c_rbytes c);
       bs \<leftarrow> slice (c_rbuf c) (c_rcurr c) tocopy;
       st \<leftarrow> item_memcpy p (c_ritem c) bs st;
       Some (c\<lparr>c_ritem := c_ritem c + tocopy, c_rlbytes := c_rlbytes c - tocopy, c_rcurr := c_rcurr c + tocopy,
         c_rbytes := c_rbytes c - tocopy\<rparr>, st)
     })"

definition drive_nread :: "os \<Rightarrow> conn \<Rightarrow> srv \<Rightarrow> (drive_next \<times> conn \<times> srv) option" where
  "drive_nread os c s =
    (if c_rlbytes c = 0 then do { (c, s) \<leftarrow> asc_complete_nread c s; Some (CONTINUE, c, s) }
     else do {
       (c, st) \<leftarrow> drive_nread_buffered c (sv_mc s);
       let s = s\<lparr>sv_mc := st\<rparr>;
       if c_rlbytes c = 0 then Some (CONTINUE, c, s)
       else (case os_read os 0 of
           IoGot bs \<Rightarrow>
             if bs = [] \<or> length bs > c_rlbytes c then None
             else do {
               p \<leftarrow> c_item c;
               st \<leftarrow> item_memcpy p (c_ritem c) bs (sv_mc s);
               Some (CONTINUE, c\<lparr>c_ritem := c_ritem c + length bs, c_rlbytes := c_rlbytes c - length bs\<rparr>, s\<lparr>sv_mc := st\<rparr>)
             }
         | IoAgain \<Rightarrow> (let (next, c) = wait_for EV_READ os c in Some (next, c, s))
         | _ \<Rightarrow> Some (CONTINUE, conn_set_state CONN_CLOSE c, s))
     })"

text \<open>\<open>sbytes\<close> may be negative: then the read marker moves back, or \<open>read\<close> is asked for a negative number
  of bytes.\<close>

definition drive_swallow :: "os \<Rightarrow> conn \<Rightarrow> (drive_next \<times> conn) option" where
  "drive_swallow os c =
    (if c_sbytes c = 0 then Some (CONTINUE, conn_set_state CONN_NEW_CMD c)
     else if c_rbytes c > 0 then
       (let tocopy = (if int (c_rbytes c) > c_sbytes c then c_sbytes c else int (c_rbytes c)) in
        if int (c_rcurr c) + tocopy < 0 then None
        else Some (CONTINUE, c\<lparr>c_sbytes := c_sbytes c - tocopy, c_rcurr := nat (int (c_rcurr c) + tocopy),
                              c_rbytes := nat (int (c_rbytes c) - tocopy)\<rparr>))
     else (case os_read os 0 of
         IoGot bs \<Rightarrow>
           if c_sbytes c < 0 \<or> int (length bs) > c_sbytes c then None
           else map_option (\<lambda>buf. (CONTINUE, c\<lparr>c_rbuf := buf, c_sbytes := c_sbytes c - int (length bs)\<rparr>))
                  (read_into (c_rbuf c) 0 bs)
       | IoAgain \<Rightarrow> Some (wait_for EV_READ os c)
       | _ \<Rightarrow> Some (CONTINUE, conn_set_state CONN_CLOSE c)))"

text \<open>The end of a transmission: the items and the suffixes of a response of several fragments are
  released, entries that are null are skipped.\<close>

definition drive_sent :: "conn \<Rightarrow> srv \<Rightarrow> conn handled" where
  "drive_sent c s =
    (if c_state c = CONN_MWRITE then do {
       ps \<leftarrow> conn_items c;
       let st = fold item_remove_opt ps (sv_mc s);
       let c = c\<lparr>c_icurr := c_icurr c + c_ileft c, c_ileft := 0\<rparr>;
       (c, s) \<leftarrow> conn_release_suffixes c (s\<lparr>sv_mc := st\<rparr>);
       Some (conn_set_state CONN_NEW_CMD c, s)
     }
     else if c_state c = CONN_WRITE then Some (conn_set_state (c_write_and_go c) (c\<lparr>c_write_and_free := False\<rparr>), s)
     else Some (conn_set_state CONN_CLOSE c, s))"

definition drive_mwrite :: "os \<Rightarrow> conn \<Rightarrow> srv \<Rightarrow> (drive_next \<times> conn \<times> srv) option" where
  "drive_mwrite os c s = do {
     (status, c, st) \<leftarrow> (if c_udp c \<and> c_msg_curr c = 0 then conn_build_udp_headers c (sv_mc s) else Some (MC_OK, c, sv_mc s));
     let s = s\<lparr>sv_mc := st\<rparr>;
     if status \<noteq> MC_OK then Some (CONTINUE, conn_set_state CONN_CLOSE c, s)
     else do {
       (result, c) \<leftarrow> core_transmit (os_send os) (os_upd os) c;
       (case result of
          TRANSMIT_COMPLETE \<Rightarrow> do { (c, s) \<leftarrow> drive_sent c s; Some (CONTINUE, c, s) }
        | TRANSMIT_SOFT_ERROR \<Rightarrow> Some (STOP, c, s)
        | _ \<Rightarrow> Some (CONTINUE, c, s))
     }
   }"

definition drive_write :: "os \<Rightarrow> conn \<Rightarrow> srv \<Rightarrow> (drive_next \<times> conn \<times> srv) option" where
  "drive_write os c s = do {
     (status, c, st) \<leftarrow> (if c_iov_used c = 0 \<or> (c_udp c \<and> c_iov_used c = 1)
        then conn_add_iov (MemText (c_wcurr c)) (length (c_wcurr c)) c (sv_mc s) else Some (MC_OK, c, sv_mc s));
     let s = s\<lparr>sv_mc := st\<rparr>;
     if status \<noteq> MC_OK then Some (CONTINUE, conn_set_state CONN_CLOSE c, s) else drive_mwrite os c s
   }"

text \<open>\<open>core_close\<close>: a UDP connection stays, and the events of the others end.\<close>

definition core_close :: "conn \<Rightarrow> srv \<Rightarrow> (drive_next \<times> conn \<times> srv) option" where
  "core_close c s = do { (c, s) \<leftarrow> conn_cleanup c s; Some (if c_udp c then STOP else CLOSED, c, s) }"

definition drive_step :: "os \<Rightarrow> int \<times> conn \<times> srv \<Rightarrow> (drive_next \<times> int \<times> conn \<times> srv) option" where
  "drive_step os = (\<lambda>(nreqs, c, s).
    (case c_state c of
       CONN_LISTEN \<Rightarrow> Some (ACCEPT, nreqs, c, s)
     | CONN_WAIT \<Rightarrow> (let (next, c) = drive_wait os c in Some (next, nreqs, c, s))
     | CONN_READ \<Rightarrow> do { (c, s) \<leftarrow> core_read os c s; Some (CONTINUE, nreqs, c, s) }
     | CONN_PARSE \<Rightarrow> do { (c, s) \<leftarrow> core_parse c s; Some (CONTINUE, nreqs, c, s) }
     | CONN_NEW_CMD \<Rightarrow>
         if nreqs - 1 \<ge> 0 then (let (c, s) = core_reset_cmd_handler c s in Some (CONTINUE, nreqs - 1, c, s))
         else Some (STOP, nreqs - 1, drive_yield os c, s)
     | CONN_NREAD \<Rightarrow> do { (next, c, s) \<leftarrow> drive_nread os c s; Some (next, nreqs, c, s) }
     | CONN_SWALLOW \<Rightarrow> do { (next, c) \<leftarrow> drive_swallow os c; Some (next, nreqs, c, s) }
     | CONN_WRITE \<Rightarrow> do { (next, c, s) \<leftarrow> drive_write os c s; Some (next, nreqs, c, s) }
     | CONN_MWRITE \<Rightarrow> do { (next, c, s) \<leftarrow> drive_mwrite os c s; Some (next, nreqs, c, s) }
     | CONN_CLOSE \<Rightarrow> do { (next, c, s) \<leftarrow> core_close c s; Some (next, nreqs, c, s) }))"

text \<open>The loop, over what the operating system answers in each turn; \<open>None\<close> if the answers end first.\<close>

fun core_drive_machine :: "os list \<Rightarrow> int \<times> conn \<times> srv \<Rightarrow> (drive_next \<times> conn \<times> srv) option" where
  "core_drive_machine [] x = None"
| "core_drive_machine (os # oss) x =
    (case drive_step os x of
       None \<Rightarrow> None
     | Some (next, nreqs, c, s) \<Rightarrow>
         if next = CONTINUE then core_drive_machine oss (nreqs, c, s) else Some (next, c, s))"

definition conn_close :: "conn \<Rightarrow> conn_pool \<Rightarrow> srv \<Rightarrow> (conn_pool \<times> srv) option" where
  "conn_close c q s = do { (c, s) \<leftarrow> conn_cleanup c s; Some (conn_put c q, s) }"

subsection \<open>Accepting and dispatching\<close>

definition UDP_BUFFER_SIZE :: nat where "UDP_BUFFER_SIZE = 65536"

text \<open>The threads: the last worker a connection went to, and the queue of new connections of each.\<close>

record dispatcher =
  d_last_thread :: int
  d_new_cq :: "conn list list"
  d_pool :: conn_pool

definition thread_init :: "nat \<Rightarrow> dispatcher" where
  "thread_init nworkers = \<lparr>d_last_thread = -1, d_new_cq = replicate nworkers [], d_pool = conn_init\<rparr>"

text \<open>\<open>notify_ok\<close> is the outcome of the \<open>write\<close> to the pipe of the worker.\<close>

definition thread_dispatch ::
    "conn_state \<Rightarrow> ev_flags \<Rightarrow> bool \<Rightarrow> bool \<Rightarrow> dispatcher \<Rightarrow> mc \<Rightarrow> rstatus \<times> dispatcher \<times> mc" where
  "thread_dispatch state ev udp notify_ok d st =
    (let (r, q, st) = conn_get state ev (if udp then UDP_BUFFER_SIZE else TCP_BUFFER_SIZE) udp (d_pool d) st;
         d = d\<lparr>d_pool := q\<rparr>
     in case r of
          None \<Rightarrow> (MC_ENOMEM, d, st)
        | Some c \<Rightarrow>
            (let tid = (d_last_thread d + 1) mod int (length (d_new_cq d));
                 d = d\<lparr>d_last_thread := tid, d_new_cq := (d_new_cq d)[nat tid := conn_cq_push c (d_new_cq d ! nat tid)]\<rparr>
             in (if notify_ok then MC_OK else MC_ERROR, d, st)))"

text \<open>\<open>accept\<close> is called again while it is interrupted; then a socket is dispatched unless it cannot be made
  non-blocking. The second result says whether connections are still accepted.\<close>

datatype accept_result = AcceptOk | AcceptIntr | AcceptAgain | AcceptNoFile | AcceptError

fun accept_loop :: "accept_result list \<Rightarrow> accept_result option" where
  "accept_loop [] = None"
| "accept_loop (AcceptIntr # rs) = accept_loop rs"
| "accept_loop (r # rs) = Some r"

definition core_accept ::
    "accept_result list \<Rightarrow> bool \<Rightarrow> bool \<Rightarrow> bool \<times> dispatcher \<Rightarrow> mc \<Rightarrow> ((bool \<times> dispatcher) \<times> mc) option" where
  "core_accept rs nonblocking_ok notify_ok = (\<lambda>(accepting, d) st.
    (case accept_loop rs of
       None \<Rightarrow> None
     | Some AcceptOk \<Rightarrow>
         if \<not> nonblocking_ok then Some ((accepting, d), st)
         else let (status, d, st) = thread_dispatch CONN_NEW_CMD EV_READ False notify_ok d st in Some ((accepting, d), st)
     | Some AcceptNoFile \<Rightarrow> Some ((False, d), st)
     | Some _ \<Rightarrow> Some ((accepting, d), st)))"

text \<open>A worker that is notified takes the oldest new connection.\<close>

definition thread_libevent_process :: "nat \<Rightarrow> bool \<Rightarrow> dispatcher \<Rightarrow> conn option \<times> dispatcher" where
  "thread_libevent_process w event_ok d =
    (case conn_cq_pop (d_new_cq d ! w) of (r, cq) \<Rightarrow>
       (let d = d\<lparr>d_new_cq := (d_new_cq d)[w := cq]\<rparr> in
        case r of
          None \<Rightarrow> (None, d)
        | Some c \<Rightarrow> if event_ok then (Some c, d) else (None, d\<lparr>d_pool := conn_put c (d_pool d)\<rparr>)))"

end
