(* ===== verification/MC_Frame.thy ===== *)
theory MC_Frame
  imports MC_Server
begin

text \<open>
  No command touches the read buffer of its connection: requests that were received together are
  handled one after the other, each exactly once.
\<close>

definition in_buf :: "conn \<Rightarrow> bytes \<times> nat \<times> nat" where
  "in_buf c = (c_rbuf c, c_rcurr c, c_rbytes c)"

lemma in_buf_upd [simp]:
  "in_buf (c\<lparr>c_state := x1\<rparr>) = in_buf c" "in_buf (c\<lparr>c_ev_flags := x2\<rparr>) = in_buf c" "in_buf (c\<lparr>c_wsize := x3\<rparr>) = in_buf c"
  "in_buf (c\<lparr>c_wcurr := x4\<rparr>) = in_buf c" "in_buf (c\<lparr>c_write_and_go := x5\<rparr>) = in_buf c" "in_buf (c\<lparr>c_write_and_free := x6\<rparr>) = in_buf c"
  "in_buf (c\<lparr>c_ritem := x7\<rparr>) = in_buf c" "in_buf (c\<lparr>c_rlbytes := x8\<rparr>) = in_buf c" "in_buf (c\<lparr>c_tid := x9\<rparr>) = in_buf c"
  "in_buf (c\<lparr>c_lease_token := y1\<rparr>) = in_buf c" "in_buf (c\<lparr>c_item := y2\<rparr>) = in_buf c" "in_buf (c\<lparr>c_sbytes := y3\<rparr>) = in_buf c"
  "in_buf (c\<lparr>c_iov := y4\<rparr>) = in_buf c" "in_buf (c\<lparr>c_iov_used := y5\<rparr>) = in_buf c" "in_buf (c\<lparr>c_msg := y6\<rparr>) = in_buf c"
  "in_buf (c\<lparr>c_msg_used := y7\<rparr>) = in_buf c" "in_buf (c\<lparr>c_msg_curr := y8\<rparr>) = in_buf c" "in_buf (c\<lparr>c_msg_bytes := y9\<rparr>) = in_buf c"
  "in_buf (c\<lparr>c_ilist := z1\<rparr>) = in_buf c" "in_buf (c\<lparr>c_icurr := z2\<rparr>) = in_buf c" "in_buf (c\<lparr>c_ileft := z3\<rparr>) = in_buf c"
  "in_buf (c\<lparr>c_slist := z4\<rparr>) = in_buf c" "in_buf (c\<lparr>c_scurr := z5\<rparr>) = in_buf c" "in_buf (c\<lparr>c_sleft := z6\<rparr>) = in_buf c"
  "in_buf (c\<lparr>c_req_type := z7\<rparr>) = in_buf c" "in_buf (c\<lparr>c_req := z8\<rparr>) = in_buf c" "in_buf (c\<lparr>c_udp_rid := z9\<rparr>) = in_buf c"
  "in_buf (c\<lparr>c_udp_hsize := w1\<rparr>) = in_buf c" "in_buf (c\<lparr>c_noreply := w2\<rparr>) = in_buf c"
  by (simp_all add: in_buf_def)

lemma in_buf_writes [simp]:
  "in_buf (asc_write_string t c) = in_buf c" "in_buf (asc_set_noreply_maybe ts c) = in_buf c"
  "in_buf (conn_set_slist n c) = in_buf c" "in_buf (conn_set_ilist n c) = in_buf c"
  "in_buf (asc_swallow v c) = in_buf c" "in_buf (asc_await_data p s c) = in_buf c" "in_buf (asc_keep_tid tid c) = in_buf c"
  "in_buf (core_write_and_free r c) = in_buf c"
  by (simp_all add: asc_write_string_def asc_set_noreply_maybe_def conn_set_slist_def conn_set_ilist_def asc_swallow_def
      asc_await_data_def asc_keep_tid_def core_write_and_free_def asc_write_server_error_def Let_def split: option.splits)

lemma in_buf_check [simp]: "asc_check_config n c s = (r, c') \<Longrightarrow> in_buf c' = in_buf c"
  by (auto simp: asc_check_config_def asc_write_crash_def Let_def split: if_splits)

subsection \<open>Assembling responses\<close>

definition keeps :: "conn \<Rightarrow> (rstatus \<times> conn \<times> 's) option \<Rightarrow> bool" where
  "keeps c r \<longleftrightarrow> (\<forall>status c' s'. r = Some (status, c', s') \<longrightarrow> in_buf c' = in_buf c)"

definition keeps2 :: "conn \<Rightarrow> (conn \<times> 's) option \<Rightarrow> bool" where
  "keeps2 c r \<longleftrightarrow> (\<forall>c' s'. r = Some (c', s') \<longrightarrow> in_buf c' = in_buf c)"

lemma keepsD: "keeps c r \<Longrightarrow> r = Some (status, c', s') \<Longrightarrow> in_buf c' = in_buf c"
  by (simp add: keeps_def)

lemma keeps2D: "keeps2 c r \<Longrightarrow> r = Some (c', s') \<Longrightarrow> in_buf c' = in_buf c"
  by (simp add: keeps2_def)

lemma keeps_intros:
  "keeps c None" "in_buf c' = in_buf c \<Longrightarrow> keeps c (Some (status, c', s'))"
  "(\<And>r c' x. m = Some (r, c', x) \<Longrightarrow> keeps c (f r c' x)) \<Longrightarrow> keeps c (case m of None \<Rightarrow> None | Some (r, c', x) \<Rightarrow> f r c' x)"
  "(b \<Longrightarrow> keeps c t) \<Longrightarrow> (\<not> b \<Longrightarrow> keeps c e) \<Longrightarrow> keeps c (if b then t else e)"
  "(\<And>x. n = Some x \<Longrightarrow> keeps c (g x)) \<Longrightarrow> keeps c (Option.bind n g)"
  by (auto simp: keeps_def split: option.splits; cases n; simp)+

lemma keeps2_intros:
  "keeps2 c None" "in_buf c' = in_buf c \<Longrightarrow> keeps2 c (Some (c', s'))"
  "(\<And>r c' x. m = Some (r, c', x) \<Longrightarrow> keeps2 c (f r c' x)) \<Longrightarrow> keeps2 c (case m of None \<Rightarrow> None | Some (r, c', x) \<Rightarrow> f r c' x)"
  "(b \<Longrightarrow> keeps2 c t) \<Longrightarrow> (\<not> b \<Longrightarrow> keeps2 c e) \<Longrightarrow> keeps2 c (if b then t else e)"
  "(\<And>x. n = Some x \<Longrightarrow> keeps2 c (g x)) \<Longrightarrow> keeps2 c (Option.bind n g)"
  by (auto simp: keeps2_def split: option.splits; cases n; simp)+

lemma keeps_trans: "in_buf c' = in_buf c \<Longrightarrow> keeps c' r \<Longrightarrow> keeps c r"
  "in_buf c' = in_buf c \<Longrightarrow> keeps2 c' r2 \<Longrightarrow> keeps2 c r2"
  by (auto simp: keeps_def keeps2_def)

lemma in_buf_core: "conn_core c' = conn_core c \<Longrightarrow> in_buf c' = in_buf c"
  by (drule arg_cong [where f = in_buf]) (simp add: conn_core_def)

lemma in_buf_steps:
  "conn_ensure_iov_space c st = (status, c', st') \<Longrightarrow> in_buf c' = in_buf c"
  "conn_put_iov buf len c = Some c' \<Longrightarrow> in_buf c' = in_buf c"
  "conn_msg_room c st = (status, c', st') \<Longrightarrow> in_buf c' = in_buf c"
  "conn_new_msg c = Some c' \<Longrightarrow> in_buf c' = in_buf c"
  using conn_ensure_iov_space_fields conn_put_iov_fields conn_msg_room_fields conn_new_msg_fields in_buf_core by blast+

lemma keeps_msghdr: "keeps c (conn_add_msghdr c st)"
  unfolding keeps_def conn_add_msghdr_def
  by (auto dest!: in_buf_steps split: prod.splits if_splits option.splits)

lemma keeps_iov_room: "keeps c (conn_iov_room c st)"
  unfolding keeps_def conn_iov_room_def
  by (auto dest!: in_buf_steps keepsD [OF keeps_msghdr] split: prod.splits if_splits option.splits)

lemma keeps_add_iov: "keeps c (conn_add_iov buf len c st)"
proof (induction buf len c st rule: conn_add_iov.induct)
  case (1 buf len c st)
  show ?case
    using 1 unfolding conn_add_iov.simps [of buf len c st]
    by (fastforce simp: keeps_def Let_def dest: in_buf_steps keepsD [OF keeps_iov_room] split: option.splits if_splits prod.splits)
qed

lemma keeps_frags: "keeps c (add_frags fs c s)"
proof (induction fs arbitrary: c s)
  case (Cons f fs)
  obtain checked buf len where f: "f = (checked, buf, len)" by (cases f)
  show ?case
    unfolding f add_frags.simps Let_def
    by (intro keeps_intros keeps_trans(1) [OF _ Cons.IH]) (simp_all add: keepsD [OF keeps_add_iov])
qed (simp add: keeps_def)

lemma keeps_suffix: "keeps c (asc_create_suffix n c s)"
  by (auto simp: keeps_def asc_create_suffix_def asc_write_server_error_def Let_def split: if_splits prod.splits option.splits)

lemma keeps_udp_loop: "udp_headers_loop ns c = Some c' \<Longrightarrow> in_buf c' = in_buf c"
  by (induction ns arbitrary: c) (auto simp: Let_def split: if_splits)

lemma keeps_udp: "keeps c (conn_build_udp_headers c st)"
  by (auto simp: keeps_def conn_build_udp_headers_def Let_def dest!: keeps_udp_loop split: if_splits prod.splits option.splits)

lemma keeps_ok_then:
  assumes "keeps c m" "\<And>c' s'. in_buf c' = in_buf c \<Longrightarrow> keeps c (f c' s')"
  shows "keeps c (ok_then m f)"
  unfolding ok_then_def by (intro keeps_intros assms(2)) (simp_all add: keepsD [OF assms(1)])

lemma keeps2_end: "keeps2 c (asc_end c s)"
proof -
  have u: "keeps c1 (if c_udp c1 then conn_build_udp_headers c1 st else Some (MC_OK, c1, st))" for c1 st
    by (intro keeps_intros keeps_udp) simp
  show ?thesis
    unfolding asc_end_def Let_def asc_write_server_error_def
    by (intro keeps2_intros) (auto dest!: keepsD [OF u] keepsD [OF keeps_frags])
qed

lemma keeps_of_keeps2:
  assumes "keeps2 c m" "\<And>c' s'. in_buf c' = in_buf c \<Longrightarrow> keeps c (f (c', s'))"
  shows "keeps c (Option.bind m f)"
proof (rule keeps_intros)
  fix x assume m: "m = Some x"
  show "keeps c (f x)"
    by (cases x) (use m keeps2D [OF assms(1)] assms(2) in blast)
qed

lemma keeps2_drop: "keeps c m \<Longrightarrow> keeps2 c (drop_status m)"
  by (auto simp: keeps_def keeps2_def drop_status_def)

lemma keeps_item:
  "conn_keep_item i r c = Some c' \<Longrightarrow> in_buf c' = in_buf c"
  "map_option (conn_set_ilist n) (conn_keep_item i r c) = Some c' \<Longrightarrow> in_buf c' = in_buf c"
  by (auto simp: conn_keep_item_def split: if_splits)

text \<open>Every response of several fragments.\<close>

lemmas keeps_parts = keeps_trans(1) [OF _ keeps_frags] keeps_trans(1) [OF _ keeps_suffix] keeps_trans(2) [OF _ keeps2_end]

lemmas response_defs = asc_write_novalue_def asc_write_value_def asc_write_ciget_lease_def asc_write_iqget_lease_def
  asc_write_qaread_def asc_write_oqread_def asc_write_ok_pending_def asc_write_ok_novalue_pending_def asc_write_ok_val_def
  asc_respond_get_def Let_def

lemma keeps_responses:
  "keeps c (asc_write_novalue c s)" "keeps c (asc_write_value suffix p c s)"
  "keeps c (asc_write_ciget_lease p ntok c s)" "keeps c (asc_write_ok_val val c s)"
  "keeps c (asc_write_ok_pending pend ntok c s)" "keeps c (asc_write_ok_novalue_pending pend ntok c s)"
  "keeps c (asc_respond_get n p cas c s)"
  unfolding response_defs
  by (rule keeps_ok_then keeps_parts keeps_of_keeps2 keeps_intros | simp add: keeps_item)+

lemma keeps_lease_responses:
  "keeps c (asc_write_iqget_lease r ntok c s)" "keeps c (asc_write_qaread r key ntok pend c s)" "keeps c (asc_write_oqread r key c s)"
  unfolding response_defs
  by (cases r; simp only: option.case;
      (rule keeps_ok_then keeps_parts keeps_of_keeps2 keeps_intros | simp add: keeps_item)+)+

subsection \<open>Commands\<close>

lemma keeps2_need:
  "in_buf c1 = in_buf c \<Longrightarrow> keeps2 c k \<Longrightarrow> keeps2 c (need_tokens ts c1 s k)"
  "in_buf c1 = in_buf c \<Longrightarrow> (\<And>n. keeps2 c (f n)) \<Longrightarrow> keeps2 c (need_num parse ts i c1 s f)"
  "in_buf c1 = in_buf c \<Longrightarrow> (\<And>n. keeps2 c (g n)) \<Longrightarrow> keeps2 c (need_num_if b d parse' ts i c1 s g)"
  "in_buf c1 = in_buf c \<Longrightarrow> (\<And>key. keeps2 c (h key)) \<Longrightarrow> keeps2 c (need_key m ts i c1 s h)"
  "in_buf c1 = in_buf c \<Longrightarrow> (\<And>cid. keeps2 c (e cid)) \<Longrightarrow> keeps2 c (need_slabid key' vlen c1 s e)"
  by (auto simp: keeps2_def need_tokens_def need_num_def need_num_if_def need_key_def need_slabid_def asc_write_client_error_def Let_def
      split: option.splits if_splits)

lemma keeps2_config:
  assumes "in_buf c1 = in_buf c" "\<And>c2. in_buf c2 = in_buf c \<Longrightarrow> keeps2 c (k c2)"
  shows "keeps2 c (need_config ts c1 s k)"
  unfolding need_config_def Let_def
proof (rule keeps2_need(2) [OF assms(1)])
  fix n
  have *: "in_buf (snd (asc_check_config n c1 s)) = in_buf c"
    using in_buf_check [of n c1 s "fst (asc_check_config n c1 s)" "snd (asc_check_config n c1 s)"] assms(1) by simp
  then show "keeps2 c (case asc_check_config n c1 s of (server_config, c2) \<Rightarrow> if server_config = -1 then Some (c2, s) else k c2)"
    by (cases "asc_check_config n c1 s") (simp add: keeps2_intros assms(2))
qed

lemma keeps2_prod: "(\<And>a b. x = (a, b) \<Longrightarrow> keeps2 c (f a b)) \<Longrightarrow> keeps2 c (case x of (a, b) \<Rightarrow> f a b)"
  by (cases x) simp

lemma keeps2_opt:
  "(r = None \<Longrightarrow> keeps2 c a) \<Longrightarrow> (\<And>x. r = Some x \<Longrightarrow> keeps2 c (f x)) \<Longrightarrow> keeps2 c (case r of None \<Rightarrow> a | Some x \<Rightarrow> f x)"
  by (cases r) simp_all

lemma keeps2_failed: "in_buf c1 = in_buf c \<Longrightarrow> keeps2 c (asc_alloc_failed del key vlen c1 s)"
  unfolding asc_alloc_failed_def Let_def asc_write_server_error_def
  by (rule keeps2_intros keeps2_prod | simp)+

lemmas keeps2_rules = keeps2_intros keeps2_prod keeps2_opt keeps2_failed keeps2_need keeps2_config

lemma keeps2_alloc:
  "in_buf c1 = in_buf c \<Longrightarrow> (\<And>c. in_buf (note c) = in_buf c) \<Longrightarrow> keeps2 c (asc_alloc_value cid key flags ex vlen cfg note c1 s)"
  "in_buf c1 = in_buf c \<Longrightarrow> keeps2 c (asc_alloc_part key vlen tid c1 s)"
  unfolding asc_alloc_value_def asc_alloc_part_def Let_def by (rule keeps2_rules | simp)+

lemma keeps2_responses:
  "in_buf c1 = in_buf c \<Longrightarrow> keeps2 c (drop_status (asc_write_novalue c1 s))"
  "in_buf c1 = in_buf c \<Longrightarrow> keeps2 c (drop_status (asc_write_value suffix p c1 s))"
  "in_buf c1 = in_buf c \<Longrightarrow> keeps2 c (drop_status (asc_write_ciget_lease p ntok c1 s))"
  "in_buf c1 = in_buf c \<Longrightarrow> keeps2 c (drop_status (asc_write_ok_val val c1 s))"
  "in_buf c1 = in_buf c \<Longrightarrow> keeps2 c (drop_status (asc_write_ok_pending pend ntok c1 s))"
  "in_buf c1 = in_buf c \<Longrightarrow> keeps2 c (drop_status (asc_write_ok_novalue_pending pend ntok c1 s))"
  "in_buf c1 = in_buf c \<Longrightarrow> keeps2 c (drop_status (asc_write_iqget_lease r ntok c1 s))"
  by (rule keeps_trans(2) keeps2_drop keeps_responses keeps_lease_responses; assumption?)+

lemma keeps2_iq:
  "in_buf c1 = in_buf c \<Longrightarrow> keeps2 c (asc_respond_iq res ntok pend c1 s)"
  by (cases res) (simp_all add: asc_respond_iq_def keeps2_responses keeps2_intros asc_write_defs)

lemma keeps2_bind:
  assumes "keeps2 c m" "\<And>c' s'. in_buf c' = in_buf c \<Longrightarrow> keeps2 c (f (c', s'))"
  shows "keeps2 c (Option.bind m f)"
proof (rule keeps2_intros)
  fix x assume m: "m = Some x"
  show "keeps2 c (f x)"
    by (cases x) (use m keeps2D [OF assms(1)] assms(2) in blast)
qed

lemma keeps2_bind3:
  assumes "keeps c m" "\<And>r c' s'. in_buf c' = in_buf c \<Longrightarrow> keeps2 c (f (r, c', s'))"
  shows "keeps2 c (Option.bind m f)"
proof (rule keeps2_intros)
  fix x assume m: "m = Some x"
  show "keeps2 c (f x)"
    by (cases x) (use m keepsD [OF assms(1)] assms(2) in blast)
qed

lemma keeps2_iqget: "in_buf c1 = in_buf c \<Longrightarrow> keeps2 c (asc_respond_iqget exc r ntok c1 s)"
  unfolding asc_respond_iqget_def asc_write_iqget_value_def Let_def
  by (rule keeps2_responses keeps2_bind keeps2_rules | simp add: asc_write_defs keeps2_responses keeps2_intros split: item_iq_result.split)+

definition keeps4 :: "conn \<Rightarrow> ('a \<times> 'b \<times> conn \<times> 's) option \<Rightarrow> bool" where
  "keeps4 c r \<longleftrightarrow> (\<forall>a b c' s'. r = Some (a, b, c', s') \<longrightarrow> in_buf c' = in_buf c)"

lemma keeps4_intros:
  "in_buf c' = in_buf c \<Longrightarrow> keeps4 c (Some (a, b, c', s'))"
  "(P \<Longrightarrow> keeps4 c t) \<Longrightarrow> (\<not> P \<Longrightarrow> keeps4 c e) \<Longrightarrow> keeps4 c (if P then t else e)"
  "(\<And>x. n = Some x \<Longrightarrow> keeps4 c (g x)) \<Longrightarrow> keeps4 c (Option.bind n g)"
  "(\<And>x y. z = (x, y) \<Longrightarrow> keeps4 c (h x y)) \<Longrightarrow> keeps4 c (case z of (x, y) \<Rightarrow> h x y)"
  "(r = None \<Longrightarrow> keeps4 c d) \<Longrightarrow> (\<And>x. r = Some x \<Longrightarrow> keeps4 c (k x)) \<Longrightarrow> keeps4 c (case r of None \<Rightarrow> d | Some x \<Rightarrow> k x)"
  by (auto simp: keeps4_def; cases n; cases z; cases r; simp)+

lemma keeps_grow: "asc_read_grow n c s1 = (ok, c1, s2) \<Longrightarrow> in_buf c1 = in_buf c"
  by (auto simp: asc_read_grow_def Let_def split: if_splits prod.splits)

lemma keeps_read_key: "keeps4 c (asc_read_key key n cas c s)"
  unfolding asc_read_key_def Let_def
  by (intro keeps4_intros) (simp_all add: keeps_grow keepsD [OF keeps_responses(7)] keeps_item(1))

lemma keeps_read_keys: "keeps4 c (asc_read_keys ts n cas c s)"
proof -
  have "in_buf (fst (snd (snd y))) = in_buf c" if "asc_read_keys ts n cas c s = Some y" for y
  proof (rule asc_read_keys.raw_induct [where P = "\<lambda>ts n cas c s y. in_buf (fst (snd (snd y))) = in_buf c", OF _ that])
    fix f ts n cas c s y
    assume IH: "\<And>ts n cas c s y. f ts n cas c s = Some y \<Longrightarrow> in_buf (fst (snd (snd y))) = in_buf c"
      and run: "(case ts of [] \<Rightarrow> None | t # rest \<Rightarrow>
         (if tok_len t \<noteq> 0 then
            Option.bind (asc_read_key (tok_text t) n cas c s) (\<lambda>(turn, n, c, s).
              case turn of
                READ_NEXT \<Rightarrow> f rest n cas c s
              | READ_BREAK \<Rightarrow> f (asc_tokenize (case tok_val t of None \<Rightarrow> [] | Some v \<Rightarrow> v) TOKEN_MAX) n cas c s
              | READ_TOO_LONG \<Rightarrow> Some (False, n, c, s))
          else (case tok_val t of None \<Rightarrow> Some (True, n, c, s) | Some v \<Rightarrow> f (asc_tokenize v TOKEN_MAX) n cas c s))) = Some y"
    show "in_buf (fst (snd (snd y))) = in_buf c"
    proof (cases "\<exists>t rest. ts = t # rest \<and> tok_len t \<noteq> 0")
      case True
      then obtain t rest turn n1 c1 s1 where k: "asc_read_key (tok_text t) n cas c s = Some (turn, n1, c1, s1)"
        and f: "(case turn of READ_NEXT \<Rightarrow> f rest n1 cas c1 s1
          | READ_BREAK \<Rightarrow> f (asc_tokenize (case tok_val t of None \<Rightarrow> [] | Some v \<Rightarrow> v) TOKEN_MAX) n1 cas c1 s1
          | READ_TOO_LONG \<Rightarrow> Some (False, n1, c1, s1)) = Some y"
        using run by (auto simp: bind_eq_Some_conv)
      have "in_buf (fst (snd (snd y))) = in_buf c1" using f IH by (cases turn) auto
      then show ?thesis using keeps_read_key [of c "tok_text t" n cas s] k by (simp add: keeps4_def)
    next
      case False
      then show ?thesis using run IH by (auto split: list.splits option.splits if_splits)
    qed
  qed
  then show ?thesis by (auto simp: keeps4_def)
qed

lemma keeps2_read: "in_buf c1 = in_buf c \<Longrightarrow> keeps2 c (asc_process_read ts c1 s)"
proof -
  have k: "keeps2 c (Option.bind (asc_read_keys us n cas c2 s) (\<lambda>(b, n, c3, s).
      if \<not> b then Some (asc_write_client_error c3, s) else asc_end (conn_set_slist n (conn_set_ilist n c3)) s))"
    if "in_buf c2 = in_buf c" for us n cas c2
    using keeps_read_keys [of c2 us n cas s] that
    by (cases "asc_read_keys us n cas c2 s") (auto simp: keeps4_def asc_write_client_error_def intro!: keeps2_intros keeps_trans(2) [OF _ keeps2_end])
  show "in_buf c1 = in_buf c \<Longrightarrow> keeps2 c (asc_process_read ts c1 s)"
    unfolding asc_process_read_def by (intro keeps2_need keeps2_config k)
qed

lemma keeps2_if: "(b \<Longrightarrow> keeps2 c (Some x)) \<Longrightarrow> (\<not> b \<Longrightarrow> keeps2 c (Some y)) \<Longrightarrow> keeps2 c (Some (if b then x else y))"
  by simp

lemma in_buf_respond [simp]: "in_buf (asc_respond_co exc c) = in_buf c" "in_buf (asc_respond_oqstored exc c) = in_buf c"
  by (simp_all add: asc_respond_co_def asc_respond_oqstored_def asc_write_defs split: item_co_result.split)

lemma in_buf_stored [simp]: "in_buf (asc_respond_stored r c) = in_buf c"
  by (cases r) (simp_all add: asc_write_defs)

lemmas keeps2_all = keeps2_iq keeps2_iqget keeps2_alloc keeps2_responses keeps2_rules

lemma keeps2_storage:
  "in_buf c1 = in_buf c \<Longrightarrow> keeps2 c (asc_process_update_configuration ts c1 s)"
  "in_buf c1 = in_buf c \<Longrightarrow> keeps2 c (asc_process_update ts c1 s)"
  "in_buf c1 = in_buf c \<Longrightarrow> keeps2 c (asc_process_arithmetic ts c1 s)"
  "in_buf c1 = in_buf c \<Longrightarrow> keeps2 c (asc_process_delete ts c1 s)"
  unfolding asc_process_update_configuration_def asc_process_update_def asc_process_arithmetic_def asc_process_delete_def Let_def
  by (rule keeps2_all | simp add: asc_write_defs split: item_delta_result.split)+

lemma keeps2_leases:
  "in_buf c1 = in_buf c \<Longrightarrow> keeps2 c (asc_process_unlease ts c1 s)"
  "in_buf c1 = in_buf c \<Longrightarrow> keeps2 c (asc_process_qareg ts c1 s)"
  "in_buf c1 = in_buf c \<Longrightarrow> keeps2 c (asc_process_dar ts c1 s)"
  "in_buf c1 = in_buf c \<Longrightarrow> keeps2 c (asc_process_sar ts c1 s)"
  "in_buf c1 = in_buf c \<Longrightarrow> keeps2 c (asc_process_iqincr_iqdecr ts c1 s)"
  "in_buf c1 = in_buf c \<Longrightarrow> keeps2 c (asc_process_iqappend_iqprepend ts c1 s)"
  "in_buf c1 = in_buf c \<Longrightarrow> keeps2 c (asc_process_commit ts c1 s)"
  "in_buf c1 = in_buf c \<Longrightarrow> keeps2 c (asc_process_release ts c1 s)"
  "in_buf c1 = in_buf c \<Longrightarrow> keeps2 c (asc_process_check ts c1 s)"
  "in_buf c1 = in_buf c \<Longrightarrow> keeps2 c (asc_process_ftrans ts c1 s)"
  "in_buf c1 = in_buf c \<Longrightarrow> keeps2 c (asc_process_iqget ts c1 s)"
  "in_buf c1 = in_buf c \<Longrightarrow> keeps2 c (asc_process_iset ts c1 s)"
  "in_buf c1 = in_buf c \<Longrightarrow> keeps2 c (asc_process_swap ts c1 s)"
  unfolding asc_process_unlease_def asc_process_qareg_def asc_process_dar_def asc_process_sar_def asc_process_iqincr_iqdecr_def
    asc_process_iqappend_iqprepend_def asc_process_commit_def asc_process_release_def asc_process_check_def asc_process_ftrans_def
    asc_process_iqget_def asc_process_iset_def asc_process_swap_def Let_def
  by (rule keeps2_all | simp add: asc_write_defs)+

lemma keeps2_qaread: "in_buf c1 = in_buf c \<Longrightarrow> keeps2 c (asc_process_qaread ts c1 s)"
  unfolding asc_process_qaread_def Let_def
  by (rule keeps2_bind3 keeps_trans(1) [OF _ keeps_lease_responses(2)] keeps2_all | simp)+

lemma keeps2_co_case:
  "keeps2 c x1 \<Longrightarrow> keeps2 c x2 \<Longrightarrow> keeps2 c x3 \<Longrightarrow> keeps2 c x4 \<Longrightarrow> keeps2 c x5 \<Longrightarrow> keeps2 c x6 \<Longrightarrow>
   keeps2 c (case exc of CO_OK \<Rightarrow> x1 | CO_ABORT \<Rightarrow> x2 | CO_NOT_FOUND \<Rightarrow> x3 | CO_INVALID \<Rightarrow> x4 | CO_RETRY \<Rightarrow> x5 | CO_NOVALUE \<Rightarrow> x6)"
  by (cases exc) simp_all

lemma keeps2_sessions:
  "in_buf c1 = in_buf c \<Longrightarrow> keeps2 c (asc_process_oqincr_oqdecr ts c1 s)"
  "in_buf c1 = in_buf c \<Longrightarrow> keeps2 c (asc_process_oqappend_oqprepend ts c1 s)"
  "in_buf c1 = in_buf c \<Longrightarrow> keeps2 c (asc_process_dcommit ts c1 s)"
  "in_buf c1 = in_buf c \<Longrightarrow> keeps2 c (asc_process_co_unlease ts c1 s)"
  "in_buf c1 = in_buf c \<Longrightarrow> keeps2 c (asc_process_oqreg ts c1 s)"
  "in_buf c1 = in_buf c \<Longrightarrow> keeps2 c (asc_process_oqread ts c1 s)"
  "in_buf c1 = in_buf c \<Longrightarrow> keeps2 c (asc_process_oqwrite ts c1 s)"
  "in_buf c1 = in_buf c \<Longrightarrow> keeps2 c (asc_process_oqswap ts c1 s)"
  "in_buf c1 = in_buf c \<Longrightarrow> keeps2 c (asc_process_validate ts c1 s)"
  "in_buf c1 = in_buf c \<Longrightarrow> keeps2 c (asc_process_ciget ts c1 s)"
  unfolding asc_process_oqincr_oqdecr_def asc_process_oqappend_oqprepend_def asc_process_dcommit_def asc_process_co_unlease_def
    asc_process_oqreg_def asc_process_oqread_def asc_process_oqswap_def asc_process_oqwrite_def asc_process_validate_def
    asc_process_ciget_def asc_write_ciget_value_def Let_def
  by (rule keeps2_co_case keeps2_bind3 [OF keeps_trans(1) [OF _ keeps_lease_responses(3)]] keeps2_all
     | simp add: asc_write_defs split: item_co_result.split)+

lemma keeps2_admin:
  "in_buf c1 = in_buf c \<Longrightarrow> keeps2 c (asc_process_stats ts c1 s)"
  "in_buf c1 = in_buf c \<Longrightarrow> keeps2 c (asc_process_verbosity ts c1 s)"
  "in_buf c1 = in_buf c \<Longrightarrow> keeps2 c (asc_process_aggregate ts c1 s)"
  "in_buf c1 = in_buf c \<Longrightarrow> keeps2 c (asc_process_evict ts c1 s)"
  "in_buf c1 = in_buf c \<Longrightarrow> keeps2 c (asc_process_flushall ts c1 s)"
  unfolding asc_process_stats_def asc_process_verbosity_def asc_process_aggregate_def asc_process_evict_def asc_process_flushall_def
    asc_flush_def Let_def
  by (rule keeps2_all | simp add: asc_write_defs)+

lemma keeps2_map: "(\<And>x. m = Some x \<Longrightarrow> in_buf (fst (f x)) = in_buf c) \<Longrightarrow> keeps2 c (map_option f m)"
  by (cases m) (auto simp: keeps2_def)

lemma keeps2_klog: "in_buf c1 = in_buf c \<Longrightarrow> keeps2 c (asc_process_klog ts c1 s)"
  unfolding asc_process_klog_def asc_klog_number_def
  by (rule keeps2_map keeps2_all | simp add: asc_write_defs asc_klog_run_def)+

lemma keeps2_admin_config: "in_buf c1 = in_buf c \<Longrightarrow> keeps2 c (asc_process_config ts c1 s)"
  unfolding asc_process_config_def by (rule keeps2_klog keeps2_admin keeps2_rules | assumption)+

lemma keeps2_process: "keeps2 c (asc_process type ts c s)"
  by (cases type) (simp_all add: keeps2_storage keeps2_leases keeps2_sessions keeps2_admin keeps2_admin_config keeps2_read
      keeps2_qaread keeps2_intros asc_write_defs)

lemma keeps2_dispatch: "keeps2 c (asc_dispatch c s)"
  unfolding asc_dispatch_def Let_def
  by (rule keeps2_bind3 keeps_trans(1) [OF _ keeps_msghdr] keeps_trans(2) [OF _ keeps2_process] keeps2_rules
    | simp add: asc_write_server_error_def)+

lemma keeps2_complete: "keeps2 c (asc_complete_nread c s)"
proof -
  have "keeps2 c (asc_complete_store p c s)" for p
    unfolding asc_complete_store_def Let_def
    by (rule keeps2_all | simp add: asc_write_defs split: item_co_result.split item_store_result.split)+
  then show ?thesis
    unfolding asc_complete_nread_def
    by (intro keeps2_intros(5) keeps2_bind) (simp_all add: keeps2_intros asc_write_defs)
qed

end
