(* ===== verification/MC_Tokens.thy ===== *)
theory MC_Tokens
  imports MC_Ascii
begin

text \<open>
  The tokenizer against its specification: the words of a line, which are the maximal runs of bytes other
  than spaces.
\<close>

fun words_after :: "bytes \<Rightarrow> bytes \<Rightarrow> bytes list" where
  "words_after w [] = (if w = [] then [] else [w])"
| "words_after w (ch # cs) =
    (if ch = CHR '' '' then (if w = [] then words_after [] cs else w # words_after [] cs)
     else words_after (w @ [ch]) cs)"

definition words_of :: "bytes \<Rightarrow> bytes list" where
  "words_of line = words_after [] line"

definition words_opt :: "bytes option \<Rightarrow> bytes list" where
  "words_opt r = (case r of None \<Rightarrow> [] | Some line \<Rightarrow> words_of line)"

lemma words_of_simps [simp]:
  "words_of [] = []" "words_of (CHR '' '' # line) = words_of line"
  by (simp_all add: words_of_def)

lemma words_after_nonempty: "w' \<in> set (words_after w line) \<Longrightarrow> w' \<noteq> []"
  by (induction w line rule: words_after.induct) (auto split: if_splits)

text \<open>What a token points to: the text it covers and the rest of the line from there on.\<close>

definition tok_wf :: "token \<Rightarrow> bool" where
  "tok_wf t \<longleftrightarrow> (\<exists>v. tok_val t = Some v \<and> 0 < tok_len t \<and> tok_len t \<le> length v)"

lemma tok_text_Some [simp]: "tok_text \<lparr>tok_val = Some v, tok_len = k\<rparr> = take k v"
  by (simp add: tok_text_def)

lemma tok_wf_text: "tok_wf t \<Longrightarrow> length (tok_text t) = tok_len t"
  by (auto simp: tok_wf_def tok_text_def)

lemma tokenize_loop_spec:
  assumes "n > 0 \<or> w = []"
  shows "\<exists>ts v. asc_tokenize_loop n (w @ e) (length w) e = ts @ [\<lparr>tok_val = v, tok_len = 0\<rparr>]
    \<and> map tok_text ts = take n (words_after w e) \<and> words_opt v = drop n (words_after w e)
    \<and> (\<forall>t \<in> set ts. tok_wf t) \<and> (length ts < n \<longrightarrow> v = None)"
  using assms
proof (induction e arbitrary: n w)
  case Nil
  then show ?case
    by (cases n) (auto simp: words_opt_def tok_wf_def)
next
  case (Cons ch e)
  show ?case
  proof (cases n)
    case 0
    then show ?thesis using Cons.prems by (auto simp: words_opt_def words_of_def)
  next
    case (Suc m)
    consider "ch = CHR '' ''" "w = []" | "ch = CHR '' ''" "w \<noteq> []" | "ch \<noteq> CHR '' ''" by blast
    then show ?thesis
    proof cases
      case 1
      then show ?thesis using Suc Cons.IH [of n "[]"] by simp
    next
      case 2
      obtain ts v where "asc_tokenize_loop m e 0 e = ts @ [\<lparr>tok_val = v, tok_len = 0\<rparr>]"
        "map tok_text ts = take m (words_after [] e)" "words_opt v = drop m (words_after [] e)" "\<forall>t \<in> set ts. tok_wf t"
        "length ts < m \<longrightarrow> v = None"
        using Cons.IH [of m "[]"] by auto
      then show ?thesis
        using Suc 2 by (intro exI [of _ "\<lparr>tok_val = Some (w @ ch # e), tok_len = length w\<rparr> # ts"] exI [of _ v])
          (simp add: tok_wf_def)
    next
      case 3
      then show ?thesis using Suc Cons.IH [of n "w @ [ch]"] by simp
    qed
  qed
qed

lemma asc_tokenize_spec:
  obtains ts v where "asc_tokenize line n = ts @ [\<lparr>tok_val = v, tok_len = 0\<rparr>]"
    "map tok_text ts = take (n - 1) (words_of line)" "words_opt v = drop (n - 1) (words_of line)"
    "\<forall>t \<in> set ts. tok_wf t" "length ts < n - 1 \<Longrightarrow> v = None"
proof -
  obtain ts v where "asc_tokenize_loop (n - 1) ([] @ line) (length ([] :: bytes)) line = ts @ [\<lparr>tok_val = v, tok_len = 0\<rparr>]"
    "map tok_text ts = take (n - 1) (words_after [] line)" "words_opt v = drop (n - 1) (words_after [] line)"
    "\<forall>t \<in> set ts. tok_wf t" "length ts < n - 1 \<longrightarrow> v = None"
    using tokenize_loop_spec [of "n - 1" "[]" line] by blast
  then show thesis using that [of ts v] by (simp add: asc_tokenize_def words_of_def)
qed

subsection \<open>Numbers in a line\<close>

text \<open>The number parsers read on from a token to the end of the line; a number that is followed by a space
  is read as if the line ended there.\<close>

definition at_end :: "bytes \<Rightarrow> bool" where
  "at_end rest \<longleftrightarrow> rest = [] \<or> hd rest = CHR '' ''"

lemma c_digits_end: "at_end rest \<Longrightarrow> c_digits 10 n rest = (n, rest)"
  by (cases rest) (auto simp: at_end_def byte_nat_def)

lemma c_scan_dec_int_rest: "at_end rest \<Longrightarrow> c_scan 10 (dec_int i @ rest) = (i < 0, nat \<bar>i\<bar>, rest, True)"
  using c_digits_dec [of "nat \<bar>i\<bar>" rest] hd_dec_sign [of "nat i" rest] mc_skip_space_dec [of "nat i" rest]
  by (auto simp: c_scan_def dec_int_def c_isspace_def byte_nat_def c_digits_end Let_def)

lemma endptr_ok_end: "at_end rest \<Longrightarrow> endptr_ok rest True"
  by (cases rest) (auto simp: at_end_def endptr_ok_def c_isspace_def byte_nat_def)

lemma mc_strtol_word:
  "at_end rest \<Longrightarrow> - (2 ^ 31) \<le> i \<Longrightarrow> i < 2 ^ 31 \<Longrightarrow> mc_strtol (dec_int i @ rest) = Some i"
  by (simp add: mc_strtol_def c_strtoll_def c_scan_dec_int_rest endptr_ok_end to_int32_id)

lemma mc_strtoll_word:
  "at_end rest \<Longrightarrow> - (2 ^ 63) \<le> i \<Longrightarrow> i < 2 ^ 63 \<Longrightarrow> mc_strtoll (dec_int i @ rest) = Some i"
  by (simp add: mc_strtoll_def c_strtoll_def c_scan_dec_int_rest endptr_ok_end)

lemma dec_int_nat: "dec_int (int n) = dec n"
  by (simp add: dec_int_def)

lemma sint_small: "n < 2 ^ 63 \<Longrightarrow> \<not> sint (of_nat n :: u64) < 0"
proof -
  assume "n < 2 ^ 63"
  then have "sint (of_nat n :: u64) = int n"
    unfolding sint_sbintrunc' [symmetric] by (simp add: signed_of_nat signed_take_bit_int_eq_self)
  then show ?thesis by simp
qed

lemma mc_strtoul_word: "at_end rest \<Longrightarrow> n < 2 ^ 32 \<Longrightarrow> mc_strtoul (dec n @ rest) = Some (of_nat n)"
  using c_scan_dec_int_rest [of rest "int n"] sint_small [of n]
  by (simp add: mc_strtoul_def c_strtoull_def dec_int_nat endptr_ok_end unsigned_of_nat take_bit_nat_eq_self)

text \<open>C17: the tokens of a line are its words in order, as many as there is room for; the terminal token
  points to text whose words are the remaining ones, so that tokenizing that text again loses no word
  and repeats none.\<close>

theorem asc_tokenize_words:
  "map tok_text (butlast (asc_tokenize line (n + 2))) = take (n + 1) (words_of line)
    \<and> words_opt (tok_val (last (asc_tokenize line (n + 2)))) = drop (n + 1) (words_of line)"
proof -
  obtain ts v where "asc_tokenize line (n + 2) = ts @ [\<lparr>tok_val = v, tok_len = 0\<rparr>]"
    "map tok_text ts = take (n + 1) (words_of line)" "words_opt v = drop (n + 1) (words_of line)"
    by (rule asc_tokenize_spec [of line "n + 2"]) auto
  then show ?thesis by simp
qed

end
