(* ===== verification/MC_Store.thy ===== *)
theory MC_Store
  imports MC_Items "HOL-Library.Multiset"
begin

text \<open>
  The invariant of the item store: the hash table, the LRU queues and the free queues hold exactly
  the items whose flags say so, slabs and their tables are consistent, the reference count of a
  slab is the sum of those of its items, and the references the running code holds, a multiset of
  item pointers, are covered by the counts together with the pins of leases and sessions. One
  lemma per operation of the item layer shows that the operation keeps it.
\<close>

lemmas mc_upd = upd_item_def upd_slab_def upd_class_def upd_heapinfo_def upd_lruq_def
  slabclass_of_def heapinfo_of_def lruq_of_def clear_flag_def set_flag_def

declare split_paired_All [simp del] split_paired_Ex [simp del]

subsection \<open>The invariant\<close>

definition live :: "item \<Rightarrow> bool" where
  "live it \<longleftrightarrow> item_is_linked it \<or> item_is_slabbed it \<or> it_refcount it \<noteq> 0"

definition tables :: "mc \<Rightarrow> nat set" where
  "tables st = (\<Union>res. set (hi_slab_table (heapinfo_of res st)))"

definition nitems :: "mc \<Rightarrow> nat \<Rightarrow> nat" where
  "nitems st sl = sc_nitem (st_slabclass st (sl_id (st_slabs st sl)))"

text \<open>The item is part of a slab and not in the unused rest of the slab its class carves from.\<close>

definition carved :: "mc \<Rightarrow> ptr \<Rightarrow> bool" where
  "carved st p \<longleftrightarrow> fst p \<in> tables st \<and> snd p < nitems st (fst p)
     \<and> (\<forall>res cid i. sc_free_item (slabclass_of res st cid) = Some (fst p, i) \<longrightarrow> snd p < i)"

definition inv_index :: "mc \<Rightarrow> bool" where
  "inv_index st \<longleftrightarrow> assoc_inv (key_at st) (st_assoc st)
     \<and> assoc_items (st_assoc st) = {p. item_is_linked (heap_at st p)}"

definition inv_lruq :: "mc \<Rightarrow> bool" where
  "inv_lruq st \<longleftrightarrow> (\<forall>res cid. distinct (lruq_of res st cid)
     \<and> (\<forall>p. p \<in> set (lruq_of res st cid) \<longleftrightarrow>
          item_is_linked (heap_at st p) \<and> it_id (heap_at st p) = cid \<and> item_is_lease_holder (heap_at st p) = res))"

definition inv_free :: "mc \<Rightarrow> bool" where
  "inv_free st \<longleftrightarrow>
     (\<forall>res cid. distinct (sc_free_itemq (slabclass_of res st cid))
        \<and> sc_nfree_itemq (slabclass_of res st cid) = length (sc_free_itemq (slabclass_of res st cid))
        \<and> (\<forall>p \<in> set (sc_free_itemq (slabclass_of res st cid)).
             item_is_slabbed (heap_at st p) \<and> it_id (heap_at st p) = cid))
     \<and> (\<forall>cid. set (sc_free_itemq (st_slabclass st cid)) \<inter> set (sc_free_itemq (st_reserved_slabclass st cid)) = {})"

text \<open>\<open>X\<close> holds the slab that is between its owners, if any.\<close>

definition inv_tables :: "mc \<Rightarrow> bool" where
  "inv_tables st \<longleftrightarrow>
     (\<forall>res. distinct (hi_slab_table (heapinfo_of res st))
        \<and> hi_nslab (heapinfo_of res st) = length (hi_slab_table (heapinfo_of res st))
        \<and> set (hi_slab_lruq (heapinfo_of res st)) \<subseteq> set (hi_slab_table (heapinfo_of res st))
        \<and> (\<forall>sl \<in> set (hi_slab_table (heapinfo_of res st)). sl < st_next_slab st))
     \<and> set (hi_slab_table (st_heapinfo st)) \<inter> set (hi_slab_table (st_reserved_heapinfo st)) = {}"

definition inv_slabs :: "nat set \<Rightarrow> mc \<Rightarrow> bool" where
  "inv_slabs X st \<longleftrightarrow>
     (\<forall>cid. sc_nitem (st_reserved_slabclass st cid) = sc_nitem (st_slabclass st cid))
     \<and> (\<forall>res cid sl i. sc_free_item (slabclass_of res st cid) = Some (sl, i) \<longrightarrow>
          sl_id (st_slabs st sl) = cid \<and> sl \<in> set (hi_slab_table (heapinfo_of res st)) \<and> sl \<notin> X
          \<and> sc_nfree_item (slabclass_of res st cid) + i = sc_nitem (st_slabclass st cid)
          \<and> 0 < sc_nfree_item (slabclass_of res st cid))
     \<and> (\<forall>sl i. sl \<in> tables st \<longrightarrow> sl \<notin> X \<longrightarrow> i < nitems st sl \<longrightarrow> it_id (heap_at st (sl, i)) = sl_id (st_slabs st sl))"

definition inv_live :: "nat set \<Rightarrow> mc \<Rightarrow> bool" where
  "inv_live X st \<longleftrightarrow> (\<forall>p. live (heap_at st p) \<longrightarrow> carved st p \<and> fst p \<notin> X
     \<and> (item_is_slabbed (heap_at st p) \<longrightarrow> \<not> item_is_linked (heap_at st p) \<and> it_refcount (heap_at st p) = 0))"

definition inv_refs :: "nat set \<Rightarrow> mc \<Rightarrow> bool" where
  "inv_refs X st \<longleftrightarrow> (\<forall>sl. sl \<in> tables st \<longrightarrow> sl \<notin> X \<longrightarrow>
     unat (sl_refcount (st_slabs st sl)) = (\<Sum>i<nitems st sl. unat (it_refcount (heap_at st (sl, i)))))"

text \<open>The items that stay pinned while they are linked; \<open>item_unlink\<close> takes the pin of all but session
  items.\<close>

definition unpins :: "item \<Rightarrow> bool" where
  "unpins it \<longleftrightarrow> item_is_lease_holder it \<or> item_is_co_lease_holder it \<or> item_is_ptrans it \<or> item_is_hotkeys it"

definition pinned :: "item \<Rightarrow> bool" where
  "pinned it \<longleftrightarrow> unpins it \<or> item_is_sess it"

definition owned :: "ptr multiset \<Rightarrow> mc \<Rightarrow> bool" where
  "owned M st \<longleftrightarrow> (\<forall>p. count M p + (if item_is_linked (heap_at st p) \<and> pinned (heap_at st p) then 1 else 0)
     \<le> unat (it_refcount (heap_at st p)))"

definition store_invx :: "nat set \<Rightarrow> ptr multiset \<Rightarrow> mc \<Rightarrow> bool" where
  "store_invx X M st \<longleftrightarrow> inv_index st \<and> inv_lruq st \<and> inv_free st \<and> inv_tables st \<and> inv_slabs X st
     \<and> inv_live X st \<and> inv_refs X st \<and> owned M st"

abbreviation store_inv :: "ptr multiset \<Rightarrow> mc \<Rightarrow> bool" where
  "store_inv \<equiv> store_invx {}"

abbreviation table_room :: "nat \<Rightarrow> mc \<Rightarrow> bool" where
  "table_room k st \<equiv> assoc_room (set_hash_power (st_settings st)) k (st_assoc st)"

text \<open>Room for \<open>k\<close> steps: no slab count is within \<open>k\<close> of the width of the counter, and the hash
  table may take \<open>k\<close> more items.\<close>

definition room :: "nat \<Rightarrow> mc \<Rightarrow> bool" where
  "room k st \<longleftrightarrow> (\<forall>sl. unat (sl_refcount (st_slabs st sl)) + k < 65536)
     \<and> table_room k st"

lemma store_invD:
  assumes "store_invx X M st"
  shows "inv_index st" "inv_lruq st" "inv_free st" "inv_tables st" "inv_slabs X st" "inv_live X st"
    "inv_refs X st" "owned M st"
  using assms by (simp_all add: store_invx_def)

lemma store_invI:
  assumes "inv_index st" "inv_lruq st" "inv_free st" "inv_tables st" "inv_slabs X st" "inv_live X st"
    "inv_refs X st" "owned M st"
  shows "store_invx X M st"
  using assms by (simp add: store_invx_def)

lemma room_mono: "room k st \<Longrightarrow> j \<le> k \<Longrightarrow> room j st"
  unfolding room_def by (meson add_left_mono le_less_trans assoc_room_mono)

lemma room_cong:
  "st_slabs st' = st_slabs st \<Longrightarrow> st_assoc st' = st_assoc st \<Longrightarrow> st_settings st' = st_settings st \<Longrightarrow>
   room k st' = room k st"
  by (simp add: room_def)

lemma ownedD:
  "owned M st \<Longrightarrow> count M p + (if item_is_linked (heap_at st p) \<and> pinned (heap_at st p) then 1 else 0)
     \<le> unat (it_refcount (heap_at st p))"
  by (simp add: owned_def)

lemma owned_mono: "owned M st \<Longrightarrow> N \<subseteq># M \<Longrightarrow> owned N st"
  unfolding owned_def by (meson add_le_mono1 le_trans mset_subset_eq_count)

lemma store_inv_mono: "store_invx X M st \<Longrightarrow> N \<subseteq># M \<Longrightarrow> store_invx X N st"
  using owned_mono by (auto simp: store_invx_def)

lemma inv_liveD:
  assumes "inv_live X st" "live (heap_at st p)"
  shows "carved st p" "fst p \<notin> X"
    "item_is_slabbed (heap_at st p) \<Longrightarrow> \<not> item_is_linked (heap_at st p) \<and> it_refcount (heap_at st p) = 0"
  using assms by (auto simp: inv_live_def)

lemma inv_live_step:
  assumes "inv_live X st"
    and "\<And>q. live (heap_at st q) \<Longrightarrow> carved st q \<Longrightarrow> carved st' q"
    and "\<And>q. q \<noteq> p \<Longrightarrow> item_is_linked (heap_at st' q) = item_is_linked (heap_at st q)
      \<and> item_is_slabbed (heap_at st' q) = item_is_slabbed (heap_at st q)
      \<and> it_refcount (heap_at st' q) = it_refcount (heap_at st q)"
    and "live (heap_at st' p) \<Longrightarrow> carved st' p \<and> fst p \<notin> X
      \<and> (item_is_slabbed (heap_at st' p) \<longrightarrow> \<not> item_is_linked (heap_at st' p) \<and> it_refcount (heap_at st' p) = 0)"
  shows "inv_live X st'"
  unfolding inv_live_def
proof (intro allI impI)
  fix q assume l: "live (heap_at st' q)"
  show "carved st' q \<and> fst q \<notin> X \<and> (item_is_slabbed (heap_at st' q)
      \<longrightarrow> \<not> item_is_linked (heap_at st' q) \<and> it_refcount (heap_at st' q) = 0)"
  proof (cases "q = p")
    case True
    then show ?thesis using assms(4) l by simp
  next
    case False
    then have "live (heap_at st q)" using l assms(3) [OF False] by (simp add: live_def)
    then show ?thesis using inv_liveD [OF assms(1)] assms(2,3) False by metis
  qed
qed

text \<open>The reference a lookup returns, if any.\<close>

fun opt :: "'a option \<Rightarrow> 'a multiset" where
  "opt None = {#}"
| "opt (Some x) = {#x#}"

subsection \<open>Lookup\<close>

lemma item_find_iff:
  assumes "inv_index st"
  shows "item_find k st = Some p \<longleftrightarrow> item_is_linked (heap_at st p) \<and> key_at st p = k"
  using assms by (auto simp: inv_index_def item_find_def assoc_find_iff)

lemma item_find_None:
  assumes "inv_index st"
  shows "item_find k st = None \<longleftrightarrow> (\<forall>p. item_is_linked (heap_at st p) \<longrightarrow> key_at st p \<noteq> k)"
  using item_find_iff [OF assms, of k] by (metis not_None_eq option.distinct(1))

text \<open>The index depends only on the keys and the flags of linked items.\<close>

lemma inv_index_cong:
  assumes "inv_index st" "st_assoc st' = st_assoc st"
    "\<And>p. item_is_linked (heap_at st' p) = item_is_linked (heap_at st p)"
    "\<And>p. item_is_linked (heap_at st p) \<Longrightarrow> key_at st' p = key_at st p"
  shows "inv_index st'"
proof -
  have "assoc_inv (key_at st') (st_assoc st) = assoc_inv (key_at st) (st_assoc st)"
    using assms by (intro assoc_inv_cong) (auto simp: inv_index_def)
  then show ?thesis using assms by (auto simp: inv_index_def)
qed

subsection \<open>Changes of one header\<close>

text \<open>A change that keeps the flags of the queues, the class and the count, and of a linked item also
  the key and the kind.\<close>

lemma upd_item_inv:
  assumes inv: "store_invx X M st"
    and same: "item_is_linked (f (heap_at st p)) = item_is_linked (heap_at st p)"
      "item_is_slabbed (f (heap_at st p)) = item_is_slabbed (heap_at st p)"
      "it_id (f (heap_at st p)) = it_id (heap_at st p)"
      "it_refcount (f (heap_at st p)) = it_refcount (heap_at st p)"
    and key: "item_is_linked (heap_at st p) \<Longrightarrow> item_key (f (heap_at st p)) = item_key (heap_at st p)"
    and kind: "item_is_linked (heap_at st p) \<Longrightarrow> item_is_lease_holder (f (heap_at st p)) = item_is_lease_holder (heap_at st p)"
      "item_is_linked (heap_at st p) \<Longrightarrow> pinned (f (heap_at st p)) \<Longrightarrow> pinned (heap_at st p)"
  shows "store_invx X M (upd_item p f st)"
proof -
  let ?st = "upd_item p f st"
  have hd: "item_is_linked (heap_at ?st q) = item_is_linked (heap_at st q)"
    "item_is_slabbed (heap_at ?st q) = item_is_slabbed (heap_at st q)"
    "it_id (heap_at ?st q) = it_id (heap_at st q)" "it_refcount (heap_at ?st q) = it_refcount (heap_at st q)" for q
    using same by (simp_all add: upd_item_def)
  have lk: "item_is_linked (heap_at st q) \<Longrightarrow> key_at ?st q = key_at st q"
    "item_is_linked (heap_at st q) \<Longrightarrow> item_is_lease_holder (heap_at ?st q) = item_is_lease_holder (heap_at st q)"
    "item_is_linked (heap_at st q) \<Longrightarrow> pinned (heap_at ?st q) \<Longrightarrow> pinned (heap_at st q)" for q
    using key kind by (auto simp: upd_item_def key_at_def split: if_splits)
  have [simp]: "slabclass_of res ?st = slabclass_of res st" "heapinfo_of res ?st = heapinfo_of res st"
    "lruq_of res ?st = lruq_of res st" "st_slabs ?st = st_slabs st" "st_slabclass ?st = st_slabclass st"
    "st_reserved_slabclass ?st = st_reserved_slabclass st" "st_heapinfo ?st = st_heapinfo st"
    "st_reserved_heapinfo ?st = st_reserved_heapinfo st" "st_next_slab ?st = st_next_slab st"
    "st_assoc ?st = st_assoc st" for res
    by (simp_all add: mc_upd)
  have [simp]: "tables ?st = tables st" "nitems ?st = nitems st" "carved ?st = carved st"
    by (simp_all add: tables_def nitems_def carved_def fun_eq_iff)
  have [simp]: "live (heap_at ?st q) = live (heap_at st q)" for q by (simp add: live_def hd)
  note i = store_invD [OF inv]
  show ?thesis
  proof (rule store_invI)
    show "inv_index ?st" using i(1) by (rule inv_index_cong) (simp_all add: hd lk)
    show "inv_lruq ?st" using i(2) lk(2) by (auto simp: inv_lruq_def hd)
    show "inv_free ?st" using i(3) by (auto simp: inv_free_def hd)
    show "inv_tables ?st" using i(4) by (simp add: inv_tables_def)
    show "inv_slabs X ?st" using i(5) by (simp add: inv_slabs_def hd)
    show "inv_live X ?st" using i(6) by (simp add: inv_live_def hd)
    show "inv_refs X ?st" using i(7) by (simp add: inv_refs_def hd)
    show "owned M ?st" unfolding owned_def
    proof
      fix q
      show "count M q + (if item_is_linked (heap_at ?st q) \<and> pinned (heap_at ?st q) then 1 else 0)
          \<le> unat (it_refcount (heap_at ?st q))" using lk(3) [of q] ownedD [OF i(8), of q] by (auto simp: hd split: if_splits)
    qed
  qed
qed

lemma room_upd_item [simp]: "room k (upd_item p f st) = room k st"
  by (simp add: room_def upd_item_def)

subsection \<open>Reference counts\<close>

lemma sum_upd:
  fixes f :: "nat \<Rightarrow> nat"
  assumes "i < n" "\<And>j. j \<noteq> i \<Longrightarrow> g j = f j"
  shows "(\<Sum>j<n. g j) + f i = (\<Sum>j<n. f j) + g i"
proof -
  have "(\<Sum>j<n. g j) = g i + (\<Sum>j\<in>{..<n} - {i}. g j)" "(\<Sum>j<n. f j) = f i + (\<Sum>j\<in>{..<n} - {i}. f j)"
    using assms(1) by (simp_all add: sum.remove)
  moreover have "(\<Sum>j\<in>{..<n} - {i}. g j) = (\<Sum>j\<in>{..<n} - {i}. f j)"
    using assms(2) by (intro sum.cong) auto
  ultimately show ?thesis by simp
qed

text \<open>The state after the count of \<open>p\<close> and of its slab changed by the same amount.\<close>

lemma refcount_inv:
  assumes inv: "store_invx X M st"
    and p: "carved st p" "fst p \<notin> X" "\<not> item_is_slabbed (heap_at st p)"
    and st': "st' = upd_slab (fst p) (\<lambda>s. s\<lparr>sl_refcount := sr\<rparr>) (upd_item p (\<lambda>it. it\<lparr>it_refcount := r\<rparr>) st)"
    and r: "unat sr + unat (it_refcount (heap_at st p)) = unat (sl_refcount (st_slabs st (fst p))) + unat r"
    and own: "count M' p + (if item_is_linked (heap_at st p) \<and> pinned (heap_at st p) then 1 else 0) \<le> unat r"
      "\<And>q. q \<noteq> p \<Longrightarrow> count M' q \<le> count M q"
  shows "store_invx X M' st'"
proof -
  obtain sl i where sl: "p = (sl, i)" by (cases p)
  have hd: "item_is_linked (heap_at st' q) = item_is_linked (heap_at st q)"
    "item_is_slabbed (heap_at st' q) = item_is_slabbed (heap_at st q)"
    "it_id (heap_at st' q) = it_id (heap_at st q)" "key_at st' q = key_at st q"
    "item_is_lease_holder (heap_at st' q) = item_is_lease_holder (heap_at st q)"
    "pinned (heap_at st' q) = pinned (heap_at st q)"
    "it_refcount (heap_at st' q) = (if q = p then r else it_refcount (heap_at st q))"
    "sl_id (st_slabs st' s) = sl_id (st_slabs st s)" for q s
    by (simp_all add: st' mc_upd item_flag_defs key_at_def item_key_def item_key_off_def pinned_def unpins_def)
  have [simp]: "slabclass_of res st' = slabclass_of res st" "heapinfo_of res st' = heapinfo_of res st"
    "lruq_of res st' = lruq_of res st" "st_slabclass st' = st_slabclass st"
    "st_reserved_slabclass st' = st_reserved_slabclass st" "st_heapinfo st' = st_heapinfo st"
    "st_reserved_heapinfo st' = st_reserved_heapinfo st" "st_next_slab st' = st_next_slab st"
    "st_assoc st' = st_assoc st" for res
    by (simp_all add: st' mc_upd)
  have [simp]: "tables st' = tables st" "nitems st' = nitems st" "carved st' = carved st"
    by (simp_all add: tables_def nitems_def carved_def fun_eq_iff hd)
  note i = store_invD [OF inv]
  show ?thesis
  proof (rule store_invI)
    show "inv_index st'" using i(1) by (rule inv_index_cong) (simp_all add: hd)
    show "inv_lruq st'" using i(2) by (simp add: inv_lruq_def hd)
    show "inv_free st'" using i(3) by (simp add: inv_free_def hd)
    show "inv_tables st'" using i(4) by (simp add: inv_tables_def)
    show "inv_slabs X st'" using i(5) by (simp add: inv_slabs_def hd)
    show "inv_live X st'" using p by (intro inv_live_step [OF i(6), of st' p]) (simp_all add: hd)
    show "owned M' st'" unfolding owned_def
    proof
      fix q
      show "count M' q + (if item_is_linked (heap_at st' q) \<and> pinned (heap_at st' q) then 1 else 0)
          \<le> unat (it_refcount (heap_at st' q))"
      proof (cases "q = p")
        case True
        then show ?thesis using own(1) by (simp add: hd)
      next
        case False
        then show ?thesis using own(2) [OF False] ownedD [OF i(8), of q] by (simp add: hd split: if_splits)
      qed
    qed
    show "inv_refs X st'" unfolding inv_refs_def
    proof (intro allI impI)
      fix s assume s: "s \<in> tables st'" "s \<notin> X"
      have old: "unat (sl_refcount (st_slabs st s)) = (\<Sum>j<nitems st s. unat (it_refcount (heap_at st (s, j))))"
        using i(7) s by (simp add: inv_refs_def)
      show "unat (sl_refcount (st_slabs st' s)) = (\<Sum>j<nitems st' s. unat (it_refcount (heap_at st' (s, j))))"
      proof (cases "s = sl")
        case True
        have "i < nitems st sl" using p(1) by (simp add: carved_def sl)
        then have "(\<Sum>j<nitems st sl. unat (it_refcount (heap_at st' (sl, j)))) + unat (it_refcount (heap_at st p))
            = (\<Sum>j<nitems st sl. unat (it_refcount (heap_at st (sl, j)))) + unat r"
          using sum_upd [of i "nitems st sl" "\<lambda>j. unat (it_refcount (heap_at st' (sl, j)))"
              "\<lambda>j. unat (it_refcount (heap_at st (sl, j)))"] by (simp add: hd sl)
        moreover have "sl_refcount (st_slabs st' sl) = sr" by (simp add: st' mc_upd sl)
        ultimately show ?thesis using old r True by (simp add: sl)
      next
        case False
        then have "st_slabs st' s = st_slabs st s" by (simp add: st' mc_upd sl)
        then show ?thesis using old False by (simp add: hd sl)
      qed
    qed
  qed
qed

lemma unat_slab_ge:
  assumes "store_invx X M st" "carved st p" "fst p \<notin> X"
  shows "unat (it_refcount (heap_at st p)) \<le> unat (sl_refcount (st_slabs st (fst p)))"
proof -
  have "unat (sl_refcount (st_slabs st (fst p))) = (\<Sum>i<nitems st (fst p). unat (it_refcount (heap_at st (fst p, i))))"
    "snd p < nitems st (fst p)"
    using store_invD(7) [OF assms(1)] assms(2,3) by (simp_all add: inv_refs_def carved_def)
  then show ?thesis using member_le_sum [of "snd p" "{..<nitems st (fst p)}"
      "\<lambda>i. unat (it_refcount (heap_at st (fst p, i)))"] by simp
qed

lemma unat_inc: "unat w + 1 < 65536 \<Longrightarrow> unat (w + 1) = unat (w :: u16) + 1"
  by (simp add: unat_word_ariths)

lemma unat_dec: "w \<noteq> 0 \<Longrightarrow> unat (w - 1) + 1 = unat (w :: u16)"
  by (metis Suc_eq_plus1 Suc_pred' unat_gt_0 unat_minus_one)

lemma item_acquire_inv:
  assumes inv: "store_invx X M st" and room: "room (Suc k) st"
    and p: "carved st p" "fst p \<notin> X" "\<not> item_is_slabbed (heap_at st p)"
  shows "store_invx X (add_mset p M) (item_acquire_refcount p st)" "room k (item_acquire_refcount p st)"
proof -
  let ?r = "it_refcount (heap_at st p)" and ?s = "sl_refcount (st_slabs st (fst p))"
  have s: "unat ?s + Suc k < 65536" using room by (simp add: room_def)
  then have u: "unat (?s + 1) = unat ?s + 1" "unat (?r + 1) = unat ?r + 1"
    using unat_slab_ge [OF inv p(1,2)] by (simp_all add: unat_inc)
  have eq: "item_acquire_refcount p st = upd_slab (fst p) (\<lambda>s. s\<lparr>sl_refcount := ?s + 1\<rparr>)
      (upd_item p (\<lambda>it. it\<lparr>it_refcount := ?r + 1\<rparr>) st)"
    by (simp add: item_acquire_refcount_def slab_acquire_refcount_def mc_upd item_2_slab_def)
  show "store_invx X (add_mset p M) (item_acquire_refcount p st)"
    using ownedD [OF store_invD(8) [OF inv], of p] u
    by (intro refcount_inv [OF inv p eq]) (auto split: if_splits)
  show "room k (item_acquire_refcount p st)"
    using room_mono [OF room, of k] room u s by (auto simp: room_def eq mc_upd intro: less_trans)
qed

lemma item_release_inv:
  assumes inv: "store_invx X (add_mset p M) st" and room: "room k st"
  shows "store_invx X M (item_release_refcount p st)" "room k (item_release_refcount p st)"
proof -
  let ?r = "it_refcount (heap_at st p)" and ?s = "sl_refcount (st_slabs st (fst p))"
  have o: "Suc (count M p) + (if item_is_linked (heap_at st p) \<and> pinned (heap_at st p) then 1 else 0) \<le> unat ?r"
    using ownedD [OF store_invD(8) [OF inv], of p] by simp
  then have r0: "?r \<noteq> 0" by (metis le_zero_eq add_Suc nat.distinct(1) unat_0)
  then have lv: "live (heap_at st p)" by (simp add: live_def)
  note l = inv_liveD [OF store_invD(6) [OF inv] lv]
  have "?s \<noteq> 0" using unat_slab_ge [OF inv l(1,2)] r0 by (metis le_zero_eq unat_0 unat_eq_0)
  then have u: "unat (?s - 1) + 1 = unat ?s" "unat (?r - 1) + 1 = unat ?r" using r0 unat_dec by blast+
  have eq: "item_release_refcount p st = upd_slab (fst p) (\<lambda>s. s\<lparr>sl_refcount := ?s - 1\<rparr>)
      (upd_item p (\<lambda>it. it\<lparr>it_refcount := ?r - 1\<rparr>) st)"
    by (simp add: item_release_refcount_def slab_release_refcount_def mc_upd item_2_slab_def)
  show "store_invx X M (item_release_refcount p st)"
    using o u l r0 by (intro refcount_inv [OF inv _ _ _ eq]) auto
  show "room k (item_release_refcount p st)"
    unfolding room_def
  proof
    show "table_room k (item_release_refcount p st)"
      using room by (simp add: room_def eq mc_upd)
    show "\<forall>sl. unat (sl_refcount (st_slabs (item_release_refcount p st) sl)) + k < 65536"
    proof
      fix sl
      have "unat (sl_refcount (st_slabs st sl)) + k < 65536" using room by (simp add: room_def)
      then show "unat (sl_refcount (st_slabs (item_release_refcount p st) sl)) + k < 65536"
        using u(1) by (cases "sl = fst p") (simp_all add: eq mc_upd)
    qed
  qed
qed

subsection \<open>Free queues\<close>

text \<open>What no operation on single items changes.\<close>

definition frame :: "mc \<Rightarrow> mc \<Rightarrow> bool" where
  "frame st st' \<longleftrightarrow> st_settings st' = st_settings st \<and> st_time st' = st_time st
     \<and> st_slabclass_max_id st' = st_slabclass_max_id st
     \<and> (\<forall>cid. sc_size (st_slabclass st' cid) = sc_size (st_slabclass st cid)
          \<and> sc_nitem (st_slabclass st' cid) = sc_nitem (st_slabclass st cid))
     \<and> st_lease_current_token st' = st_lease_current_token st"

lemma frame_refl [simp]: "frame st st"
  by (simp add: frame_def)

lemma frame_trans [trans]: "frame st st' \<Longrightarrow> frame st' st'' \<Longrightarrow> frame st st''"
  by (simp add: frame_def)

lemma frame_upd_item [simp]: "frame st (upd_item p f st)"
  by (simp add: frame_def mc_upd)

lemma frame_refcount [simp]:
  "frame st (item_acquire_refcount p st)" "frame st (item_release_refcount p st)"
  by (simp_all add: frame_def item_acquire_refcount_def item_release_refcount_def
      slab_acquire_refcount_def slab_release_refcount_def mc_upd)

lemma put_freeq_inv:
  assumes inv: "store_invx X M st"
    and p: "carved st p" "fst p \<notin> X" "\<not> live (heap_at st p)"
  shows "store_invx X M (slab_put_item_into_freeq res p st)"
proof -
  let ?cid = "it_id (heap_at st p)"
  let ?st = "slab_put_item_into_freeq res p st"
  note d = slab_put_item_into_freeq_def mc_upd Let_def
  have hd: "item_is_linked (heap_at ?st q) = item_is_linked (heap_at st q)"
    "item_is_slabbed (heap_at ?st q) \<longleftrightarrow> q = p \<or> item_is_slabbed (heap_at st q)"
    "it_id (heap_at ?st q) = it_id (heap_at st q)" "it_refcount (heap_at ?st q) = it_refcount (heap_at st q)"
    "key_at ?st q = key_at st q" "item_is_lease_holder (heap_at ?st q) = item_is_lease_holder (heap_at st q)"
    "pinned (heap_at ?st q) = pinned (heap_at st q)" for q
    by (auto simp: d item_flag_defs key_at_def item_key_def item_key_off_def pinned_def unpins_def)
  have [simp]: "heapinfo_of r ?st = heapinfo_of r st"
    "lruq_of r ?st = lruq_of r st" "st_slabs ?st = st_slabs st" "st_heapinfo ?st = st_heapinfo st"
    "st_reserved_heapinfo ?st = st_reserved_heapinfo st" "st_next_slab ?st = st_next_slab st"
    "st_assoc ?st = st_assoc st" for r
    by (simp_all add: d)
  have sc: "sc_nitem (slabclass_of r ?st c) = sc_nitem (slabclass_of r st c)"
    "sc_nitem (st_slabclass ?st c) = sc_nitem (st_slabclass st c)"
    "sc_nitem (st_reserved_slabclass ?st c) = sc_nitem (st_reserved_slabclass st c)"
    "sc_nfree_item (slabclass_of r ?st c) = sc_nfree_item (slabclass_of r st c)"
    "sc_free_item (slabclass_of r ?st c) = sc_free_item (slabclass_of r st c)"
    "sc_free_itemq (slabclass_of r ?st c) = (if r = res \<and> c = ?cid then p # sc_free_itemq (slabclass_of r st c)
       else sc_free_itemq (slabclass_of r st c))"
    "sc_nfree_itemq (slabclass_of r ?st c) = (if r = res \<and> c = ?cid then Suc (sc_nfree_itemq (slabclass_of r st c))
       else sc_nfree_itemq (slabclass_of r st c))" for r c
    by (simp_all add: d)
  have [simp]: "tables ?st = tables st" "nitems ?st = nitems st" "carved ?st = carved st"
    by (simp_all add: tables_def nitems_def carved_def fun_eq_iff sc)
  note i = store_invD [OF inv]
  have np: "p \<notin> set (sc_free_itemq (slabclass_of r st c))" for r c
    using i(3) p(3) by (auto simp: inv_free_def live_def)
  have sc2: "set (sc_free_itemq (st_slabclass st c)) = set (sc_free_itemq (slabclass_of False st c))"
    "set (sc_free_itemq (st_reserved_slabclass st c)) = set (sc_free_itemq (slabclass_of True st c))" for st c
    by (simp_all add: slabclass_of_def)
  show ?thesis
  proof (rule store_invI)
    show "inv_index ?st" using i(1) by (rule inv_index_cong) (simp_all add: hd)
    show "inv_lruq ?st" using i(2) by (simp add: inv_lruq_def hd)
    show "inv_free ?st" using i(3) np unfolding inv_free_def sc2 by (auto simp: hd sc)
    show "inv_tables ?st" using i(4) by (simp add: inv_tables_def)
    show "inv_slabs X ?st" using i(5) by (simp add: inv_slabs_def hd sc)
    show "inv_live X ?st" using p by (intro inv_live_step [OF i(6), of ?st p]) (simp_all add: hd live_def)
    show "inv_refs X ?st" using i(7) by (simp add: inv_refs_def hd)
    show "owned M ?st" using i(8) by (simp add: owned_def hd)
  qed
qed

lemma item_free_def':
  "item_free p st = slab_put_item_into_freeq ((item_is_lease_holder (heap_at st p) \<or> item_has_co_lease (heap_at st p)
     \<or> item_is_sess (heap_at st p)) \<and> slab_has_reserved_slabs st) p st"
  by (auto simp: item_free_def slab_put_item_def slab_put_reserved_item_def Let_def)

lemma item_free_inv:
  assumes "store_invx X M st" "carved st p" "fst p \<notin> X" "\<not> live (heap_at st p)"
  shows "store_invx X M (item_free p st)"
  unfolding item_free_def' by (rule put_freeq_inv [OF assms])

lemma item_free_frame [simp]:
  "frame st (item_free p st)" "room k (item_free p st) = room k st"
  "heap_at (item_free p st) q = (if q = p then (heap_at st p)\<lparr>it_flags := insert ITEM_SLABBED (it_flags (heap_at st p))\<rparr>
     else heap_at st q)"
  "st_cas_id (item_free p st) = st_cas_id st"
  by (simp_all add: item_free_def' slab_put_item_into_freeq_def mc_upd Let_def frame_def room_def)

subsection \<open>Unlinking\<close>

text \<open>What \<open>item_unlink\<close> and \<open>item_reuse\<close> share.\<close>

definition unlink_core :: "ptr \<Rightarrow> mc \<Rightarrow> mc option" where
  "unlink_core p st = do { st \<leftarrow> item_assoc_delete p (clear_flag ITEM_LINKED p st); item_unlink_q p st }"

lemma unlink_core_inv:
  assumes inv: "store_invx X M st" and lk: "item_is_linked (heap_at st p)"
  obtains st' where "unlink_core p st = Some st'"
    "store_invx X (if pinned (heap_at st p) then add_mset p M else M) st'"
    "st_heap st' = (st_heap st)(p := (heap_at st p)\<lparr>it_flags := it_flags (heap_at st p) - {ITEM_LINKED}\<rparr>)"
    "frame st st'" "st_slabs st' = st_slabs st" "\<forall>res. slabclass_of res st' = slabclass_of res st"
    "\<forall>res. heapinfo_of res st' = heapinfo_of res st" "st_cas_id st' = st_cas_id st" "carved st' = carved st"
    "\<forall>k. room k st \<longrightarrow> room k st' \<and> table_room (Suc k) st'"
proof -
  note i = store_invD [OF inv]
  let ?c = "clear_flag ITEM_LINKED p st"
  let ?it = "heap_at st p"
  have k: "key_at ?c = key_at st" by (auto simp: fun_eq_iff key_at_def mc_upd item_key_def item_key_off_def item_flag_defs)
  have "assoc_inv (key_at st) (st_assoc st)" using i(1) by (simp add: inv_index_def)
  moreover have "assoc_find (key_at st) (key_at st p) (st_assoc st) = Some p"
    using item_find_iff [OF i(1), of "key_at st p" p] lk by (simp add: item_find_def)
  ultimately obtain a where a: "assoc_delete (key_at st) (key_at st p) (st_assoc st) = Some a"
    "assoc_inv (key_at st) a" "assoc_items a = assoc_items (st_assoc st) - {p}"
    "assoc_count (st_assoc st) = Suc (assoc_count a)"
    by (rule assoc_delete_inv)
  let ?q = "lruq_of (item_is_lease_holder ?it) st (it_id ?it)"
  have pq: "p \<in> set ?q" "distinct ?q" using i(2) lk by (simp_all add: inv_lruq_def)
  define st' where "st' = upd_lruq (item_is_lease_holder ?it) (it_id ?it) (remove1 p ?q) (?c\<lparr>st_assoc := a\<rparr>)"
  have "st_assoc ?c = st_assoc st" by (simp add: mc_upd)
  then have "item_assoc_delete p ?c = Some (?c\<lparr>st_assoc := a\<rparr>)" using a(1) by (simp add: item_assoc_delete_def k)
  moreover have "item_is_lease_holder (heap_at (?c\<lparr>st_assoc := a\<rparr>) p) = item_is_lease_holder ?it"
    "it_id (heap_at (?c\<lparr>st_assoc := a\<rparr>) p) = it_id ?it" "lruq_of r (?c\<lparr>st_assoc := a\<rparr>) = lruq_of r st" for r
    by (simp_all add: mc_upd item_flag_defs)
  ultimately have eq: "unlink_core p st = Some st'"
    using pq(1) by (simp add: unlink_core_def item_unlink_q_def tq_remove_def st'_def Let_def)
  have hp: "st_heap st' = (st_heap st)(p := ?it\<lparr>it_flags := it_flags ?it - {ITEM_LINKED}\<rparr>)"
    by (simp add: st'_def mc_upd)
  have hd: "item_is_linked (heap_at st' q) \<longleftrightarrow> q \<noteq> p \<and> item_is_linked (heap_at st q)"
    "item_is_slabbed (heap_at st' q) = item_is_slabbed (heap_at st q)"
    "it_id (heap_at st' q) = it_id (heap_at st q)" "it_refcount (heap_at st' q) = it_refcount (heap_at st q)"
    "key_at st' q = key_at st q" "item_is_lease_holder (heap_at st' q) = item_is_lease_holder (heap_at st q)"
    "pinned (heap_at st' q) = pinned (heap_at st q)" for q
    by (auto simp: hp item_flag_defs key_at_def item_key_def item_key_off_def pinned_def unpins_def)
  have same [simp]: "heapinfo_of r st' = heapinfo_of r st" "slabclass_of r st' = slabclass_of r st"
    "st_slabs st' = st_slabs st" "st_heapinfo st' = st_heapinfo st" "st_slabclass st' = st_slabclass st"
    "st_reserved_slabclass st' = st_reserved_slabclass st"
    "st_reserved_heapinfo st' = st_reserved_heapinfo st" "st_next_slab st' = st_next_slab st"
    "st_assoc st' = a" for r
    by (simp_all add: st'_def mc_upd)
  have cv [simp]: "tables st' = tables st" "nitems st' = nitems st" "carved st' = carved st"
    by (simp_all add: tables_def nitems_def carved_def fun_eq_iff)
  have lq: "lruq_of r st' c = (if r = item_is_lease_holder ?it \<and> c = it_id ?it then remove1 p ?q else lruq_of r st c)" for r c
    by (simp add: st'_def mc_upd)
  have "store_invx X (if pinned ?it then add_mset p M else M) st'"
  proof (rule store_invI)
    show "inv_index st'" using a(2,3) i(1) assoc_inv_cong [of a "key_at st" "key_at st'"]
      by (auto simp: inv_index_def hd)
    show "inv_lruq st'" using i(2) pq by (auto simp: inv_lruq_def hd lq)
    show "inv_free st'" using i(3) by (simp add: inv_free_def hd)
    show "inv_tables st'" using i(4) by (simp add: inv_tables_def)
    show "inv_slabs X st'" using i(5) by (simp add: inv_slabs_def hd)
    show "inv_live X st'" using inv_liveD [OF i(6), of p] lk
      by (intro inv_live_step [OF i(6), of st' p]) (auto simp: hd live_def)
    show "inv_refs X st'" using i(7) by (simp add: inv_refs_def hd)
    show "owned (if pinned ?it then add_mset p M else M) st'" unfolding owned_def
    proof
      fix q
      show "count (if pinned ?it then add_mset p M else M) q + (if item_is_linked (heap_at st' q) \<and> pinned (heap_at st' q) then 1 else 0)
          \<le> unat (it_refcount (heap_at st' q))" using ownedD [OF i(8), of q] lk by (auto simp: hd split: if_splits)
    qed
  qed
  moreover have f: "frame st st'" "st_cas_id st' = st_cas_id st" by (simp_all add: st'_def frame_def mc_upd)
  moreover have "\<forall>k. room k st \<longrightarrow> room k st' \<and> table_room (Suc k) st'"
    using f(1) a(4) by (auto simp: room_def assoc_room_def frame_def)
  ultimately show thesis using that [OF eq _ hp _ same(3)] by simp
qed

lemma unlink_core_release:
  "unlink_core p (item_release_refcount p st) = map_option (item_release_refcount p) (unlink_core p st)"
proof -
  let ?r = "item_release_refcount p"
  note d = item_release_refcount_def slab_release_refcount_def mc_upd
  have k: "key_at (?r s) = key_at s" for s
    by (auto simp: fun_eq_iff key_at_def d item_key_def item_key_off_def item_flag_defs)
  have a: "st_assoc (?r s) = st_assoc s" "(?r s)\<lparr>st_assoc := b\<rparr> = ?r (s\<lparr>st_assoc := b\<rparr>)" for s b
    by (simp add: d) (intro mc.equality; simp add: d)
  have "clear_flag ITEM_LINKED p (?r st) = ?r (clear_flag ITEM_LINKED p st)"
    by (intro mc.equality) (simp_all add: d fun_eq_iff item.equality)
  moreover have "item_assoc_delete p (?r s) = map_option ?r (item_assoc_delete p s)" for s
    by (simp add: item_assoc_delete_def k a split: option.splits)
  moreover have "item_unlink_q p (?r s) = map_option ?r (item_unlink_q p s)" for s
  proof -
    have "item_is_lease_holder (heap_at (?r s) p) = item_is_lease_holder (heap_at s p)"
      "it_id (heap_at (?r s) p) = it_id (heap_at s p)" "lruq_of b (?r s) = lruq_of b s"
      for b by (simp_all add: d item_flag_defs)
    moreover have "upd_lruq b c q (?r s) = ?r (upd_lruq b c q s)" for b c q
      by (intro mc.equality) (simp_all add: d)
    ultimately show ?thesis by (simp add: item_unlink_q_def Let_def split: option.splits)
  qed
  ultimately show ?thesis
    by (cases "item_assoc_delete p (clear_flag ITEM_LINKED p st)") (simp_all add: unlink_core_def)
qed

lemma refcount_same [simp]:
  "slabclass_of res (item_release_refcount p st) = slabclass_of res st"
  "slabclass_of res (item_acquire_refcount p st) = slabclass_of res st"
  "heapinfo_of res (item_release_refcount p st) = heapinfo_of res st"
  "heapinfo_of res (item_acquire_refcount p st) = heapinfo_of res st"
  "carved (item_release_refcount p st) = carved st" "carved (item_acquire_refcount p st) = carved st"
proof -
  note d = item_release_refcount_def slab_release_refcount_def item_acquire_refcount_def slab_acquire_refcount_def mc_upd
  have s: "slabclass_of r (item_release_refcount p st) = slabclass_of r st"
    "slabclass_of r (item_acquire_refcount p st) = slabclass_of r st"
    "heapinfo_of r (item_release_refcount p st) = heapinfo_of r st"
    "heapinfo_of r (item_acquire_refcount p st) = heapinfo_of r st" for r by (simp_all add: d)
  then show "slabclass_of res (item_release_refcount p st) = slabclass_of res st"
    "slabclass_of res (item_acquire_refcount p st) = slabclass_of res st"
    "heapinfo_of res (item_release_refcount p st) = heapinfo_of res st"
    "heapinfo_of res (item_acquire_refcount p st) = heapinfo_of res st" by blast+
  have "nitems (item_release_refcount p st) = nitems st" "nitems (item_acquire_refcount p st) = nitems st"
    by (simp_all add: fun_eq_iff nitems_def d)
  then show "carved (item_release_refcount p st) = carved st" "carved (item_acquire_refcount p st) = carved st"
    by (simp_all add: carved_def tables_def s fun_eq_iff)
qed

lemma heap_release:
  "st_heap (item_release_refcount p st) = (st_heap st)(p := (heap_at st p)\<lparr>it_refcount := it_refcount (heap_at st p) - 1\<rparr>)"
  "st_heap (item_acquire_refcount p st) = (st_heap st)(p := (heap_at st p)\<lparr>it_refcount := it_refcount (heap_at st p) + 1\<rparr>)"
  "st_cas_id (item_release_refcount p st) = st_cas_id st" "st_cas_id (item_acquire_refcount p st) = st_cas_id st"
  by (simp_all add: item_release_refcount_def slab_release_refcount_def item_acquire_refcount_def
      slab_acquire_refcount_def mc_upd)

lemma item_unlink_eq:
  assumes "item_is_linked (heap_at st p)"
  shows "item_unlink p st = do {
      st \<leftarrow> unlink_core p st;
      let st = (if unpins (heap_at st p) then item_release_refcount p st else st);
      Some (if it_refcount (heap_at st p) = 0 then item_free p st else st)
    }"
proof -
  let ?st = "if unpins (heap_at st p) then item_unset_pinned p st else st"
  have l: "item_is_linked (heap_at ?st p)"
    using assms by (simp add: item_unset_pinned_def heap_release item_flag_defs)
  have "item_unlink p st = do { s \<leftarrow> unlink_core p ?st; Some (if it_refcount (heap_at s p) = 0 then item_free p s else s) }"
    using l by (auto simp: item_unlink_def Let_def unlink_core_def unpins_def bind_assoc)
  moreover have "unpins (heap_at s p) = unpins (heap_at st p)" if "unlink_core p st = Some s" for s
    using that by (auto simp: unlink_core_def item_assoc_delete_def item_unlink_q_def Let_def mc_upd unpins_def
        item_flag_defs bind_eq_Some_conv split: option.splits)
  ultimately show ?thesis
    by (cases "unlink_core p st") (auto simp: item_unset_pinned_def unlink_core_release Let_def)
qed

lemma item_unlink_inv:
  assumes inv: "store_invx X M st" and lk: "item_is_linked (heap_at st p)" and room: "room k st"
  obtains st' r F where "item_unlink p st = Some st'"
    "store_invx X (if pinned (heap_at st p) \<and> \<not> unpins (heap_at st p) then add_mset p M else M) st'"
    "room k st'" "frame st st'" "st_cas_id st' = st_cas_id st"
    "r = it_refcount (heap_at st p) - (if unpins (heap_at st p) then 1 else 0)"
    "F = it_flags (heap_at st p) - {ITEM_LINKED} \<union> (if r = 0 then {ITEM_SLABBED} else {})"
    "st_heap st' = (st_heap st)(p := (heap_at st p)\<lparr>it_flags := F, it_refcount := r\<rparr>)"
proof -
  let ?it = "heap_at st p"
  obtain s1 where s1: "unlink_core p st = Some s1" "store_invx X (if pinned ?it then add_mset p M else M) s1"
    "st_heap s1 = (st_heap st)(p := ?it\<lparr>it_flags := it_flags ?it - {ITEM_LINKED}\<rparr>)" "frame st s1"
    "st_slabs s1 = st_slabs st" "\<forall>res. slabclass_of res s1 = slabclass_of res st"
    "\<forall>res. heapinfo_of res s1 = heapinfo_of res st" "st_cas_id s1 = st_cas_id st" "carved s1 = carved st"
    "\<forall>k. room k st \<longrightarrow> room k s1 \<and> table_room (Suc k) s1"
    by (rule unlink_core_inv [OF inv lk])
  have u: "unpins (heap_at s1 p) = unpins ?it" "\<not> item_is_linked (heap_at s1 p)"
    by (simp_all add: s1(3) unpins_def item_flag_defs)
  have r1: "room k s1" using room s1(10) by blast
  have lv: "carved s1 p" "fst p \<notin> X" "\<not> item_is_slabbed (heap_at s1 p)"
  proof -
    have l: "live ?it" using lk by (simp add: live_def)
    note i = inv_liveD [OF store_invD(6) [OF inv] l]
    show "fst p \<notin> X" "\<not> item_is_slabbed (heap_at s1 p)" using i(2,3) lk by (auto simp: s1(3) item_flag_defs)
    show "carved s1 p" using i(1) by (simp add: s1(9))
  qed
  define s2 where "s2 = (if unpins ?it then item_release_refcount p s1 else s1)"
  define r where "r = it_refcount ?it - (if unpins ?it then 1 else 0)"
  let ?M = "if pinned ?it \<and> \<not> unpins ?it then add_mset p M else M"
  have s2: "store_invx X ?M s2" "room k s2" "frame s1 s2" "st_cas_id s2 = st_cas_id s1"
    "st_heap s2 = (st_heap st)(p := ?it\<lparr>it_flags := it_flags ?it - {ITEM_LINKED}, it_refcount := r\<rparr>)"
    using s1(2) r1 item_release_inv [of X p M s1 k]
    by (auto simp: s2_def r_def heap_release s1(3) pinned_def)
  have c2: "carved s2 p" using lv(1) by (simp add: s2_def)
  have l2: "\<not> live (heap_at s2 p)" if "r = 0"
    using that lv(3) u(2) by (simp add: live_def s2(5) s1(3) item_flag_defs)
  define st' where "st' = (if r = 0 then item_free p s2 else s2)"
  have "item_unlink p st = Some st'"
    by (simp add: item_unlink_eq [OF lk] s1(1) u s2_def [symmetric] st'_def) (simp add: s2(5))
  moreover have "store_invx X ?M st'" using item_free_inv [OF s2(1) c2 lv(2)] l2 s2(1) by (simp add: st'_def)
  moreover have "room k st'" "frame st st'" "st_cas_id st' = st_cas_id st"
    using s2(2,4) frame_trans [OF s1(4) s2(3)] frame_trans [OF frame_trans [OF s1(4) s2(3)] item_free_frame(1)] s1(8)
    by (simp_all add: st'_def)
  moreover have "st_heap st' = (st_heap st)(p := ?it\<lparr>it_flags := it_flags ?it - {ITEM_LINKED}
      \<union> (if r = 0 then {ITEM_SLABBED} else {}), it_refcount := r\<rparr>)"
    by (auto simp: st'_def s2(5) fun_eq_iff)
  ultimately show thesis using that r_def by blast
qed

text \<open>The unlinked item gives its place in the table back.\<close>

lemma item_unlink_table_room:
  assumes inv: "store_invx X M st" and lk: "item_is_linked (heap_at st p)" and room: "room k st"
    and run: "item_unlink p st = Some st'"
  shows "table_room (Suc k) st'"
proof -
  obtain s1 where s1: "unlink_core p st = Some s1" "\<forall>k. room k st \<longrightarrow> room k s1 \<and> table_room (Suc k) s1"
    using unlink_core_inv [OF inv lk] by metis
  have "st_assoc (item_release_refcount p s) = st_assoc s" "st_settings (item_release_refcount p s) = st_settings s"
    "st_assoc (item_free p s) = st_assoc s" "st_settings (item_free p s) = st_settings s" for s
    by (simp_all add: item_release_refcount_def slab_release_refcount_def item_free_def' slab_put_item_into_freeq_def mc_upd Let_def)
  then show ?thesis using run s1(1) mp [OF spec [OF s1(2)] room]
    by (auto simp: item_unlink_eq [OF lk] Let_def split: if_splits)
qed

end
