(* ===== verification/MC_Store_Ops.thy ===== *)
theory MC_Store_Ops
  imports MC_Store
begin

text \<open>
  The operations of the item layer keep the invariant of the store: releasing a reference, lookup
  with lazy expiry, linking, replacing, deletion.
\<close>

declare split_paired_All [simp del] split_paired_Ex [simp del]

subsection \<open>Releasing and looking up\<close>

lemma item_remove_inv:
  assumes inv: "store_invx X (add_mset p M) st" and room: "room k st"
  shows "store_invx X M (item_remove p st)" "room k (item_remove p st)" "frame st (item_remove p st)"
    "st_cas_id (item_remove p st) = st_cas_id st"
proof -
  let ?s = "item_release_refcount p st"
  have "Suc (count M p) \<le> unat (it_refcount (heap_at st p))"
    using ownedD [OF store_invD(8) [OF inv], of p] by simp
  then have rc: "it_refcount (heap_at st p) \<noteq> 0" by (metis Suc_n_not_le_n le_zero_eq unat_0 zero_le)
  then have lv: "live (heap_at st p)" by (simp add: live_def)
  note l = inv_liveD [OF store_invD(6) [OF inv] lv]
  note s = item_release_inv [OF inv room]
  have eq: "item_remove p st =
      (if it_refcount (heap_at ?s p) = 0 \<and> \<not> item_is_linked (heap_at ?s p) then item_free p ?s else ?s)"
    using rc by (simp add: item_remove_def Let_def)
  have "\<not> live (heap_at ?s p)" if "it_refcount (heap_at ?s p) = 0" "\<not> item_is_linked (heap_at ?s p)"
    using that l(3) rc by (auto simp: live_def heap_release item_flag_defs)
  then show "store_invx X M (item_remove p st)" using item_free_inv [OF s(1)] l(1,2) s(1) by (simp add: eq)
  show "room k (item_remove p st)" using s(2) by (simp add: eq)
  show "frame st (item_remove p st)" using frame_trans [of st ?s "item_free p ?s"] by (simp add: eq)
  show "st_cas_id (item_remove p st) = st_cas_id st" by (simp add: eq heap_release)
qed

text \<open>While other references remain, only the count changes.\<close>

lemma heap_remove_other: "q \<noteq> p \<Longrightarrow> heap_at (item_remove p st) q = heap_at st q"
  by (simp add: item_remove_def Let_def heap_release)

lemma heap_remove_linked:
  assumes "item_is_linked (heap_at st p)"
  shows "heap_at (item_remove p st) p = (heap_at st p)\<lparr>it_refcount := it_refcount (heap_at st p)
     - (if it_refcount (heap_at st p) = 0 then 0 else 1)\<rparr>"
  using assms by (simp add: item_remove_def Let_def heap_release item_flag_defs)

lemma item_remove_opt_inv:
  assumes "store_invx X (M + opt r) st" "room k st"
  shows "store_invx X M (item_remove_opt r st)" "room k (item_remove_opt r st)" "frame st (item_remove_opt r st)"
  using assms item_remove_inv [of X "the r" M st k] by (cases r; simp add: item_remove_opt_def)+

text \<open>Whether a lookup finds the item, and whether it must unlink it first.\<close>

definition item_stale :: "ptr \<Rightarrow> mc \<Rightarrow> bool" where
  "item_stale p st \<longleftrightarrow>
     it_exptime (heap_at st p) \<noteq> 0 \<and> it_exptime (heap_at st p) \<le> st_now st
     \<or> set_oldest_live (st_settings st) \<noteq> 0 \<and> set_oldest_live (st_settings st) \<le> st_now st
       \<and> it_atime (heap_at st p) \<le> set_oldest_live (st_settings st)"

lemma item_get_eq:
  "item_get key st = (case item_find key st of
     None \<Rightarrow> Some (None, st)
   | Some p \<Rightarrow> if item_stale p st then map_option (Pair None) (item_unlink p st)
       else Some (Some p, item_acquire_refcount p st))"
  by (auto simp: item_get_def item_stale_def Let_def map_conv_bind_option comp_def split: option.splits)

lemma find_upd_other:
  assumes "inv_index st" "inv_index st'"
    and "\<And>q. item_is_linked (heap_at st' q) \<longleftrightarrow> q \<noteq> p \<and> item_is_linked (heap_at st q)"
    and "\<And>q. q \<noteq> p \<Longrightarrow> key_at st' q = key_at st q"
  shows "item_find k st' = (if item_find k st = Some p then None else item_find k st)"
proof (rule option_eqI)
  fix q
  show "item_find k st' = Some q \<longleftrightarrow> (if item_find k st = Some p then None else item_find k st) = Some q"
    using item_find_iff [OF assms(1), of k q] item_find_iff [OF assms(2), of k q] assms(3) [of q] assms(4) [of q]
    by auto
qed

lemma find_same:
  assumes "inv_index st" "inv_index st'"
    and "\<And>q. item_is_linked (heap_at st' q) \<longleftrightarrow> item_is_linked (heap_at st q)"
    and "\<And>q. item_is_linked (heap_at st q) \<Longrightarrow> key_at st' q = key_at st q"
  shows "item_find k st' = item_find k st"
proof (rule option_eqI)
  fix q
  show "item_find k st' = Some q \<longleftrightarrow> item_find k st = Some q"
    using item_find_iff [OF assms(1), of k q] item_find_iff [OF assms(2), of k q] assms(3) [of q] assms(4) [of q]
    by auto
qed

lemma item_unlink_find:
  assumes "store_invx X M st" "item_is_linked (heap_at st p)" "room k st" "item_unlink p st = Some st'"
  shows "item_find key st' = (if item_find key st = Some p then None else item_find key st)"
proof -
  obtain s r F M' where s: "item_unlink p st = Some s" "store_invx X M' s"
    "F = it_flags (heap_at st p) - {ITEM_LINKED} \<union> (if r = 0 then {ITEM_SLABBED} else {})"
    "st_heap s = (st_heap st)(p := (heap_at st p)\<lparr>it_flags := F, it_refcount := r\<rparr>)"
    using item_unlink_inv [OF assms(1-3)] by metis
  have "item_find key s = (if item_find key st = Some p then None else item_find key st)"
    using store_invD(1) [OF assms(1)] store_invD(1) [OF s(2)]
    by (rule find_upd_other) (auto simp: s(3,4) item_flag_defs key_at_def)
  then show ?thesis using s(1) assms(4) by simp
qed

lemma key_at_refcount [simp]:
  "key_at (item_acquire_refcount p st) = key_at st" "key_at (item_release_refcount p st) = key_at st"
  by (auto simp: fun_eq_iff key_at_def heap_release item_key_def item_key_off_def item_flag_defs)

lemma item_find_refcount [simp]:
  "item_find k (item_acquire_refcount p st) = item_find k st"
  "item_find k (item_release_refcount p st) = item_find k st"
  unfolding item_find_def key_at_refcount
  by (simp_all add: item_acquire_refcount_def slab_acquire_refcount_def item_release_refcount_def
      slab_release_refcount_def mc_upd)

lemma item_find_free [simp]: "item_find k (item_free p st) = item_find k st"
proof -
  have "key_at (item_free p st) = key_at st"
    by (auto simp: fun_eq_iff key_at_def item_key_def item_key_off_def item_flag_defs)
  then show ?thesis
    by (simp add: item_find_def) (simp add: item_free_def' slab_put_item_into_freeq_def mc_upd Let_def)
qed

lemma item_find_remove [simp]: "item_find k (item_remove p st) = item_find k st"
  by (simp add: item_remove_def Let_def)

text \<open>Lookup never fails, and the reference it returns is accounted for.\<close>

definition found :: "bytes \<Rightarrow> mc \<Rightarrow> ptr option" where
  "found key st = (case item_find key st of None \<Rightarrow> None | Some p \<Rightarrow> if item_stale p st then None else Some p)"

lemma found_cases:
  obtains "item_find key st = None" "found key st = None"
  | p where "item_find key st = Some p" "item_stale p st" "found key st = None"
  | p where "item_find key st = Some p" "\<not> item_stale p st" "found key st = Some p"
  by (cases "item_find key st") (auto simp: found_def split: if_splits)

lemma found_SomeD: "found key st = Some p \<Longrightarrow> item_find key st = Some p"
  by (auto simp: found_def split: option.splits if_splits)

lemma item_get_inv:
  assumes inv: "store_invx X M st" and room: "room (Suc k) st"
  obtains st' where "item_get key st = Some (found key st, st')"
    "store_invx X (M + opt (found key st)) st'" "room k st'" "frame st st'"
    "\<forall>k'. item_find k' st' = (if found key st = None \<and> k' = key then None else item_find k' st)"
    "\<forall>q. item_find key st \<noteq> Some q \<longrightarrow> heap_at st' q = heap_at st q"
    "\<forall>p. found key st = Some p \<longrightarrow> st' = item_acquire_refcount p st" "st_cas_id st' = st_cas_id st"
proof (cases rule: found_cases [of key st])
  case 1
  show thesis
    by (rule that [of st]) (use 1 inv room_mono [OF room, of k] in \<open>simp_all add: item_get_eq\<close>)
next
  case (2 p)
  then have lk: "item_is_linked (heap_at st p)" "key_at st p = key"
    using item_find_iff [OF store_invD(1) [OF inv]] by auto
  obtain s r F where s: "item_unlink p st = Some s"
    "store_invx X (if pinned (heap_at st p) \<and> \<not> unpins (heap_at st p) then add_mset p M else M) s"
    "room (Suc k) s" "frame st s" "st_cas_id s = st_cas_id st"
    "r = it_refcount (heap_at st p) - (if unpins (heap_at st p) then 1 else 0)"
    "F = it_flags (heap_at st p) - {ITEM_LINKED} \<union> (if r = 0 then {ITEM_SLABBED} else {})"
    "st_heap s = (st_heap st)(p := (heap_at st p)\<lparr>it_flags := F, it_refcount := r\<rparr>)"
    by (rule item_unlink_inv [OF inv lk(1) room])
  have f: "item_find k' s = (if k' = key then None else item_find k' st)" for k'
    using item_unlink_find [OF inv lk(1) room s(1), of k'] 2(1) item_find_iff [OF store_invD(1) [OF inv], of k' p] lk
    by auto
  have "store_invx X M s" by (rule store_inv_mono [OF s(2)]) simp
  then show thesis
    by (intro that [of s]) (use 2 s(1,4,5,8) f room_mono [OF s(3), of k] in \<open>auto simp: item_get_eq\<close>)
next
  case (3 p)
  then have lk: "item_is_linked (heap_at st p)" "live (heap_at st p)"
    using item_find_iff [OF store_invD(1) [OF inv]] by (auto simp: live_def)
  note l = inv_liveD [OF store_invD(6) [OF inv] lk(2)]
  have "\<not> item_is_slabbed (heap_at st p)" using l(3) lk(1) by blast
  note a = item_acquire_inv [OF inv room l(1,2) this]
  show thesis
    by (rule that [of "item_acquire_refcount p st"]) (use 3 a in \<open>auto simp: item_get_eq heap_release\<close>)
qed

subsection \<open>Linking\<close>

lemma slab_lruq_touch_inv:
  assumes inv: "store_invx X M st" and touch: "slab_lruq_touch res sl allocated st = Some st'"
  shows "store_invx X M st'" "st_heap st' = st_heap st" "frame st st'" "room k st' = room k st"
    "item_find key st' = item_find key st" "st_cas_id st' = st_cas_id st"
proof -
  consider "st' = st" | q where "tq_remove sl (hi_slab_lruq (heapinfo_of res st)) = Some q"
      "st' = slab_link_lruq res sl (upd_heapinfo res (\<lambda>h. h\<lparr>hi_slab_lruq := q\<rparr>) st)"
  proof (cases "slab_lruq_touch res sl allocated st = Some st")
    case True
    then show thesis using touch that(1) by simp
  next
    case False
    then have "Option.bind (slab_lruq_remove res sl st) (\<lambda>st. Some (slab_link_lruq res sl st)) = Some st'"
      using touch by (simp add: slab_lruq_touch_def Let_def split: if_splits)
    then show thesis using that(2) by (cases "tq_remove sl (hi_slab_lruq (heapinfo_of res st))")
        (simp_all add: slab_lruq_remove_def)
  qed
  then have "store_invx X M st' \<and> st_heap st' = st_heap st \<and> frame st st' \<and> room k st' = room k st
    \<and> item_find key st' = item_find key st \<and> st_cas_id st' = st_cas_id st"
  proof cases
    case 1
    then show ?thesis using inv by simp
  next
    case (2 q)
    then have q: "sl \<in> set (hi_slab_lruq (heapinfo_of res st))" "q = remove1 sl (hi_slab_lruq (heapinfo_of res st))"
      by (auto simp: tq_remove_def split: if_splits)
    note d = 2(2) slab_link_lruq_def slab_lruq_append_def mc_upd
    have same [simp]: "st_heap st' = st_heap st" "st_slabclass st' = st_slabclass st"
      "st_reserved_slabclass st' = st_reserved_slabclass st" "slabclass_of r st' = slabclass_of r st"
      "lruq_of r st' = lruq_of r st" "st_assoc st' = st_assoc st" "st_next_slab st' = st_next_slab st"
      "hi_slab_table (heapinfo_of r st') = hi_slab_table (heapinfo_of r st)"
      "hi_slab_table (st_heapinfo st') = hi_slab_table (st_heapinfo st)"
      "hi_slab_table (st_reserved_heapinfo st') = hi_slab_table (st_reserved_heapinfo st)"
      "hi_nslab (heapinfo_of r st') = hi_nslab (heapinfo_of r st)"
      "sl_id (st_slabs st' s) = sl_id (st_slabs st s)" "sl_refcount (st_slabs st' s) = sl_refcount (st_slabs st s)" for r s
      by (simp_all add: d)
    have lq: "set (hi_slab_lruq (heapinfo_of r st')) \<subseteq> set (hi_slab_lruq (heapinfo_of r st))" for r
      using q set_remove1_subset [of sl "hi_slab_lruq (heapinfo_of res st)"] by (auto simp: d split: if_splits)
    have [simp]: "tables st' = tables st" "nitems st' = nitems st" "carved st' = carved st" "key_at st' = key_at st"
      by (simp_all add: tables_def nitems_def carved_def fun_eq_iff key_at_def)
    have "store_invx X M st'"
    proof (rule store_invI)
      show "inv_tables st'" using store_invD(4) [OF inv] lq by (simp add: inv_tables_def) (metis subset_trans)
    qed (use store_invD [OF inv] in \<open>simp_all add: inv_index_def inv_lruq_def inv_free_def inv_slabs_def inv_live_def
          inv_refs_def owned_def\<close>)
    then show ?thesis by (simp add: item_find_def room_def) (simp add: d frame_def)
  qed
  then show "store_invx X M st'" "st_heap st' = st_heap st" "frame st st'" "room k st' = room k st"
    "item_find key st' = item_find key st" "st_cas_id st' = st_cas_id st" by blast+
qed

lemma length_le_bytes [simp]: "length (le_bytes w n) = w"
  by (induction w n rule: le_bytes.induct) simp_all

lemma key_at_fields [simp]:
  "key_at (st\<lparr>st_env_pos := n\<rparr>) = key_at st" "key_at (st\<lparr>st_assoc := a\<rparr>) = key_at st"
  by (simp_all add: fun_eq_iff key_at_def)

text \<open>The header of an item once it is linked.\<close>

definition linked_as :: "u64 \<Rightarrow> u32 \<Rightarrow> item \<Rightarrow> item" where
  "linked_as cas t it = (item_set_cas cas (it\<lparr>it_flags := insert ITEM_LINKED (it_flags it)\<rparr>))\<lparr>it_atime := t\<rparr>"

lemma linked_as_same [simp]:
  "item_key (linked_as cas t it) = item_key it" "it_id (linked_as cas t it) = it_id it"
  "it_refcount (linked_as cas t it) = it_refcount it" "it_flags (linked_as cas t it) = insert ITEM_LINKED (it_flags it)"
  "it_coflags (linked_as cas t it) = it_coflags it" "it_nbyte (linked_as cas t it) = it_nbyte it"
  "it_exptime (linked_as cas t it) = it_exptime it" "it_p (linked_as cas t it) = it_p it"
  "it_nkey (linked_as cas t it) = it_nkey it" "it_dataflags (linked_as cas t it) = it_dataflags it"
  by (simp_all add: linked_as_def item_set_cas_def item_key_def item_key_off_def item_flag_defs)

definition next_cas :: "mc \<Rightarrow> u64" where
  "next_cas st = fst (item_next_cas st)"

text \<open>Operations that leave slabs, classes and tables alone.\<close>

definition same_slabs :: "mc \<Rightarrow> mc \<Rightarrow> bool" where
  "same_slabs st st' \<longleftrightarrow> st_slabclass st' = st_slabclass st \<and> st_reserved_slabclass st' = st_reserved_slabclass st
     \<and> st_heapinfo st' = st_heapinfo st \<and> st_reserved_heapinfo st' = st_reserved_heapinfo st
     \<and> st_slabs st' = st_slabs st \<and> st_next_slab st' = st_next_slab st"

lemma same_slabsD:
  assumes "same_slabs st st'"
  shows "st_slabclass st' = st_slabclass st" "st_reserved_slabclass st' = st_reserved_slabclass st"
    "st_heapinfo st' = st_heapinfo st" "st_reserved_heapinfo st' = st_reserved_heapinfo st"
    "st_slabs st' = st_slabs st" "st_next_slab st' = st_next_slab st"
    "slabclass_of res st' = slabclass_of res st" "heapinfo_of res st' = heapinfo_of res st"
    "tables st' = tables st" "nitems st' = nitems st" "carved st' = carved st"
proof -
  have s: "slabclass_of r st' = slabclass_of r st" "heapinfo_of r st' = heapinfo_of r st"
    "st_slabclass st' = st_slabclass st" "st_slabs st' = st_slabs st" for r
    using assms by (simp_all add: same_slabs_def slabclass_of_def heapinfo_of_def)
  then show t: "tables st' = tables st" "nitems st' = nitems st" by (simp_all add: tables_def nitems_def fun_eq_iff)
  show "carved st' = carved st" by (simp add: carved_def fun_eq_iff s(1) t)
qed (use assms in \<open>simp_all add: same_slabs_def slabclass_of_def heapinfo_of_def\<close>)

lemma same_slabs_trans [trans]: "same_slabs st st' \<Longrightarrow> same_slabs st' st'' \<Longrightarrow> same_slabs st st''"
  by (simp add: same_slabs_def)

lemma linked_inv:
  assumes inv: "store_invx X (if pinned (heap_at st p) then add_mset p M else M) st"
    and p: "\<not> item_is_linked (heap_at st p)" "\<not> item_is_slabbed (heap_at st p)" "carved st p" "fst p \<notin> X"
    and fresh: "item_find (key_at st p) st = None"
    and heap: "st_heap st' = (st_heap st)(p := linked_as cas t (heap_at st p))"
    and assoc: "st_assoc st' = assoc_insert (key_at st) hp ok p (st_assoc st)" "assoc_room hp (Suc n) (st_assoc st)"
    and lruq: "\<And>res cid. lruq_of res st' cid = (if res = item_is_lease_holder (heap_at st p) \<and> cid = it_id (heap_at st p)
      then lruq_of res st cid @ [p] else lruq_of res st cid)"
    and same: "same_slabs st st'"
  shows "store_invx X M st'" "item_find k st' = (if k = key_at st p then Some p else item_find k st)"
    "assoc_room hp n (st_assoc st')"
proof -
  note i = store_invD [OF inv] and [simp] = same_slabsD [OF same]
  have hd: "item_is_linked (heap_at st' q) \<longleftrightarrow> q = p \<or> item_is_linked (heap_at st q)"
    "item_is_slabbed (heap_at st' q) = item_is_slabbed (heap_at st q)"
    "it_id (heap_at st' q) = it_id (heap_at st q)" "it_refcount (heap_at st' q) = it_refcount (heap_at st q)"
    "key_at st' q = key_at st q" "item_is_lease_holder (heap_at st' q) = item_is_lease_holder (heap_at st q)"
    "pinned (heap_at st' q) = pinned (heap_at st q)" for q
    by (auto simp: heap item_flag_defs key_at_def pinned_def unpins_def)
  have k: "key_at st' = key_at st" by (simp add: fun_eq_iff hd)
  have mem: "q \<in> set (lruq_of r st c) \<longleftrightarrow> item_is_linked (heap_at st q) \<and> it_id (heap_at st q) = c
      \<and> item_is_lease_holder (heap_at st q) = r" "distinct (lruq_of r st c)" for q r c
    using i(2) by (simp_all add: inv_lruq_def)
  have a: "assoc_inv (key_at st) (st_assoc st)" "assoc_find (key_at st) (key_at st p) (st_assoc st) = None"
    "assoc_items (st_assoc st) = {q. item_is_linked (heap_at st q)}"
    using i(1) fresh by (simp_all add: inv_index_def item_find_def)
  note ai = assoc_insert_inv [OF a(1,2) assoc(2), of ok]
  show "assoc_room hp n (st_assoc st')" unfolding assoc(1) by (rule ai(3))
  have "{q. item_is_linked (heap_at st' q)} = insert p {q. item_is_linked (heap_at st q)}"
    unfolding hd(1) by blast
  then have ix: "inv_index st'" unfolding inv_index_def assoc(1) k using ai a(3) by simp
  show "item_find k st' = (if k = key_at st p then Some p else item_find k st)"
  proof (cases "k = key_at st p")
    case True
    then show ?thesis using item_find_iff [OF ix, of k p] by (simp add: hd)
  next
    case False
    have "item_find k st' = Some q \<longleftrightarrow> item_find k st = Some q" for q
      using False unfolding item_find_iff [OF ix] item_find_iff [OF i(1)] hd(1,5) by blast
    then show ?thesis using False by (simp add: option_eqI)
  qed
  show "store_invx X M st'"
  proof (rule store_invI [OF ix])
    show "inv_lruq st'" using p(1) by (auto simp: inv_lruq_def hd lruq mem)
    show "inv_free st'" using i(3) by (simp add: inv_free_def hd)
    show "inv_tables st'" using i(4) by (simp add: inv_tables_def)
    show "inv_slabs X st'" using i(5) by (simp add: inv_slabs_def hd)
    show "inv_live X st'" using p by (intro inv_live_step [OF i(6), of st' p]) (simp_all add: hd)
    show "inv_refs X st'" using i(7) by (simp add: inv_refs_def hd)
    show "owned M st'" unfolding owned_def
    proof
      fix q
      show "count M q + (if item_is_linked (heap_at st' q) \<and> pinned (heap_at st' q) then 1 else 0)
          \<le> unat (it_refcount (heap_at st' q))" using ownedD [OF i(8), of q] p(1) by (auto simp: hd split: if_splits)
    qed
  qed
qed

lemma item_link_q_eq:
  "item_link_q p al st = slab_lruq_touch (item_is_lease_holder (heap_at st p)) (item_2_slab p) al
     (upd_lruq (item_is_lease_holder (heap_at st p)) (it_id (heap_at st p))
       (lruq_of (item_is_lease_holder (heap_at st p)) st (it_id (heap_at st p)) @ [p])
       (upd_item p (\<lambda>it. it\<lparr>it_atime := st_now st\<rparr>) st))"
  by (simp add: item_link_q_def Let_def upd_item_def item_flag_defs lruq_of_def)

lemma item_link_inv:
  assumes inv: "store_invx X (if pinned (heap_at st p) then add_mset p M else M) st"
    and p: "\<not> item_is_linked (heap_at st p)" "\<not> item_is_slabbed (heap_at st p)" "carved st p" "fst p \<notin> X"
    and fresh: "item_find (key_at st p) st = None"
    and link: "item_link p st = Some st'" and room: "room k st" "table_room (Suc k) st"
  shows "store_invx X M st'" "room k st'" "frame st st'"
    "item_find k' st' = (if k' = key_at st p then Some p else item_find k' st)"
    "st_heap st' = (st_heap st)(p := linked_as (next_cas st) (st_now st) (heap_at st p))"
proof -
  let ?it = "heap_at st p"
  let ?res = "item_is_lease_holder ?it"
  define st3 where "st3 = upd_item p (item_set_cas (next_cas st)) (snd (item_next_cas (set_flag ITEM_LINKED p st)))"
  define st4 where "st4 = item_assoc_insert p st3"
  define st6 where "st6 = upd_lruq ?res (it_id ?it) (lruq_of ?res st (it_id ?it) @ [p])
    (upd_item p (\<lambda>it. it\<lparr>it_atime := st_now st\<rparr>) st4)"
  have s3: "st_heap st3 = (st_heap st)(p := item_set_cas (next_cas st) (?it\<lparr>it_flags := insert ITEM_LINKED (it_flags ?it)\<rparr>))"
    "st_assoc st3 = st_assoc st" "st_time st3 = st_time st" "lruq_of r st3 = lruq_of r st"
    "same_slabs st st3" "frame st st3" for r
    by (simp_all add: st3_def item_next_cas_def mc_upd frame_def same_slabs_def)
  have k3: "key_at st3 = key_at st"
    by (auto simp: fun_eq_iff key_at_def s3(1) item_set_cas_def item_key_def item_key_off_def item_flag_defs)
  have "st_settings st3 = st_settings st" using s3(6) by (simp add: frame_def)
  then obtain ok where a4: "st_assoc st4 = assoc_insert (key_at st) (set_hash_power (st_settings st)) ok p (st_assoc st)"
    by (simp add: st4_def item_assoc_insert_def mc_alloc_next_def k3 s3(2) Let_def)
  have s4: "st_heap st4 = st_heap st3" "st_time st4 = st_time st3" "lruq_of r st4 = lruq_of r st3"
    "same_slabs st3 st4" "frame st3 st4" for r
    by (simp_all add: st4_def item_assoc_insert_def mc_alloc_next_def Let_def mc_upd frame_def same_slabs_def)
  have "fst (item_next_cas (set_flag ITEM_LINKED p st)) = next_cas st"
    by (simp add: next_cas_def item_next_cas_def set_flag_def upd_item_def)
  then have "item_link p st = item_link_q p True st4"
    by (simp add: item_link_def Let_def split_def st4_def st3_def)
  also have "\<dots> = slab_lruq_touch ?res (item_2_slab p) True st6"
    by (simp add: item_link_q_eq st6_def s4 s3 item_set_cas_def item_flag_defs st_now_def)
  finally have link6: "slab_lruq_touch ?res (item_2_slab p) True st6 = Some st'" using link by simp
  have h6: "st_heap st6 = (st_heap st)(p := linked_as (next_cas st) (st_now st) ?it)"
    by (simp add: st6_def upd_lruq_def upd_item_def s4 s3 linked_as_def)
  have s46: "same_slabs st4 st6" "frame st4 st6" "st_assoc st6 = st_assoc st4"
    by (simp_all add: st6_def same_slabs_def frame_def mc_upd)
  have l6: "lruq_of r st6 c = (if r = ?res \<and> c = it_id ?it then lruq_of r st c @ [p] else lruq_of r st c)" for r c
    using s4(3) [of r] s3(4) [of r] by (auto simp: st6_def lruq_of_def upd_lruq_def upd_item_def)
  have same: "same_slabs st st6" using s3(5) s4(4) s46(1) same_slabs_trans by blast
  note l = linked_inv [OF inv p fresh h6 a4 [folded s46(3)] room(2) l6 same]
  note t = slab_lruq_touch_inv [OF l(1) link6]
  show "store_invx X M st'" by (rule t(1))
  have f: "frame st st6" using s3(6) s4(5) s46(2) frame_trans by blast
  then have "room k st6" using same_slabsD(5) [OF same] room(1) l(3) by (simp add: room_def frame_def)
  then show "room k st'" using t(4) by simp
  show "frame st st'" using f t(3) frame_trans by blast
  show "item_find k' st' = (if k' = key_at st p then Some p else item_find k' st)" using t(5) l(2) by simp
  show "st_heap st' = (st_heap st)(p := linked_as (next_cas st) (st_now st) ?it)" using t(2) h6 by simp
qed

end
