(* ===== verification/MC_Alloc.thy ===== *)
theory MC_Alloc
  imports MC_Store_Ops
begin

text \<open>
  Allocation keeps the invariant of the store and evicts only items that nobody references: the
  paths of \<open>_item_alloc_config\<close> through the LRU queue, the free queue, the current slab, a new slab
  and an evicted slab.
\<close>

declare split_paired_All [simp del] split_paired_Ex [simp del]

subsection \<open>Eviction as a relation\<close>

text \<open>Outside \<open>P\<close>, referenced items are as they were, and nothing is linked that was not.\<close>

definition evicts :: "ptr set \<Rightarrow> mc \<Rightarrow> mc \<Rightarrow> bool" where
  "evicts P st st' \<longleftrightarrow> frame st st' \<and> (\<forall>q. q \<notin> P \<longrightarrow>
     (it_refcount (heap_at st q) \<noteq> 0 \<longrightarrow> heap_at st' q = heap_at st q)
     \<and> (item_is_linked (heap_at st' q) \<longrightarrow> item_is_linked (heap_at st q) \<and> heap_at st' q = heap_at st q))"

lemma evicts_refl [simp]: "evicts P st st"
  by (simp add: evicts_def)

lemma evicts_frame: "evicts P st st' \<Longrightarrow> frame st st'"
  unfolding evicts_def by blast

lemma evicts_ref: "evicts P st st' \<Longrightarrow> q \<notin> P \<Longrightarrow> it_refcount (heap_at st q) \<noteq> 0 \<Longrightarrow> heap_at st' q = heap_at st q"
  unfolding evicts_def by blast

lemma evicts_linked:
  "evicts P st st' \<Longrightarrow> q \<notin> P \<Longrightarrow> item_is_linked (heap_at st' q) \<Longrightarrow> item_is_linked (heap_at st q) \<and> heap_at st' q = heap_at st q"
  unfolding evicts_def by blast

lemma evicts_trans [trans]:
  assumes "evicts P st st'" "evicts Q st' st''"
  shows "evicts (P \<union> Q) st st''"
  unfolding evicts_def
proof (intro conjI allI impI)
  show "frame st st''" using assms by (blast intro: frame_trans evicts_frame)
next
  fix q assume q: "q \<notin> P \<union> Q" and "it_refcount (heap_at st q) \<noteq> 0"
  then show "heap_at st'' q = heap_at st q" using evicts_ref [OF assms(1), of q] evicts_ref [OF assms(2), of q] by simp
next
  fix q assume q: "q \<notin> P \<union> Q" and l: "item_is_linked (heap_at st'' q)"
  have b: "item_is_linked (heap_at st' q) \<and> heap_at st'' q = heap_at st' q" using evicts_linked [OF assms(2) _ l] q by simp
  then have "item_is_linked (heap_at st q) \<and> heap_at st' q = heap_at st q" using evicts_linked [OF assms(1), of q] q by simp
  then show "item_is_linked (heap_at st q)" "heap_at st'' q = heap_at st q" using b by simp_all
qed

lemma evicts_mono: "evicts P st st' \<Longrightarrow> P \<subseteq> Q \<Longrightarrow> evicts Q st st'"
  unfolding evicts_def by blast

lemma evicts_heap:
  assumes "frame st st'" "st_heap st' = st_heap st"
  shows "evicts P st st'"
  using assms unfolding evicts_def by simp

text \<open>A change of one item that is not referenced and not linked afterwards.\<close>

lemma evicts_upd:
  assumes "frame st st'" "st_heap st' = (st_heap st)(p := it)" "it_refcount (heap_at st p) = 0" "\<not> item_is_linked it"
  shows "evicts {} st st'"
  using assms by (simp add: evicts_def)

subsection \<open>Items taken from the queues\<close>

lemma item_reuse_inv:
  assumes inv: "store_inv M st" and lk: "item_is_linked (heap_at st p)" and rc: "it_refcount (heap_at st p) = 0"
    and room: "room k st"
  obtains st' where "item_reuse p st = Some st'" "store_inv M st'" "evicts {} st st'" "room k st'"
    "carved st' p" "\<not> live (heap_at st' p)" "it_id (heap_at st' p) = it_id (heap_at st p)"
    "same_slabs st st'" "st_heap st' = (st_heap st)(p := (heap_at st p)\<lparr>it_flags := it_flags (heap_at st p) - {ITEM_LINKED}\<rparr>)"
proof -
  have np: "\<not> pinned (heap_at st p)" using ownedD [OF store_invD(8) [OF inv], of p] lk rc by (auto split: if_splits)
  then have "item_reuse p st = unlink_core p st"
    by (simp add: item_reuse_def unlink_core_def pinned_def unpins_def)
  moreover obtain st' where s: "unlink_core p st = Some st'" "store_inv (if pinned (heap_at st p) then add_mset p M else M) st'"
    "st_heap st' = (st_heap st)(p := (heap_at st p)\<lparr>it_flags := it_flags (heap_at st p) - {ITEM_LINKED}\<rparr>)"
    "frame st st'" "st_slabs st' = st_slabs st" "\<forall>res. slabclass_of res st' = slabclass_of res st"
    "\<forall>res. heapinfo_of res st' = heapinfo_of res st" "st_cas_id st' = st_cas_id st" "carved st' = carved st"
    "\<forall>k. room k st \<longrightarrow> room k st' \<and> table_room (Suc k) st'"
    by (rule unlink_core_inv [OF inv lk])
  moreover have "live (heap_at st p)" using lk by (simp add: live_def)
  note l = inv_liveD [OF store_invD(6) [OF inv] this]
  moreover have "evicts {} st st'" by (rule evicts_upd [OF s(4,3) rc]) (simp add: item_flag_defs)
  moreover have "\<not> live (heap_at st' p)" using rc l(3) lk by (auto simp: live_def s(3) item_flag_defs)
  moreover have "room k st'" using room s(10) by blast
  moreover have "same_slabs st st'"
    using s(5) spec [OF s(6), of False] spec [OF s(6), of True] spec [OF s(7), of False] spec [OF s(7), of True]
      s(1) by (auto simp: same_slabs_def slabclass_of_def heapinfo_of_def unlink_core_def item_assoc_delete_def
        item_unlink_q_def Let_def mc_upd bind_eq_Some_conv split: option.splits)
  ultimately show thesis using that np s(3) by simp
qed

text \<open>Taking an item off the free queue it is on.\<close>

lemma take_slabbed_inv:
  assumes inv: "store_invx X M st"
    and p: "p \<in> set (sc_free_itemq (slabclass_of res st cid))"
    and st': "st' = upd_class res cid (\<lambda>c. c\<lparr>sc_nfree_itemq := sc_nfree_itemq c - 1, sc_free_itemq := remove1 p (sc_free_itemq c)\<rparr>)
      (clear_flag ITEM_SLABBED p st)"
  shows "store_invx X M st'" "evicts {} st st'" "room k st' = room k st" "carved st' p" "fst p \<notin> X"
    "\<not> live (heap_at st' p)" "it_id (heap_at st' p) = cid"
    "st_heap st' = (st_heap st)(p := (heap_at st p)\<lparr>it_flags := it_flags (heap_at st p) - {ITEM_SLABBED}\<rparr>)"
    "st_slabs st' = st_slabs st" "heapinfo_of r st' = heapinfo_of r st"
    "sc_free_item (slabclass_of r st' c) = sc_free_item (slabclass_of r st c)"
proof -
  note i = store_invD [OF inv] and d = st' mc_upd
  have f: "item_is_slabbed (heap_at st p)" "it_id (heap_at st p) = cid" using i(3) p by (auto simp: inv_free_def)
  then have lv: "live (heap_at st p)" by (simp add: live_def)
  note l = inv_liveD [OF i(6) lv]
  show hp: "st_heap st' = (st_heap st)(p := (heap_at st p)\<lparr>it_flags := it_flags (heap_at st p) - {ITEM_SLABBED}\<rparr>)"
    by (simp add: d)
  have hd: "item_is_linked (heap_at st' q) = item_is_linked (heap_at st q)"
    "item_is_slabbed (heap_at st' q) \<longleftrightarrow> q \<noteq> p \<and> item_is_slabbed (heap_at st q)"
    "it_id (heap_at st' q) = it_id (heap_at st q)" "it_refcount (heap_at st' q) = it_refcount (heap_at st q)"
    "key_at st' q = key_at st q" "item_is_lease_holder (heap_at st' q) = item_is_lease_holder (heap_at st q)"
    "pinned (heap_at st' q) = pinned (heap_at st q)" for q
    by (auto simp: hp item_flag_defs key_at_def item_key_def item_key_off_def pinned_def unpins_def)
  have same [simp]: "heapinfo_of r st' = heapinfo_of r st"
    "lruq_of r st' = lruq_of r st" "st_slabs st' = st_slabs st" "st_heapinfo st' = st_heapinfo st"
    "st_reserved_heapinfo st' = st_reserved_heapinfo st" "st_next_slab st' = st_next_slab st"
    "st_assoc st' = st_assoc st" for r
    by (simp_all add: d)
  have sc: "sc_nitem (slabclass_of r st' c) = sc_nitem (slabclass_of r st c)"
    "sc_nitem (st_slabclass st' c) = sc_nitem (st_slabclass st c)"
    "sc_nitem (st_reserved_slabclass st' c) = sc_nitem (st_reserved_slabclass st c)"
    "sc_nfree_item (slabclass_of r st' c) = sc_nfree_item (slabclass_of r st c)"
    "sc_free_item (slabclass_of r st' c) = sc_free_item (slabclass_of r st c)"
    "sc_free_itemq (slabclass_of r st' c) = (if r = res \<and> c = cid then remove1 p (sc_free_itemq (slabclass_of r st c))
       else sc_free_itemq (slabclass_of r st c))"
    "sc_nfree_itemq (slabclass_of r st' c) = (if r = res \<and> c = cid then sc_nfree_itemq (slabclass_of r st c) - 1
       else sc_nfree_itemq (slabclass_of r st c))" for r c
    by (simp_all add: d)
  have cv [simp]: "tables st' = tables st" "nitems st' = nitems st" "carved st' = carved st"
    by (simp_all add: tables_def nitems_def carved_def fun_eq_iff sc)
  have fq: "distinct (sc_free_itemq (slabclass_of r st c))"
    "sc_nfree_itemq (slabclass_of r st c) = length (sc_free_itemq (slabclass_of r st c))"
    "q \<in> set (sc_free_itemq (slabclass_of r st c)) \<Longrightarrow> item_is_slabbed (heap_at st q) \<and> it_id (heap_at st q) = c"
    "set (sc_free_itemq (slabclass_of True st c)) \<inter> set (sc_free_itemq (slabclass_of False st c)) = {}" for r c q
    using i(3) by (auto simp: inv_free_def slabclass_of_def)
  have only: "r = res \<and> c = cid" if "p \<in> set (sc_free_itemq (slabclass_of r st c))" for r c
    using that p fq(3) [of p r c] fq(4) [of cid] f(2) by (cases r; cases res) auto
  have fs: "set (sc_free_itemq (slabclass_of r st' c)) = set (sc_free_itemq (slabclass_of r st c)) - {p}" for r c
  proof (cases "r = res \<and> c = cid")
    case True
    then show ?thesis using fq(1) [of r c] by (simp add: sc)
  next
    case False
    then have "p \<notin> set (sc_free_itemq (slabclass_of r st c))" using only by blast
    then show ?thesis using False by (auto simp: sc)
  qed
  show "store_invx X M st'"
  proof (rule store_invI)
    show "inv_index st'" using i(1) by (rule inv_index_cong) (simp_all add: hd)
    show "inv_lruq st'" using i(2) by (simp add: inv_lruq_def hd)
    show "inv_free st'" unfolding inv_free_def
    proof (intro conjI allI ballI)
      fix r c
      show "distinct (sc_free_itemq (slabclass_of r st' c))" using fq(1) by (simp add: sc)
      show "sc_nfree_itemq (slabclass_of r st' c) = length (sc_free_itemq (slabclass_of r st' c))"
        using fq(2) [of r c] p by (auto simp: sc length_remove1)
    next
      fix r c q assume "q \<in> set (sc_free_itemq (slabclass_of r st' c))"
      then show "item_is_slabbed (heap_at st' q)" "it_id (heap_at st' q) = c" using fq(3) [of q r c] by (simp_all add: hd fs)
    next
      fix c
      show "set (sc_free_itemq (st_slabclass st' c)) \<inter> set (sc_free_itemq (st_reserved_slabclass st' c)) = {}"
        using fq(4) [of c] fs [of True c] fs [of False c] by (auto simp: slabclass_of_def)
    qed
    show "inv_tables st'" using i(4) by (simp add: inv_tables_def)
    show "inv_slabs X st'" using i(5) by (simp add: inv_slabs_def hd sc)
    show "inv_live X st'" using l f by (intro inv_live_step [OF i(6), of st' p]) (simp_all add: hd live_def)
    show "inv_refs X st'" using i(7) by (simp add: inv_refs_def hd)
    show "owned M st'" using i(8) by (simp add: owned_def hd)
  qed
  show "evicts {} st st'"
    by (rule evicts_upd [OF _ hp]) (use l f in \<open>auto simp: frame_def d item_flag_defs\<close>)
  have "st_settings st' = st_settings st" by (simp add: d)
  then show "room k st' = room k st" by (simp add: room_def)
  show "carved st' p" "fst p \<notin> X" using l by simp_all
  show "\<not> live (heap_at st' p)" "it_id (heap_at st' p) = cid" using l(3) f by (simp_all add: live_def hd)
  show "st_slabs st' = st_slabs st" "heapinfo_of r st' = heapinfo_of r st" by simp_all
  show "sc_free_item (slabclass_of r st' c) = sc_free_item (slabclass_of r st c)" by (rule sc)
qed

subsection \<open>Evicting a slab\<close>

lemma drop_free_item_inv:
  assumes inv: "store_invx X M st"
    and st': "st' = upd_class res cid (\<lambda>c. c\<lparr>sc_nfree_item := 0, sc_free_item := None\<rparr>) st"
  shows "store_invx X M st'" "evicts {} st st'" "room k st' = room k st" "st_heap st' = st_heap st"
    "st_slabs st' = st_slabs st" "heapinfo_of r st' = heapinfo_of r st" "nitems st' = nitems st"
    "sc_nitem (slabclass_of r st' c) = sc_nitem (slabclass_of r st c)"
    "sc_free_item (slabclass_of r st' c) = (if r = res \<and> c = cid then None else sc_free_item (slabclass_of r st c))"
proof -
  note i = store_invD [OF inv] and d = st' mc_upd
  have same [simp]: "heapinfo_of r st' = heapinfo_of r st" "st_heap st' = st_heap st"
    "lruq_of r st' = lruq_of r st" "st_slabs st' = st_slabs st" "st_heapinfo st' = st_heapinfo st"
    "st_reserved_heapinfo st' = st_reserved_heapinfo st" "st_next_slab st' = st_next_slab st"
    "st_assoc st' = st_assoc st" "key_at st' = key_at st" for r
    by (simp_all add: d key_at_def fun_eq_iff)
  have sc: "sc_nitem (slabclass_of r st' c) = sc_nitem (slabclass_of r st c)"
    "sc_nitem (st_slabclass st' c) = sc_nitem (st_slabclass st c)"
    "sc_nitem (st_reserved_slabclass st' c) = sc_nitem (st_reserved_slabclass st c)"
    "sc_nfree_item (slabclass_of r st' c) = (if r = res \<and> c = cid then 0 else sc_nfree_item (slabclass_of r st c))"
    "sc_free_item (slabclass_of r st' c) = (if r = res \<and> c = cid then None else sc_free_item (slabclass_of r st c))"
    "sc_free_itemq (slabclass_of r st' c) = sc_free_itemq (slabclass_of r st c)"
    "sc_free_itemq (st_slabclass st' c) = sc_free_itemq (st_slabclass st c)"
    "sc_free_itemq (st_reserved_slabclass st' c) = sc_free_itemq (st_reserved_slabclass st c)"
    "sc_nfree_itemq (slabclass_of r st' c) = sc_nfree_itemq (slabclass_of r st c)" for r c
    by (simp_all add: d)
  have cv [simp]: "tables st' = tables st" "nitems st' = nitems st"
    by (simp_all add: tables_def nitems_def fun_eq_iff sc)
  have carved: "carved st q \<Longrightarrow> carved st' q" for q by (auto simp: carved_def sc)
  show "store_invx X M st'"
  proof (rule store_invI)
    show "inv_index st'" using i(1) by (simp add: inv_index_def)
    show "inv_lruq st'" using i(2) by (simp add: inv_lruq_def)
    show "inv_free st'" using i(3) by (simp add: inv_free_def sc)
    show "inv_tables st'" using i(4) by (simp add: inv_tables_def)
    show "inv_slabs X st'" using i(5) by (simp add: inv_slabs_def sc)
    show "inv_live X st'" using i(6) carved by (simp add: inv_live_def)
    show "inv_refs X st'" using i(7) by (simp add: inv_refs_def)
    show "owned M st'" using i(8) by (simp add: owned_def)
  qed
  show "evicts {} st st'" by (rule evicts_heap) (simp_all add: frame_def d)
  have "st_settings st' = st_settings st" by (simp add: d)
  then show "room k st' = room k st" by (simp add: room_def)
  show "sc_free_item (slabclass_of r st' c) = (if r = res \<and> c = cid then None else sc_free_item (slabclass_of r st c))"
    "sc_nitem (slabclass_of r st' c) = sc_nitem (slabclass_of r st c)" by (rule sc)+
  show "st_heap st' = st_heap st" "st_slabs st' = st_slabs st" "heapinfo_of r st' = heapinfo_of r st"
    "nitems st' = nitems st" by simp_all
qed

lemma upd_class_cong:
  "f (slabclass_of res st cid) = g (slabclass_of res st cid) \<Longrightarrow> upd_class res cid f st = upd_class res cid g st"
  by (cases res) (simp_all add: upd_class_def slabclass_of_def)

lemma refcount_of_free_slab:
  assumes inv: "store_inv M st" and sl: "sl \<in> tables st" "sl_refcount (st_slabs st sl) = 0" "i < nitems st sl"
  shows "it_refcount (heap_at st (sl, i)) = 0"
proof -
  have "(\<Sum>j<nitems st sl. unat (it_refcount (heap_at st (sl, j)))) = 0"
    using store_invD(7) [OF inv] sl unfolding inv_refs_def by (metis empty_iff unat_0)
  then have "unat (it_refcount (heap_at st (sl, i))) = 0" using sl(3) by simp
  then show ?thesis by (simp add: unat_eq_0)
qed

text \<open>What evicting items of a slab does not change.\<close>

definition slabs_kept :: "mc \<Rightarrow> mc \<Rightarrow> bool" where
  "slabs_kept st st' \<longleftrightarrow> st_slabs st' = st_slabs st \<and> (\<forall>r. heapinfo_of r st' = heapinfo_of r st)
     \<and> (\<forall>r c. sc_free_item (slabclass_of r st' c) = sc_free_item (slabclass_of r st c))
     \<and> (\<forall>q. \<not> live (heap_at st q) \<longrightarrow> \<not> live (heap_at st' q))"

lemma slabs_kept_refl [simp]: "slabs_kept st st"
  by (simp add: slabs_kept_def)

lemma slabs_kept_trans: "slabs_kept st st' \<Longrightarrow> slabs_kept st' st'' \<Longrightarrow> slabs_kept st st''"
  unfolding slabs_kept_def by metis

lemma slabs_keptI:
  assumes "st_slabs st' = st_slabs st" "\<And>r. heapinfo_of r st' = heapinfo_of r st"
    "\<And>r c. sc_free_item (slabclass_of r st' c) = sc_free_item (slabclass_of r st c)"
    "st_heap st' = (st_heap st)(p := it)" "\<not> live it"
  shows "slabs_kept st st'"
  using assms by (simp add: slabs_kept_def)

lemma slabs_keptD:
  assumes "slabs_kept st st'" "frame st st'"
  shows "st_slabs st' = st_slabs st" "heapinfo_of r st' = heapinfo_of r st" "tables st' = tables st" "nitems st' = nitems st"
    "sc_free_item (slabclass_of r st' c) = sc_free_item (slabclass_of r st c)"
  using assms by (simp_all add: slabs_kept_def frame_def tables_def nitems_def fun_eq_iff)

lemma slab_evict_item_inv:
  assumes inv: "store_inv M st" and room: "room k st"
    and sl: "sl \<in> tables st" "sl_refcount (st_slabs st sl) = 0" "i < nitems st sl"
    and run: "slab_evict_item res sl i st = Some st'"
  shows "store_inv M st' \<and> evicts {} st st' \<and> room k st' \<and> slabs_kept st st' \<and> \<not> live (heap_at st' (sl, i))"
proof -
  let ?p = "(sl, i)" and ?cid = "sl_id (st_slabs st sl)"
  note rc = refcount_of_free_slab [OF inv sl]
  consider (linked) "item_is_linked (heap_at st ?p)"
    | (slabbed) "\<not> item_is_linked (heap_at st ?p)" "item_is_slabbed (heap_at st ?p)"
    | (neither) "\<not> live (heap_at st ?p)" using rc by (auto simp: live_def)
  then show ?thesis
  proof cases
    case linked
    obtain s where s: "item_reuse ?p st = Some s" "store_inv M s" "evicts {} st s" "room k s"
      "carved s ?p" "\<not> live (heap_at s ?p)" "it_id (heap_at s ?p) = it_id (heap_at st ?p)" "same_slabs st s"
      "st_heap s = (st_heap st)(?p := (heap_at st ?p)\<lparr>it_flags := it_flags (heap_at st ?p) - {ITEM_LINKED}\<rparr>)"
      by (rule item_reuse_inv [OF inv linked rc room])
    have "slabs_kept st s" using same_slabsD [OF s(8)] s(6,9) by (intro slabs_keptI) simp_all
    then show ?thesis using s run linked by (simp add: slab_evict_item_def)
  next
    case slabbed
    let ?q = "sc_free_itemq (slabclass_of res st ?cid)"
    have c: "sc_free_itemq (slabclass_of res (clear_flag ITEM_SLABBED ?p st) ?cid) = ?q" by (simp add: mc_upd)
    have m: "?p \<in> set ?q"
      using run slabbed by (simp add: slab_evict_item_def Let_def c tq_remove_def split: if_splits)
    moreover have st': "st' = upd_class res ?cid (\<lambda>c. c\<lparr>sc_nfree_itemq := sc_nfree_itemq c - 1, sc_free_itemq := remove1 ?p (sc_free_itemq c)\<rparr>)
        (clear_flag ITEM_SLABBED ?p st)"
      using run slabbed m by (auto simp: slab_evict_item_def Let_def c tq_remove_def intro!: upd_class_cong)
    note t = take_slabbed_inv [OF inv m st']
    have "slabs_kept st st'" using t by (intro slabs_keptI) simp_all
    then show ?thesis using t room by simp
  next
    case neither
    then show ?thesis using run inv room by (simp add: slab_evict_item_def Let_def live_def)
  qed
qed

lemma foldm_each:
  assumes "foldm f xs s = Some s'" "P s"
    and "\<And>x s s'. x \<in> set xs \<Longrightarrow> P s \<Longrightarrow> f x s = Some s' \<Longrightarrow> P s' \<and> R s s' \<and> D x s'"
    and "\<And>x s s'. D x s \<Longrightarrow> R s s' \<Longrightarrow> D x s'"
    and "\<And>s. R s s" "\<And>s s' s''. R s s' \<Longrightarrow> R s' s'' \<Longrightarrow> R s s''"
  shows "P s' \<and> R s s' \<and> (\<forall>x \<in> set xs. D x s')"
  using assms(1-3)
proof (induction xs arbitrary: s)
  case Nil
  then show ?case using assms(5) by simp
next
  case (Cons x xs)
  obtain t where t: "f x s = Some t" "foldm f xs t = Some s'" using Cons.prems(1) by (auto split: option.splits)
  have a: "P t \<and> R s t \<and> D x t" by (rule Cons.prems(3) [OF _ Cons.prems(2) t(1)]) simp
  moreover have "P s' \<and> R t s' \<and> (\<forall>x \<in> set xs. D x s')"
    using a by (intro Cons.IH [OF t(2)]) (use Cons.prems(3) in auto)
  ultimately show ?case using assms(4,6) by auto
qed

text \<open>A slab without live items may be taken from its owner.\<close>

lemma release_slab_inv:
  assumes inv: "store_inv M st" and sl: "sl \<in> tables st"
    and dead: "\<And>i. i < nitems st sl \<Longrightarrow> \<not> live (heap_at st (sl, i))"
    and free: "\<And>r c i. sc_free_item (slabclass_of r st c) \<noteq> Some (sl, i)"
    and st': "slab_lruq_remove res sl st = Some st'"
  shows "store_invx {sl} M st'" "evicts {} st st'" "room k st' = room k st"
    "hi_slab_table (heapinfo_of r st') = hi_slab_table (heapinfo_of r st)"
    "st_slabs st' = st_slabs st" "slabclass_of r st' = slabclass_of r st" "st_heap st' = st_heap st"
proof -
  note i = store_invD [OF inv]
  let ?q = "hi_slab_lruq (heapinfo_of res st)"
  have d: "st' = upd_heapinfo res (\<lambda>h. h\<lparr>hi_slab_lruq := remove1 sl ?q\<rparr>) st"
    using st' by (simp add: slab_lruq_remove_def tq_remove_def split: if_splits)
  have same [simp]: "slabclass_of r st' = slabclass_of r st" "st_heap st' = st_heap st" "lruq_of r st' = lruq_of r st"
    "st_slabs st' = st_slabs st" "st_slabclass st' = st_slabclass st" "st_reserved_slabclass st' = st_reserved_slabclass st"
    "st_next_slab st' = st_next_slab st" "st_assoc st' = st_assoc st" "key_at st' = key_at st" for r
    by (simp_all add: d mc_upd key_at_def fun_eq_iff)
  have hi [simp]: "hi_slab_table (heapinfo_of r st') = hi_slab_table (heapinfo_of r st)"
    "hi_nslab (heapinfo_of r st') = hi_nslab (heapinfo_of r st)"
    "hi_slab_lruq (heapinfo_of r st') = (if r = res then remove1 sl ?q else hi_slab_lruq (heapinfo_of r st))"
    "hi_slab_table (st_heapinfo st') = hi_slab_table (st_heapinfo st)"
    "hi_slab_table (st_reserved_heapinfo st') = hi_slab_table (st_reserved_heapinfo st)" for r
    by (simp_all add: d mc_upd)
  have [simp]: "tables st' = tables st" "nitems st' = nitems st" "carved st' = carved st"
    by (simp_all add: tables_def nitems_def carved_def fun_eq_iff)
  have nl: "fst p \<noteq> sl" if "live (heap_at st p)" for p
    using inv_liveD(1) [OF i(6) that] that dead [of "snd p"] by (cases p) (auto simp: carved_def)
  show "store_invx {sl} M st'"
  proof (rule store_invI)
    show "inv_index st'" using i(1) by (simp add: inv_index_def)
    show "inv_lruq st'" using i(2) by (simp add: inv_lruq_def)
    show "inv_free st'" using i(3) by (simp add: inv_free_def)
    show "inv_tables st'" using i(4) set_remove1_subset [of sl ?q] by (auto simp: inv_tables_def)
    show "inv_slabs {sl} st'" using i(5) free by (auto simp: inv_slabs_def)
    show "inv_live {sl} st'" using i(6) nl by (simp add: inv_live_def)
    show "inv_refs {sl} st'" using i(7) by (simp add: inv_refs_def)
    show "owned M st'" using i(8) by (simp add: owned_def)
  qed
  show "evicts {} st st'" by (rule evicts_heap) (simp_all add: frame_def d mc_upd)
  have "st_settings st' = st_settings st" by (simp add: d mc_upd)
  then show "room k st' = room k st" by (simp add: room_def)
  show "hi_slab_table (heapinfo_of r st') = hi_slab_table (heapinfo_of r st)" "st_slabs st' = st_slabs st"
    "slabclass_of r st' = slabclass_of r st" "st_heap st' = st_heap st" by simp_all
qed

lemma inv_slabs_nitem:
  assumes "inv_slabs X st"
  shows "sc_nitem (slabclass_of r st cid) = sc_nitem (st_slabclass st cid)"
    "sc_nitem (slabclass_of r st (sl_id (st_slabs st sl))) = nitems st sl"
  using assms by (simp_all add: inv_slabs_def slabclass_of_def nitems_def)

lemma tables_disjoint:
  assumes "inv_tables st" "sl \<in> set (hi_slab_table (heapinfo_of r st))" "sl \<in> set (hi_slab_table (heapinfo_of r' st))"
  shows "r = r'"
  using assms by (cases r; cases r') (auto simp: inv_tables_def heapinfo_of_def)

lemma slab_evict_one_inv:
  assumes inv: "store_inv M st" and room: "room k st"
    and sl: "sl \<in> set (hi_slab_table (heapinfo_of res st))" "sl_refcount (st_slabs st sl) = 0"
    and run: "slab_evict_one res sl st = Some st'"
  shows "store_invx {sl} M st' \<and> evicts {} st st' \<and> room k st' \<and> sl \<in> set (hi_slab_table (heapinfo_of res st'))"
proof -
  let ?cid = "sl_id (st_slabs st sl)"
  define s1 where "s1 = (case sc_free_item (slabclass_of res st ?cid) of
         Some p \<Rightarrow> if item_2_slab p = sl
           then upd_class res ?cid (\<lambda>c. c\<lparr>sc_nfree_item := 0, sc_free_item := None\<rparr>) st else st
       | None \<Rightarrow> st)"
  obtain s2 where run1: "foldm (slab_evict_item res sl) [0..<sc_nitem (slabclass_of res s1 ?cid)] s1 = Some s2"
    and run2: "slab_lruq_remove res sl s2 = Some st'"
    using run by (auto simp: slab_evict_one_def Let_def s1_def bind_eq_Some_conv)
  have "s1 = st \<or> s1 = upd_class res ?cid (\<lambda>c. c\<lparr>sc_nfree_item := 0, sc_free_item := None\<rparr>) st"
    by (auto simp: s1_def split: option.splits)
  then have s1: "store_inv M s1" "evicts {} st s1" "room k s1" "st_slabs s1 = st_slabs st"
      "heapinfo_of r s1 = heapinfo_of r st" "nitems s1 = nitems st"
      "sc_nitem (slabclass_of r s1 c) = sc_nitem (slabclass_of r st c)" for r c
    using inv room drop_free_item_inv [OF inv refl, where res = res and cid = ?cid] by auto
  have i5: "inv_slabs {} st" and i4: "inv_tables st" using store_invD [OF inv] by simp_all
  have t: "sl \<in> tables s1" "tables s1 = tables st" using sl(1) by (auto simp: tables_def s1(5))
  have n: "sc_nitem (slabclass_of res s1 ?cid) = nitems s1 sl"
    by (simp add: s1 inv_slabs_nitem(2) [OF i5])
  have own: "r = res \<and> c = ?cid" if "sc_free_item (slabclass_of r st c) = Some (sl, i)" for r c i
    using that i5 tables_disjoint [OF i4 _ sl(1), of r] by (auto simp: inv_slabs_def)
  have f1: "sc_free_item (slabclass_of r s1 c) \<noteq> Some (sl, i)" for r c i
  proof
    assume a: "sc_free_item (slabclass_of r s1 c) = Some (sl, i)"
    have "sc_free_item (slabclass_of r st c) = Some (sl, i)"
      using a drop_free_item_inv(9) [OF inv refl, where r = r and res = res and cid = ?cid and c = c] by (auto simp: s1_def split: option.splits if_splits)
    then have "r = res" "c = ?cid" "sc_free_item (slabclass_of res st ?cid) = Some (sl, i)" using own by auto
    then show False using a drop_free_item_inv(9) [OF inv refl, where r = r and res = res and cid = ?cid and c = c] by (simp add: s1_def item_2_slab_def)
  qed
  let ?P = "\<lambda>s. store_inv M s \<and> room k s \<and> evicts {} s1 s \<and> slabs_kept s1 s"
  have two: "?P s2 \<and> slabs_kept s1 s2 \<and> (\<forall>i \<in> set [0..<nitems s1 sl]. \<not> live (heap_at s2 (sl, i)))"
  proof (rule foldm_each [where P = ?P and R = slabs_kept and D = "\<lambda>i s. \<not> live (heap_at s (sl, i))", OF run1 [unfolded n]])
    fix i s s' assume i: "i \<in> set [0..<nitems s1 sl]" and P: "?P s" and r: "slab_evict_item res sl i s = Some s'"
    note k = slabs_keptD [of s1 s, OF _ evicts_frame]
    have "store_inv M s' \<and> evicts {} s s' \<and> room k s' \<and> slabs_kept s s' \<and> \<not> live (heap_at s' (sl, i))"
      using P i t sl(2) k s1(4) by (intro slab_evict_item_inv [OF _ _ _ _ _ r]) auto
    then show "?P s' \<and> slabs_kept s s' \<and> \<not> live (heap_at s' (sl, i))"
      using P evicts_trans [of "{}" s1 s "{}" s'] slabs_kept_trans [of s1 s s'] by simp
  next
    show "slabs_kept s s''" if "slabs_kept s s'" "slabs_kept s' s''" for s s' s'' using that by (rule slabs_kept_trans)
    show "\<not> live (heap_at s' (sl, x))" if "\<not> live (heap_at s (sl, x))" "slabs_kept s s'" for x s s'
      using that by (simp add: slabs_kept_def)
  qed (use s1 in simp_all)
  then have k: "slabs_kept s1 s2" "frame s1 s2" by (auto dest: evicts_frame)
  note k2 = slabs_keptD [OF k]
  have r: "store_invx {sl} M st'" "evicts {} s2 st'" "room k st' = room k s2"
    "hi_slab_table (heapinfo_of res st') = hi_slab_table (heapinfo_of res s2)"
    by (rule release_slab_inv [OF _ _ _ _ run2]; use two t f1 in \<open>auto simp: k2\<close>)+
  show ?thesis
    using r two sl(1) evicts_trans [OF evicts_trans [OF s1(2)] r(2), of "{}"] by (simp add: k2 s1)
qed

subsection \<open>New slabs\<close>

lemma env_step_inv:
  assumes inv: "store_invx X M st" and st': "st' = st\<lparr>st_env_pos := n\<rparr>"
  shows "store_invx X M st'" "evicts {} st st'" "room k st' = room k st" "st_heap st' = st_heap st"
    "slabclass_of r st' = slabclass_of r st" "heapinfo_of r st' = heapinfo_of r st" "st_slabs st' = st_slabs st"
proof -
  note i = store_invD [OF inv]
  have same [simp]: "slabclass_of r st' = slabclass_of r st" "heapinfo_of r st' = heapinfo_of r st"
    "lruq_of r st' = lruq_of r st" "st_heap st' = st_heap st" "st_slabs st' = st_slabs st"
    "st_slabclass st' = st_slabclass st" "st_reserved_slabclass st' = st_reserved_slabclass st"
    "st_heapinfo st' = st_heapinfo st" "st_reserved_heapinfo st' = st_reserved_heapinfo st"
    "st_next_slab st' = st_next_slab st" "st_assoc st' = st_assoc st" "key_at st' = key_at st" for r
    by (simp_all add: st' mc_upd key_at_def fun_eq_iff)
  have [simp]: "tables st' = tables st" "nitems st' = nitems st" "carved st' = carved st"
    by (simp_all add: tables_def nitems_def carved_def fun_eq_iff)
  show "store_invx X M st'" using i
    by (intro store_invI) (simp_all add: inv_index_def inv_lruq_def inv_free_def inv_tables_def inv_slabs_def
        inv_live_def inv_refs_def owned_def)
  show "evicts {} st st'" by (rule evicts_heap) (simp_all add: frame_def st')
  have "st_settings st' = st_settings st" by (simp add: st')
  then show "room k st' = room k st" by (simp add: room_def)
  show "st_heap st' = st_heap st" "slabclass_of r st' = slabclass_of r st" "heapinfo_of r st' = heapinfo_of r st"
    "st_slabs st' = st_slabs st" by simp_all
qed

lemma new_slab_inv:
  assumes inv: "store_inv M st"
    and st': "st' = slab_table_update res (st_next_slab st) (st\<lparr>st_next_slab := st_next_slab st + 1\<rparr>)"
  shows "store_invx {st_next_slab st} M st'" "evicts {} st st'" "room k st' = room k st" "st_heap st' = st_heap st"
    "st_next_slab st \<in> set (hi_slab_table (heapinfo_of res st'))"
proof -
  let ?n = "st_next_slab st"
  note i = store_invD [OF inv] and d = st' slab_table_update_def mc_upd
  have same [simp]: "slabclass_of r st' = slabclass_of r st" "st_heap st' = st_heap st" "lruq_of r st' = lruq_of r st"
    "st_slabs st' = st_slabs st" "st_slabclass st' = st_slabclass st" "st_reserved_slabclass st' = st_reserved_slabclass st"
    "st_assoc st' = st_assoc st" "st_next_slab st' = Suc ?n" "key_at st' = key_at st" for r
    by (simp_all add: d key_at_def fun_eq_iff)
  have hi: "hi_slab_table (heapinfo_of r st') = hi_slab_table (heapinfo_of r st) @ (if r = res then [?n] else [])"
    "hi_nslab (heapinfo_of r st') = hi_nslab (heapinfo_of r st) + (if r = res then 1 else 0)"
    "hi_slab_lruq (heapinfo_of r st') = hi_slab_lruq (heapinfo_of r st)" for r
    by (simp_all add: d)
  have lt: "sl < ?n" if "sl \<in> set (hi_slab_table (heapinfo_of r st))" for sl r
    using i(4) that by (auto simp: inv_tables_def)
  have tb: "tables st' = insert ?n (tables st)" by (auto simp: tables_def hi split: if_splits)
  have [simp]: "nitems st' = nitems st" by (simp add: nitems_def fun_eq_iff)
  have carved: "carved st q \<Longrightarrow> carved st' q" for q by (auto simp: carved_def tb)
  have nl: "fst q \<noteq> ?n" if "live (heap_at st q)" for q
    using inv_liveD(1) [OF i(6) that] lt by (fastforce simp: carved_def tables_def)
  show "store_invx {?n} M st'"
  proof (rule store_invI)
    show "inv_index st'" using i(1) by (simp add: inv_index_def)
    show "inv_lruq st'" using i(2) by (simp add: inv_lruq_def)
    show "inv_free st'" using i(3) by (simp add: inv_free_def)
    have h: "hi_slab_table (st_heapinfo s) = hi_slab_table (heapinfo_of False s)"
      "hi_slab_table (st_reserved_heapinfo s) = hi_slab_table (heapinfo_of True s)" for s by (simp_all add: heapinfo_of_def)
    show "inv_tables st'" using i(4) lt by (auto simp: inv_tables_def hi h less_Suc_eq subset_iff)
    have "?n \<notin> set (hi_slab_table (heapinfo_of r st))" for r using lt by blast
    then show "inv_slabs {?n} st'" using i(5) by (simp add: inv_slabs_def hi tb) metis
    show "inv_live {?n} st'" using i(6) nl carved by (simp add: inv_live_def)
    show "inv_refs {?n} st'" using i(7) by (simp add: inv_refs_def tb)
    show "owned M st'" using i(8) by (simp add: owned_def)
  qed
  show "evicts {} st st'" by (rule evicts_heap) (simp_all add: frame_def d)
  have "st_settings st' = st_settings st" by (simp add: d)
  then show "room k st' = room k st" by (simp add: room_def)
  show "st_heap st' = st_heap st" "?n \<in> set (hi_slab_table (heapinfo_of res st'))" by (simp_all add: hi)
qed

text \<open>What a routine that looks for a slab for pool \<open>res\<close> promises.\<close>

definition gives_slab :: "bool \<Rightarrow> ptr multiset \<Rightarrow> nat \<Rightarrow> mc \<Rightarrow> nat option \<Rightarrow> mc \<Rightarrow> bool" where
  "gives_slab res M k st r st' \<longleftrightarrow> evicts {} st st' \<and> room k st' \<and>
     (case r of None \<Rightarrow> store_inv M st' \<and> st_heap st' = st_heap st
      | Some sl \<Rightarrow> store_invx {sl} M st' \<and> sl \<in> set (hi_slab_table (heapinfo_of res st')))"

lemma slab_get_new_gives:
  assumes inv: "store_inv M st" "room k st" and run: "slab_get_new res st = (r, st')"
  shows "gives_slab res M k st r st'"
proof -
  let ?s = "st\<lparr>st_env_pos := st_env_pos st + 1\<rparr>"
  define s where "s = (if set_prealloc (st_settings st) then st else ?s)"
  have e: "store_inv M s" "evicts {} st s" "room k s" "st_heap s = st_heap st"
    using inv env_step_inv [OF inv(1) refl, where n = "st_env_pos st + 1"] by (simp_all add: s_def)
  define ok where "ok = (set_prealloc (st_settings st) \<or> st_malloc_ok st (st_env_pos st))"
  have a: "slab_heap_alloc st = (if ok then (Some (st_next_slab s), s\<lparr>st_next_slab := st_next_slab s + 1\<rparr>) else (None, s))"
    by (simp add: slab_heap_alloc_def mc_alloc_next_def s_def ok_def)
  show ?thesis
  proof (cases "slab_heap_full res st \<or> \<not> ok")
    case True
    then have "r = None" "st' = st \<or> st' = s" using run by (auto simp: slab_get_new_def a split: if_splits)
    then show ?thesis using e inv by (auto simp: gives_slab_def)
  next
    case False
    then have r: "r = Some (st_next_slab s)"
      "st' = slab_table_update res (st_next_slab s) (s\<lparr>st_next_slab := st_next_slab s + 1\<rparr>)"
      using run by (auto simp: slab_get_new_def a split: if_splits)
    note n = new_slab_inv [OF e(1) r(2)]
    show ?thesis using n r(1) e(3) evicts_trans [OF e(2), of "{}" st'] by (simp add: gives_slab_def)
  qed
qed

lemma slab_evict_lru_gives:
  assumes inv: "store_inv M st" "room k st" and run: "slab_evict_lru res st = Some (r, st')"
  shows "gives_slab res M k st r st'"
proof -
  let ?f = "find (\<lambda>sl. sl_refcount (st_slabs st sl) = 0) (take SLAB_LRU_MAX_TRIES (hi_slab_lruq (heapinfo_of res st)))"
  show ?thesis
  proof (cases ?f)
    case None
    then show ?thesis using run inv by (simp add: slab_evict_lru_def gives_slab_def)
  next
    case (Some sl)
    then have "sl \<in> set (hi_slab_lruq (heapinfo_of res st))" "sl_refcount (st_slabs st sl) = 0"
      by (auto simp: find_Some_iff dest: in_set_takeD)
    then have "sl \<in> set (hi_slab_table (heapinfo_of res st))" "sl_refcount (st_slabs st sl) = 0"
      using store_invD(4) [OF inv(1)] by (auto simp: inv_tables_def)
    moreover have "slab_evict_one res sl st = Some st'" "r = Some sl"
      using run by (simp_all add: slab_evict_lru_def Some bind_eq_Some_conv)
    ultimately show ?thesis using slab_evict_one_inv [OF inv, of sl res st'] by (simp add: gives_slab_def)
  qed
qed

lemma slab_table_rand_Some:
  assumes "slab_table_rand res st = Some (sl, s)"
  shows "s = st\<lparr>st_env_pos := st_env_pos st + 1\<rparr> \<and> sl \<in> set (hi_slab_table (heapinfo_of res s))"
proof -
  define s1 h where "s1 = st\<lparr>st_env_pos := st_env_pos st + 1\<rparr>" and "h = heapinfo_of res s1"
  have e: "slab_table_rand res st = (if hi_nslab h = 0 \<or> hi_nslab h > length (hi_slab_table h) then None
     else Some (hi_slab_table h ! (st_rand st (st_env_pos st) mod hi_nslab h), s1))"
    by (simp add: slab_table_rand_def rand_next_def Let_def s1_def h_def)
  then have c: "\<not> (hi_nslab h = 0 \<or> hi_nslab h > length (hi_slab_table h))" using assms by (metis option.distinct(1))
  then have "st_rand st (st_env_pos st) mod hi_nslab h < length (hi_slab_table h)"
    by (meson less_le_trans mod_less_divisor neq0_conv not_le)
  moreover have "s = s1" "sl = hi_slab_table h ! (st_rand st (st_env_pos st) mod hi_nslab h)"
    using assms e c by simp_all
  ultimately show ?thesis by (simp add: s1_def h_def)
qed

lemma slab_rand_loop_inv:
  assumes "slab_rand_loop res n st = Some (sl, tries, st')" "store_inv M st" "room k st"
  shows "store_inv M st' \<and> evicts {} st st' \<and> room k st' \<and> st_heap st' = st_heap st
    \<and> sl \<in> set (hi_slab_table (heapinfo_of res st')) \<and> (tries > 0 \<longrightarrow> sl_refcount (st_slabs st' sl) = 0)"
  using assms
proof (induction n arbitrary: st)
  case (Suc n)
  let ?s = "st\<lparr>st_env_pos := st_env_pos st + 1\<rparr>"
  note e = env_step_inv [OF Suc.prems(2) refl, where n = "st_env_pos st + 1"]
  obtain sl1 s1 where t1: "slab_table_rand res st = Some (sl1, s1)"
    using Suc.prems(1) by (cases "slab_table_rand res st") auto
  have t: "slab_table_rand res st = Some (sl1, ?s)" "sl1 \<in> set (hi_slab_table (heapinfo_of res ?s))"
    using t1 slab_table_rand_Some [OF t1] by auto
  show ?case
  proof (cases "n > 0 \<and> sl_refcount (st_slabs ?s sl1) \<noteq> 0")
    case True
    then have r: "slab_rand_loop res n ?s = Some (sl, tries, st')" using Suc.prems(1) t by simp
    show ?thesis using Suc.IH [OF r e(1)] Suc.prems(3) e(2-4) evicts_trans [OF e(2), of "{}" st'] by simp
  next
    case False
    then have "sl = sl1" "tries = n" "st' = ?s" using Suc.prems(1) t by (auto split: if_splits)
    then show ?thesis using False t(2) e(1-4) Suc.prems(3) by auto
  qed
qed simp

lemma slab_evict_rand_gives:
  assumes inv: "store_inv M st" "room k st" and run: "slab_evict_rand res st = Some (r, st')"
  shows "gives_slab res M k st r st'"
proof -
  obtain sl tries s where l: "slab_rand_loop res SLAB_RAND_MAX_TRIES st = Some (sl, tries, s)"
    using run by (auto simp: slab_evict_rand_def bind_eq_Some_conv)
  note i = slab_rand_loop_inv [OF l inv]
  show ?thesis
  proof (cases "tries = 0")
    case True
    then show ?thesis using run l i by (simp add: slab_evict_rand_def gives_slab_def)
  next
    case False
    then have run2: "slab_evict_one res sl s = Some st'" "r = Some sl"
      using run l by (auto simp: slab_evict_rand_def bind_eq_Some_conv)
    have "store_invx {sl} M st' \<and> evicts {} s st' \<and> room k st' \<and> sl \<in> set (hi_slab_table (heapinfo_of res st'))"
      using i False by (intro slab_evict_one_inv [OF _ _ _ _ run2(1)]) auto
    then show ?thesis using i run2(2) evicts_trans [of "{}" st s "{}" st'] by (simp add: gives_slab_def)
  qed
qed

subsection \<open>Carving a slab\<close>

lemma fold_item_hdr_init:
  "heap_at (fold (\<lambda>i. item_hdr_init (sl, i) (off i) cid sz) [0..<n] st) q =
     (if fst q = sl \<and> snd q < n
      then (heap_at st q)\<lparr>it_offset := off (snd q), it_id := cid, it_refcount := 0, it_flags := {},
        it_end := replicate (sz - ITEM_HDR_SIZE) (CHR 0x00)\<rparr>
      else heap_at st q)"
  by (induction n) (cases q, auto simp: item_hdr_init_def upd_item_def less_Suc_eq)

lemma fold_item_hdr_init_state:
  "\<exists>h. fold (\<lambda>i. item_hdr_init (sl, i) (off i) cid sz) [0..<n] st = st\<lparr>st_heap := h\<rparr>"
proof (induction n)
  case 0
  have "st = st\<lparr>st_heap := st_heap st\<rparr>" by simp
  then show ?case by (metis fold_simps(1) upt_0)
next
  case (Suc n)
  then show ?case by (auto simp: item_hdr_init_def upd_item_def)
qed

lemma slab_add_one_inv:
  assumes inv: "store_invx {sl} M st" and room: "room k st"
    and sl: "sl \<in> set (hi_slab_table (heapinfo_of res st))" and n: "0 < sc_nitem (st_slabclass st cid)"
    and st': "st' = slab_add_one res sl cid st"
  shows "store_inv M st'" "evicts {} st st'" "room k st'" "sc_free_item (slabclass_of res st' cid) = Some (sl, 0)"
proof -
  note i = store_invD [OF inv]
  let ?c = "slabclass_of res st cid" and ?n = "sc_nitem (st_slabclass st cid)"
  define s1 where "s1 = slab_lruq_append res sl (slab_hdr_init sl cid st)"
  obtain h where h: "fold (\<lambda>i. item_hdr_init (sl, i) (SLAB_HDR_SIZE + i * sc_size ?c) cid (sc_size ?c)) [0..<sc_nitem ?c] s1
      = s1\<lparr>st_heap := h\<rparr>"
    using fold_item_hdr_init_state [of sl "\<lambda>i. SLAB_HDR_SIZE + i * sc_size ?c" cid "sc_size ?c" "sc_nitem ?c" s1] by blast
  have nn: "sc_nitem ?c = ?n" by (rule inv_slabs_nitem(1) [OF i(5)])
  have hs: "st_heap s1 = st_heap st" by (simp add: s1_def slab_lruq_append_def slab_hdr_init_def mc_upd)
  have hq: "h q = (if fst q = sl \<and> snd q < ?n
      then (heap_at st q)\<lparr>it_offset := SLAB_HDR_SIZE + snd q * sc_size ?c, it_id := cid, it_refcount := 0, it_flags := {},
        it_end := replicate (sc_size ?c - ITEM_HDR_SIZE) (CHR 0x00)\<rparr>
      else heap_at st q)" for q
    using fold_item_hdr_init [of sl "\<lambda>i. SLAB_HDR_SIZE + i * sc_size ?c" cid "sc_size ?c" "sc_nitem ?c" s1 q, unfolded h]
    by (simp add: hs nn)
  have st'': "st' = upd_class res cid (\<lambda>c. c\<lparr>sc_nfree_item := sc_nitem c, sc_free_item := Some (sl, 0)\<rparr>) (s1\<lparr>st_heap := h\<rparr>)"
    unfolding st' slab_add_one_def Let_def h [symmetric] unfolding s1_def ..
  note d = st'' s1_def slab_lruq_append_def slab_hdr_init_def mc_upd
  have hp: "st_heap st' = h" by (simp add: d)
  have same [simp]: "lruq_of r st' = lruq_of r st" "st_next_slab st' = st_next_slab st" "st_assoc st' = st_assoc st" for r
    by (simp_all add: d)
  have slb: "sl_id (st_slabs st' s) = (if s = sl then cid else sl_id (st_slabs st s))"
    "sl_refcount (st_slabs st' s) = (if s = sl then 0 else sl_refcount (st_slabs st s))" for s
    by (simp_all add: d)
  have hi: "hi_slab_table (heapinfo_of r st') = hi_slab_table (heapinfo_of r st)"
    "hi_nslab (heapinfo_of r st') = hi_nslab (heapinfo_of r st)"
    "hi_slab_lruq (heapinfo_of r st') = hi_slab_lruq (heapinfo_of r st) @ (if r = res then [sl] else [])"
    "hi_slab_table (st_heapinfo st') = hi_slab_table (st_heapinfo st)"
    "hi_slab_table (st_reserved_heapinfo st') = hi_slab_table (st_reserved_heapinfo st)" for r
    by (simp_all add: d)
  have sc: "sc_nitem (slabclass_of r st' c) = sc_nitem (slabclass_of r st c)"
    "sc_nitem (st_slabclass st' c) = sc_nitem (st_slabclass st c)"
    "sc_nitem (st_reserved_slabclass st' c) = sc_nitem (st_reserved_slabclass st c)"
    "sc_nfree_item (slabclass_of r st' c) = (if r = res \<and> c = cid then sc_nitem (slabclass_of r st c) else sc_nfree_item (slabclass_of r st c))"
    "sc_free_item (slabclass_of r st' c) = (if r = res \<and> c = cid then Some (sl, 0) else sc_free_item (slabclass_of r st c))"
    "sc_free_itemq (slabclass_of r st' c) = sc_free_itemq (slabclass_of r st c)"
    "sc_free_itemq (st_slabclass st' c) = sc_free_itemq (st_slabclass st c)"
    "sc_free_itemq (st_reserved_slabclass st' c) = sc_free_itemq (st_reserved_slabclass st c)"
    "sc_nfree_itemq (slabclass_of r st' c) = sc_nfree_itemq (slabclass_of r st c)" for r c
    by (simp_all add: d)
  have tb: "tables st' = tables st" by (simp add: tables_def hi)
  have ni: "nitems st' s = (if s = sl then ?n else nitems st s)" for s by (simp add: nitems_def slb sc)
  have dead: "\<not> live (heap_at st q)" if "fst q = sl" for q using i(6) that by (auto simp: inv_live_def)
  have oth: "heap_at st' q = heap_at st q" if "fst q \<noteq> sl" for q using that by (simp add: hp hq)
  have dead': "\<not> live (heap_at st' q)" if "fst q = sl" for q
    using dead [OF that] that by (auto simp: hp hq live_def item_flag_defs)
  have hd: "item_is_linked (heap_at st' q) = item_is_linked (heap_at st q)"
    "item_is_slabbed (heap_at st' q) = item_is_slabbed (heap_at st q)"
    "it_refcount (heap_at st' q) = it_refcount (heap_at st q)" for q
    using oth [of q] dead [of q] dead' [of q] by (cases "fst q = sl"; simp add: live_def)+
  have live_oth: "heap_at st' q = heap_at st q" if "live (heap_at st q)" for q using that dead oth by blast
  note lk = live_oth [unfolded live_def]
  show "store_inv M st'"
  proof (rule store_invI)
    show "inv_index st'" using i(1) by (rule inv_index_cong) (simp_all add: hd lk key_at_def)
    show "inv_lruq st'" using i(2) lk by (simp add: inv_lruq_def hd) metis
    show "inv_free st'" using i(3) lk by (simp add: inv_free_def sc hd)
    show "inv_tables st'" using i(4) sl by (auto simp: inv_tables_def hi)
    show "inv_slabs {} st'"
      unfolding inv_slabs_def
    proof (intro conjI allI impI)
      show "sc_nitem (st_reserved_slabclass st' c) = sc_nitem (st_slabclass st' c)" for c
        using i(5) by (simp add: sc inv_slabs_def)
    next
      fix r c s j assume f: "sc_free_item (slabclass_of r st' c) = Some (s, j)"
      have "sl_id (st_slabs st' s) = c \<and> s \<in> set (hi_slab_table (heapinfo_of r st')) \<and>
         sc_nfree_item (slabclass_of r st' c) + j = sc_nitem (st_slabclass st' c) \<and> 0 < sc_nfree_item (slabclass_of r st' c)"
        using f i(5) sl n by (auto simp: sc slb hi nn inv_slabs_def split: if_splits)
      then show "sl_id (st_slabs st' s) = c" "s \<in> set (hi_slab_table (heapinfo_of r st'))"
        "sc_nfree_item (slabclass_of r st' c) + j = sc_nitem (st_slabclass st' c)" "0 < sc_nfree_item (slabclass_of r st' c)"
        by simp_all
    next
      fix s j assume "s \<in> tables st'" "j < nitems st' s"
      then show "it_id (heap_at st' (s, j)) = sl_id (st_slabs st' s)"
        using i(5) by (cases "s = sl") (auto simp: inv_slabs_def tb ni slb hp hq)
    qed simp
    show "inv_live {} st'" unfolding inv_live_def
    proof (intro allI impI)
      fix q assume "live (heap_at st' q)"
      then have l: "live (heap_at st q)" "fst q \<noteq> sl" using dead' oth by metis+
      have "carved st' q" using inv_liveD(1) [OF i(6) l(1)] l(2) by (auto simp: carved_def tb ni sc)
      then show "carved st' q \<and> fst q \<notin> {} \<and> (item_is_slabbed (heap_at st' q) \<longrightarrow>
          \<not> item_is_linked (heap_at st' q) \<and> it_refcount (heap_at st' q) = 0)"
        using inv_liveD(3) [OF i(6) l(1)] by (simp add: hd)
    qed
    show "inv_refs {} st'" unfolding inv_refs_def
    proof (intro allI impI)
      fix s assume s: "s \<in> tables st'"
      have "it_refcount (heap_at st (sl, j)) = 0" for j using dead [of "(sl, j)"] by (simp add: live_def)
      then show "unat (sl_refcount (st_slabs st' s)) = (\<Sum>j<nitems st' s. unat (it_refcount (heap_at st' (s, j))))"
        using i(7) s by (auto simp: inv_refs_def tb ni slb hd)
    qed
    show "owned M st'" unfolding owned_def
    proof
      fix q
      show "count M q + (if item_is_linked (heap_at st' q) \<and> pinned (heap_at st' q) then 1 else 0)
          \<le> unat (it_refcount (heap_at st' q))"
        using ownedD [OF i(8), of q] lk [of q] by (cases "item_is_linked (heap_at st q)") (simp_all add: hd)
    qed
  qed
  have "frame st st'" by (simp add: frame_def d)
  then show "evicts {} st st'" unfolding evicts_def using lk by (auto simp: hd)
  have "st_settings st' = st_settings st" "st_assoc st' = st_assoc st" by (simp_all add: d)
  then show "room k st'" using room by (auto simp: room_def slb dest: spec [of _ sl])
  show "sc_free_item (slabclass_of res st' cid) = Some (sl, 0)" by (simp add: sc)
qed

text \<open>What a routine that looks for an item of class \<open>cid\<close> promises.\<close>

definition gives_item :: "nat \<Rightarrow> ptr multiset \<Rightarrow> nat \<Rightarrow> mc \<Rightarrow> ptr option \<Rightarrow> mc \<Rightarrow> bool" where
  "gives_item cid M k st r st' \<longleftrightarrow> store_inv M st' \<and> evicts {} st st' \<and> room k st' \<and>
     (case r of None \<Rightarrow> st_heap st' = st_heap st
      | Some p \<Rightarrow> carved st' p \<and> \<not> live (heap_at st' p) \<and> it_id (heap_at st' p) = cid)"

lemma gives_item_after:
  assumes "evicts {} st s" "gives_item cid M k s (Some p) st'"
  shows "gives_item cid M k st (Some p) st'"
  using assms evicts_trans [OF assms(1), of "{}" st'] by (simp add: gives_item_def)

lemma slab_take_free_item_inv:
  assumes inv: "store_inv M st" and room: "room k st" and run: "slab_take_free_item res cid st = Some (r, st')"
  obtains p where "r = Some p" "gives_item cid M k st (Some p) st'"
proof -
  note i = store_invD [OF inv]
  let ?c = "slabclass_of res st cid"
  obtain sl j where f: "sc_free_item ?c = Some (sl, j)"
    using run by (auto simp: slab_take_free_item_def Let_def split: option.splits)
  have s: "sl_id (st_slabs st sl) = cid" "sl \<in> set (hi_slab_table (heapinfo_of res st))"
    "sc_nfree_item ?c + j = sc_nitem (st_slabclass st cid)" "0 < sc_nfree_item ?c"
    using i(5) f by (auto simp: inv_slabs_def)
  define nxt where "nxt = (if sc_nfree_item ?c - 1 \<noteq> 0 then Some (sl, j + 1) else None)"
  have "slab_take_free_item res cid st =
      Some (Some (sl, j), upd_class res cid (\<lambda>c. c\<lparr>sc_nfree_item := sc_nfree_item ?c - 1, sc_free_item := nxt\<rparr>) st)"
    using s(4) by (simp add: slab_take_free_item_def f Let_def nxt_def)
  then have r: "r = Some (sl, j)" and d: "st' = upd_class res cid (\<lambda>c. c\<lparr>sc_nfree_item := sc_nfree_item ?c - 1, sc_free_item := nxt\<rparr>) st"
    using run by simp_all
  note d = d mc_upd
  have same [simp]: "heapinfo_of r st' = heapinfo_of r st" "st_heap st' = st_heap st"
    "lruq_of r st' = lruq_of r st" "st_slabs st' = st_slabs st" "st_heapinfo st' = st_heapinfo st"
    "st_reserved_heapinfo st' = st_reserved_heapinfo st" "st_next_slab st' = st_next_slab st"
    "st_assoc st' = st_assoc st" "key_at st' = key_at st" for r
    by (simp_all add: d key_at_def fun_eq_iff)
  have sc: "sc_nitem (st_slabclass st' c) = sc_nitem (st_slabclass st c)"
    "sc_nitem (st_reserved_slabclass st' c) = sc_nitem (st_reserved_slabclass st c)"
    "sc_nfree_item (slabclass_of r st' c) = (if r = res \<and> c = cid then sc_nfree_item ?c - 1 else sc_nfree_item (slabclass_of r st c))"
    "sc_free_item (slabclass_of r st' c) = (if r = res \<and> c = cid then nxt else sc_free_item (slabclass_of r st c))"
    "sc_free_itemq (slabclass_of r st' c) = sc_free_itemq (slabclass_of r st c)"
    "sc_free_itemq (st_slabclass st' c) = sc_free_itemq (st_slabclass st c)"
    "sc_free_itemq (st_reserved_slabclass st' c) = sc_free_itemq (st_reserved_slabclass st c)"
    "sc_nfree_itemq (slabclass_of r st' c) = sc_nfree_itemq (slabclass_of r st c)" for r c
    by (simp_all add: d)
  have cv [simp]: "tables st' = tables st" "nitems st' = nitems st"
    by (simp_all add: tables_def nitems_def fun_eq_iff sc)
  have nxt: "nxt = Some (sl', j') \<Longrightarrow> sl' = sl \<and> j' = j + 1 \<and> sc_nfree_item ?c - 1 \<noteq> 0" for sl' j'
    by (auto simp: nxt_def split: if_splits)
  have only: "r = res \<and> c = cid \<and> i = j" if "sc_free_item (slabclass_of r st c) = Some (sl, i)" for r c i
    using that i(5) f s tables_disjoint [OF i(4) _ s(2), of r] by (auto simp: inv_slabs_def)
  have carved: "carved st' q" if "carved st q" for q
    using that f unfolding carved_def sc cv by (auto dest!: nxt split: if_splits) (metis less_SucI)
  have pc: "carved st' (sl, j)" unfolding carved_def sc cv
    using s by (auto simp: tables_def nitems_def dest!: nxt only split: if_splits)
  have "\<not> live (heap_at st (sl, j))"
    using inv_liveD(1) [OF i(6), of "(sl, j)"] f unfolding carved_def by (metis fst_conv snd_conv less_irrefl)
  moreover have "it_id (heap_at st (sl, j)) = cid" using i(5) s by (auto simp: inv_slabs_def tables_def nitems_def)
  moreover have "store_inv M st'"
  proof (rule store_invI)
    show "inv_index st'" using i(1) by (simp add: inv_index_def)
    show "inv_lruq st'" using i(2) by (simp add: inv_lruq_def)
    show "inv_free st'" using i(3) by (simp add: inv_free_def sc)
    show "inv_tables st'" using i(4) by (simp add: inv_tables_def)
    show "inv_slabs {} st'" using i(5) s unfolding inv_slabs_def sc cv same by (auto dest!: nxt split: if_splits)
    show "inv_live {} st'" using i(6) carved by (simp add: inv_live_def)
    show "inv_refs {} st'" using i(7) by (simp add: inv_refs_def)
    show "owned M st'" using i(8) by (simp add: owned_def)
  qed
  moreover have "evicts {} st st'" by (rule evicts_heap) (simp_all add: frame_def d)
  moreover have "st_settings st' = st_settings st" by (simp add: d)
  then have "room k st'" using room by (simp add: room_def)
  ultimately show thesis using that [OF r] pc by (simp add: gives_item_def)
qed

text \<open>The promise of \<open>slab_get\<close> and \<open>slab_get_evict\<close>: whether the class has a slab to carve from.\<close>

lemma add_slab_inv:
  assumes "gives_slab res M k st (Some sl) s" "0 < sc_nitem (st_slabclass st cid)"
  shows "store_inv M (slab_add_one res sl cid s) \<and> evicts {} st (slab_add_one res sl cid s) \<and> room k (slab_add_one res sl cid s)"
proof -
  have a: "store_invx {sl} M s" "evicts {} st s" "room k s" "sl \<in> set (hi_slab_table (heapinfo_of res s))"
    using assms(1) by (simp_all add: gives_slab_def)
  have "0 < sc_nitem (st_slabclass s cid)" using assms(2) evicts_frame [OF a(2)] by (simp add: frame_def)
  note b = slab_add_one_inv [OF a(1,3,4) this refl]
  show ?thesis using b evicts_trans [OF a(2) b(2)] by simp
qed

lemma gives_slab_None:
  assumes "gives_slab res M k st None s" "gives_slab res M k s r st'"
  shows "gives_slab res M k st r st'"
  using assms evicts_trans [of "{}" st s "{}" st'] by (auto simp: gives_slab_def split: option.splits)

lemma slab_get_inv:
  assumes inv: "store_inv M st" "room k st" and n: "0 < sc_nitem (st_slabclass st cid)"
    and run: "slab_get res cid st = Some (ok, st')"
  shows "store_inv M st' \<and> evicts {} st st' \<and> room k st' \<and> (\<not> ok \<longrightarrow> st_heap st' = st_heap st)"
proof -
  let ?opt = "set_evict_opt (st_settings st)"
  obtain r1 s1 where 1: "slab_get_new res st = (r1, s1)" by force
  obtain r2 s2 where 2: "(if r1 = None \<and> (EVICT_CS \<in> ?opt \<or> EVICT_AS \<in> ?opt) then slab_evict_lru res s1 else Some (r1, s1)) = Some (r2, s2)"
    using run by (auto simp: slab_get_def Let_def 1 bind_eq_Some_conv)
  obtain r3 s3 where 3: "(if r2 = None \<and> EVICT_RS \<in> ?opt then slab_evict_rand res s2 else Some (r2, s2)) = Some (r3, s3)"
    using run by (auto simp: slab_get_def Let_def 1 2 bind_eq_Some_conv)
  have fin: "(ok, st') = (case r3 of Some sl \<Rightarrow> (True, slab_add_one res sl cid s3) | None \<Rightarrow> (False, s3))"
    using run by (simp add: slab_get_def Let_def 1 2 3 split: option.splits)
  have g1: "gives_slab res M k st r1 s1" by (rule slab_get_new_gives [OF inv 1])
  have g2: "gives_slab res M k st r2 s2"
  proof (cases "r1 = None \<and> (EVICT_CS \<in> ?opt \<or> EVICT_AS \<in> ?opt)")
    case True
    then have "slab_evict_lru res s1 = Some (r2, s2)" "store_inv M s1" "room k s1" using 2 g1 by (auto simp: gives_slab_def)
    from slab_evict_lru_gives [OF this(2,3,1)] show ?thesis using gives_slab_None g1 True by blast
  qed (use 2 g1 in auto)
  have g3: "gives_slab res M k st r3 s3"
  proof (cases "r2 = None \<and> EVICT_RS \<in> ?opt")
    case True
    then have "slab_evict_rand res s2 = Some (r3, s3)" "store_inv M s2" "room k s2" using 3 g2 by (auto simp: gives_slab_def)
    from slab_evict_rand_gives [OF this(2,3,1)] show ?thesis using gives_slab_None g2 True by blast
  qed (use 3 g2 in auto)
  show ?thesis
  proof (cases r3)
    case None
    then show ?thesis using fin g3 by (simp add: gives_slab_def)
  next
    case (Some sl)
    then show ?thesis using fin add_slab_inv [OF g3 [unfolded Some] n] by simp
  qed
qed

lemma slab_get_evict_inv:
  assumes inv: "store_inv M st" "room k st" and n: "0 < sc_nitem (st_slabclass st cid)"
    and run: "slab_get_evict res cid st = Some (ok, st')"
  shows "store_inv M st' \<and> evicts {} st st' \<and> room k st' \<and> (\<not> ok \<longrightarrow> st_heap st' = st_heap st)"
proof -
  obtain r s where 1: "slab_evict_rand res st = Some (r, s)"
    using run by (auto simp: slab_get_evict_def bind_eq_Some_conv)
  note g = slab_evict_rand_gives [OF inv 1]
  show ?thesis
  proof (cases r)
    case None
    then show ?thesis using run 1 g by (simp add: slab_get_evict_def gives_slab_def)
  next
    case (Some sl)
    then show ?thesis using run 1 add_slab_inv [OF g [unfolded Some] n] by (auto simp: slab_get_evict_def)
  qed
qed

text \<open>The shape both ways of getting an item from the slabs share.\<close>

lemma carve_inv:
  assumes inv: "store_inv M st" "room k st"
    and get: "\<And>ok s. get st = Some (ok, s) \<Longrightarrow> store_inv M s \<and> evicts {} st s \<and> room k s \<and> (\<not> ok \<longrightarrow> st_heap s = st_heap st)"
    and run: "do { (ok, st) \<leftarrow> (if b then get st else Some (True, st));
         if \<not> ok then Some (None, st) else slab_take_free_item res cid st } = Some (r, st')"
  shows "gives_item cid M k st r st'"
proof -
  obtain ok s where 1: "(if b then get st else Some (True, st)) = Some (ok, s)"
    using run by (auto simp: bind_eq_Some_conv)
  have s: "store_inv M s \<and> evicts {} st s \<and> room k s \<and> (\<not> ok \<longrightarrow> st_heap s = st_heap st)"
    using 1 get inv by (cases b) auto
  show ?thesis
  proof (cases ok)
    case True
    then have "slab_take_free_item res cid s = Some (r, st')" using run 1 by simp
    then show ?thesis using s gives_item_after by (metis slab_take_free_item_inv)
  next
    case False
    then show ?thesis using run 1 s by (auto simp: gives_item_def)
  qed
qed

lemma slab_get_item_by_evict_of_inv:
  assumes "store_inv M st" "room k st" "0 < sc_nitem (st_slabclass st cid)"
    and "slab_get_item_by_evict_of res cid st = Some (r, st')"
  shows "gives_item cid M k st r st'"
  by (rule carve_inv [where get = "slab_get_evict res cid", OF assms(1,2) _ assms(4) [unfolded slab_get_item_by_evict_of_def]])
    (rule slab_get_evict_inv [OF assms(1-3)])

lemma slab_get_item_from_freeq_inv:
  assumes inv: "store_inv M st" "room k st" and run: "slab_get_item_from_freeq res cid st = Some (r, st')"
  shows "gives_item cid M k st r st' \<and> (r = None \<longrightarrow> st' = st)"
proof (cases r)
  case None
  then show ?thesis using run inv
    by (auto simp: slab_get_item_from_freeq_def Let_def gives_item_def split: if_splits list.splits)
next
  case (Some p)
  obtain q where q: "sc_free_itemq (slabclass_of res st cid) = p # q"
    "st' = upd_class res cid (\<lambda>c. c\<lparr>sc_nfree_itemq := sc_nfree_itemq c - 1, sc_free_itemq := q\<rparr>) (clear_flag ITEM_SLABBED p st)"
    using run Some by (auto simp: slab_get_item_from_freeq_def Let_def split: if_splits list.splits)
  have "st' = upd_class res cid (\<lambda>c. c\<lparr>sc_nfree_itemq := sc_nfree_itemq c - 1, sc_free_itemq := remove1 p (sc_free_itemq c)\<rparr>)
      (clear_flag ITEM_SLABBED p st)"
    unfolding q(2) using q(1) by (intro upd_class_cong) (simp add: mc_upd split: if_splits)
  from take_slabbed_inv [OF inv(1) _ this] show ?thesis using q(1) Some inv(2) by (simp add: gives_item_def)
qed

lemma slab_get_item_of_inv:
  assumes inv: "store_inv M st" "room k st" "0 < sc_nitem (st_slabclass st cid)"
    and run: "slab_get_item_of res cid st = Some (r, st')"
  shows "gives_item cid M k st r st'"
proof -
  obtain r1 s1 where 1: "slab_get_item_from_freeq res cid st = Some (r1, s1)"
    using run by (auto simp: slab_get_item_of_def bind_eq_Some_conv)
  note f = slab_get_item_from_freeq_inv [OF inv(1,2) 1]
  show ?thesis
  proof (cases r1)
    case None
    then have "do { (ok, st) \<leftarrow> (if sc_free_item (slabclass_of res st cid) = None then slab_get res cid st else Some (True, st));
         if \<not> ok then Some (None, st) else slab_take_free_item res cid st } = Some (r, st')"
      using run 1 f by (simp add: slab_get_item_of_def)
    from carve_inv [where get = "slab_get res cid", OF inv(1,2) _ this] show ?thesis using slab_get_inv [OF inv] by blast
  next
    case (Some p)
    then show ?thesis using run 1 f by (simp add: slab_get_item_of_def)
  qed
qed

subsection \<open>Allocation of an item\<close>

lemma lruq_scan_Some: "lruq_scan n q st = Some p \<Longrightarrow> p \<in> set q \<and> it_refcount (heap_at st p) = 0"
  by (induction n q st rule: lruq_scan.induct) (auto split: if_splits)

lemma item_get_from_lruq_Some:
  assumes "item_get_from_lruq res cid st = Some p" "store_invx X M st"
  shows "item_is_linked (heap_at st p)" "it_refcount (heap_at st p) = 0" "it_id (heap_at st p) = cid"
  using assms lruq_scan_Some [of ITEM_LRUQ_MAX_TRIES "lruq_of res st cid" st p] store_invD(2) [OF assms(2)]
  by (auto simp: item_get_from_lruq_def inv_lruq_def split: if_splits)

lemma item_reuse_gives:
  assumes inv: "store_inv M st" "room k st" and lk: "item_is_linked (heap_at st p)" and rc: "it_refcount (heap_at st p) = 0"
    and run: "item_reuse p st = Some st'"
  shows "gives_item (it_id (heap_at st p)) M k st (Some p) st'"
proof -
  obtain s where "item_reuse p st = Some s" "store_inv M s" "evicts {} st s" "room k s"
    "carved s p" "\<not> live (heap_at s p)" "it_id (heap_at s p) = it_id (heap_at st p)"
    by (rule item_reuse_inv [OF inv(1) lk rc inv(2)])
  then show ?thesis using run by (simp add: gives_item_def)
qed

lemma item_alloc_slow_inv:
  assumes inv: "store_inv M st" "room k st" and n: "0 < sc_nitem (st_slabclass st cid)"
    and it: "it = None \<or> (\<exists>p. it = Some p \<and> item_is_linked (heap_at st p) \<and> it_refcount (heap_at st p) = 0 \<and> it_id (heap_at st p) = cid)"
    and run: "item_alloc_slow cid reserved it st = Some (r, st')"
  shows "gives_item cid M k st r st'"
proof -
  let ?get = "if reserved then slab_get_reserved_item cid st else slab_get_item cid st"
  let ?uit = "if EVICT_LRU \<in> set_evict_opt (st_settings st) then it else None"
  obtain q s where q: "?get = Some (q, s)" using run by (auto simp: item_alloc_slow_def Let_def bind_eq_Some_conv)
  have g: "gives_item cid M k st q s"
    using q by (auto intro!: slab_get_item_of_inv [OF inv n] simp: slab_get_reserved_item_def slab_get_item_def split: if_splits)
  show ?thesis
  proof (cases q)
    case (Some p)
    then show ?thesis using run q g by (simp add: item_alloc_slow_def Let_def)
  next
    case None
    then have s: "store_inv M s" "evicts {} st s" "room k s" "st_heap s = st_heap st" using g by (simp_all add: gives_item_def)
    have ns: "0 < sc_nitem (st_slabclass s cid)" using n evicts_frame [OF s(2)] by (simp add: frame_def)
    show ?thesis
    proof (cases ?uit)
      case (Some p)
      then have p: "item_is_linked (heap_at s p)" "it_refcount (heap_at s p) = 0" "it_id (heap_at s p) = cid"
        using it s(4) by (auto split: if_splits)
      have "item_reuse p s = Some st'" "r = Some p"
        using run q None Some by (auto simp: item_alloc_slow_def Let_def bind_eq_Some_conv)
      then show ?thesis using item_reuse_gives [OF s(1,3) p(1,2)] gives_item_after [OF s(2)] p(3) by simp
    next
      case no: None
      then have run2: "(if set_evict_opt (st_settings s) = {} then Some (None, s)
         else slab_get_item_by_evict_of reserved cid s) = Some (r, st')"
        using run q None by (auto simp: item_alloc_slow_def Let_def slab_get_item_by_evict_slab_def
            slab_get_item_by_evict_reserved_slab_def split: if_splits)
      show ?thesis
      proof (cases "set_evict_opt (st_settings s) = {}")
        case True
        then show ?thesis using run2 s by (simp add: gives_item_def)
      next
        case False
        then have "gives_item cid M k s r st'" using run2 by (intro slab_get_item_by_evict_of_inv [OF s(1,3) ns]) simp
        then show ?thesis using s evicts_trans [OF s(2), of "{}" st'] by (auto simp: gives_item_def split: option.splits)
      qed
    qed
  qed
qed

text \<open>The header a fresh item has.\<close>

definition fresh_header :: "bool \<Rightarrow> nat \<Rightarrow> bytes \<Rightarrow> u32 \<Rightarrow> u32 \<Rightarrow> nat \<Rightarrow> int \<Rightarrow> item \<Rightarrow> bool" where
  "fresh_header cas cid key dataflags exptime nbyte cfg it \<longleftrightarrow> it_flags it = (if cas then {ITEM_CAS} else {})
     \<and> it_coflags it = {} \<and> it_id it = cid \<and> it_nkey it = length key mod 256 \<and> item_key it = take (length key mod 256) key
     \<and> it_dataflags it = dataflags \<and> it_exptime it = exptime \<and> it_nbyte it = nbyte \<and> it_config_number it = cfg
     \<and> it_sess_status it = ALIVE \<and> it_p it = 0 \<and> it_refcount it = 1"

definition allocated :: "ptr multiset \<Rightarrow> nat \<Rightarrow> mc \<Rightarrow> ptr \<Rightarrow> mc \<Rightarrow> bool" where
  "allocated M k st p st' \<longleftrightarrow> store_inv (add_mset p M) st' \<and> room k st' \<and> evicts {p} st st'
     \<and> it_refcount (heap_at st p) = 0 \<and> carved st' p \<and> \<not> item_is_linked (heap_at st' p)"

lemma memcpy_at_key:
  assumes "memcpy_at buf i bs = Some e" shows "take (length bs) (drop i e) = bs"
  using assms by (auto simp: memcpy_at_def split: if_splits)

lemma item_alloc_done_inv:
  assumes inv: "store_inv M st" "room (Suc k) st" "carved st p" "\<not> live (heap_at st p)"
    and run: "item_alloc_done p key dataflags exptime nbyte cfg st = Some (r, st')"
  shows "r = Some p" "store_inv (add_mset p M) st'" "room k st'" "evicts {p} st st'" "carved st' p"
    "fresh_header (set_use_cas (st_settings st)) (it_id (heap_at st p)) key dataflags exptime nbyte cfg (heap_at st' p)"
proof -
  let ?nkey = "length key mod 256"
  define s1 where "s1 = item_acquire_refcount p st"
  define hdr :: "item \<Rightarrow> item" where "hdr = (\<lambda>it. it\<lparr>it_flags := (if set_use_cas (st_settings s1) then {ITEM_CAS} else {}),
        it_dataflags := dataflags, it_nbyte := nbyte, it_exptime := exptime, it_nkey := ?nkey,
        it_sess_status := ALIVE, it_coflags := {}, it_p := 0, it_config_number := cfg\<rparr>)"
  define s2 where "s2 = upd_item p hdr s1"
  obtain e where e: "memcpy_at (it_end (heap_at s2 p)) (item_key_off (heap_at s2 p)) (take ?nkey key) = Some e"
    and r: "r = Some p" and st': "st' = upd_item p (\<lambda>it. it\<lparr>it_end := e\<rparr>) s2"
    using run by (auto simp: item_alloc_done_def Let_def bind_eq_Some_conv s1_def [symmetric] hdr_def [symmetric]
        s2_def [symmetric])
  show "r = Some p" by (rule r)
  have nl: "\<not> item_is_linked (heap_at st p)" "\<not> item_is_slabbed (heap_at st p)" "it_refcount (heap_at st p) = 0"
    using inv(4) by (simp_all add: live_def)
  have 1: "store_inv (add_mset p M) s1" "room k s1" unfolding s1_def using item_acquire_inv [OF inv(1,2,3)] nl by simp_all
  have h1: "st_heap s1 = (st_heap st)(p := (heap_at st p)\<lparr>it_refcount := it_refcount (heap_at st p) + 1\<rparr>)"
    by (simp add: s1_def heap_release)
  have 2: "store_inv (add_mset p M) s2" unfolding s2_def
    by (rule upd_item_inv [OF 1(1)]) (use nl in \<open>simp_all add: h1 hdr_def item_flag_defs\<close>)
  have h2: "st_heap s2 = (st_heap s1)(p := hdr (heap_at s1 p))" by (simp add: s2_def upd_item_def)
  have l2: "\<not> item_is_linked (heap_at s2 p)" by (simp add: h2 hdr_def item_is_linked_def)
  show "store_inv (add_mset p M) st'" unfolding st'
    by (rule upd_item_inv [OF 2]) (use l2 in \<open>simp_all add: item_is_linked_def item_is_slabbed_def\<close>)
  show "room k st'" using 1(2) by (simp add: st' s2_def)
  have hp: "st_heap st' = (st_heap st)(p := (hdr (heap_at s1 p))\<lparr>it_end := e\<rparr>)"
    by (simp add: st' h2 h1 upd_item_def)
  have fr: "frame st st'" using frame_trans [OF frame_refcount(1) [of st p]] by (simp add: st' s2_def s1_def frame_trans [OF frame_upd_item frame_upd_item])
  then show "evicts {p} st st'" using hp by (simp add: evicts_def)
  have same: "slabclass_of a st' = slabclass_of a s1" "heapinfo_of a st' = heapinfo_of a s1" "st_slabs st' = st_slabs s1"
    "st_slabclass st' = st_slabclass s1" for a by (simp_all add: st' s2_def mc_upd)
  have "carved st' = carved s1" by (simp add: carved_def tables_def nitems_def same fun_eq_iff)
  then show "carved st' p" using inv(3) by (simp add: s1_def)
  have cas: "set_use_cas (st_settings s1) = set_use_cas (st_settings st)"
    using frame_refcount(1) [of st p] by (simp add: s1_def frame_def)
  have kl: "length (take ?nkey key) = ?nkey" by simp
  have off: "item_key_off ((hdr (heap_at s1 p))\<lparr>it_end := e\<rparr>) = item_key_off (heap_at s2 p)"
    by (simp add: h2 item_key_off_def item_has_cas_def hdr_def)
  have "item_key ((hdr (heap_at s1 p))\<lparr>it_end := e\<rparr>) = take ?nkey key"
    unfolding item_key_def off using memcpy_at_key [OF e] kl by (simp add: hdr_def)
  then show "fresh_header (set_use_cas (st_settings st)) (it_id (heap_at st p)) key dataflags exptime nbyte cfg (heap_at st' p)"
    using nl(3) by (simp add: fresh_header_def hp) (simp add: hdr_def h1 cas)
qed

lemma item_alloc_config_inv:
  assumes inv: "store_inv M st" "room (Suc k) st" and n: "0 < sc_nitem (st_slabclass st cid)"
    and run: "item_alloc_config cid key dataflags exptime nbyte reserved cfg st = Some (r, st')"
  shows "case r of
      None \<Rightarrow> store_inv M st' \<and> evicts {} st st' \<and> room (Suc k) st' \<and> st_heap st' = st_heap st
    | Some p \<Rightarrow> allocated M k st p st'
        \<and> fresh_header (set_use_cas (st_settings st)) cid key dataflags exptime nbyte cfg (heap_at st' p)"
proof -
  let ?it = "item_get_from_lruq reserved cid st"
  obtain q s where q: "(case ?it of
           Some p \<Rightarrow>
             if item_expired p st then do { st \<leftarrow> item_reuse p st; Some (Some p, st) }
             else item_alloc_slow cid reserved ?it st
         | None \<Rightarrow> item_alloc_slow cid reserved ?it st) = Some (q, s)"
    and run2: "(case q of None \<Rightarrow> Some (None, s) | Some p \<Rightarrow> item_alloc_done p key dataflags exptime nbyte cfg s) = Some (r, st')"
    using run by (auto simp: item_alloc_config_def Let_def bind_eq_Some_conv split: if_splits)
  have it: "?it = None \<or> (\<exists>p. ?it = Some p \<and> item_is_linked (heap_at st p) \<and> it_refcount (heap_at st p) = 0 \<and> it_id (heap_at st p) = cid)"
    using item_get_from_lruq_Some [OF _ inv(1)] by (cases ?it) blast+
  have g: "gives_item cid M (Suc k) st q s"
  proof (cases "\<exists>p. ?it = Some p \<and> item_expired p st")
    case True
    then obtain p where p: "?it = Some p" "item_expired p st" by blast
    then have "item_reuse p st = Some s" "q = Some p" using q by (auto simp: bind_eq_Some_conv)
    then show ?thesis using item_reuse_gives [OF inv] item_get_from_lruq_Some [OF p(1) inv(1)] by blast
  next
    case False
    then have "item_alloc_slow cid reserved ?it st = Some (q, s)" using q by (auto split: option.splits)
    then show ?thesis by (rule item_alloc_slow_inv [OF inv n it])
  qed
  show ?thesis
  proof (cases q)
    case None
    then show ?thesis using run2 g by (auto simp: gives_item_def)
  next
    case (Some p)
    then have s: "store_inv M s" "evicts {} st s" "room (Suc k) s" "carved s p" "\<not> live (heap_at s p)" "it_id (heap_at s p) = cid"
      using g by (simp_all add: gives_item_def)
    have run3: "item_alloc_done p key dataflags exptime nbyte cfg s = Some (r, st')" using run2 Some by simp
    note d = item_alloc_done_inv [OF s(1,3,4,5) run3]
    have "it_refcount (heap_at st p) = 0" using evicts_ref [OF s(2), of p] s(5) by (metis empty_iff live_def)
    moreover have "evicts {p} st st'" using evicts_trans [OF s(2) d(4)] by simp
    moreover have "set_use_cas (st_settings s) = set_use_cas (st_settings st)" using evicts_frame [OF s(2)] by (simp add: frame_def)
    moreover have "\<not> item_is_linked (heap_at st' p)"
      using d(6) by (auto simp: fresh_header_def item_is_linked_def split: if_splits)
    ultimately show ?thesis using d s(6) by (simp add: allocated_def)
  qed
qed

end
