(* ===== verification/MC_Cmds.thy ===== *)
theory MC_Cmds
  imports MC_Alloc
begin

text \<open>
  The composed operations of the item layer keep the invariant: replacing an item, filling a new
  one, storing, arithmetic, deletion, touching and flushing. A second invariant, \<open>fits\<close>, says that the
  value of a linked item lies behind its key, also for the right-aligned values of prepend, so that
  writing values never changes a key.
\<close>

declare split_paired_All [simp del] split_paired_Ex [simp del]

subsection \<open>What stays of linked items\<close>

definition same_payload :: "item \<Rightarrow> item \<Rightarrow> bool" where
  "same_payload it it' \<longleftrightarrow> it' = it\<lparr>it_refcount := it_refcount it', it_atime := it_atime it'\<rparr>"

lemma same_payload_refl [simp]: "same_payload it it"
  by (simp add: same_payload_def)

lemma same_payload_upd [simp]:
  "same_payload it (it\<lparr>it_refcount := r\<rparr>)" "same_payload it (it\<lparr>it_atime := t\<rparr>)"
  by (simp_all add: same_payload_def)

lemma same_payloadD:
  assumes "same_payload it it'"
  shows "it_flags it' = it_flags it" "it_coflags it' = it_coflags it" "it_id it' = it_id it" "it_nkey it' = it_nkey it"
    "it_nbyte it' = it_nbyte it" "it_end it' = it_end it" "it_exptime it' = it_exptime it"
    "it_dataflags it' = it_dataflags it" "it_p it' = it_p it" "item_key it' = item_key it"
    "item_data_off sz it' = item_data_off sz it" "item_key_off it' = item_key_off it"
proof -
  have e: "it' = it\<lparr>it_refcount := it_refcount it', it_atime := it_atime it'\<rparr>" using assms by (simp add: same_payload_def)
  show "it_flags it' = it_flags it" "it_coflags it' = it_coflags it" "it_id it' = it_id it" "it_nkey it' = it_nkey it"
    "it_nbyte it' = it_nbyte it" "it_end it' = it_end it" "it_exptime it' = it_exptime it"
    "it_dataflags it' = it_dataflags it" "it_p it' = it_p it" by (subst e; simp)+
  then show "item_key it' = item_key it" "item_data_off sz it' = item_data_off sz it" "item_key_off it' = item_key_off it"
    by (simp_all add: item_key_def item_data_off_def item_key_off_def item_flag_defs)
qed

lemma same_payload_trans: "same_payload a b \<Longrightarrow> same_payload b c \<Longrightarrow> same_payload a c"
  by (cases a; cases b; cases c) (simp add: same_payload_def)

text \<open>Apart from \<open>P\<close>, what is linked after the step was linked before with the same content.\<close>

definition linked_from :: "ptr set \<Rightarrow> mc \<Rightarrow> mc \<Rightarrow> bool" where
  "linked_from P st st' \<longleftrightarrow> frame st st' \<and> (\<forall>q. q \<notin> P \<longrightarrow> item_is_linked (heap_at st' q) \<longrightarrow>
     item_is_linked (heap_at st q) \<and> same_payload (heap_at st q) (heap_at st' q))"

lemma linked_from_refl [simp]: "linked_from P st st"
  by (simp add: linked_from_def)

lemma linked_fromD:
  "linked_from P st st' \<Longrightarrow> q \<notin> P \<Longrightarrow> item_is_linked (heap_at st' q) \<Longrightarrow> item_is_linked (heap_at st q)"
  "linked_from P st st' \<Longrightarrow> q \<notin> P \<Longrightarrow> item_is_linked (heap_at st' q) \<Longrightarrow> same_payload (heap_at st q) (heap_at st' q)"
  "linked_from P st st' \<Longrightarrow> frame st st'"
  unfolding linked_from_def by blast+

lemma linked_from_trans:
  assumes "linked_from P st st'" "linked_from Q st' st''"
  shows "linked_from (P \<union> Q) st st''"
  unfolding linked_from_def
proof (intro conjI allI impI)
  show "frame st st''" using assms frame_trans linked_fromD(3) by blast
next
  fix q assume q: "q \<notin> P \<union> Q" "item_is_linked (heap_at st'' q)"
  then have b: "item_is_linked (heap_at st' q)" "same_payload (heap_at st' q) (heap_at st'' q)"
    using linked_fromD [OF assms(2)] by blast+
  then have "item_is_linked (heap_at st q)" "same_payload (heap_at st q) (heap_at st' q)"
    using q linked_fromD [OF assms(1)] by blast+
  then show "item_is_linked (heap_at st q)" "same_payload (heap_at st q) (heap_at st'' q)"
    using b same_payload_trans by blast+
qed

lemma linked_from_evicts: "evicts P st st' \<Longrightarrow> linked_from P st st'"
  unfolding linked_from_def evicts_def by (metis same_payload_refl)

lemma linked_from_upd:
  assumes "frame st st'" "st_heap st' = (st_heap st)(p := it)"
    "item_is_linked it \<Longrightarrow> item_is_linked (heap_at st p) \<and> same_payload (heap_at st p) it"
  shows "linked_from {} st st'"
  using assms by (simp add: linked_from_def)

lemma linked_from_new:
  assumes "frame st st'" "st_heap st' = (st_heap st)(p := it)"
  shows "linked_from {p} st st'"
  using assms by (simp add: linked_from_def)

lemma linked_from_unlinked:
  assumes "linked_from {p} st st'" "\<not> item_is_linked (heap_at st' p)"
  shows "linked_from {} st st'"
  using assms unfolding linked_from_def by (metis empty_iff insert_iff)

lemma linked_from_unlink:
  assumes "store_invx X M st" "item_is_linked (heap_at st p)" "room k st" "item_unlink p st = Some st'"
  shows "linked_from {} st st'" "\<not> item_is_linked (heap_at st' p)" "q \<noteq> p \<Longrightarrow> heap_at st' q = heap_at st q"
proof -
  obtain s r F where s: "item_unlink p st = Some s"
    "store_invx X (if pinned (heap_at st p) \<and> \<not> unpins (heap_at st p) then add_mset p M else M) s"
    "room k s" "frame st s" "st_cas_id s = st_cas_id st"
    "r = it_refcount (heap_at st p) - (if unpins (heap_at st p) then 1 else 0)"
    "F = it_flags (heap_at st p) - {ITEM_LINKED} \<union> (if r = 0 then {ITEM_SLABBED} else {})"
    "st_heap s = (st_heap st)(p := (heap_at st p)\<lparr>it_flags := F, it_refcount := r\<rparr>)"
    by (rule item_unlink_inv [OF assms(1-3)])
  then have "s = st'" and nl: "ITEM_LINKED \<notin> F" using assms(4) by auto
  with s show "linked_from {} st st'" by (intro linked_from_upd [of st st' p]) (auto simp: item_is_linked_def)
  show "\<not> item_is_linked (heap_at st' p)" "q \<noteq> p \<Longrightarrow> heap_at st' q = heap_at st q"
    using s(8) nl \<open>s = st'\<close> by (simp_all add: item_is_linked_def)
qed

lemma linked_from_remove:
  assumes "store_invx X (add_mset p M) st" "room k st"
  shows "linked_from {} st (item_remove p st)"
    "item_is_linked (heap_at (item_remove p st) q) = item_is_linked (heap_at st q)"
proof -
  have l: "item_is_linked (heap_at (item_remove p st) q) = item_is_linked (heap_at st q)" for q
    using heap_remove_other [of q p st] heap_remove_linked [of st p]
    by (cases "q = p") (auto simp: item_remove_def Let_def heap_release item_flag_defs)
  then show "item_is_linked (heap_at (item_remove p st) q) = item_is_linked (heap_at st q)" .
  have "same_payload (heap_at st q) (heap_at (item_remove p st) q)" if "item_is_linked (heap_at st q)" for q
    using that heap_remove_other [of q p st] heap_remove_linked [of st p] by (cases "q = p") simp_all
  then show "linked_from {} st (item_remove p st)" using item_remove_inv(3) [OF assms] l by (simp add: linked_from_def)
qed

lemma linked_from_acquire: "linked_from {} st (item_acquire_refcount p st)"
  by (rule linked_from_upd [OF frame_refcount(1) heap_release(2)]) (simp_all add: item_is_linked_def)

lemma item_get_cases:
  assumes inv: "store_invx X M st" and room: "room (Suc k) st" and run: "item_get key st = Some (r, st')"
  shows "r = found key st" "store_invx X (M + opt r) st'" "room k st'" "linked_from {} st st'"
    "item_find k' st' = (if r = None \<and> k' = key then None else item_find k' st)"
    "\<not> item_is_linked (heap_at st q) \<Longrightarrow> heap_at st' q = heap_at st q" "st_cas_id st' = st_cas_id st"
    "r = Some p \<Longrightarrow> st' = item_acquire_refcount p st"
proof -
  obtain s where s: "item_get key st = Some (found key st, s)"
    "store_invx X (M + opt (found key st)) s" "room k s" "frame st s"
    "\<forall>k'. item_find k' s = (if found key st = None \<and> k' = key then None else item_find k' st)"
    "\<forall>q. item_find key st \<noteq> Some q \<longrightarrow> heap_at s q = heap_at st q"
    "\<forall>p. found key st = Some p \<longrightarrow> s = item_acquire_refcount p st" "st_cas_id s = st_cas_id st"
    by (rule item_get_inv [OF inv room])
  have r: "r = found key st" "st' = s" using run s(1) by simp_all
  with s show "r = found key st" "store_invx X (M + opt r) st'" "room k st'" "st_cas_id st' = st_cas_id st"
    "r = Some p \<Longrightarrow> st' = item_acquire_refcount p st"
    "item_find k' st' = (if r = None \<and> k' = key then None else item_find k' st)" by auto
  show "\<not> item_is_linked (heap_at st q) \<Longrightarrow> heap_at st' q = heap_at st q"
    using s(6) r item_find_iff [OF store_invD(1) [OF inv], of key q] by auto
  show "linked_from {} st st'"
  proof (cases key st rule: found_cases)
    case 1
    then show ?thesis using run by (simp add: item_get_eq)
  next
    case (2 p)
    then have "item_unlink p st = Some st'" using run by (auto simp: item_get_eq)
    moreover have "item_is_linked (heap_at st p)" using 2 item_find_iff [OF store_invD(1) [OF inv]] by blast
    ultimately show ?thesis using linked_from_unlink(1) [OF inv _ room] by blast
  next
    case (3 p)
    then show ?thesis using s(7) r linked_from_acquire by simp
  qed
qed

subsection \<open>Values behind keys\<close>

definition fits_item :: "mc \<Rightarrow> item \<Rightarrow> bool" where
  "fits_item st it \<longleftrightarrow> it_nkey it < 256 \<and> item_key_off it + it_nkey it \<le> item_data_off (slab_item_size (it_id it) st) it"

definition fits :: "mc \<Rightarrow> bool" where
  "fits st \<longleftrightarrow> (\<forall>p. item_is_linked (heap_at st p) \<longrightarrow> fits_item st (heap_at st p))"

lemma fits_item_frame: "frame st st' \<Longrightarrow> fits_item st' it = fits_item st it"
  by (simp add: fits_item_def slab_item_size_def frame_def)

lemma fits_item_payload: "same_payload it it' \<Longrightarrow> fits_item st it' = fits_item st it"
  by (simp add: fits_item_def same_payloadD)

lemma fits_item_fields [simp]:
  "fits_item st (it\<lparr>it_end := e\<rparr>) = fits_item st it" "fits_item st (it\<lparr>it_p := b\<rparr>) = fits_item st it"
  "fits_item st (it\<lparr>it_coflags := c\<rparr>) = fits_item st it"
  by (simp_all add: fits_item_def item_key_off_def item_data_off_def item_flag_defs)

lemma fits_from:
  assumes "fits st" "linked_from P st st'" "\<And>q. q \<in> P \<Longrightarrow> item_is_linked (heap_at st' q) \<Longrightarrow> fits_item st (heap_at st' q)"
  shows "fits st'"
  unfolding fits_def
proof (intro allI impI)
  fix q assume l: "item_is_linked (heap_at st' q)"
  have "fits_item st (heap_at st' q)"
  proof (cases "q \<in> P")
    case False
    then show ?thesis using assms(1) linked_fromD(1,2) [OF assms(2) False l] fits_item_payload by (auto simp: fits_def)
  qed (use assms(3) l in blast)
  then show "fits_item st' (heap_at st' q)" using fits_item_frame linked_fromD(3) [OF assms(2)] by blast
qed

text \<open>Writing the value of an item.\<close>

definition same_but_end :: "item \<Rightarrow> item \<Rightarrow> bool" where
  "same_but_end it it' \<longleftrightarrow> it' = it\<lparr>it_end := it_end it'\<rparr>"

lemma item_key_memcpy:
  assumes "memcpy_at (it_end it) i bs = Some e" "item_key_off it + it_nkey it \<le> i"
  shows "item_key (it\<lparr>it_end := e\<rparr>) = item_key it"
  using assms by (auto simp: memcpy_at_def item_key_def item_key_off_def item_has_cas_def min_def drop_take
      split: if_splits)

lemma item_memcpy_upd:
  assumes "item_memcpy p off bs st = Some st'" "fits_item st (heap_at st p)"
  obtains e where "st' = upd_item p (\<lambda>it. it\<lparr>it_end := e\<rparr>) st"
    "item_key ((heap_at st p)\<lparr>it_end := e\<rparr>) = item_key (heap_at st p)" "length e = length (it_end (heap_at st p))"
proof -
  let ?it = "heap_at st p"
  obtain e where e: "memcpy_at (it_end ?it) (item_data_off (slab_item_size (it_id ?it) st) ?it + off) bs = Some e"
    "st' = upd_item p (\<lambda>it. it\<lparr>it_end := e\<rparr>) st"
    using assms(1) by (auto simp: item_memcpy_def Let_def split: option.splits)
  moreover have "item_key (?it\<lparr>it_end := e\<rparr>) = item_key ?it"
    using assms(2) by (intro item_key_memcpy [OF e(1)]) (simp add: fits_item_def)
  ultimately show thesis using that length_memcpy_at by blast
qed

lemma item_memcpy_inv:
  assumes inv: "store_invx X M st" and room: "room k st" and fit: "fits_item st (heap_at st p)"
    and run: "item_memcpy p off bs st = Some st'"
  shows "store_invx X M st'" "room k st'" "linked_from {p} st st'" "key_at st' = key_at st" "q \<noteq> p \<Longrightarrow> heap_at st' q = heap_at st q"
    "heap_at st' p = (heap_at st p)\<lparr>it_end := it_end (heap_at st' p)\<rparr>" "fits_item st' (heap_at st' p)" "st_assoc st' = st_assoc st"
    "st_cas_id st' = st_cas_id st"
proof -
  obtain e where e: "st' = upd_item p (\<lambda>it. it\<lparr>it_end := e\<rparr>) st"
    "item_key ((heap_at st p)\<lparr>it_end := e\<rparr>) = item_key (heap_at st p)"
    by (rule item_memcpy_upd [OF run fit])
  show "store_invx X M st'" unfolding e(1)
    by (rule upd_item_inv [OF inv]) (simp_all add: e(2) item_flag_defs pinned_def unpins_def)
  have h: "st_heap st' = (st_heap st)(p := (heap_at st p)\<lparr>it_end := e\<rparr>)" by (simp add: e(1) upd_item_def)
  show "room k st'" using room by (simp add: e(1))
  show "q \<noteq> p \<Longrightarrow> heap_at st' q = heap_at st q" by (simp add: h)
  show "linked_from {p} st st'" by (rule linked_from_new [OF _ h]) (simp add: e(1))
  show "key_at st' = key_at st" by (simp add: key_at_def fun_eq_iff h e(2))
  show "heap_at st' p = (heap_at st p)\<lparr>it_end := it_end (heap_at st' p)\<rparr>" by (simp add: h)
  have "frame st st'" by (simp add: e(1))
  then show "fits_item st' (heap_at st' p)" using fit by (simp add: h fits_item_frame)
  show "st_assoc st' = st_assoc st" "st_cas_id st' = st_cas_id st" by (simp_all add: e(1) upd_item_def)
qed

lemma item_copy_memcpy:
  assumes "item_copy dst off src n st = Some st'"
  obtains bs where "item_memcpy dst off bs st = Some st'" "length bs = n"
  using assms by (auto simp: item_copy_def bind_eq_Some_conv slice_def split: if_splits)

subsection \<open>Slab classes\<close>

definition classes_ok :: "mc \<Rightarrow> bool" where
  "classes_ok st \<longleftrightarrow> st_slabclass_max_id st \<le> SLABCLASS_MAX_ID
     \<and> (\<forall>cid. SLABCLASS_MIN_ID \<le> cid \<longrightarrow> cid \<le> st_slabclass_max_id st \<longrightarrow> 0 < sc_nitem (st_slabclass st cid))"

lemma classes_ok_frame: "frame st st' \<Longrightarrow> classes_ok st' = classes_ok st"
  by (simp add: classes_ok_def frame_def)

lemma slab_id_loop_fits:
  assumes "slab_id_loop sizes sz imin imax = Some cid" "SLABCLASS_MIN_ID \<le> imin"
  shows "sz \<le> sizes cid \<and> SLABCLASS_MIN_ID \<le> cid \<and> cid \<le> imax"
  using assms
proof (induction sizes sz imin imax rule: slab_id_loop.induct)
  case (1 sizes sz imin imax)
  define c where "c = (imin + imax) div 2"
  have le: "imin \<le> imax" using "1.prems"(1) by (subst (asm) slab_id_loop.simps) (simp split: if_splits)
  then have c: "imin \<le> c" "c \<le> imax" by (auto simp: c_def)
  consider "sz > sizes c" "slab_id_loop sizes sz (c + 1) imax = Some cid"
    | "\<not> sz > sizes c" "c > SLABCLASS_MIN_ID \<and> sz \<le> sizes (c - 1)" "slab_id_loop sizes sz imin (c - 1) = Some cid"
    | "\<not> sz > sizes c" "cid = c"
    using "1.prems"(1) le by (subst (asm) slab_id_loop.simps) (auto simp: c_def [symmetric] Let_def split: if_splits)
  then show ?case
  proof cases
    case 1
    then show ?thesis using "1.IH"(1) [OF le c_def 1] "1.prems"(2) c by simp
  next
    case 2
    have "sz \<le> sizes cid \<and> SLABCLASS_MIN_ID \<le> cid \<and> cid \<le> c - 1" using "1.IH"(2) [OF le c_def 2] "1.prems"(2) by simp
    then show ?thesis using c(2) by linarith
  next
    case 3
    then show ?thesis using "1.prems"(2) c by simp
  qed
qed

lemma item_slabid_fits:
  assumes "item_slabid nkey nbyte st = cid" "cid \<le> SLABCLASS_MAX_ID" "classes_ok st"
  shows "item_ntotal (nkey mod 256) nbyte (set_use_cas (st_settings st)) \<le> slab_item_size cid st"
    "0 < sc_nitem (st_slabclass st cid)"
proof -
  have "slab_id_loop (\<lambda>i. sc_size (slabclass_of False st i)) (item_ntotal (nkey mod 256) nbyte (set_use_cas (st_settings st)))
      SLABCLASS_MIN_ID (st_slabclass_max_id st) = Some cid"
    using assms(1,2) by (auto simp: item_slabid_def slab_id_def slab_id_of_def SLABCLASS_INVALID_ID_def SLABCLASS_MAX_ID_def
        split: option.splits)
  from slab_id_loop_fits [OF this] show "item_ntotal (nkey mod 256) nbyte (set_use_cas (st_settings st)) \<le> slab_item_size cid st"
    "0 < sc_nitem (st_slabclass st cid)"
    using assms(3) by (auto simp: slab_item_size_def slabclass_of_def classes_ok_def)
qed

text \<open>An allocation for a key and a size, as every caller makes it.\<close>

lemma item_alloc_inv:
  assumes inv: "store_inv M st" "room (Suc k) st" "classes_ok st" "fits st"
    and run: "item_alloc (item_slabid nkey nbyte st) key dataflags exptime nbyte reserved st = Some (r, st')"
    and key: "length key \<le> nkey" "nkey < 256"
  shows "case r of
      None \<Rightarrow> store_inv M st' \<and> room (Suc k) st' \<and> fits st' \<and> evicts {} st st' \<and> st_heap st' = st_heap st
    | Some p \<Rightarrow> allocated M k st p st' \<and> fits st' \<and> fits_item st' (heap_at st' p)
        \<and> fits_item st' ((heap_at st' p)\<lparr>it_flags := insert ITEM_RALIGN (it_flags (heap_at st' p))\<rparr>)
        \<and> fresh_header (set_use_cas (st_settings st)) (item_slabid nkey nbyte st) key dataflags exptime nbyte (-1) (heap_at st' p)"
proof -
  let ?cid = "item_slabid nkey nbyte st"
  have le: "?cid \<le> SLABCLASS_MAX_ID" using run by (simp add: item_alloc_def item_alloc_config_def split: if_splits)
  note f = item_slabid_fits [OF refl le inv(3)]
  note a = item_alloc_config_inv [OF inv(1,2) f(2) run [unfolded item_alloc_def]]
  show ?thesis
  proof (cases r)
    case None
    then have "evicts {} st st'" using a by simp
    from fits_from [OF inv(4) linked_from_evicts [OF this]] show ?thesis using a None by simp
  next
    case (Some p)
    then have al: "allocated M k st p st'"
      and h: "fresh_header (set_use_cas (st_settings st)) ?cid key dataflags exptime nbyte (-1) (heap_at st' p)" using a by simp_all
    have ev: "evicts {p} st st'" and nl: "\<not> item_is_linked (heap_at st' p)" using al by (simp_all add: allocated_def)
    have "fits st'" using nl by (intro fits_from [OF inv(4) linked_from_evicts [OF ev]]) simp
    moreover have "slab_item_size c st' = slab_item_size c st" for c
      using evicts_frame [OF ev] by (simp add: slab_item_size_def frame_def)
    ultimately show ?thesis using al h f(1) key Some
      by (simp add: fits_item_def fresh_header_def item_data_off_def item_key_off_def item_flag_defs item_ntotal_def)
        (auto split: if_splits)
  qed
qed

subsection \<open>References\<close>

lemma owned_ref:
  assumes "store_invx X M st" "p \<in># M"
  shows "it_refcount (heap_at st p) \<noteq> 0" "carved st p" "fst p \<notin> X" "\<not> item_is_slabbed (heap_at st p)"
proof -
  have "0 < count M p" using assms(2) by simp
  then have "0 < unat (it_refcount (heap_at st p))" using ownedD [OF store_invD(8) [OF assms(1)], of p] by linarith
  then show r: "it_refcount (heap_at st p) \<noteq> 0" by auto
  then have "live (heap_at st p)" by (simp add: live_def)
  note l = inv_liveD [OF store_invD(6) [OF assms(1)] this]
  show "carved st p" "fst p \<notin> X" "\<not> item_is_slabbed (heap_at st p)" using l r by auto
qed

lemma evicts_find:
  assumes "store_invx X M st" "store_invx Y N st'" "evicts P st st'"
    and "item_find k st = Some p" "it_refcount (heap_at st p) \<noteq> 0" "p \<notin> P"
  shows "item_find k st' = Some p"
  using assms evicts_ref [OF assms(3,6,5)] item_find_iff [OF store_invD(1)] by (metis key_at_def)

lemma evicts_find_None:
  assumes "store_invx X M st" "store_invx Y N st'" "linked_from P st st'"
    and "item_find k st = None" "\<And>p. p \<in> P \<Longrightarrow> \<not> item_is_linked (heap_at st' p)"
  shows "item_find k st' = None"
proof -
  have "key_at st' p \<noteq> k" if "item_is_linked (heap_at st' p)" for p
  proof -
    have "p \<notin> P" using assms(5) that by blast
    then have "item_is_linked (heap_at st p)" "same_payload (heap_at st p) (heap_at st' p)"
      using linked_fromD [OF assms(3)] that by blast+
    then show ?thesis using assms(4) item_find_None [OF store_invD(1) [OF assms(1)]] by (metis key_at_def same_payloadD(10))
  qed
  then show ?thesis using item_find_None [OF store_invD(1) [OF assms(2)]] by blast
qed

text \<open>The reference that a pin stands for.\<close>

definition pin :: "ptr \<Rightarrow> mc \<Rightarrow> ptr multiset" where
  "pin p st = (if pinned (heap_at st p) then {#p#} else {#})"

lemma item_replace_inv:
  assumes inv: "store_invx X (pin np st + M) st" and room: "room k st"
    and lk: "item_is_linked (heap_at st p)" and np: "np \<in># pin np st + M" "\<not> item_is_linked (heap_at st np)"
    and key: "key_at st np = key_at st p" and run: "item_replace p np st = Some st'"
  shows "store_invx X M st'" "room k st'" "linked_from {np} st st'"
    "item_find k' st' = (if k' = key_at st np then Some np else item_find k' st)"
    "heap_at st' np = linked_as (next_cas st) (st_now st) (heap_at st np)"
    "q \<noteq> p \<Longrightarrow> q \<noteq> np \<Longrightarrow> heap_at st' q = heap_at st q" "\<not> item_is_linked (heap_at st' p)"
proof -
  have pn: "p \<noteq> np" using lk np(2) by auto
  obtain s r F where s: "item_unlink p st = Some s"
    "store_invx X (if pinned (heap_at st p) \<and> \<not> unpins (heap_at st p) then add_mset p (pin np st + M) else pin np st + M) s"
    "room k s" "frame st s" "st_cas_id s = st_cas_id st"
    "r = it_refcount (heap_at st p) - (if unpins (heap_at st p) then 1 else 0)"
    "F = it_flags (heap_at st p) - {ITEM_LINKED} \<union> (if r = 0 then {ITEM_SLABBED} else {})"
    "st_heap s = (st_heap st)(p := (heap_at st p)\<lparr>it_flags := F, it_refcount := r\<rparr>)"
    by (rule item_unlink_inv [OF inv lk room])
  have inv2: "store_invx X (pin np st + M) s" using s(2) by (rule store_inv_mono) (auto simp: subset_eq_diff_conv)
  have same: "heap_at s np = heap_at st np" using pn by (simp add: s(8))
  have link: "item_link np s = Some st'" using run s(1) by (simp add: item_replace_def)
  have inv3: "store_invx X (if pinned (heap_at s np) then add_mset np M else M) s"
    using inv2 by (simp add: pin_def same split: if_splits)
  note o = owned_ref [OF inv2 np(1)]
  have kn: "key_at s np = key_at st np" by (simp add: key_at_def same)
  have find: "item_find k' s = (if item_find k' st = Some p then None else item_find k' st)" for k'
    by (rule item_unlink_find [OF inv lk room s(1)])
  have fp: "item_find k' st = Some p \<longleftrightarrow> k' = key_at st p" for k'
    using item_find_iff [OF store_invD(1) [OF inv]] lk by auto
  have fresh: "item_find (key_at s np) s = None" by (simp add: kn key find fp)
  note l = item_link_inv [OF inv3 _ o(4,2,3) fresh link s(3) item_unlink_table_room [OF inv lk room s(1)], unfolded same]
  show "store_invx X M st'" using l(1) np(2) by simp
  show "room k st'" using l(2) np(2) by simp
  have h: "st_heap st' = (st_heap s)(np := linked_as (next_cas s) (st_now s) (heap_at st np))" using l(5) np(2) by simp
  have nc: "next_cas s = next_cas st" "st_now s = st_now st" using s(4,5)
    by (simp_all add: next_cas_def item_next_cas_def frame_def st_now_def)
  show "heap_at st' np = linked_as (next_cas st) (st_now st) (heap_at st np)" by (simp add: h nc)
  show "q \<noteq> p \<Longrightarrow> q \<noteq> np \<Longrightarrow> heap_at st' q = heap_at st q" by (simp add: h s(8))
  have "ITEM_LINKED \<notin> F" using s(7) by simp
  then show "\<not> item_is_linked (heap_at st' p)" using pn by (simp add: h s(8) item_is_linked_def)
  show "item_find k' st' = (if k' = key_at st np then Some np else item_find k' st)"
    using l(4) [of k'] np(2) by (simp add: kn find fp key)
  show "linked_from {np} st st'"
    using linked_from_trans [OF linked_from_unlink(1) [OF inv lk room s(1)] linked_from_new [OF _ h]] l(3) np(2) by simp
qed

subsection \<open>Touching\<close>

lemma lruq_reorder_inv:
  assumes inv: "store_invx X M st" and q: "distinct q" "set q = set (lruq_of res st cid)"
    and st': "st' = upd_lruq res cid q st"
  shows "store_invx X M st'" "room k st' = room k st" "st_heap st' = st_heap st" "frame st st'" "st_assoc st' = st_assoc st"
    "st_cas_id st' = st_cas_id st"
proof -
  note i = store_invD [OF inv]
  have same [simp]: "slabclass_of r st' = slabclass_of r st" "heapinfo_of r st' = heapinfo_of r st"
    "st_heap st' = st_heap st" "st_slabs st' = st_slabs st"
    "st_slabclass st' = st_slabclass st" "st_reserved_slabclass st' = st_reserved_slabclass st"
    "st_heapinfo st' = st_heapinfo st" "st_reserved_heapinfo st' = st_reserved_heapinfo st"
    "st_next_slab st' = st_next_slab st" "st_assoc st' = st_assoc st" "key_at st' = key_at st" for r
    by (simp_all add: st' mc_upd key_at_def fun_eq_iff)
  have l: "lruq_of r st' c = (if r = res \<and> c = cid then q else lruq_of r st c)" for r c by (simp add: st' mc_upd)
  have [simp]: "tables st' = tables st" "nitems st' = nitems st" "carved st' = carved st"
    by (simp_all add: tables_def nitems_def carved_def fun_eq_iff)
  show "store_invx X M st'"
  proof (rule store_invI)
    show "inv_lruq st'" using i(2) q by (auto simp: inv_lruq_def l)
  qed (use i in \<open>simp_all add: inv_index_def inv_free_def inv_tables_def inv_slabs_def inv_live_def inv_refs_def owned_def\<close>)
  have "st_settings st' = st_settings st" by (simp add: st' mc_upd)
  then show "room k st' = room k st" "st_heap st' = st_heap st" "st_assoc st' = st_assoc st" by (simp_all add: room_def)
  show "frame st st'" "st_cas_id st' = st_cas_id st" by (simp_all add: frame_def st' mc_upd)
qed

lemma item_find_cong: "st_heap st' = st_heap st \<Longrightarrow> st_assoc st' = st_assoc st \<Longrightarrow> item_find k st' = item_find k st"
  by (simp add: item_find_def key_at_def [abs_def])

lemma item_find_upd_item:
  assumes "\<And>q. key_at (upd_item p f st) q = key_at st q"
  shows "item_find k (upd_item p f st) = item_find k st"
proof -
  have "key_at (upd_item p f st) = key_at st" using assms by (simp add: fun_eq_iff)
  moreover have "st_assoc (upd_item p f st) = st_assoc st" by (simp add: upd_item_def)
  ultimately show ?thesis by (simp add: item_find_def)
qed

lemma item_touch_inv:
  assumes inv: "store_invx X M st" "room k st" and lk: "item_is_linked (heap_at st p)" and run: "item_touch p st = Some st'"
  shows "store_invx X M st'" "room k st'" "linked_from {} st st'" "item_find key st' = item_find key st"
    "\<not> item_is_linked (heap_at st q) \<Longrightarrow> heap_at st' q = heap_at st q" "st_cas_id st' = st_cas_id st"
proof -
  let ?it = "heap_at st p"
  let ?r = "item_is_lease_holder ?it" and ?c = "it_id ?it" and ?f = "\<lambda>it::item. it\<lparr>it_atime := st_now st\<rparr>"
  have "st' = st \<or> (item_unlink_q p st \<bind> item_link_q p False = Some st')"
    using run lk by (auto simp: item_touch_def split: if_splits)
  then consider "st' = st" | (moved) "item_unlink_q p st \<bind> item_link_q p False = Some st'" by blast
  then have "store_invx X M st' \<and> room k st' \<and> linked_from {} st st' \<and> item_find key st' = item_find key st
      \<and> (\<forall>q. \<not> item_is_linked (heap_at st q) \<longrightarrow> heap_at st' q = heap_at st q) \<and> st_cas_id st' = st_cas_id st"
  proof cases
    case moved
    define q where "q = lruq_of ?r st ?c"
    have pq: "p \<in> set q" "distinct q" using store_invD(2) [OF inv(1)] lk by (auto simp: inv_lruq_def q_def)
    define s1 where "s1 = upd_item p ?f st"
    define s2 where "s2 = upd_lruq ?r ?c (remove1 p q @ [p]) s1"
    have "slab_lruq_touch ?r (item_2_slab p) False (upd_lruq ?r ?c (remove1 p q @ [p]) (upd_item p ?f (upd_lruq ?r ?c (remove1 p q) st))) = Some st'"
      using moved pq by (simp add: item_unlink_q_def Let_def q_def [symmetric] tq_remove_def item_link_q_eq)
        (simp add: mc_upd q_def st_now_def split: if_splits)
    moreover have "upd_lruq ?r ?c (remove1 p q @ [p]) (upd_item p ?f (upd_lruq ?r ?c (remove1 p q) st)) = s2"
      by (simp add: s2_def s1_def mc_upd)
    ultimately have t: "slab_lruq_touch ?r (item_2_slab p) False s2 = Some st'" by simp
    have i1: "store_invx X M s1" unfolding s1_def
      by (rule upd_item_inv [OF inv(1)]) (simp_all add: item_flag_defs item_key_def item_key_off_def pinned_def unpins_def)
    have q2: "distinct (remove1 p q @ [p])" "set (remove1 p q @ [p]) = set (lruq_of ?r s1 ?c)"
      using pq by (auto simp: q_def s1_def mc_upd)
    note l = lruq_reorder_inv [OF i1 q2 s2_def]
    note u = slab_lruq_touch_inv [OF l(1) t]
    have f1: "item_find key s1 = item_find key st" unfolding s1_def
      by (rule item_find_upd_item) (simp add: key_at_def upd_item_def item_key_def item_key_off_def item_has_cas_def)
    have h: "st_heap st' = (st_heap st)(p := ?f ?it)" using u(2) l(3) by (simp add: s1_def upd_item_def)
    have "frame st st'" using frame_trans [OF frame_trans [OF frame_upd_item [of st p ?f]]] l(4) u(3) s1_def by blast
    then have "linked_from {} st st'" by (rule linked_from_upd [OF _ h]) (simp add: item_is_linked_def)
    moreover have "item_find key st' = item_find key st" using u(5) item_find_cong [OF l(3,5)] f1 by simp
    moreover have "st_cas_id st' = st_cas_id st" using u(6) l(6) by (simp add: s1_def upd_item_def)
    moreover have "room k st'" using u(4) l(2) inv(2) by (simp add: s1_def)
    ultimately show ?thesis using u(1) h lk by auto
  qed (use inv in simp)
  then show "store_invx X M st'" "room k st'" "linked_from {} st st'" "item_find key st' = item_find key st"
    "\<not> item_is_linked (heap_at st q) \<Longrightarrow> heap_at st' q = heap_at st q" "st_cas_id st' = st_cas_id st" by blast+
qed

subsection \<open>Storing\<close>

lemma aux_key_neq [simp]:
  "mc_get_lease_key k \<noteq> k" "mc_get_pending_key k \<noteq> k" "mc_get_co_lease_key k \<noteq> k" "mc_get_version_key k \<noteq> k"
  "k \<noteq> mc_get_lease_key k" "k \<noteq> mc_get_pending_key k" "k \<noteq> mc_get_co_lease_key k" "k \<noteq> mc_get_version_key k"
  by (auto simp: mc_key_defs dest: arg_cong [of _ _ length])

text \<open>Deleting an item a lookup returned.\<close>

lemma item_delete_inv:
  assumes inv: "store_invx X (add_mset p M) st" and room: "room k st" and lk: "item_is_linked (heap_at st p)"
  obtains st' where "item_delete p st = Some st'" "store_invx X M st'" "room k st'" "linked_from {} st st'"
    "\<forall>k'. item_find k' st' = (if item_find k' st = Some p then None else item_find k' st)"
    "\<forall>q. q \<noteq> p \<longrightarrow> heap_at st' q = heap_at st q" "st_cas_id st' = st_cas_id st"
proof -
  obtain s r F where s: "item_unlink p st = Some s"
    "store_invx X (if pinned (heap_at st p) \<and> \<not> unpins (heap_at st p) then add_mset p (add_mset p M) else add_mset p M) s"
    "room k s" "frame st s" "st_cas_id s = st_cas_id st"
    "r = it_refcount (heap_at st p) - (if unpins (heap_at st p) then 1 else 0)"
    "F = it_flags (heap_at st p) - {ITEM_LINKED} \<union> (if r = 0 then {ITEM_SLABBED} else {})"
    "st_heap s = (st_heap st)(p := (heap_at st p)\<lparr>it_flags := F, it_refcount := r\<rparr>)"
    by (rule item_unlink_inv [OF inv lk room])
  have i: "store_invx X (add_mset p M) s" using s(2) by (rule store_inv_mono) (auto simp: subset_eq_diff_conv)
  note r = item_remove_inv [OF i s(3)]
  show thesis
  proof
    show "item_delete p st = Some (item_remove p s)" by (simp add: item_delete_def s(1))
    show "store_invx X M (item_remove p s)" "room k (item_remove p s)" by (rule r)+
    show "linked_from {} st (item_remove p s)"
      using linked_from_trans [OF linked_from_unlink(1) [OF inv lk room s(1)] linked_from_remove(1) [OF i s(3)]] by simp
    show "\<forall>k'. item_find k' (item_remove p s) = (if item_find k' st = Some p then None else item_find k' st)"
      using item_unlink_find [OF inv lk room s(1)] by simp
    show "\<forall>q. q \<noteq> p \<longrightarrow> heap_at (item_remove p s) q = heap_at st q" by (simp add: heap_remove_other s(8))
    show "st_cas_id (item_remove p s) = st_cas_id st" using r(4) s(5) by simp
  qed
qed

text \<open>What the \<open>switch\<close> statements of the store operation leave; \<open>M\<close> holds the new item and the old one.\<close>

definition plan_ok :: "ptr \<Rightarrow> ptr multiset \<Rightarrow> nat \<Rightarrow> mc \<Rightarrow> store_plan \<Rightarrow> bool" where
  "plan_ok p M k st plan \<longleftrightarrow> (case plan of (res, store, q, nit, lease, st') \<Rightarrow>
     store_inv (M + opt nit + opt lease) st' \<and> room k st' \<and> linked_from {} st st'
     \<and> item_find (key_at st p) st' = item_find (key_at st p) st
     \<and> heap_at st' p = (heap_at st p)\<lparr>it_p := it_p (heap_at st' p)\<rparr>
     \<and> (nit = None \<and> q = p \<or> nit = Some q \<and> \<not> item_is_linked (heap_at st' q) \<and> key_at st' q = key_at st p
          \<and> \<not> pinned (heap_at st' q) \<and> fits_item st' (heap_at st' q)))"

lemma plan_okI:
  assumes "store_inv (M + opt lease) st'" "room k st'" "linked_from {} st st'"
    "item_find (key_at st p) st' = item_find (key_at st p) st" "heap_at st' p = (heap_at st p)\<lparr>it_p := it_p (heap_at st' p)\<rparr>"
  shows "plan_ok p M k st (res, store, p, None, lease, st')"
  using assms by (simp add: plan_ok_def)

lemma plan_ok_now: "store_inv M st \<Longrightarrow> room k st \<Longrightarrow> plan_ok p M k st (res, store, p, None, None, st)"
  by (simp add: plan_ok_def)

lemma found_linked:
  assumes "store_invx X M st" "found key st = Some p"
  shows "item_is_linked (heap_at st p)" "key_at st p = key"
  using item_find_iff [OF store_invD(1) [OF assms(1)]] found_SomeD [OF assms(2)] by simp_all

lemma linked_acquire [simp]: "item_is_linked (heap_at (item_acquire_refcount p st) q) = item_is_linked (heap_at st q)"
  by (simp add: heap_release item_is_linked_def)

text \<open>The tail of the \<open>iqset\<close> case: a pending item of the key is deleted.\<close>

lemma drop_pending_inv:
  assumes inv: "store_inv M st" "room (Suc k) st" and p: "\<not> item_is_linked (heap_at st p)"
    and run: "do { (pending, st) \<leftarrow> item_get_pending key st;
         case pending of None \<Rightarrow> Some st | Some q \<Rightarrow> item_delete q (upd_item p (\<lambda>it. it\<lparr>it_p := 1\<rparr>) st) } = Some st'"
  shows "store_inv M st' \<and> room k st' \<and> linked_from {} st st' \<and> item_find key st' = item_find key st
    \<and> heap_at st' p = (heap_at st p)\<lparr>it_p := it_p (heap_at st' p)\<rparr>"
proof -
  obtain r s where g: "item_get (mc_get_pending_key key) st = Some (r, s)"
    using run by (auto simp: item_get_pending_def bind_eq_Some_conv)
  note c = item_get_cases [OF inv g]
  show ?thesis
  proof (cases r)
    case None
    then have "st' = s" using run g by (simp add: item_get_pending_def)
    then show ?thesis using c(2-5) c(6) [OF p] None by simp
  next
    case (Some q)
    define t where "t = upd_item p (\<lambda>it. it\<lparr>it_p := 1\<rparr>) s"
    have run2: "item_delete q t = Some st'" using run g Some by (simp add: item_get_pending_def t_def)
    have lq: "item_is_linked (heap_at st q)" "key_at st q = mc_get_pending_key key"
      using found_linked [OF inv(1)] c(1) Some by simp_all
    have pq: "p \<noteq> q" using p lq by auto
    have sq: "s = item_acquire_refcount q st" using c(8) Some by simp
    have it: "store_inv (add_mset q M) t" unfolding t_def
      using c(2) Some by (intro upd_item_inv) (simp_all add: item_flag_defs pinned_def unpins_def item_key_def item_key_off_def)
    have lt: "linked_from {} s t" unfolding t_def using c(6) [OF p] p
      by (intro linked_from_upd [of _ _ p "(heap_at s p)\<lparr>it_p := 1\<rparr>"] frame_upd_item) (simp_all add: upd_item_def item_is_linked_def)
    have ft: "item_find k' t = item_find k' st" for k'
    proof -
      have "item_find k' t = item_find k' s" unfolding t_def
        by (rule item_find_upd_item) (simp add: key_at_def upd_item_def item_key_def item_key_off_def item_has_cas_def)
      then show ?thesis by (simp add: sq)
    qed
    have lqt: "item_is_linked (heap_at t q)" and rt: "room k t" using lq pq c(3) by (simp_all add: t_def sq) (simp add: upd_item_def)
    obtain u where u: "item_delete q t = Some u" "store_inv M u" "room k u" "linked_from {} t u"
      "\<forall>k'. item_find k' u = (if item_find k' t = Some q then None else item_find k' t)"
      "\<forall>q'. q' \<noteq> q \<longrightarrow> heap_at u q' = heap_at t q'" "st_cas_id u = st_cas_id t"
      by (rule item_delete_inv [OF it rt lqt])
    have "item_find key st \<noteq> Some q" using item_find_iff [OF store_invD(1) [OF inv(1)], of key q] lq(2) by auto
    moreover have "linked_from {} st u" using linked_from_trans [OF c(4) linked_from_trans [OF lt u(4)]] by simp
    moreover have "heap_at u p = (heap_at st p)\<lparr>it_p := 1\<rparr>" using u(6) pq c(6) [OF p] by (simp add: t_def upd_item_def)
    ultimately show ?thesis using u run2 ft by simp
  qed
qed

lemma item_store_iqset_plan:
  assumes inv: "store_inv M st" "room (Suc (Suc k)) st" and p: "\<not> item_is_linked (heap_at st p)"
    and run: "item_store_iqset p token st = Some plan"
  shows "plan_ok p M k st plan"
proof -
  let ?key = "key_at st p"
  obtain lease s where g: "item_get (mc_get_lease_key ?key) st = Some (lease, s)"
    using run by (auto simp: item_store_iqset_def item_get_lease_def Let_def bind_eq_Some_conv key_at_def)
  note c = item_get_cases [OF inv g]
  have now: "plan_ok p M k st (NOT_STORED, False, p, None, lease, s)"
    using c(2-5) c(6) [OF p] room_mono [OF c(3), of k] by (intro plan_okI) (simp_all add: )
  show ?thesis
  proof (cases "\<exists>l. lease = Some l \<and> item_has_i_lease (heap_at s l) \<and> token = item_lease_value l s")
    case False
    then have "plan = (NOT_STORED, False, p, None, lease, s)"
      using run g by (auto simp: item_store_iqset_def item_get_lease_def Let_def key_at_def split: option.splits if_splits)
    then show ?thesis using now by simp
  next
    case True
    then obtain l where l: "lease = Some l" "item_has_i_lease (heap_at s l)" "token = item_lease_value l s" by blast
    have ll: "item_is_linked (heap_at st l)" "key_at st l = mc_get_lease_key ?key" "s = item_acquire_refcount l st"
      using found_linked [OF inv(1)] c(1,8) l(1) by simp_all
    have ls: "item_is_linked (heap_at s l)" using ll by simp
    have ins: "store_inv (add_mset l M) s" using c(2) l(1) by simp
    have un: "unpins (heap_at s l)" using l(2) by (simp add: unpins_def item_flag_defs)
    obtain t r F where t: "item_unlink l s = Some t"
      "store_inv (if pinned (heap_at s l) \<and> \<not> unpins (heap_at s l) then add_mset l (add_mset l M) else add_mset l M) t"
      "room (Suc k) t" "frame s t" "st_cas_id t = st_cas_id s"
      "r = it_refcount (heap_at s l) - (if unpins (heap_at s l) then 1 else 0)"
      "F = it_flags (heap_at s l) - {ITEM_LINKED} \<union> (if r = 0 then {ITEM_SLABBED} else {})"
      "st_heap t = (st_heap s)(l := (heap_at s l)\<lparr>it_flags := F, it_refcount := r\<rparr>)"
      by (rule item_unlink_inv [OF ins ls c(3)])
    have it: "store_inv (add_mset l M) t" using t(2) un by simp
    note lt = linked_from_unlink [OF ins ls c(3) t(1)]
    have pl: "p \<noteq> l" using p ll(1) by auto
    have hp: "heap_at t p = heap_at st p" using lt(3) [OF pl] c(6) [OF p] by simp
    have "item_find ?key st \<noteq> Some l" using item_find_iff [OF store_invD(1) [OF inv(1)], of ?key l] ll(2) by auto
    then have ft: "item_find ?key t = item_find ?key st"
      using item_unlink_find [OF ins ls c(3) t(1), of ?key] by (simp add: ll(3))
    have lft: "linked_from {} st t" using linked_from_trans [OF c(4) lt(1)] by simp
    have kt: "item_key (heap_at st p) = key_at st p" by (simp add: key_at_def)
    show ?thesis
    proof (cases "it_nbyte (heap_at t p) = 0")
      case True
      then have "plan = (NOT_STORED, False, p, None, Some l, t)"
        using run g l t(1) by (simp add: item_store_iqset_def item_get_lease_def Let_def kt)
      then show ?thesis using it ft lft hp room_mono [OF t(3)] by (simp add: plan_ok_def)
    next
      case False
      obtain u where u: "do { (pending, st) \<leftarrow> item_get_pending ?key t;
         case pending of None \<Rightarrow> Some st | Some q \<Rightarrow> item_delete q (upd_item p (\<lambda>it. it\<lparr>it_p := 1\<rparr>) st) } = Some u"
        "plan = (NOT_STORED, True, p, None, Some l, u)"
        using run g l t(1) False by (auto simp: item_store_iqset_def item_get_lease_def Let_def kt bind_eq_Some_conv)
      have "\<not> item_is_linked (heap_at t p)" using p hp by simp
      note d = drop_pending_inv [OF it t(3) this u(1)]
      have "linked_from {} st u" using linked_from_trans [OF lft, of "{}" u] d by simp
      then show ?thesis using d ft hp by (simp add: plan_ok_def u(2))
    qed
  qed
qed

lemma item_copy_inv:
  assumes "store_invx X M st" "room k st" "fits_item st (heap_at st p)" "item_copy p off src n st = Some st'"
  shows "store_invx X M st'" "room k st'" "linked_from {p} st st'" "key_at st' = key_at st" "q \<noteq> p \<Longrightarrow> heap_at st' q = heap_at st q"
    "heap_at st' p = (heap_at st p)\<lparr>it_end := it_end (heap_at st' p)\<rparr>" "fits_item st' (heap_at st' p)" "st_assoc st' = st_assoc st"
proof -
  obtain bs where "item_memcpy p off bs st = Some st'" "length bs = n" by (rule item_copy_memcpy [OF assms(4)])
  note m = item_memcpy_inv [OF assms(1-3) this(1)]
  show "store_invx X M st'" "room k st'" "linked_from {p} st st'" "key_at st' = key_at st" "q \<noteq> p \<Longrightarrow> heap_at st' q = heap_at st q"
    "heap_at st' p = (heap_at st p)\<lparr>it_end := it_end (heap_at st' p)\<rparr>" "fits_item st' (heap_at st' p)" "st_assoc st' = st_assoc st"
    using m by blast+
qed

text \<open>A new item, not linked yet, whose value is filled by two copies.\<close>

definition filled :: "ptr \<Rightarrow> mc \<Rightarrow> mc \<Rightarrow> bool" where
  "filled p st st' \<longleftrightarrow> linked_from {p} st st' \<and> key_at st' = key_at st \<and> (\<forall>q. q \<noteq> p \<longrightarrow> heap_at st' q = heap_at st q)
     \<and> it_flags (heap_at st' p) = it_flags (heap_at st p) \<and> it_coflags (heap_at st' p) = it_coflags (heap_at st p)
     \<and> st_assoc st' = st_assoc st"

lemma item_copy2_inv:
  assumes inv: "store_invx X M st" "room k st" "fits_item st (heap_at st p)"
    and run: "do { st \<leftarrow> item_copy p a x n st; item_copy p b y m st } = Some st'"
  shows "store_invx X M st'" "room k st'" "fits_item st' (heap_at st' p)" "filled p st st'"
proof -
  obtain s where s: "item_copy p a x n st = Some s" "item_copy p b y m s = Some st'"
    using run by (auto simp: bind_eq_Some_conv)
  note 1 = item_copy_inv [OF inv s(1)]
  note 2 = item_copy_inv [OF 1(1,2,7) s(2)]
  show "store_invx X M st'" "room k st'" "fits_item st' (heap_at st' p)" using 2 by blast+
  have f: "it_flags it' = it_flags it" "it_coflags it' = it_coflags it" if "it' = it\<lparr>it_end := e\<rparr>" for it it' :: item and e
    using that by simp_all
  show "filled p st st'" unfolding filled_def
    using linked_from_trans [OF 1(3) 2(3)] 1(4,5,8) 2(4,5,8) f [OF 1(6)] f [OF 2(6)] by simp
qed

lemma item_store_join_plan:
  assumes inv: "store_inv M st" "room (Suc k) st" "fits st" "classes_ok st"
    and p: "p \<in># M" "o' \<in># M" and find: "item_find (key_at st p) st = Some o'"
    and run: "item_store_join prepend p o' st = Some plan"
  shows "plan_ok p M k st plan"
proof -
  let ?o = "heap_at st o'" and ?key = "key_at st p"
  let ?n = "it_nbyte ?o + it_nbyte (heap_at st p)"
  let ?cid = "item_slabid (it_nkey ?o) ?n st"
  have lo: "item_is_linked ?o" "key_at st o' = ?key" using item_find_iff [OF store_invD(1) [OF inv(1)]] find by auto
  then have nk: "length ?key \<le> it_nkey ?o" "it_nkey ?o < 256"
    using inv(3) by (auto simp: fits_def fits_item_def key_at_def item_key_def dest: arg_cong [of _ _ length])
  note rp = owned_ref [OF inv(1) p(1)] and ro = owned_ref [OF inv(1) p(2)]
  have now: "plan_ok p M k st (NOT_STORED, False, p, None, None, st)"
    using plan_ok_now [OF inv(1)] room_mono [OF inv(2)] by simp
  show ?thesis
  proof (cases "?cid = SLABCLASS_INVALID_ID \<or> it_nbyte ?o = 0")
    case True
    then show ?thesis using run now by (auto simp: item_store_join_def Let_def split: if_splits)
  next
    case False
    then obtain r s where al: "item_alloc ?cid ?key (it_dataflags ?o) (it_exptime ?o) ?n False st = Some (r, s)"
      using run by (auto simp: item_store_join_def Let_def bind_eq_Some_conv key_at_def)
    note a = item_alloc_inv [OF inv(1,2,4,3) al nk]
    show ?thesis
    proof (cases r)
      case None
      then have s: "store_inv M s" "room (Suc k) s" "evicts {} st s" "st_heap s = st_heap st" using a by simp_all
      have "plan = (NOT_STORED, False, p, None, None, s)"
        using run al False None by (simp add: item_store_join_def Let_def key_at_def)
      then show ?thesis
        using s room_mono [OF s(2)] linked_from_evicts [OF s(3)] evicts_find [OF inv(1) s(1,3) find ro(1)] find
        by (simp add: plan_ok_def)
    next
      case (Some nit)
      then have s: "allocated M k st nit s" "fits_item s (heap_at s nit)"
        "fits_item s ((heap_at s nit)\<lparr>it_flags := insert ITEM_RALIGN (it_flags (heap_at s nit))\<rparr>)"
        "fresh_header (set_use_cas (st_settings st)) ?cid ?key (it_dataflags ?o) (it_exptime ?o) ?n (-1) (heap_at s nit)"
        using a by simp_all
      have t: "store_inv (add_mset nit M) s" "room k s" "evicts {nit} st s" "it_refcount (heap_at st nit) = 0"
        "\<not> item_is_linked (heap_at s nit)" using s(1) by (simp_all add: allocated_def)
      have ne: "p \<noteq> nit" "o' \<noteq> nit" using t(4) rp(1) ro(1) by auto
      have hs: "it_flags (heap_at s nit) \<subseteq> {ITEM_CAS}" "it_coflags (heap_at s nit) = {}" "key_at s nit = ?key"
        using s(4) nk by (auto simp: fresh_header_def key_at_def split: if_splits)
      define u where "u = (if prepend then set_flag ITEM_RALIGN nit s else s)"
      have u: "store_inv (add_mset nit M) u" "room k u" "fits_item u (heap_at u nit)" "key_at u = key_at s"
          "\<forall>q. q \<noteq> nit \<longrightarrow> heap_at u q = heap_at s q" "it_flags (heap_at u nit) \<subseteq> {ITEM_CAS, ITEM_RALIGN}"
          "it_coflags (heap_at u nit) = {}" "frame s u" "st_assoc u = st_assoc s"
        using t(1,2,5) s(2,3) hs fits_item_frame [OF frame_upd_item]
        by (auto simp: u_def set_flag_def item_flag_defs intro!: upd_item_inv ext)
          (auto simp: upd_item_def key_at_def item_key_def item_key_off_def item_has_cas_def)
      let ?x = "if prepend then p else o'" and ?y = "if prepend then o' else p"
      obtain st' where run2: "do { s \<leftarrow> item_copy nit 0 ?x (it_nbyte (heap_at st ?x)) u;
          item_copy nit (it_nbyte (heap_at st ?x)) ?y (it_nbyte (heap_at st ?y)) s } = Some st'"
        and plan: "plan = (NOT_STORED, True, nit, Some nit, None, st')"
        using run al False Some by (cases prepend) (auto simp: item_store_join_def Let_def key_at_def u_def bind_eq_Some_conv)
      note c = item_copy2_inv [OF u(1,2,3) run2]
      note f = c(4) [unfolded filled_def]
      have fl: "it_flags (heap_at st' nit) \<subseteq> {ITEM_CAS, ITEM_RALIGN}" "it_coflags (heap_at st' nit) = {}" using f u(6,7) by auto
      have nl: "\<not> item_is_linked (heap_at st' nit)" "\<not> pinned (heap_at st' nit)"
        using fl by (auto simp: item_flag_defs pinned_def unpins_def)
      have "linked_from {nit} s st'"
        using linked_from_trans [of "{nit}" s u "{nit}" st'] f u(5,8) by (simp add: linked_from_def)
      then have "linked_from {} st st'"
        using linked_from_unlinked [OF _ nl(1)] linked_from_trans [OF linked_from_evicts [OF t(3)], of "{nit}" st'] by simp
      moreover have "item_find ?key st' = item_find ?key s" using f u(4,9) by (simp add: item_find_def)
      moreover have "item_find ?key s = Some o'" by (rule evicts_find [OF inv(1) t(1,3) find ro(1)]) (simp add: ne)
      moreover have "heap_at st' p = heap_at st p" using f u(5) ne(1) evicts_ref [OF t(3) _ rp(1)] by simp
      moreover have "key_at st' nit = ?key" using f u(4) hs(3) by simp
      ultimately show ?thesis using c(1-3) nl find plan by (simp add: plan_ok_def add.commute)
    qed
  qed
qed

lemma item_store_miss_plan:
  assumes inv: "store_inv M st" "room (Suc (Suc k)) st" and p: "\<not> item_is_linked (heap_at st p)"
    and run: "item_store_miss p type token st = Some plan"
  shows "plan_ok p M k st plan" "fst (snd (snd (snd plan))) = None"
proof -
  have now: "plan_ok p M k st (res, store, p, None, None, st)" for res store
    using plan_ok_now [OF inv(1)] room_mono [OF inv(2)] by simp
  show "plan_ok p M k st plan"
    using run now item_store_iqset_plan [OF inv p] by (auto simp: item_store_miss_def split: req_type.splits)
  show "fst (snd (snd (snd plan))) = None"
    using run by (auto simp: item_store_miss_def item_store_iqset_def Let_def bind_eq_Some_conv
        split: req_type.splits option.splits if_splits)
qed

lemma item_store_hit_plan:
  assumes inv: "store_inv M st" "room (Suc (Suc k)) st" "fits st" "classes_ok st"
    and p: "\<not> item_is_linked (heap_at st p)" "p \<in># M" "o' \<in># M" "item_find (key_at st p) st = Some o'"
    and run: "item_store_hit p o' type token st = Some plan"
  shows "plan_ok p M k st plan"
    "type \<noteq> REQ_APPEND \<Longrightarrow> type \<noteq> REQ_PREPEND \<Longrightarrow> fst (snd (snd (snd plan))) = None"
proof -
  have r: "room k st" "room (Suc k) st" using room_mono [OF inv(2)] by simp_all
  have now: "plan_ok p M k st (res, store, p, None, None, st)" for res store
    using plan_ok_now [OF inv(1) r(1)] by simp
  have lo: "item_is_linked (heap_at st o')" using item_find_iff [OF store_invD(1) [OF inv(1)]] p(4) by blast
  have touch: "plan_ok p M k st (NOT_STORED, False, p, None, None, s)" if "item_touch o' st = Some s" for s
    using item_touch_inv [OF inv(1) r(1) lo that] p(1) by (intro plan_okI) simp_all
  show "plan_ok p M k st plan"
    using run now item_store_iqset_plan [OF inv(1,2) p(1)] item_store_join_plan [OF inv(1) r(2) inv(3,4) p(2-4)] touch
    by (auto simp: item_store_hit_def bind_eq_Some_conv split: req_type.splits if_splits)
  show "fst (snd (snd (snd plan))) = None" if "type \<noteq> REQ_APPEND" "type \<noteq> REQ_PREPEND"
    using run that by (auto simp: item_store_hit_def item_store_iqset_def Let_def bind_eq_Some_conv
        split: req_type.splits option.splits if_splits)
qed

text \<open>Where nothing new is linked the hash table has the room it had.\<close>

lemma table_room_from:
  assumes "inv_index st" "inv_index st'" "linked_from {} st st'" "table_room n st"
  shows "table_room n st'"
proof -
  have i: "assoc_inv (key_at s) (st_assoc s)" "assoc_items (st_assoc s) = {q. item_is_linked (heap_at s q)}"
    if "inv_index s" for s using that by (simp_all add: inv_index_def)
  have "assoc_items (st_assoc st') \<subseteq> assoc_items (st_assoc st)"
    using linked_fromD(1) [OF assms(3)] by (auto simp: i(2) assms(1,2))
  moreover have "finite (assoc_items (st_assoc st))" by (simp add: assoc_items_def)
  ultimately have "assoc_count (st_assoc st') \<le> assoc_count (st_assoc st)"
    using assoc_count_card [OF i(1)] assms(1,2) by (simp add: card_mono)
  then show ?thesis using assms(4) linked_fromD(3) [OF assms(3)] by (auto simp: assoc_room_def frame_def)
qed

text \<open>Linking the new item in place of the old one, if there is one.\<close>

lemma store_link_inv:
  assumes inv: "store_inv (pin q st + M) st" "room k st" "table_room (Suc k) st" and q: "q \<in># pin q st + M" "\<not> item_is_linked (heap_at st q)"
    and find: "item_find (key_at st q) st = oit"
    and run: "(case oit of Some o' \<Rightarrow> item_replace o' q st | None \<Rightarrow> item_link q st) = Some st'"
  shows "store_inv M st'" "room k st'" "linked_from {q} st st'"
    "item_find k' st' = (if k' = key_at st q then Some q else item_find k' st)"
    "\<exists>cas t. heap_at st' q = linked_as cas t (heap_at st q)"
    "r \<noteq> q \<Longrightarrow> \<not> item_is_linked (heap_at st r) \<Longrightarrow> heap_at st' r = heap_at st r"
proof -
  have "store_inv M st' \<and> room k st' \<and> linked_from {q} st st'
    \<and> item_find k' st' = (if k' = key_at st q then Some q else item_find k' st)
    \<and> (\<exists>cas t. heap_at st' q = linked_as cas t (heap_at st q))
    \<and> (r \<noteq> q \<longrightarrow> \<not> item_is_linked (heap_at st r) \<longrightarrow> heap_at st' r = heap_at st r)"
  proof (cases oit)
    case None
    note o = owned_ref [OF inv(1) q(1)]
    have i: "store_inv (if pinned (heap_at st q) then add_mset q M else M) st"
      using inv(1) by (simp add: pin_def split: if_splits)
    have fr: "item_find (key_at st q) st = None" and lk: "item_link q st = Some st'" using find run None by simp_all
    note l = item_link_inv [OF i q(2) o(4,2,3) fr lk inv(2,3)]
    show ?thesis using l linked_from_new [of st st' q] by auto
  next
    case (Some o')
    have lo: "item_is_linked (heap_at st o')" "key_at st q = key_at st o'"
      using item_find_iff [OF store_invD(1) [OF inv(1)]] find Some by auto
    have run2: "item_replace o' q st = Some st'" using run Some by simp
    note l = item_replace_inv [OF inv(1,2) lo(1) q lo(2) run2]
    show ?thesis using l(1-5) l(6) [of r] lo(1) by auto
  qed
  then show "store_inv M st'" "room k st'" "linked_from {q} st st'"
    "item_find k' st' = (if k' = key_at st q then Some q else item_find k' st)"
    "\<exists>cas t. heap_at st' q = linked_as cas t (heap_at st q)"
    "r \<noteq> q \<Longrightarrow> \<not> item_is_linked (heap_at st r) \<Longrightarrow> heap_at st' r = heap_at st r" by blast+
qed

lemma remove_opt_step:
  assumes "store_inv (M + opt r) st" "room k st"
  shows "store_inv M (item_remove_opt r st)" "room k (item_remove_opt r st)" "linked_from {} st (item_remove_opt r st)"
    "item_find k' (item_remove_opt r st) = item_find k' st"
    "item_is_linked (heap_at (item_remove_opt r st) q) = item_is_linked (heap_at st q)"
proof -
  show "store_inv M (item_remove_opt r st)" "room k (item_remove_opt r st)" by (rule item_remove_opt_inv [OF assms])+
  have "linked_from {} st (item_remove_opt r st) \<and> item_find k' (item_remove_opt r st) = item_find k' st
    \<and> item_is_linked (heap_at (item_remove_opt r st) q) = item_is_linked (heap_at st q)"
  proof (cases r)
    case (Some p)
    then have i: "store_inv (add_mset p M) st" using assms(1) by simp
    show ?thesis using linked_from_remove [OF i assms(2)] by (simp add: Some item_remove_opt_def)
  qed (simp add: item_remove_opt_def)
  then show "linked_from {} st (item_remove_opt r st)" "item_find k' (item_remove_opt r st) = item_find k' st"
    "item_is_linked (heap_at (item_remove_opt r st) q) = item_is_linked (heap_at st q)" by blast+
qed

text \<open>What of the store operation its callers rely on: \<open>new\<close> is the item that was linked, if any.\<close>

definition stored_step :: "bytes \<Rightarrow> ptr option \<Rightarrow> mc \<Rightarrow> mc \<Rightarrow> bool" where
  "stored_step key new st st' \<longleftrightarrow> (case new of
       None \<Rightarrow> linked_from {} st st' \<and> (\<forall>o'. found key st = Some o' \<longrightarrow> item_find key st' = Some o')
     | Some q \<Rightarrow> linked_from {q} st st' \<and> item_find key st' = Some q \<and> fits_item st' (heap_at st' q))"

lemma fits_item_linked_as [simp]: "fits_item st (linked_as cas t it) = fits_item st it"
  by (simp add: fits_item_def linked_as_def item_set_cas_def item_key_off_def item_data_off_def item_flag_defs)

lemma pin_same:
  assumes "heap_at st' p = (heap_at st p)\<lparr>it_p := b\<rparr>"
  shows "pin p st' = pin p st" "key_at st' p = key_at st p" "fits_item st' (heap_at st' p) = fits_item st' (heap_at st p)"
    "item_is_linked (heap_at st' p) = item_is_linked (heap_at st p)"
  using assms by (simp_all add: pin_def pinned_def unpins_def item_flag_defs key_at_def item_key_def item_key_off_def)

text \<open>The end of the store operation, from the plan on.\<close>

lemma store_finish:
  assumes inv: "store_inv (pin p s + M) s" "table_room (Suc k) s"
    and p: "\<not> item_is_linked (heap_at s p)" "p \<in># M" "fits_item s (heap_at s p)"
    and find: "item_find (key_at s p) s = oit"
    and plan: "plan_ok p (pin p s + M + opt oit) k s (res, store, q, nit, lease, s2)"
    and run: "(if res = NOT_STORED \<and> store then do {
            st \<leftarrow> (case oit of Some o' \<Rightarrow> item_replace o' q s2 | None \<Rightarrow> item_link q s2); Some (STORED, st)
          } else Some (res, s2)) = Some (result, s3)"
    and st': "st' = item_remove_opt lease (item_remove_opt nit (item_remove_opt oit s3))"
    and res: "res \<noteq> STORED"
  shows "store_inv (M + (if item_is_linked (heap_at st' p) then {#} else pin p s)) st'" "room k st'"
    "stored_step (key_at s p) (if result = STORED then Some q else None) s st'"
    "q = p \<and> nit = None \<Longrightarrow> result = STORED \<Longrightarrow> \<exists>cas t b. same_payload (linked_as cas t ((heap_at s p)\<lparr>it_p := b\<rparr>)) (heap_at st' p)"
    "result \<noteq> STORED \<or> q \<noteq> p \<Longrightarrow> \<not> item_is_linked (heap_at st' p)"
proof -
  let ?key = "key_at s p" and ?R = "opt oit + opt nit + opt lease"
  have s2: "store_inv (pin p s + M + ?R) s2" "room k s2" "linked_from {} s s2" "item_find ?key s2 = oit"
    "heap_at s2 p = (heap_at s p)\<lparr>it_p := it_p (heap_at s2 p)\<rparr>"
    "nit = None \<and> q = p \<or> nit = Some q \<and> \<not> item_is_linked (heap_at s2 q) \<and> key_at s2 q = ?key
       \<and> \<not> pinned (heap_at s2 q) \<and> fits_item s2 (heap_at s2 q)"
    using plan find by (simp_all add: plan_ok_def ac_simps)
  note ps = pin_same [OF s2(5)]
  have pl2: "\<not> item_is_linked (heap_at s2 p)" using ps(4) p(1) by simp
  have fit2: "fits_item s2 (heap_at s2 p)" using p(3) ps(3) fits_item_frame [OF linked_fromD(3) [OF s2(3)]] by simp
  let ?stored = "result = STORED"
  define N where "N = (if ?stored \<and> q = p then {#} else pin p s)"
  have three: "store_inv (N + M + ?R) s3 \<and> room k s3 \<and> stored_step ?key (if ?stored then Some q else None) s s3
      \<and> (?stored \<longrightarrow> q = p \<longrightarrow> (\<exists>cas t b. heap_at s3 p = linked_as cas t ((heap_at s p)\<lparr>it_p := b\<rparr>)))
      \<and> item_is_linked (heap_at s3 p) = (?stored \<and> q = p)"
  proof (cases "res = NOT_STORED \<and> store")
    case False
    then have "result = res" "s3 = s2" using run by auto
    then show ?thesis using s2 res pl2 find found_SomeD by (auto simp: N_def stored_step_def)
  next
    case True
    then have link: "(case oit of Some o' \<Rightarrow> item_replace o' q s2 | None \<Rightarrow> item_link q s2) = Some s3" and r: ?stored
      using run by (auto simp: bind_eq_Some_conv)
    have nl: "\<not> item_is_linked (heap_at s2 q)" and key: "key_at s2 q = ?key" and fit: "fits_item s2 (heap_at s2 q)"
      using s2(6) pl2 ps(2) fit2 by auto
    have pin: "pin q s2 + (N + M + ?R) = pin p s + M + ?R" and mem: "q \<in># pin q s2 + (N + M + ?R)"
      using s2(6) ps(1) p(2) r by (auto simp: N_def pin_def split: if_splits)
    have i: "store_inv (pin q s2 + (N + M + ?R)) s2" using s2(1) by (simp only: pin)
    have fq: "item_find (key_at s2 q) s2 = oit" using s2(4) key by simp
    have "table_room (Suc k) s2" by (rule table_room_from [OF store_invD(1) [OF inv(1)] store_invD(1) [OF s2(1)] s2(3) inv(2)])
    note l = store_link_inv [OF i s2(2) this mem nl fq link]
    obtain cas t where lq: "heap_at s3 q = linked_as cas t (heap_at s2 q)" using l(5) by blast
    have lf: "linked_from {q} s s3" using linked_from_trans [OF s2(3) l(3)] by simp
    have "fits_item s3 (heap_at s3 q)" using fit fits_item_frame [OF linked_fromD(3) [OF l(3)]] by (simp add: lq)
    then have st: "stored_step ?key (Some q) s s3" using lf l(4) [of ?key] key by (simp add: stored_step_def)
    have "q \<noteq> p \<Longrightarrow> heap_at s3 p = heap_at s2 p" using l(6) [of p] pl2 by simp
    moreover have "item_is_linked (heap_at s3 q)" by (simp add: lq item_is_linked_def)
    moreover have "\<exists>cas t b. heap_at s3 p = linked_as cas t ((heap_at s p)\<lparr>it_p := b\<rparr>)" if "q = p"
      using lq s2(5) that by metis
    ultimately show ?thesis using l(1,2) st r pl2 by (cases "q = p") simp_all
  qed
  have e: "N + M + ?R = (N + M + opt lease + opt nit) + opt oit" by (simp add: ac_simps)
  note r1 = remove_opt_step [OF three [THEN conjunct1, unfolded e] three [THEN conjunct2, THEN conjunct1]]
  note r2 = remove_opt_step [OF r1(1,2)]
  note r3 = remove_opt_step [OF r2(1,2), folded st']
  have lf: "linked_from {} s3 st'" using linked_from_trans [OF linked_from_trans [OF r1(3) r2(3)] r3(3)] by simp
  have find': "item_find k' st' = item_find k' s3" for k' using r1(4) r2(4) r3(4) by simp
  have lk: "item_is_linked (heap_at st' r) = item_is_linked (heap_at s3 r)" for r using r1(5) r2(5) r3(5) by simp
  show "store_inv (M + (if item_is_linked (heap_at st' p) then {#} else pin p s)) st'"
    using r3(1) three by (simp add: lk N_def ac_simps split: if_splits)
  show "room k st'" by (rule r3(2))
  show "result \<noteq> STORED \<or> q \<noteq> p \<Longrightarrow> \<not> item_is_linked (heap_at st' p)" using three lk by auto
  have pay: "same_payload (heap_at s3 r) (heap_at st' r)" if "item_is_linked (heap_at s3 r)" for r
    using linked_fromD(2) [OF lf, of r] that lk by simp
  show "\<exists>cas t b. same_payload (linked_as cas t ((heap_at s p)\<lparr>it_p := b\<rparr>)) (heap_at st' p)"
    if "q = p \<and> nit = None" "result = STORED" using three that pay [of p] by metis
  have fr: "frame s3 st'" by (rule linked_fromD(3) [OF lf])
  show "stored_step ?key (if ?stored then Some q else None) s st'"
  proof (cases ?stored)
    case False
    then have "stored_step ?key None s s3" using three by simp
    then show ?thesis using False linked_from_trans [of "{}" s s3 "{}" st'] lf by (simp add: stored_step_def find')
  next
    case True
    then have t: "linked_from {q} s s3" "item_find ?key s3 = Some q" "fits_item s3 (heap_at s3 q)"
      using three by (simp_all add: stored_step_def)
    have "item_is_linked (heap_at s3 q)" using t(2) item_find_iff [OF store_invD(1) [OF three [THEN conjunct1]]] by blast
    then have "fits_item st' (heap_at st' q)" using t(3) fits_item_frame [OF fr] fits_item_payload [OF pay] by simp
    then show ?thesis using True t(2) linked_from_trans [OF t(1) lf] by (simp add: stored_step_def find')
  qed
qed

lemma stored_step_fits:
  assumes "stored_step key new st st'" "fits st" shows "fits st'" "frame st st'"
proof -
  have "\<exists>P. linked_from P st st' \<and> (\<forall>q \<in> P. fits_item st' (heap_at st' q))"
    using assms(1) by (cases new) (auto simp: stored_step_def)
  then obtain P where P: "linked_from P st st'" "\<forall>q \<in> P. fits_item st' (heap_at st' q)" by blast
  show f: "frame st st'" by (rule linked_fromD(3) [OF P(1)])
  show "fits st'" using P(2) fits_item_frame [OF f] by (intro fits_from [OF assms(2) P(1)]) auto
qed

lemma item_store_inv:
  assumes inv: "store_inv (pin p st + M) st" "room (Suc (Suc (Suc k))) st" "fits st" "classes_ok st"
    and p: "\<not> item_is_linked (heap_at st p)" "p \<in># M" "fits_item st (heap_at st p)"
    and run: "item_store p type token st = Some (result, st')"
  obtains q b where "store_inv (M + (if item_is_linked (heap_at st' p) then {#} else pin p st)) st'" "room k st'"
    "stored_step (key_at st p) (if result = STORED then Some q else None) st st'"
    "result = STORED \<Longrightarrow> type \<noteq> REQ_APPEND \<Longrightarrow> type \<noteq> REQ_PREPEND
       \<Longrightarrow> q = p \<and> (\<exists>cas t. same_payload (linked_as cas t ((heap_at st p)\<lparr>it_p := b\<rparr>)) (heap_at st' p))"
    "result \<noteq> STORED \<or> q \<noteq> p \<Longrightarrow> \<not> item_is_linked (heap_at st' p)"
proof (cases "it_nbyte (heap_at st p) = 0 \<and> \<not> item_is_lease_holder (heap_at st p) \<and> \<not> item_has_co_lease (heap_at st p)")
  case True
  then have "result = NOT_STORED" "st' = st" using run by (simp_all add: item_store_def)
  then show thesis using that [of p] inv(1) room_mono [OF inv(2)] p(1) found_SomeD
    by (simp add: stored_step_def ac_simps)
next
  case False
  let ?key = "key_at st p"
  obtain oit s where g: "item_get ?key st = Some (oit, s)" using run False
    by (auto simp: item_store_def Let_def bind_eq_Some_conv key_at_def)
  note c = item_get_cases [OF inv(1,2) g]
  have hp: "heap_at s p = heap_at st p" using c(6) p(1) by simp
  then have same: "pin p s = pin p st" "key_at s p = ?key" by (simp_all add: pin_def key_at_def)
  have fr: "frame st s" by (rule linked_fromD(3) [OF c(4)])
  have fs: "fits s" using fits_from [OF inv(3) c(4)] by simp
  have cs: "classes_ok s" using classes_ok_frame [OF fr] inv(4) by simp
  have find: "item_find (key_at s p) s = oit" unfolding same(2)
    using c(1) c(5) [of ?key] found_SomeD [of ?key st] by (cases oit) auto
  let ?plan = "case oit of None \<Rightarrow> item_store_miss p type token s | Some o' \<Rightarrow> item_store_hit p o' type token s"
  obtain res store q nit lease s2 where plan: "?plan = Some (res, store, q, nit, lease, s2)"
    using run False g by (auto simp: item_store_def Let_def bind_eq_Some_conv key_at_def)
  have i: "store_inv (pin p s + M + opt oit) s" using c(2) by (simp add: same)
  have pl: "\<not> item_is_linked (heap_at s p)" "p \<in># pin p s + M + opt oit" using p(1,2) hp by simp_all
  have ok: "plan_ok p (pin p s + M + opt oit) k s (res, store, q, nit, lease, s2)
      \<and> (type \<noteq> REQ_APPEND \<longrightarrow> type \<noteq> REQ_PREPEND \<longrightarrow> nit = None)"
  proof (cases oit)
    case None
    then show ?thesis using item_store_miss_plan [OF i c(3) pl(1)] plan by fastforce
  next
    case (Some o')
    then show ?thesis using item_store_hit_plan [OF i c(3) fs cs pl, of o'] find plan by fastforce
  qed
  obtain s3 where fin: "(if res = NOT_STORED \<and> store then do {
            st \<leftarrow> (case oit of Some o' \<Rightarrow> item_replace o' q s2 | None \<Rightarrow> item_link q s2); Some (STORED, st)
          } else Some (res, s2)) = Some (result, s3)"
    "st' = item_remove_opt lease (item_remove_opt nit (item_remove_opt oit s3))"
    using run False g plan by (auto simp: item_store_def Let_def bind_eq_Some_conv key_at_def)
  have res: "res \<noteq> STORED"
    using plan by (auto simp: item_store_miss_def item_store_hit_def item_store_iqset_def item_store_join_def Let_def
        bind_eq_Some_conv split: option.splits req_type.splits if_splits)
  have fit: "fits_item s (heap_at s p)" using p(3) hp fits_item_frame [OF fr] by simp
  have i2: "store_inv (pin p s + M) s" using i by (rule store_inv_mono) simp
  have tr: "table_room (Suc k) s" using room_mono [OF c(3), of "Suc k"] by (simp add: room_def)
  note f = store_finish [OF i2 tr pl(1) p(2) fit find conjunct1 [OF ok] fin res]
  have step: "stored_step ?key (if result = STORED then Some q else None) st st'"
  proof (cases "result = STORED")
    case True
    then show ?thesis using f(3) linked_from_trans [OF c(4), of "{q}" st'] by (simp add: stored_step_def same)
  next
    case False
    then have "stored_step ?key None s st'" using f(3) by (simp add: same)
    moreover have "item_find ?key st' = Some o'" if "found ?key st = Some o'" for o'
    proof -
      have "found ?key s = Some o'"
        using that c(1,5,8) by (auto simp: found_def item_stale_def heap_release st_now_def item_acquire_refcount_def
            slab_acquire_refcount_def upd_item_def upd_slab_def split: option.splits if_splits)
      then show ?thesis using calculation by (simp add: stored_step_def)
    qed
    ultimately show ?thesis using False linked_from_trans [OF c(4), of "{}" st'] by (simp add: stored_step_def)
  qed
  have nit: "nit = None \<Longrightarrow> q = p" using ok by (simp add: plan_ok_def)
  show thesis
  proof (cases "result = STORED \<and> type \<noteq> REQ_APPEND \<and> type \<noteq> REQ_PREPEND")
    case True
    then have "q = p \<and> nit = None" using ok nit by blast
    from f(4) [OF this] True obtain cas t b where "same_payload (linked_as cas t ((heap_at s p)\<lparr>it_p := b\<rparr>)) (heap_at st' p)" by blast
    then show thesis using that [of q b, OF f(1) [unfolded same(1)] f(2) step] f(5) \<open>q = p \<and> nit = None\<close> hp by auto
  next
    case False
    then show thesis using that [of q, OF f(1) [unfolded same(1)] f(2) step] f(5) by blast
  qed
qed

end
