(* ===== verification/MC_Update.thy ===== *)
theory MC_Update
  imports MC_Cmds
begin

text \<open>
  Arithmetic, deletion and flushing keep the invariant of the cache, and what they leave under the
  key.
\<close>

declare split_paired_All [simp del] split_paired_Ex [simp del]

text \<open>The whole invariant of the cache.\<close>

definition mc_ok :: "ptr multiset \<Rightarrow> mc \<Rightarrow> bool" where
  "mc_ok M st \<longleftrightarrow> store_inv M st \<and> fits st \<and> classes_ok st"

lemma mc_okD: "mc_ok M st \<Longrightarrow> store_inv M st" "mc_ok M st \<Longrightarrow> fits st" "mc_ok M st \<Longrightarrow> classes_ok st"
  by (simp_all add: mc_ok_def)

lemma mc_ok_mono: "mc_ok M st \<Longrightarrow> N \<subseteq># M \<Longrightarrow> mc_ok N st"
  by (auto simp: mc_ok_def intro: store_inv_mono)

lemma mc_ok_from:
  assumes "mc_ok M st" "store_inv N st'" "linked_from P st st'" "\<And>q. q \<in> P \<Longrightarrow> item_is_linked (heap_at st' q) \<Longrightarrow> fits_item st' (heap_at st' q)"
  shows "mc_ok N st'"
proof -
  have f: "frame st st'" by (rule linked_fromD(3) [OF assms(3)])
  have "fits st'" using assms(4) fits_item_frame [OF f] by (intro fits_from [OF mc_okD(2) [OF assms(1)] assms(3)]) simp
  then show ?thesis using assms(1,2) classes_ok_frame [OF f] by (simp add: mc_ok_def)
qed

lemma item_get_ok:
  assumes "mc_ok M st" "room (Suc k) st" "item_get key st = Some (r, st')"
  shows "mc_ok (M + opt r) st'"
proof -
  note c = item_get_cases [OF mc_okD(1) [OF assms(1)] assms(2,3)]
  show ?thesis by (rule mc_ok_from [OF assms(1) c(2,4)]) simp
qed

lemma item_remove_ok:
  assumes "mc_ok (add_mset p M) st" "room k st"
  shows "mc_ok M (item_remove p st)" "room k (item_remove p st)"
proof -
  note i = mc_okD(1) [OF assms(1)]
  show "mc_ok M (item_remove p st)"
    by (rule mc_ok_from [OF assms(1) item_remove_inv(1) [OF i assms(2)] linked_from_remove(1) [OF i assms(2)]]) simp
  show "room k (item_remove p st)" by (rule item_remove_inv(2) [OF i assms(2)])
qed

lemma item_delete_ok:
  assumes "mc_ok (add_mset p M) st" "room k st" "item_is_linked (heap_at st p)"
  obtains st' where "item_delete p st = Some st'" "mc_ok M st'" "room k st'" "linked_from {} st st'"
    "\<forall>k'. item_find k' st' = (if item_find k' st = Some p then None else item_find k' st)"
    "\<forall>q. q \<noteq> p \<longrightarrow> heap_at st' q = heap_at st q"
proof -
  obtain s where s: "item_delete p st = Some s" "store_inv M s" "room k s" "linked_from {} st s"
    "\<forall>k'. item_find k' s = (if item_find k' st = Some p then None else item_find k' st)"
    "\<forall>q. q \<noteq> p \<longrightarrow> heap_at s q = heap_at st q" "st_cas_id s = st_cas_id st"
    by (rule item_delete_inv [OF mc_okD(1) [OF assms(1)] assms(2,3)])
  have "mc_ok M s" by (rule mc_ok_from [OF assms(1) s(2,4)]) simp
  then show thesis using that s by blast
qed

lemma item_value_payload:
  assumes "frame st st'" "same_payload (heap_at st p) (heap_at st' p)"
  shows "item_value p st' = item_value p st"
  using assms(1) by (simp add: item_value_def item_data_def same_payloadD [OF assms(2)] slab_item_size_def frame_def Let_def)

subsection \<open>Changes of a linked item\<close>

text \<open>A change of the payload that keeps the key, the flags and the count.\<close>

lemma upd_linked_ok:
  assumes ok: "mc_ok M st"
    and same: "it_flags (f (heap_at st p)) = it_flags (heap_at st p)" "it_coflags (f (heap_at st p)) = it_coflags (heap_at st p)"
      "it_id (f (heap_at st p)) = it_id (heap_at st p)" "it_refcount (f (heap_at st p)) = it_refcount (heap_at st p)"
      "item_key (f (heap_at st p)) = item_key (heap_at st p)"
    and fit: "fits_item st (heap_at st p) \<Longrightarrow> fits_item st (f (heap_at st p))"
  shows "mc_ok M (upd_item p f st)" "item_find k (upd_item p f st) = item_find k st"
proof -
  have fl: "item_is_linked (f (heap_at st p)) = item_is_linked (heap_at st p)"
    "item_is_slabbed (f (heap_at st p)) = item_is_slabbed (heap_at st p)"
    "item_is_lease_holder (f (heap_at st p)) = item_is_lease_holder (heap_at st p)"
    "pinned (f (heap_at st p)) = pinned (heap_at st p)"
    by (simp_all add: item_flag_defs same pinned_def unpins_def)
  have "store_inv M (upd_item p f st)" by (rule upd_item_inv [OF mc_okD(1) [OF ok]]) (simp_all add: fl same)
  moreover have "fits (upd_item p f st)"
    using mc_okD(2) [OF ok] fit fits_item_frame [OF frame_upd_item, of p f st] fl by (auto simp: fits_def upd_item_def)
  ultimately show "mc_ok M (upd_item p f st)" using ok classes_ok_frame [OF frame_upd_item] by (simp add: mc_ok_def)
  show "item_find k (upd_item p f st) = item_find k st"
    by (rule item_find_upd_item) (simp add: key_at_def upd_item_def same)
qed

lemma item_set_cas_same [simp]:
  "it_flags (item_set_cas c it) = it_flags it" "it_coflags (item_set_cas c it) = it_coflags it"
  "it_id (item_set_cas c it) = it_id it" "it_refcount (item_set_cas c it) = it_refcount it"
  "it_nkey (item_set_cas c it) = it_nkey it" "it_nbyte (item_set_cas c it) = it_nbyte it"
  "item_key (item_set_cas c it) = item_key it" "fits_item st (item_set_cas c it) = fits_item st it"
  "it_dataflags (item_set_cas c it) = it_dataflags it" "it_exptime (item_set_cas c it) = it_exptime it"
  by (simp_all add: item_set_cas_def item_key_def item_key_off_def item_data_off_def fits_item_def item_flag_defs)

lemma cas_step_ok:
  assumes "mc_ok M st" "item_next_cas st = (cas, st')"
  shows "mc_ok M st'" "st_heap st' = st_heap st" "item_find k st' = item_find k st" "room n st' = room n st" "frame st st'"
proof -
  have st': "st' = st \<or> st' = st\<lparr>st_cas_id := st_cas_id st + 1\<rparr>"
    using assms(2) by (auto simp: item_next_cas_def split: if_splits)
  have e: "store_inv M (st\<lparr>st_cas_id := c\<rparr>) = store_inv M st" for c
    by (simp add: store_invx_def inv_index_def inv_lruq_def inv_free_def inv_tables_def inv_slabs_def inv_live_def
        inv_refs_def owned_def key_at_def [abs_def] tables_def nitems_def carved_def mc_upd)
  show "st_heap st' = st_heap st" "room n st' = room n st" "frame st st'"
    using st' by (auto simp: room_def frame_def)
  show "item_find k st' = item_find k st" using st' by (auto simp: item_find_def key_at_def [abs_def])
  then show "mc_ok M st'" using st' assms(1) e
    by (auto simp: mc_ok_def fits_def classes_ok_def fits_item_def slab_item_size_def)
qed

lemma item_memcpy_ok:
  assumes ok: "mc_ok M st" "room k st" "fits_item st (heap_at st p)" and run: "item_memcpy p off bs st = Some st'"
  shows "mc_ok M st'" "room k st'" "item_find k' st' = item_find k' st"
proof -
  note m = item_memcpy_inv [OF mc_okD(1) [OF ok(1)] ok(2,3) run]
  show "mc_ok M st'" using m(7) by (intro mc_ok_from [OF ok(1) m(1,3)]) simp
  show "room k st'" by (rule m(2))
  show "item_find k' st' = item_find k' st" using m(4,8) by (simp add: item_find_def)
qed

lemma item_alloc_ok:
  assumes ok: "mc_ok M st" "room (Suc k) st"
    and run: "item_alloc (item_slabid nkey nbyte st) key dataflags exptime nbyte reserved st = Some (r, st')"
    and key: "length key \<le> nkey" "nkey < 256"
  shows "case r of
      None \<Rightarrow> mc_ok M st' \<and> room (Suc k) st' \<and> evicts {} st st' \<and> st_heap st' = st_heap st
    | Some p \<Rightarrow> mc_ok (add_mset p M) st' \<and> room k st' \<and> evicts {p} st st' \<and> it_refcount (heap_at st p) = 0
        \<and> \<not> item_is_linked (heap_at st' p) \<and> fits_item st' (heap_at st' p) \<and> key_at st' p = key
        \<and> fresh_header (set_use_cas (st_settings st)) (item_slabid nkey nbyte st) key dataflags exptime nbyte (-1) (heap_at st' p)"
proof -
  note a = item_alloc_inv [OF mc_okD(1) [OF ok(1)] ok(2) mc_okD(3,2) [OF ok(1)] run key]
  have c: "classes_ok st'" if "evicts P st st'" for P using classes_ok_frame [OF evicts_frame [OF that]] mc_okD(3) [OF ok(1)] by simp
  show ?thesis
  proof (cases r)
    case None
    then show ?thesis using a c by (auto simp: mc_ok_def)
  next
    case (Some p)
    then have al: "allocated M k st p st'" "fits st'" "fits_item st' (heap_at st' p)"
      "fresh_header (set_use_cas (st_settings st)) (item_slabid nkey nbyte st) key dataflags exptime nbyte (-1) (heap_at st' p)"
      using a by simp_all
    then show ?thesis using c [of "{p}"] key Some by (simp add: mc_ok_def allocated_def fresh_header_def key_at_def)
  qed
qed

lemma item_replace_ok:
  assumes ok: "mc_ok M st" "room k st" and lk: "item_is_linked (heap_at st p)" and np: "np \<in># M" "\<not> item_is_linked (heap_at st np)"
    "\<not> pinned (heap_at st np)" "key_at st np = key_at st p" "fits_item st (heap_at st np)"
    and run: "item_replace p np st = Some st'"
  shows "mc_ok M st'" "room k st'" "item_find k' st' = (if k' = key_at st np then Some np else item_find k' st)"
    "heap_at st' np = linked_as (next_cas st) (st_now st) (heap_at st np)" "linked_from {np} st st'"
proof -
  have i: "store_inv (pin np st + M) st" "np \<in># pin np st + M" using ok(1) np(1,3) by (simp_all add: pin_def mc_ok_def)
  note r = item_replace_inv [OF i(1) ok(2) lk i(2) np(2,4) run]
  show "room k st'" "item_find k' st' = (if k' = key_at st np then Some np else item_find k' st)"
    "heap_at st' np = linked_as (next_cas st) (st_now st) (heap_at st np)" "linked_from {np} st st'" by (rule r)+
  show "mc_ok M st'" using np(5) fits_item_frame [OF linked_fromD(3) [OF r(3)]]
    by (intro mc_ok_from [OF ok(1) r(1,3)]) (simp add: r(5))
qed

lemma found_get:
  assumes "mc_ok M st" "room (Suc k) st" "item_get key st = Some (Some p, s)"
  shows "mc_ok (add_mset p M) s" "room k s" "item_is_linked (heap_at s p)" "key_at s p = key" "s = item_acquire_refcount p st"
    "item_find k' s = item_find k' st" "found key st = Some p"
proof -
  note c = item_get_cases [OF mc_okD(1) [OF assms(1)] assms(2,3)]
  show "mc_ok (add_mset p M) s" using item_get_ok [OF assms] by simp
  show "room k s" by (rule c(3))
  show f: "found key st = Some p" using c(1) by simp
  show s: "s = item_acquire_refcount p st" by (rule c(8)) simp
  show "item_is_linked (heap_at s p)" "key_at s p = key" using found_linked [OF mc_okD(1) [OF assms(1)] f] by (simp_all add: s)
  show "item_find k' s = item_find k' st" by (simp add: s)
qed

subsection \<open>Arithmetic\<close>

definition delta_value :: "bool \<Rightarrow> u64 \<Rightarrow> u64 \<Rightarrow> u64" where
  "delta_value incr delta v = (if incr then v + delta else if delta > v then 0 else v - delta)"

lemma linked_as_end:
  assumes "fits_item st it"
  shows "drop (item_data_off sz (linked_as cas t it)) (it_end (linked_as cas t it)) = drop (item_data_off sz it) (it_end it)
    \<or> item_is_raligned it"
  using assms by (auto simp: linked_as_def item_set_cas_def item_data_off_def item_flag_defs)

text \<open>The case of a longer number: a new item takes the place of the old one.\<close>

lemma add_delta_grow:
  assumes ok: "mc_ok (add_mset p M) s" "room (Suc k) s" and lk: "item_is_linked (heap_at s p)" "key_at s p = key"
    and run: "do {
             (r, st) \<leftarrow> item_alloc (item_slabid (it_nkey (heap_at s p)) (length buf) s) (item_key (heap_at s p)) df ex (length buf) False s;
             case r of
               None \<Rightarrow> Some (DELTA_EOM, buf, item_remove p st)
             | Some new_it \<Rightarrow> do {
                 st \<leftarrow> item_memcpy new_it 0 buf st;
                 let st = upd_item new_it (\<lambda>n. n\<lparr>it_p := it_p (heap_at st p)\<rparr>) st;
                 st \<leftarrow> item_replace p new_it st;
                 Some (DELTA_OK, buf, item_remove p (item_remove new_it st))
               } } = Some (res, b, st')"
  shows "mc_ok M st'" "room k st'"
    "res = DELTA_OK \<Longrightarrow> \<exists>q. item_find key st' = Some q \<and> item_value q st' = buf"
proof -
  note ks = lk(2) [unfolded key_at_def]
  have nk: "length (item_key (heap_at s p)) \<le> it_nkey (heap_at s p)" "it_nkey (heap_at s p) < 256"
    using mc_okD(2) [OF ok(1)] lk(1) by (auto simp: fits_def fits_item_def item_key_def)
  obtain r t where al: "item_alloc (item_slabid (it_nkey (heap_at s p)) (length buf) s) (item_key (heap_at s p)) df ex (length buf) False s = Some (r, t)"
    using run by (auto simp: bind_eq_Some_conv)
  note a = item_alloc_ok [OF ok al nk]
  have rp: "it_refcount (heap_at s p) \<noteq> 0" by (rule owned_ref [OF mc_okD(1) [OF ok(1)]]) simp
  have "mc_ok M st' \<and> room k st' \<and> (res = DELTA_OK \<longrightarrow> (\<exists>q. item_find key st' = Some q \<and> item_value q st' = buf))"
  proof (cases r)
    case None
    then have e: "st' = item_remove p t" "res = DELTA_EOM" using run al by simp_all
    have t: "mc_ok (add_mset p M) t" "room k t" using a None room_mono [of "Suc k" t k] by simp_all
    show ?thesis using item_remove_ok [OF t] by (simp add: e)
  next
    case (Some n)
    then have t: "mc_ok (add_mset n (add_mset p M)) t" "room k t" "evicts {n} s t" "it_refcount (heap_at s n) = 0"
      "\<not> item_is_linked (heap_at t n)" "fits_item t (heap_at t n)" "key_at t n = key"
      "it_flags (heap_at t n) \<subseteq> {ITEM_CAS}" "it_coflags (heap_at t n) = {}" "it_nbyte (heap_at t n) = length buf"
      using a ks by (auto simp: fresh_header_def)
    have pn: "p \<noteq> n" using rp t(4) by auto
    have hp: "heap_at t p = heap_at s p" using evicts_ref [OF t(3) _ rp] pn by simp
    obtain u v where u: "item_memcpy n 0 buf t = Some u"
      and v: "item_replace p n (upd_item n (\<lambda>x. x\<lparr>it_p := it_p (heap_at u p)\<rparr>) u) = Some v"
      and e: "st' = item_remove p (item_remove n v)"
      using run al Some by (auto simp: bind_eq_Some_conv Let_def)
    define w where "w = upd_item n (\<lambda>x. x\<lparr>it_p := it_p (heap_at u p)\<rparr>) u"
    note mo = item_memcpy_ok [OF t(1,2,6) u] and m = item_memcpy_inv [OF mc_okD(1) [OF t(1)] t(2,6) u]
    obtain ee where ee: "u = upd_item n (\<lambda>it. it\<lparr>it_end := ee\<rparr>) t"
      "memcpy_at (it_end (heap_at t n)) (item_data_off (slab_item_size (it_id (heap_at t n)) t) (heap_at t n) + 0) buf = Some ee"
      using u by (auto simp: item_memcpy_def Let_def split: option.splits)
    have hn: "heap_at w n = (heap_at t n)\<lparr>it_end := ee, it_p := it_p (heap_at u p)\<rparr>" by (simp add: w_def ee(1) upd_item_def)
    have ow: "mc_ok (add_mset n (add_mset p M)) w" "room k w" "item_find k' w = item_find k' u" for k'
      unfolding w_def using mo(2) by (auto intro!: upd_linked_ok [OF mo(1)]) (auto simp: item_key_def item_key_off_def item_has_cas_def)
    have ftw: "frame t w" unfolding w_def by (rule frame_trans [OF linked_fromD(3) [OF m(3)] frame_upd_item])
    have fw: "fits_item w (heap_at w n)" using t(6) fits_item_frame [OF ftw] by (simp add: hn)
    have w: "item_is_linked (heap_at w p)" "key_at w n = key" "key_at w p = key" "\<not> item_is_linked (heap_at w n)" "\<not> pinned (heap_at w n)"
    proof -
      have "key_at w = key_at u"
        by (rule ext) (simp add: w_def key_at_def upd_item_def item_key_def item_key_off_def item_has_cas_def)
      then have kw: "key_at w = key_at t" using m(4) by simp
      show "key_at w n = key" "key_at w p = key" using kw t(7) hp lk(2) by (simp_all add: key_at_def)
      show "item_is_linked (heap_at w p)" using pn m(5) [OF pn] hp lk(1) by (simp add: w_def upd_item_def)
      show "\<not> item_is_linked (heap_at w n)" "\<not> pinned (heap_at w n)"
        using t(5,8,9) by (auto simp: hn item_flag_defs pinned_def unpins_def)
    qed
    note r = item_replace_ok [OF ow(1,2) w(1) _ w(4,5) trans [OF w(2) w(3) [symmetric]] fw v [folded w_def]]
    have vo: "mc_ok (add_mset n (add_mset p M)) v" "room k v" using r(1,2) by simp_all
    note x = item_remove_ok [OF vo]
    note y = item_remove_ok [OF x]
    have find: "item_find key st' = Some n" using r(3) [of key] w(2) by (simp add: e)
    have "item_is_linked (heap_at st' n)" using item_find_iff [OF store_invD(1) [OF mc_okD(1) [OF y(1)]]] find e by blast
    have lv: "linked_from {} v st'"
      using linked_from_trans [OF linked_from_remove(1) [OF mc_okD(1) [OF vo(1)] vo(2)] linked_from_remove(1) [OF mc_okD(1) [OF x(1)] x(2)]]
      by (simp add: e)
    have "same_payload (linked_as (next_cas w) (st_now w) (heap_at w n)) (heap_at st' n)"
      using linked_fromD(2) [OF lv _ \<open>item_is_linked (heap_at st' n)\<close>] r(4) by simp
    note sp = same_payloadD [OF this]
    have fr: "frame t st'" using frame_trans [OF ftw frame_trans [OF linked_fromD(3) [OF r(5)] linked_fromD(3) [OF lv]]] by simp
    have sz: "slab_item_size c st' = slab_item_size c t" for c using fr by (simp add: slab_item_size_def frame_def)
    have nr: "\<not> item_is_raligned (heap_at w n)" using t(8) by (auto simp: hn item_flag_defs)
    have "item_data n st' = drop (item_data_off (slab_item_size (it_id (heap_at t n)) t) (heap_at t n)) ee"
      using linked_as_end [OF fw, of "slab_item_size (it_id (heap_at t n)) t" "next_cas w" "st_now w"] nr
      by (simp add: item_data_def sp sz hn) (simp add: item_data_off_def item_flag_defs)
    then have "item_value n st' = buf"
      using memcpy_at_key [OF ee(2)] by (simp add: item_value_def sp hn t(10))
    then show ?thesis using y e find by blast
  qed
  then show "mc_ok M st'" "room k st'" "res = DELTA_OK \<Longrightarrow> \<exists>q. item_find key st' = Some q \<and> item_value q st' = buf" by blast+
qed

text \<open>The case of a number that is not longer: the item is changed in place.\<close>

lemma fits_item_shrink:
  assumes "fits_item st it" "n \<le> it_nbyte it"
  shows "fits_item st (it\<lparr>it_nbyte := n\<rparr>)"
proof -
  have "sz - ITEM_HDR_SIZE - it_nbyte it \<le> sz - ITEM_HDR_SIZE - n" for sz using assms(2) by simp
  then show ?thesis using assms(1) le_trans
    by (fastforce simp: fits_item_def item_data_off_def item_key_off_def item_flag_defs split: if_splits)
qed

lemma add_delta_in_place:
  assumes ok: "mc_ok (add_mset p M) s" "room k s" and find: "item_find key s = Some p"
    and len: "length buf \<le> it_nbyte (heap_at s p)"
    and run: "do {
             let (cas, st) = item_next_cas s;
             let st = upd_item p (item_set_cas cas) st;
             st \<leftarrow> item_memcpy p 0 buf st;
             let st = upd_item p (\<lambda>it. it\<lparr>it_nbyte := length buf\<rparr>) st;
             Some (DELTA_OK, buf, item_remove p st)
           } = Some (res, b, st')"
  shows "mc_ok M st'" "room k st'" "res = DELTA_OK" "item_find key st' = Some p"
    "\<not> item_is_raligned (heap_at s p) \<Longrightarrow> item_value p st' = buf"
proof -
  obtain cas s1 where c: "item_next_cas s = (cas, s1)" by force
  note c1 = cas_step_ok [OF ok(1) c]
  define s2 where "s2 = upd_item p (item_set_cas cas) s1"
  obtain s3 where m: "item_memcpy p 0 buf s2 = Some s3" and res: "res = DELTA_OK"
    and st': "st' = item_remove p (upd_item p (\<lambda>it. it\<lparr>it_nbyte := length buf\<rparr>) s3)"
    using run c by (auto simp: s2_def bind_eq_Some_conv Let_def)
  define s4 where "s4 = upd_item p (\<lambda>it. it\<lparr>it_nbyte := length buf\<rparr>) s3"
  show "res = DELTA_OK" by (rule res)
  have o2: "mc_ok (add_mset p M) s2" "item_find k' s2 = item_find k' s1" for k'
    unfolding s2_def by (rule upd_linked_ok [OF c1(1)]; simp)+
  have h2: "heap_at s2 p = item_set_cas cas (heap_at s p)" by (simp add: s2_def upd_item_def c1(2))
  have lk: "item_is_linked (heap_at s p)" using item_find_iff [OF store_invD(1) [OF mc_okD(1) [OF ok(1)]]] find by blast
  have "item_is_linked (heap_at s2 p)" using lk by (simp add: h2 item_is_linked_def)
  then have f2: "fits_item s2 (heap_at s2 p)" using mc_okD(2) [OF o2(1)] by (simp add: fits_def)
  have r2: "room k s2" using ok(2) c1(4) by (simp add: s2_def)
  note o3 = item_memcpy_ok [OF o2(1) r2 f2 m] and m3 = item_memcpy_inv [OF mc_okD(1) [OF o2(1)] r2 f2 m]
  have nb: "it_nbyte (heap_at s3 p) = it_nbyte (heap_at s p)" using m3(6) h2
    by (metis (no_types, lifting) item.ext_inject item.surjective item.update_convs item_set_cas_same(6))
  have o4: "mc_ok (add_mset p M) s4" "item_find k' s4 = item_find k' s3" for k'
    unfolding s4_def by (rule upd_linked_ok [OF o3(1)]; use len nb fits_item_shrink in \<open>simp add: item_key_def item_key_off_def item_has_cas_def\<close>)+
  have r4: "room k s4" using o3(2) by (simp add: s4_def)
  note r = item_remove_ok [OF o4(1) r4]
  show "mc_ok M st'" "room k st'" using r by (simp_all add: st' s4_def)
  show f': "item_find key st' = Some p" using o4(2) o3(3) o2(2) c1(3) find by (simp add: st' s4_def [symmetric])
  assume nr: "\<not> item_is_raligned (heap_at s p)"
  obtain e where e: "s3 = upd_item p (\<lambda>it. it\<lparr>it_end := e\<rparr>) s2"
    "memcpy_at (it_end (heap_at s2 p)) (item_data_off (slab_item_size (it_id (heap_at s2 p)) s2) (heap_at s2 p) + 0) buf = Some e"
    using m by (auto simp: item_memcpy_def Let_def split: option.splits)
  have h4: "heap_at s4 p = (heap_at s2 p)\<lparr>it_end := e, it_nbyte := length buf\<rparr>" by (simp add: s4_def e(1) upd_item_def)
  have "item_is_linked (heap_at st' p)"
    using item_find_iff [OF store_invD(1) [OF mc_okD(1) [OF r(1)]]] f' by (auto simp: st' s4_def)
  then have "same_payload (heap_at s4 p) (heap_at st' p)"
    using linked_fromD(2) [OF linked_from_remove(1) [OF mc_okD(1) [OF o4(1)] r4]] by (simp add: st' s4_def)
  note sp = same_payloadD [OF this]
  have off: "item_data_off sz (heap_at s4 p) = item_data_off (slab_item_size (it_id (heap_at s2 p)) s2) (heap_at s2 p)" for sz
    using nr by (simp add: h4 item_data_off_def item_flag_defs h2)
  show "item_value p st' = buf"
    using memcpy_at_key [OF e(2)] off by (simp add: item_value_def item_data_def sp Let_def h4)
qed

lemma item_add_delta_eq:
  assumes "item_get key st = Some (Some p, s)" "mc_strtoull_len (item_value p s) 0 = (True, v)" "bf = dec (unat (delta_value incr delta v))"
  shows "item_add_delta key incr delta st =
    (if length bf > it_nbyte (heap_at s p) then do {
             (r, st) \<leftarrow> item_alloc (item_slabid (it_nkey (heap_at s p)) (length bf) s) (item_key (heap_at s p))
               (it_dataflags (heap_at s p)) (it_exptime (heap_at s p)) (length bf) False s;
             case r of
               None \<Rightarrow> Some (DELTA_EOM, bf, item_remove p st)
             | Some new_it \<Rightarrow> do {
                 st \<leftarrow> item_memcpy new_it 0 bf st;
                 let st = upd_item new_it (\<lambda>n. n\<lparr>it_p := it_p (heap_at st p)\<rparr>) st;
                 st \<leftarrow> item_replace p new_it st;
                 Some (DELTA_OK, bf, item_remove p (item_remove new_it st))
               } }
     else do {
             let (cas, st) = item_next_cas s;
             let st = upd_item p (item_set_cas cas) st;
             st \<leftarrow> item_memcpy p 0 bf st;
             let st = upd_item p (\<lambda>it. it\<lparr>it_nbyte := length bf\<rparr>) st;
             Some (DELTA_OK, bf, item_remove p st)
           })"
  unfolding item_add_delta_def Let_def assms delta_value_def
  by (simp only: Option.bind.simps assms(1,2) prod.case option.case simp_thms if_False)

lemma item_add_delta_ok:
  assumes ok: "mc_ok M st" "room (Suc (Suc k)) st" and run: "item_add_delta key incr delta st = Some (res, buf, st')"
  shows "mc_ok M st'" "room k st'"
    "res = DELTA_OK \<Longrightarrow> found key st = Some p \<Longrightarrow> \<not> item_is_raligned (heap_at st p) \<Longrightarrow>
       (\<exists>q. item_find key st' = Some q \<and> item_value q st' = buf)
       \<and> (\<exists>v. mc_strtoull_len (item_value p st) 0 = (True, v) \<and> buf = dec (unat (delta_value incr delta v)))"
proof -
  obtain r s where g: "item_get key st = Some (r, s)" using run by (auto simp: item_add_delta_def bind_eq_Some_conv)
  have rs: "room (Suc k) s" using item_get_cases(3) [OF mc_okD(1) [OF ok(1)] ok(2) g] .
  have "mc_ok M st' \<and> room k st' \<and> (res = DELTA_OK \<longrightarrow> found key st = Some p \<longrightarrow> \<not> item_is_raligned (heap_at st p) \<longrightarrow>
       (\<exists>q. item_find key st' = Some q \<and> item_value q st' = buf)
       \<and> (\<exists>v. mc_strtoull_len (item_value p st) 0 = (True, v) \<and> buf = dec (unat (delta_value incr delta v))))"
  proof (cases r)
    case None
    then have "res = DELTA_NOT_FOUND" "st' = s" using run g by (simp_all add: item_add_delta_def)
    then show ?thesis using item_get_ok [OF ok g] None room_mono [OF rs] by simp
  next
    case (Some q)
    note f = found_get [OF ok g [unfolded Some]]
    have hq: "heap_at s q = (heap_at st q)\<lparr>it_refcount := it_refcount (heap_at st q) + 1\<rparr>" by (simp add: f(5) heap_release)
    have vq: "item_value q s = item_value q st" by (rule item_value_payload) (simp_all add: f(5) heap_release)
    obtain ok' v where v: "mc_strtoull_len (item_value q s) 0 = (ok', v)" by force
    show ?thesis
    proof (cases ok')
      case False
      then have e: "res = DELTA_NON_NUMERIC" "st' = item_remove q s"
        using run g Some v by (simp_all add: item_add_delta_def Let_def)
      show ?thesis using item_remove_ok [OF f(1) room_mono [OF f(2), of k]] by (simp add: e)
    next
      case True
      define bf where "bf = dec (unat (delta_value incr delta v))"
      note eq = item_add_delta_eq [OF g [unfolded Some] v [unfolded eqTrueI [OF True]] bf_def]
      have fq: "item_find key s = Some q" using f(6,7) found_SomeD by simp
      show ?thesis
      proof (cases "length bf > it_nbyte (heap_at s q)")
        case long: True
        have run2: "do {
             (r, st) \<leftarrow> item_alloc (item_slabid (it_nkey (heap_at s q)) (length bf) s) (item_key (heap_at s q))
               (it_dataflags (heap_at s q)) (it_exptime (heap_at s q)) (length bf) False s;
             case r of
               None \<Rightarrow> Some (DELTA_EOM, bf, item_remove q st)
             | Some new_it \<Rightarrow> do {
                 st \<leftarrow> item_memcpy new_it 0 bf st;
                 let st = upd_item new_it (\<lambda>n. n\<lparr>it_p := it_p (heap_at st q)\<rparr>) st;
                 st \<leftarrow> item_replace q new_it st;
                 Some (DELTA_OK, bf, item_remove q (item_remove new_it st))
               } } = Some (res, buf, st')"
          using run unfolding eq by (simp only: long if_True)
        have "buf = bf" using run2 by (auto simp: bind_eq_Some_conv Let_def split: option.splits)
        then show ?thesis using add_delta_grow [OF f(1) rs f(3,4) run2] f(7) v True vq by (auto simp: bf_def)
      next
        case short: False
        have run2: "do {
             let (cas, st) = item_next_cas s;
             let st = upd_item q (item_set_cas cas) st;
             st \<leftarrow> item_memcpy q 0 bf st;
             let st = upd_item q (\<lambda>it. it\<lparr>it_nbyte := length bf\<rparr>) st;
             Some (DELTA_OK, bf, item_remove q st)
           } = Some (res, buf, st')"
          using run unfolding eq by (simp only: short if_False)
        have "buf = bf" using run2 by (auto simp: bind_eq_Some_conv Let_def split: prod.splits)
        have len: "length bf \<le> it_nbyte (heap_at s q)" using short by simp
        have nr: "item_is_raligned (heap_at s q) = item_is_raligned (heap_at st q)" by (simp add: hq item_flag_defs)
        show ?thesis using add_delta_in_place [OF f(1) room_mono [OF f(2), of k] fq len run2] f(7) v True vq \<open>buf = bf\<close> nr
          by (auto simp: bf_def)
      qed
    qed
  qed
  then show "mc_ok M st'" "room k st'"
    "res = DELTA_OK \<Longrightarrow> found key st = Some p \<Longrightarrow> \<not> item_is_raligned (heap_at st p) \<Longrightarrow>
       (\<exists>q. item_find key st' = Some q \<and> item_value q st' = buf)
       \<and> (\<exists>v. mc_strtoull_len (item_value p st) 0 = (True, v) \<and> buf = dec (unat (delta_value incr delta v)))" by blast+
qed

subsection \<open>Deletion\<close>

text \<open>Looking up an auxiliary item and deleting it.\<close>

lemma get_delete_ok:
  assumes ok: "mc_ok M st" "room (Suc k) st"
  obtains r s st' where "item_get key st = Some (r, s)" "item_delete_opt r s = Some st'" "mc_ok M st'" "room k st'"
    "linked_from {} st st'" "\<forall>k'. item_find k' st' = (if k' = key then None else item_find k' st)" "r = found key st"
proof -
  obtain s where g: "item_get key st = Some (found key st, s)" by (rule item_get_inv [OF mc_okD(1) [OF ok(1)] ok(2)]) blast
  note c = item_get_cases [OF mc_okD(1) [OF ok(1)] ok(2) g]
  show thesis
  proof (cases "found key st")
    case None
    have "mc_ok M s" using item_get_ok [OF ok g] None by simp
    then show thesis using that [OF g] c None by (simp add: item_delete_opt_def)
  next
    case (Some p)
    note f = found_get [OF ok g [unfolded Some]]
    obtain t where t: "item_delete p s = Some t" "mc_ok M t" "room k t" "linked_from {} s t"
      "\<forall>k'. item_find k' t = (if item_find k' s = Some p then None else item_find k' s)"
      "\<forall>q. q \<noteq> p \<longrightarrow> heap_at t q = heap_at s q"
      by (rule item_delete_ok [OF f(1-3)])
    have "item_find k' s = Some p \<longleftrightarrow> k' = key" for k'
      using item_find_iff [OF store_invD(1) [OF mc_okD(1) [OF f(1)]]] f(3,4) by auto
    then have "\<forall>k'. item_find k' t = (if k' = key then None else item_find k' st)" using t(5) f(6) by simp
    moreover have "linked_from {} st t" using linked_from_trans [OF c(4) t(4)] by simp
    ultimately show thesis using that [OF g, of t] t Some by (simp add: item_delete_opt_def)
  qed
qed

definition key_group :: "bytes \<Rightarrow> bytes set" where
  "key_group key = {key, mc_get_lease_key key, mc_get_version_key key, mc_get_co_lease_key key}"

lemma delete_aux_ok:
  assumes ok: "mc_ok M st" "room (k + 3) st"
  obtains st' where "(if dl then do {
              (lease, st) \<leftarrow> item_get_lease key st;
              st \<leftarrow> item_delete_opt lease st;
              (pv, st) \<leftarrow> item_get_pending_version key st;
              st \<leftarrow> item_delete_opt pv st;
              (colease, st) \<leftarrow> item_get_co_lease key st;
              item_delete_opt colease st
            } else Some st) = Some st'" "mc_ok M st'" "room k st'" "linked_from {} st st'"
    "\<forall>k'. item_find k' st' = (if dl \<and> k' \<in> key_group key - {key} then None else item_find k' st)"
proof (cases dl)
  case False
  then show thesis using that [of st] ok room_mono [OF ok(2)] by simp
next
  case True
  have r: "room (Suc (k + 2)) st" using ok(2) by (simp add: eval_nat_numeral)
  obtain r1 s1 t1 where 1: "item_get (mc_get_lease_key key) st = Some (r1, s1)" "item_delete_opt r1 s1 = Some t1" "mc_ok M t1" "room (k + 2) t1"
    "linked_from {} st t1" "\<forall>k'. item_find k' t1 = (if k' = mc_get_lease_key key then None else item_find k' st)"
    by (rule get_delete_ok [OF ok(1) r]) blast
  have r: "room (Suc (k + 1)) t1" using 1(4) by simp
  obtain r2 s2 t2 where 2: "item_get (mc_get_version_key key) t1 = Some (r2, s2)" "item_delete_opt r2 s2 = Some t2" "mc_ok M t2" "room (k + 1) t2"
    "linked_from {} t1 t2" "\<forall>k'. item_find k' t2 = (if k' = mc_get_version_key key then None else item_find k' t1)"
    by (rule get_delete_ok [OF 1(3) r]) blast
  have r: "room (Suc k) t2" using 2(4) by simp
  obtain r3 s3 t3 where 3: "item_get (mc_get_co_lease_key key) t2 = Some (r3, s3)" "item_delete_opt r3 s3 = Some t3" "mc_ok M t3" "room k t3"
    "linked_from {} t2 t3" "\<forall>k'. item_find k' t3 = (if k' = mc_get_co_lease_key key then None else item_find k' t2)"
    by (rule get_delete_ok [OF 2(3) r]) blast
  have "linked_from {} st t3" using linked_from_trans [OF linked_from_trans [OF 1(5) 2(5)] 3(5)] by simp
  then show thesis using that [of t3] True 1 2 3
    by (simp add: item_get_lease_def item_get_pending_version_def item_get_co_lease_def key_group_def)
qed

lemma item_get_and_delete_ok:
  assumes ok: "mc_ok M st" "room (k + 4) st"
  obtains res st' where "item_get_and_delete key dl st = Some (res, st')" "mc_ok M st'" "room k st'" "linked_from {} st st'"
    "\<forall>k'. item_find k' st' = (if k' = key \<or> dl \<and> k' \<in> key_group key then None else item_find k' st)"
    "res = EXISTS \<or> res = NOT_FOUND"
proof -
  have r: "room (Suc k + 3) st" using ok(2) by (simp add: eval_nat_numeral)
  obtain s where s: "(if dl then do {
              (lease, st) \<leftarrow> item_get_lease key st;
              st \<leftarrow> item_delete_opt lease st;
              (pv, st) \<leftarrow> item_get_pending_version key st;
              st \<leftarrow> item_delete_opt pv st;
              (colease, st) \<leftarrow> item_get_co_lease key st;
              item_delete_opt colease st
            } else Some st) = Some s" "mc_ok M s" "room (Suc k) s" "linked_from {} st s"
    "\<forall>k'. item_find k' s = (if dl \<and> k' \<in> key_group key - {key} then None else item_find k' st)"
    by (rule delete_aux_ok [OF ok(1) r, of dl key])
  obtain r1 s1 t1 where 1: "item_get key s = Some (r1, s1)" "item_delete_opt r1 s1 = Some t1" "mc_ok M t1" "room k t1"
    "linked_from {} s t1" "\<forall>k'. item_find k' t1 = (if k' = key then None else item_find k' s)"
    by (rule get_delete_ok [OF s(2,3)]) blast
  have run: "item_get_and_delete key dl st = Some (if r1 = None then NOT_FOUND else EXISTS, t1)"
    unfolding item_get_and_delete_def s(1) using 1(1,2) by (cases r1) (simp_all add: item_delete_opt_def)
  show thesis
    by (rule that [OF run 1(3,4)]) (use linked_from_trans [OF s(4) 1(5)] 1(6) s(5) in auto)
qed

subsection \<open>Flushing\<close>

lemma item_unlink_ok:
  assumes ok: "mc_ok M st" "room k st" and lk: "item_is_linked (heap_at st p)"
  obtains st' where "item_unlink p st = Some st'" "mc_ok M st'" "room k st'" "linked_from {} st st'"
    "\<forall>q. q \<noteq> p \<longrightarrow> heap_at st' q = heap_at st q"
proof -
  obtain s r F where s: "item_unlink p st = Some s"
    "store_inv (if pinned (heap_at st p) \<and> \<not> unpins (heap_at st p) then add_mset p M else M) s" "room k s"
    by (rule item_unlink_inv [OF mc_okD(1) [OF ok(1)] lk ok(2)]) blast
  note l = linked_from_unlink [OF mc_okD(1) [OF ok(1)] lk ok(2) s(1)]
  have "store_inv M s" using s(2) by (rule store_inv_mono) (auto simp: subset_eq_diff_conv)
  then have "mc_ok M s" by (rule mc_ok_from [OF ok(1) _ l(1)]) simp
  then show thesis using that [OF s(1)] s(3) l by blast
qed

lemma item_flush_queue_ok:
  assumes "mc_ok M st" "room k st" "distinct ps" "\<forall>p \<in> set ps. item_is_linked (heap_at st p)"
  shows "\<exists>st'. item_flush_queue ps st = Some st' \<and> mc_ok M st' \<and> room k st' \<and> linked_from {} st st'"
  using assms
proof (induction ps arbitrary: st)
  case (Cons p ps)
  show ?case
  proof (cases "it_atime (heap_at st p) < set_oldest_live (st_settings st)")
    case False
    obtain s where s: "item_unlink p st = Some s" "mc_ok M s" "room k s" "linked_from {} st s"
      "\<forall>q. q \<noteq> p \<longrightarrow> heap_at s q = heap_at st q"
      by (rule item_unlink_ok [OF Cons.prems(1,2)]) (use Cons.prems(4) in auto)
    have "\<forall>q \<in> set ps. item_is_linked (heap_at s q)" using Cons.prems(3,4) s(5) by auto
    then obtain t where "item_flush_queue ps s = Some t" "mc_ok M t" "room k t" "linked_from {} s t"
      using Cons.IH [OF s(2,3)] Cons.prems(3) by auto
    then show ?thesis using False s(1) linked_from_trans [OF s(4), of "{}" t] by simp
  qed (use Cons.prems in simp)
qed simp

lemma item_flush_expired_ok:
  assumes ok: "mc_ok M st" "room k st"
  shows "\<exists>st'. item_flush_expired st = Some st' \<and> mc_ok M st' \<and> room k st' \<and> linked_from {} st st'"
proof -
  have "\<exists>st'. foldm (\<lambda>i st. item_flush_queue (rev (st_item_lruq st i)) st) is st = Some st' \<and> mc_ok M st' \<and> room k st' \<and> linked_from {} st st'" for "is"
    using ok
  proof (induction "is" arbitrary: st)
    case (Cons i "is")
    have d: "distinct (rev (st_item_lruq st i))" "\<forall>p \<in> set (rev (st_item_lruq st i)). item_is_linked (heap_at st p)"
      using store_invD(2) [OF mc_okD(1) [OF Cons.prems(1)]] by (auto simp: inv_lruq_def lruq_of_def dest: spec [of _ False])
    obtain s where s: "item_flush_queue (rev (st_item_lruq st i)) st = Some s" "mc_ok M s" "room k s" "linked_from {} st s"
      using item_flush_queue_ok [OF Cons.prems d] by blast
    obtain t where t: "foldm (\<lambda>i st. item_flush_queue (rev (st_item_lruq st i)) st) is s = Some t" "mc_ok M t" "room k t" "linked_from {} s t"
      using Cons.IH [OF s(2,3)] by blast
    show ?case using s(1) t linked_from_trans [OF s(4) t(4)] by simp
  qed simp
  then show ?thesis using ok by (simp add: item_flush_expired_def)
qed

end
