(* ===== verification/MC_Profile.thy ===== *)
theory MC_Profile
  imports MC_Update
begin

text \<open>
  The slab profile that \<open>mc.c\<close> computes at start-up, generated from a factor or parsed from an
  option, and the state of the cache that \<open>core_init\<close> sets up from it.

  The factor is a double greater than one, so a multiple of \<open>2^-52\<close>: it is given as that multiple.
  The product \<open>item_sz *= settings.factor\<close> is rounded to 53 significant bits, half to even, and then
  truncated. A product outside \<open>size_t\<close> is undefined behaviour, \<open>None\<close>.
\<close>

definition MC_ALIGNMENT :: nat where "MC_ALIGNMENT = 8"

text \<open>For a power of two \<open>n\<close>, clearing the low bits rounds down to a multiple of \<open>n\<close>.\<close>

definition MC_ALIGN :: "nat \<Rightarrow> nat \<Rightarrow> nat" where
  "MC_ALIGN d n = (d + (n - 1)) div n * n"

definition MC_UINT32_MAXLEN :: nat where "MC_UINT32_MAXLEN = 10 + 1"

definition ITEM_MIN_CHUNK_SIZE :: nat where
  "ITEM_MIN_CHUNK_SIZE = MC_ALIGN (ITEM_HDR_SIZE + (2 + 8)) MC_ALIGNMENT"

subsection \<open>Double arithmetic\<close>

fun bitlen :: "nat \<Rightarrow> nat" where
  "bitlen n = (if n = 0 then 0 else Suc (bitlen (n div 2)))"

declare bitlen.simps [simp del]

lemma bitlen_0 [simp]: "bitlen 0 = 0"
  by (simp add: bitlen.simps)

definition round53 :: "nat \<Rightarrow> nat" where
  "round53 n = (let s = bitlen n - 53; q = n div 2 ^ s; r = n mod 2 ^ s; half = 2 ^ (s - 1) in
     if s = 0 then n
     else (if r > half \<or> r = half \<and> odd q then q + 1 else q) * 2 ^ s)"

definition dbl_mul :: "nat \<Rightarrow> nat \<Rightarrow> nat option" where
  "dbl_mul factor n = (let x = round53 (n * factor) div 2 ^ 52 in if x < 2 ^ 64 then Some x else None)"

subsection \<open>The profile\<close>

text \<open>The settings these functions write; entry 0 of the profile is not used.\<close>

record profile =
  pr_profile :: "nat list"
  pr_chunk_size :: nat
  pr_max_chunk_size :: nat
  pr_reserved_maxbytes :: nat

definition next_item_sz :: "nat \<Rightarrow> nat \<Rightarrow> nat option" where
  "next_item_sz factor item_sz = do {
     x \<leftarrow> dbl_mul factor item_sz;
     let x = (if x = item_sz then x + 1 else x);
     Some (MC_ALIGN x MC_ALIGNMENT)
   }"

function generate_loop :: "nat \<Rightarrow> nat \<Rightarrow> nat \<Rightarrow> nat \<Rightarrow> nat list option" where
  "generate_loop factor max_item_sz cid item_sz =
    (if cid < SLABCLASS_MAX_ID \<and> item_sz < max_item_sz then do {
       item_sz' \<leftarrow> next_item_sz factor item_sz;
       rest \<leftarrow> generate_loop factor max_item_sz (cid + 1) item_sz';
       Some (item_sz # rest)
     } else Some [max_item_sz])"
  by pat_completeness auto
termination
  by (relation "measure (\<lambda>(f, m, cid, sz). SLABCLASS_MAX_ID - cid)") auto

declare generate_loop.simps [simp del]

definition mc_generate_profile :: "nat \<Rightarrow> nat \<Rightarrow> profile \<Rightarrow> profile option" where
  "mc_generate_profile factor ssize pr = do {
     sizes \<leftarrow> generate_loop factor ssize SLABCLASS_MIN_ID (pr_chunk_size pr);
     Some (pr\<lparr>pr_profile := 0 # sizes, pr_max_chunk_size := ssize\<rparr>)
   }"

text \<open>The parser reads one size per round; \<open>done\<close> are the sizes read so far, so that \<open>cid\<close> is their
  number. The result is \<open>None\<close> for \<open>MC_ERROR\<close>.\<close>

definition parse_item_sz :: "nat \<Rightarrow> nat list \<Rightarrow> bytes \<Rightarrow> nat option" where
  "parse_item_sz ssize sizes buf =
    (if length buf \<ge> MC_UINT32_MAXLEN then None
     else case mc_strtoul buf of
       None \<Rightarrow> None
     | Some w \<Rightarrow>
         (let item_sz = unat w in
          if item_sz mod MC_ALIGNMENT \<noteq> 0 then None
          else if item_sz < ITEM_MIN_CHUNK_SIZE then None
          else if item_sz > ssize then None
          else if sizes \<noteq> [] \<and> item_sz \<le> last sizes then None
          else Some item_sz))"

function parse_loop :: "nat \<Rightarrow> nat list \<Rightarrow> bytes \<Rightarrow> nat list option" where
  "parse_loop ssize sizes str =
    (if length sizes < SLABCLASS_MAX_ID then
       (let buf = takeWhile (\<lambda>c. c \<noteq> CHR '','') str; eos = (CHR '','' \<notin> set str) in
        case parse_item_sz ssize sizes buf of
          None \<Rightarrow> None
        | Some item_sz \<Rightarrow>
            if eos then Some (sizes @ [item_sz])
            else parse_loop ssize (sizes @ [item_sz]) (drop (length buf + 1) str))
     else None)"
  by pat_completeness auto
termination
  by (relation "measure (\<lambda>(s, sizes, str). SLABCLASS_MAX_ID - length sizes)") auto

declare parse_loop.simps [simp del]

definition mc_parse_profile :: "nat \<Rightarrow> nat \<Rightarrow> nat \<Rightarrow> bytes \<Rightarrow> profile \<Rightarrow> profile option" where
  "mc_parse_profile ssize maxbytes percentage optarg pr = do {
     sizes \<leftarrow> parse_loop ssize [] optarg;
     Some (pr\<lparr>pr_profile := 0 # sizes, pr_chunk_size := sizes ! 0, pr_max_chunk_size := last sizes,
        pr_reserved_maxbytes := maxbytes * percentage div 100\<rparr>)
   }"

definition mc_set_profile :: "bytes option \<Rightarrow> nat \<Rightarrow> nat \<Rightarrow> nat \<Rightarrow> nat \<Rightarrow> profile \<Rightarrow> profile option" where
  "mc_set_profile optarg factor ssize maxbytes percentage pr =
    (case optarg of
       Some str \<Rightarrow> mc_parse_profile ssize maxbytes percentage str pr
     | None \<Rightarrow> mc_generate_profile factor ssize pr)"

subsection \<open>Generated profiles\<close>

lemma bitlen_bounds: "n > 0 \<Longrightarrow> 2 ^ (bitlen n - 1) \<le> n" "n < 2 ^ bitlen n"
proof -
  have "n < 2 ^ bitlen n \<and> (n > 0 \<longrightarrow> 2 ^ (bitlen n - 1) \<le> n)"
  proof (induction n rule: bitlen.induct)
    case (1 n)
    show ?case
    proof (cases "n = 0")
      case False
      have e: "bitlen n = Suc (bitlen (n div 2))" using False by (subst bitlen.simps) simp
      show ?thesis
      proof (cases "n div 2 = 0")
        case True
        then have "n = 1" "bitlen n = Suc 0" using False e by (auto simp: bitlen.simps)
        then show ?thesis by simp
      next
        case pos: False
        have ih: "n div 2 < 2 ^ bitlen (n div 2)" "2 ^ (bitlen (n div 2) - 1) \<le> n div 2"
          using 1 False pos by auto
        have b: "bitlen (n div 2) \<noteq> 0" using pos by (subst bitlen.simps) simp
        have "(2::nat) ^ bitlen (n div 2) = 2 * 2 ^ (bitlen (n div 2) - 1)" using b by (cases "bitlen (n div 2)") simp_all
        then have "2 ^ bitlen (n div 2) \<le> n" using ih(2) by linarith
        moreover have "n < 2 * 2 ^ bitlen (n div 2)" using ih(1) by linarith
        ultimately show ?thesis by (simp add: e)
      qed
    qed (simp add: bitlen.simps)
  qed
  then show "n > 0 \<Longrightarrow> 2 ^ (bitlen n - 1) \<le> n" "n < 2 ^ bitlen n" by blast+
qed

lemma round53_ge: "n div 2 ^ (bitlen n - 53) * 2 ^ (bitlen n - 53) \<le> round53 n"
  by (auto simp: round53_def Let_def)

text \<open>Rounding keeps a lower bound that is itself a double.\<close>

lemma round53_mono:
  assumes "v * 2 ^ 52 \<le> n" "v < 2 ^ 53" shows "v * 2 ^ 52 \<le> round53 n"
proof -
  let ?s = "bitlen n - 53"
  show ?thesis
  proof (cases "?s \<le> 52")
    case True
    have e: "v * 2 ^ (52 - ?s) * 2 ^ ?s = v * 2 ^ 52" using True by (simp add: power_add [symmetric])
    have "v * 2 ^ (52 - ?s) * 2 ^ ?s \<le> n" unfolding e by (rule assms(1))
    then have "v * 2 ^ (52 - ?s) \<le> n div 2 ^ ?s" by (simp add: less_eq_div_iff_mult_less_eq)
    then have "v * 2 ^ (52 - ?s) * 2 ^ ?s \<le> n div 2 ^ ?s * 2 ^ ?s" by (rule mult_le_mono1)
    then show ?thesis using round53_ge [of n] unfolding e by linarith
  next
    case False
    then have n: "n > 0" by (cases "n = 0") simp_all
    have e: "bitlen n - 1 = 52 + ?s" using False by simp
    have "2 ^ 52 * 2 ^ ?s \<le> n" using bitlen_bounds(1) [OF n] unfolding e power_add .
    then have "2 ^ 52 \<le> n div 2 ^ ?s" by (simp add: less_eq_div_iff_mult_less_eq)
    then have q: "2 ^ 52 * 2 ^ ?s \<le> n div 2 ^ ?s * 2 ^ ?s" by (rule mult_le_mono1)
    have p: "(2::nat) ^ 53 \<le> 2 ^ ?s" using False by (intro power_increasing) simp_all
    have "v * 2 ^ 52 \<le> 2 ^ 53 * 2 ^ 52" using assms(2) by (intro mult_le_mono1) simp
    also have "\<dots> = 2 ^ 52 * 2 ^ 53" by (rule mult.commute)
    also have "\<dots> \<le> 2 ^ 52 * 2 ^ ?s" by (rule mult_le_mono2 [OF p])
    also note q
    also note round53_ge
    finally show ?thesis .
  qed
qed

lemma dbl_mul_ge:
  assumes "dbl_mul factor n = Some x" "2 ^ 52 \<le> factor" "n < 2 ^ 53" shows "n \<le> x"
proof -
  have "n * 2 ^ 52 \<le> round53 (n * factor)" using assms(2,3) by (intro round53_mono) simp_all
  then show ?thesis using assms(1) by (simp add: dbl_mul_def Let_def less_eq_div_iff_mult_less_eq split: if_splits)
qed

lemma MC_ALIGN_ge: "0 < n \<Longrightarrow> d \<le> MC_ALIGN d n" "MC_ALIGN d n mod n = 0"
proof -
  assume n: "0 < n"
  have "d + (n - 1) = (d + (n - 1)) div n * n + (d + (n - 1)) mod n" by simp
  moreover have "(d + (n - 1)) mod n \<le> n - 1" using n by (simp add: less_Suc_eq_le [symmetric])
  ultimately show "d \<le> MC_ALIGN d n" unfolding MC_ALIGN_def by linarith
qed (simp add: MC_ALIGN_def)

lemma next_item_sz_greater:
  assumes "next_item_sz factor n = Some m" "2 ^ 52 \<le> factor" "n < 2 ^ 53"
  shows "n < m" "m mod MC_ALIGNMENT = 0"
proof -
  obtain x where x: "dbl_mul factor n = Some x" "m = MC_ALIGN (if x = n then x + 1 else x) MC_ALIGNMENT"
    using assms(1) by (auto simp: next_item_sz_def Let_def bind_eq_Some_conv)
  have "n \<le> x" by (rule dbl_mul_ge [OF x(1) assms(2,3)])
  then have "n < (if x = n then x + 1 else x)" by simp
  also have "\<dots> \<le> m" unfolding x(2) by (rule MC_ALIGN_ge) (simp add: MC_ALIGNMENT_def)
  finally show "n < m" .
  show "m mod MC_ALIGNMENT = 0" unfolding x(2) by (rule MC_ALIGN_ge)
qed

text \<open>What the slab allocator needs of a profile: ascending sizes of at most one slab, few enough.\<close>

definition sizes_ok :: "nat \<Rightarrow> nat list \<Rightarrow> bool" where
  "sizes_ok ssize sizes \<longleftrightarrow> sizes \<noteq> [] \<and> length sizes \<le> SLABCLASS_MAX_ID \<and> sorted_wrt (<) sizes
     \<and> (\<forall>sz \<in> set sizes. 0 < sz \<and> sz \<le> ssize)"

lemma generate_loop_ok:
  assumes "generate_loop factor m cid sz = Some sizes" "2 ^ 52 \<le> factor" "m \<le> 2 ^ 53" "cid \<le> SLABCLASS_MAX_ID"
  shows "length sizes \<le> SLABCLASS_MAX_ID - cid + 1 \<and> sizes \<noteq> [] \<and> sorted_wrt (<) sizes \<and> last sizes = m
    \<and> hd sizes = (if cid < SLABCLASS_MAX_ID \<and> sz < m then sz else m) \<and> (\<forall>x \<in> set sizes. min sz m \<le> x \<and> x \<le> m)
    \<and> (\<forall>x \<in> set (butlast sizes). x = sz \<or> x mod MC_ALIGNMENT = 0)"
  using assms
proof (induction factor m cid sz arbitrary: sizes rule: generate_loop.induct)
  case (1 factor m cid sz)
  show ?case
  proof (cases "cid < SLABCLASS_MAX_ID \<and> sz < m")
    case False
    then have "sizes = [m]" using "1.prems"(1) by (subst (asm) generate_loop.simps) (auto split: if_splits)
    then show ?thesis using False by simp
  next
    case True
    then obtain sz' rest where r: "next_item_sz factor sz = Some sz'" "generate_loop factor m (cid + 1) sz' = Some rest"
      "sizes = sz # rest"
      using "1.prems"(1) by (subst (asm) generate_loop.simps) (auto simp: bind_eq_Some_conv)
    have g: "sz < sz'" "sz' mod MC_ALIGNMENT = 0" using next_item_sz_greater [OF r(1) "1.prems"(2)] True "1.prems"(3) by auto
    have ih: "length rest \<le> SLABCLASS_MAX_ID - (cid + 1) + 1 \<and> rest \<noteq> [] \<and> sorted_wrt (<) rest \<and> last rest = m
      \<and> hd rest = (if cid + 1 < SLABCLASS_MAX_ID \<and> sz' < m then sz' else m) \<and> (\<forall>x \<in> set rest. min sz' m \<le> x \<and> x \<le> m)
      \<and> (\<forall>x \<in> set (butlast rest). x = sz' \<or> x mod MC_ALIGNMENT = 0)"
      using "1.IH" [OF True r(1,2)] "1.prems" True by simp
    then have "\<forall>x \<in> set rest. sz < x \<and> x \<le> m" using g True by auto
    then show ?thesis using ih True g r(3) by auto
  qed
qed

text \<open>The generator faults only when a product leaves \<open>size_t\<close>.\<close>

lemma round53_le: "round53 n \<le> 2 * n"
proof -
  let ?s = "bitlen n - 53"
  have "(n div 2 ^ ?s + 1) * 2 ^ ?s \<le> 2 * n" if "?s \<noteq> 0"
  proof -
    have n: "n > 0" using that by (cases "n = 0") simp_all
    have "(2::nat) ^ ?s \<le> 2 ^ (bitlen n - 1)" by (intro power_increasing) simp_all
    then have "2 ^ ?s \<le> n" using bitlen_bounds(1) [OF n] by linarith
    moreover have "n div 2 ^ ?s * 2 ^ ?s \<le> n" by (rule div_times_less_eq_dividend)
    ultimately show ?thesis unfolding add_mult_distrib mult_1 by linarith
  qed
  then show ?thesis by (auto simp: round53_def Let_def split: if_splits)
qed

lemma next_item_sz_total:
  assumes "factor \<le> 2 ^ 84" "n < 2 ^ 30" shows "\<exists>m. next_item_sz factor n = Some m"
proof -
  have "n * factor \<le> (2 ^ 30 - 1) * 2 ^ 84" using assms by (intro mult_le_mono) simp_all
  then have "round53 (n * factor) \<le> 2 * ((2 ^ 30 - 1) * 2 ^ 84)" using round53_le [of "n * factor"] by linarith
  then have "round53 (n * factor) div 2 ^ 52 < 2 ^ 64" by (simp add: div_less_iff_less_mult)
  then show ?thesis by (simp add: next_item_sz_def dbl_mul_def Let_def)
qed

lemma generate_loop_total:
  assumes "factor \<le> 2 ^ 84" "m \<le> 2 ^ 30" shows "\<exists>sizes. generate_loop factor m cid sz = Some sizes"
  using assms
proof (induction factor m cid sz rule: generate_loop.induct)
  case (1 factor m cid sz)
  show ?case
  proof (cases "cid < SLABCLASS_MAX_ID \<and> sz < m")
    case True
    then obtain sz' where s: "next_item_sz factor sz = Some sz'" using next_item_sz_total "1.prems" by (meson order_less_le_trans)
    then obtain rest where "generate_loop factor m (cid + 1) sz' = Some rest" using "1.IH" [OF True s] "1.prems" by blast
    then show ?thesis using True s by (subst generate_loop.simps) simp
  next
    case False
    then show ?thesis by (subst generate_loop.simps) auto
  qed
qed

subsection \<open>Parsed profiles\<close>

definition valid_sizes :: "nat \<Rightarrow> nat list \<Rightarrow> bool" where
  "valid_sizes ssize sizes \<longleftrightarrow> sizes \<noteq> [] \<and> length sizes \<le> SLABCLASS_MAX_ID \<and> sorted_wrt (<) sizes
     \<and> (\<forall>sz \<in> set sizes. sz mod MC_ALIGNMENT = 0 \<and> ITEM_MIN_CHUNK_SIZE \<le> sz \<and> sz \<le> ssize)"

lemma parse_item_sz_Some:
  assumes "parse_item_sz ssize sizes buf = Some sz"
  shows "sz mod MC_ALIGNMENT = 0" "ITEM_MIN_CHUNK_SIZE \<le> sz" "sz \<le> ssize" "sizes \<noteq> [] \<Longrightarrow> last sizes < sz"
  using assms by (auto simp: parse_item_sz_def Let_def split: if_splits option.splits)

lemma sorted_wrt_snoc:
  assumes "sorted_wrt (<) xs" "xs \<noteq> [] \<Longrightarrow> last xs < (x :: nat)"
  shows "sorted_wrt (<) (xs @ [x])"
proof -
  have "y < x" if "y \<in> set xs" for y
  proof -
    have "xs \<noteq> []" using that by auto
    then have xs: "xs = butlast xs @ [last xs]" by simp
    then have "y \<in> set (butlast xs) \<or> y = last xs" using that by (metis Un_iff empty_iff empty_set insert_iff list.simps(15) set_append)
    moreover have "sorted_wrt (<) (butlast xs @ [last xs])" using assms(1) xs by simp
    then have "\<forall>z \<in> set (butlast xs). z < last xs" by (simp add: sorted_wrt_append)
    ultimately show ?thesis using assms(2) \<open>xs \<noteq> []\<close> by fastforce
  qed
  then show ?thesis using assms(1) by (simp add: sorted_wrt_append)
qed

lemma parse_loop_valid:
  assumes "parse_loop ssize sizes str = Some res" "sizes = [] \<or> valid_sizes ssize sizes"
  shows "valid_sizes ssize res"
  using assms
proof (induction ssize sizes str rule: parse_loop.induct)
  case (1 ssize sizes str)
  let ?buf = "takeWhile (\<lambda>c. c \<noteq> CHR '','') str"
  have len: "length sizes < SLABCLASS_MAX_ID" using "1.prems"(1) by (subst (asm) parse_loop.simps) (simp split: if_splits)
  obtain sz where sz: "parse_item_sz ssize sizes ?buf = Some sz"
    using "1.prems"(1) by (subst (asm) parse_loop.simps) (auto simp: Let_def split: option.splits if_splits)
  note p = parse_item_sz_Some [OF sz]
  have v: "valid_sizes ssize (sizes @ [sz])"
    using "1.prems"(2) len p sorted_wrt_snoc [of sizes sz] by (auto simp: valid_sizes_def)
  show ?case
  proof (cases "CHR '','' \<in> set str")
    case False
    then have "res = sizes @ [sz]" using "1.prems"(1) sz len by (subst (asm) parse_loop.simps) (simp add: Let_def)
    then show ?thesis using v by simp
  next
    case True
    then have "parse_loop ssize (sizes @ [sz]) (drop (length ?buf + 1) str) = Some res"
      using "1.prems"(1) sz len by (subst (asm) parse_loop.simps) (simp add: Let_def)
    then show ?thesis using "1.IH" [OF len refl refl sz] True v by simp
  qed
qed

text \<open>Printing sizes with commas between them.\<close>

fun commas :: "bytes list \<Rightarrow> bytes" where
  "commas [] = []"
| "commas [x] = x"
| "commas (x # xs) = x @ CHR '','' # commas xs"

lemma takeWhile_upto: "c \<notin> set xs \<Longrightarrow> takeWhile (\<lambda>x. x \<noteq> c) (xs @ c # ys) = xs"
  by (induction xs) auto

lemma takeWhile_none: "c \<notin> set xs \<Longrightarrow> takeWhile (\<lambda>x. x \<noteq> c) xs = xs"
  by (induction xs) auto

lemma no_comma_dec: "CHR '','' \<notin> set (dec n)"
  using dec_digits [of "CHR '',''" n] by (auto simp: c_isdigit_def byte_nat_def)

lemma length_dec_le: "n < 10 ^ k \<Longrightarrow> 0 < k \<Longrightarrow> length (dec n) \<le> k"
proof (induction k arbitrary: n)
  case (Suc k)
  show ?case
  proof (cases "n < 10")
    case True
    then show ?thesis by (simp add: dec.simps)
  next
    case False
    then have "k \<noteq> 0" using Suc.prems by (cases k) auto
    moreover have "n div 10 < 10 ^ k" using Suc.prems(1) by (simp add: div_less_iff_less_mult mult.commute)
    ultimately have "length (dec (n div 10)) \<le> k" using Suc.IH by simp
    then show ?thesis using False by (subst dec.simps) simp
  qed
qed simp

lemma parse_item_sz_dec:
  assumes "sz < 2 ^ 32"
  shows "parse_item_sz ssize sizes (dec sz) = (if sz mod MC_ALIGNMENT = 0 \<and> ITEM_MIN_CHUNK_SIZE \<le> sz \<and> sz \<le> ssize
     \<and> (sizes \<noteq> [] \<longrightarrow> last sizes < sz) then Some sz else None)"
proof -
  have "length (dec sz) \<le> 10" using assms by (intro length_dec_le) simp_all
  then show ?thesis using mc_strtoul_dec [OF assms] assms by (auto simp: parse_item_sz_def Let_def MC_UINT32_MAXLEN_def)
qed

lemma valid_sizes_snoc:
  assumes "sizes = [] \<or> valid_sizes ssize sizes"
  shows "valid_sizes ssize (sizes @ [sz]) \<longleftrightarrow> length sizes < SLABCLASS_MAX_ID \<and> sz mod MC_ALIGNMENT = 0
    \<and> ITEM_MIN_CHUNK_SIZE \<le> sz \<and> sz \<le> ssize \<and> (sizes \<noteq> [] \<longrightarrow> last sizes < sz)"
  using assms sorted_wrt_snoc [of sizes sz] by (auto simp: valid_sizes_def sorted_wrt_append SLABCLASS_MAX_ID_def)

lemma valid_sizes_prefix: "valid_sizes ssize (xs @ ys) \<Longrightarrow> xs \<noteq> [] \<Longrightarrow> valid_sizes ssize xs"
  by (auto simp: valid_sizes_def sorted_wrt_append)

lemma parse_loop_print:
  assumes "sizes = [] \<or> valid_sizes ssize sizes" "rest \<noteq> []" "\<forall>sz \<in> set rest. sz < 2 ^ 32"
  shows "parse_loop ssize sizes (commas (map dec rest)) = (if valid_sizes ssize (sizes @ rest) then Some (sizes @ rest) else None)"
  using assms
proof (induction rest arbitrary: sizes)
  case (Cons sz rest)
  define str where "str = commas (map dec (sz # rest))"
  have tw: "takeWhile (\<lambda>c. c \<noteq> CHR '','') str = dec sz" "CHR '','' \<in> set str \<longleftrightarrow> rest \<noteq> []"
    "rest \<noteq> [] \<Longrightarrow> drop (length (dec sz) + 1) str = commas (map dec rest)"
  proof -
    note d = takeWhile_upto [OF no_comma_dec] takeWhile_none [OF no_comma_dec]
    show "takeWhile (\<lambda>c. c \<noteq> CHR '','') str = dec sz" by (cases rest) (simp_all add: str_def d del: takeWhile_append2)
    show "CHR '','' \<in> set str \<longleftrightarrow> rest \<noteq> []" using no_comma_dec [of sz] by (cases rest) (simp_all add: str_def)
    show "drop (length (dec sz) + 1) str = commas (map dec rest)" if "rest \<noteq> []" using that by (cases rest) (simp_all add: str_def)
  qed
  note p = parse_item_sz_dec [of sz ssize sizes] and v = valid_sizes_snoc [OF Cons.prems(1), of sz]
  have "parse_loop ssize sizes str = (if valid_sizes ssize (sizes @ sz # rest) then Some (sizes @ sz # rest) else None)"
  proof (cases "valid_sizes ssize (sizes @ [sz])")
    case False
    then have "\<not> valid_sizes ssize (sizes @ sz # rest)" using valid_sizes_prefix [of ssize "sizes @ [sz]" rest] by auto
    then show ?thesis using False v p Cons.prems(3) by (subst parse_loop.simps) (auto simp: Let_def tw(1))
  next
    case True
    then have l: "length sizes < SLABCLASS_MAX_ID" "parse_item_sz ssize sizes (dec sz) = Some sz"
      using v p Cons.prems(3) by simp_all
    show ?thesis
    proof (cases "rest = []")
      case True
      then show ?thesis using l \<open>valid_sizes ssize (sizes @ [sz])\<close> tw by (subst parse_loop.simps) (simp add: Let_def)
    next
      case False
      have "parse_loop ssize sizes str = parse_loop ssize (sizes @ [sz]) (commas (map dec rest))"
        by (subst parse_loop.simps) (simp only: Let_def tw(1) l if_True option.case tw(2) tw(3) [OF False] False not_False_eq_True simp_thms if_False)
      then show ?thesis using Cons.IH [of "sizes @ [sz]"] True False Cons.prems(3) by simp
    qed
  qed
  then show ?case by (simp only: str_def)
qed simp

subsection \<open>Start-up\<close>

definition profile_ok :: "settings \<Rightarrow> bool" where
  "profile_ok cfg \<longleftrightarrow> (\<exists>sizes. set_profile cfg = 0 # sizes \<and> sizes_ok (set_slab_size cfg - SLAB_HDR_SIZE) sizes)"

lemma core_init_state:
  assumes "core_init cfg wall ok rnd = Some st"
  shows "st_settings st = cfg" "st_heap st = (\<lambda>_. zero_item)" "sl_refcount (st_slabs st sl) = 0"
    "lruq_of res st cid = []" "hi_slab_table (heapinfo_of res st) = []" "hi_nslab (heapinfo_of res st) = 0"
    "hi_slab_lruq (heapinfo_of res st) = []" "assoc_init (set_hash_power cfg) (ok 0) = Some (st_assoc st)"
    "st_slabclass_max_id st = length (set_profile cfg) - 1"
    "slabclass_of res st cid = (if SLABCLASS_MIN_ID \<le> cid \<and> cid \<le> length (set_profile cfg) - 1
       then slab_class_new (set_slab_size cfg - SLAB_HDR_SIZE) (set_profile cfg ! cid) else zero_slabclass)"
proof -
  obtain a :: "ptr assoc_st" where a: "assoc_init (set_hash_power cfg) (ok 0) = Some a"
    using assms by (auto simp: core_init_def split: option.splits)
  note d = core_init_def slab_init_def slab_heapinfo_init_def slab_slabclass_init_def slab_size_def zero_heapinfo_def
    item_init_def mc_zero_def mc_alloc_next_def slab_has_reserved_slabs_def mc_upd
  show "st_settings st = cfg" using assms a by (auto simp: d Let_def split: if_splits prod.splits)
  show "st_heap st = (\<lambda>_. zero_item)" using assms a by (auto simp: d Let_def split: if_splits prod.splits)
  show "sl_refcount (st_slabs st sl) = 0" using assms a by (auto simp: d Let_def split: if_splits prod.splits)
  show "lruq_of res st cid = []" using assms a by (auto simp: d Let_def split: if_splits prod.splits)
  show "hi_slab_table (heapinfo_of res st) = []" using assms a by (auto simp: d Let_def split: if_splits prod.splits)
  show "hi_nslab (heapinfo_of res st) = 0" using assms a by (auto simp: d Let_def split: if_splits prod.splits)
  show "hi_slab_lruq (heapinfo_of res st) = []" using assms a by (auto simp: d Let_def split: if_splits prod.splits)
  show "assoc_init (set_hash_power cfg) (ok 0) = Some (st_assoc st)"
    using assms a by (auto simp: d Let_def split: if_splits prod.splits)
  show "st_slabclass_max_id st = length (set_profile cfg) - 1"
    using assms a by (auto simp: d Let_def split: if_splits prod.splits)
  show "slabclass_of res st cid = (if SLABCLASS_MIN_ID \<le> cid \<and> cid \<le> length (set_profile cfg) - 1
       then slab_class_new (set_slab_size cfg - SLAB_HDR_SIZE) (set_profile cfg ! cid) else zero_slabclass)"
    using assms a by (auto simp: d Let_def split: if_splits prod.splits)
qed

lemma core_init_ok:
  assumes "core_init cfg wall ok rnd = Some st" "profile_ok cfg" "set_hash_power cfg \<le> 31"
  shows "mc_ok {#} st" "room 65535 st" "class_sizes_ascending False st" "st_slabclass_max_id st \<le> SLABCLASS_MAX_ID"
proof -
  note s = core_init_state [OF assms(1)]
  obtain sizes where pr: "set_profile cfg = 0 # sizes" "sizes_ok (set_slab_size cfg - SLAB_HDR_SIZE) sizes"
    using assms(2) by (auto simp: profile_ok_def)
  have max: "st_slabclass_max_id st = length sizes" using s(9) pr(1) by simp
  then show m: "st_slabclass_max_id st \<le> SLABCLASS_MAX_ID" using pr(2) by (simp add: sizes_ok_def)
  have sz: "sc_size (slabclass_of res st cid) = sizes ! (cid - 1)" "sc_nitem (slabclass_of res st cid) = (set_slab_size cfg - SLAB_HDR_SIZE) div (sizes ! (cid - 1))"
    "cid - 1 < length sizes" if "SLABCLASS_MIN_ID \<le> cid" "cid \<le> length sizes" for cid res
    using that s(10) [of res cid] pr(1) by (auto simp: slab_class_new_def SLABCLASS_MIN_ID_def nth_Cons')
  have no: "\<not> item_is_linked zero_item" "\<not> item_is_slabbed zero_item" "it_refcount zero_item = 0"
    by (simp_all add: zero_item_def item_flag_defs)
  have fr: "sc_free_item (slabclass_of res st cid) = None" "sc_free_itemq (slabclass_of res st cid) = []"
      "sc_nfree_itemq (slabclass_of res st cid) = 0" for res cid
    using s(10) [of res cid] by (simp_all add: slab_class_new_def zero_slabclass_def)
  have same: "slabclass_of True st = slabclass_of False st" using s(10) by (simp add: fun_eq_iff)
  note ai = assoc_init_inv [OF s(8) assms(3)]
  have tb: "tables st = {}" by (simp add: tables_def s(5))
  have "store_inv {#} st"
  proof (rule store_invI)
    show "inv_index st" using ai by (simp add: inv_index_def s(2) no)
    show "inv_lruq st" by (simp add: inv_lruq_def s(2,4) no)
    have "sc_free_itemq (st_slabclass st c) = []" for c using fr(2) [of False c] by (simp add: slabclass_of_def)
    then show "inv_free st" by (simp add: inv_free_def fr)
    have "hi_slab_table (st_heapinfo st) = []" using s(5) [of False] by (simp add: heapinfo_of_def)
    then show "inv_tables st" by (simp add: inv_tables_def s(5,6,7))
    have "st_reserved_slabclass st = st_slabclass st" using same by (simp add: slabclass_of_def)
    then show "inv_slabs {} st" by (simp add: inv_slabs_def fr tb)
    show "inv_live {} st" by (simp add: inv_live_def live_def s(2) no)
    show "inv_refs {} st" by (simp add: inv_refs_def tb)
    show "owned {#} st" by (simp add: owned_def s(2) no)
  qed
  moreover have "fits st" by (simp add: fits_def s(2) no)
  moreover have "classes_ok st" unfolding classes_ok_def
  proof (intro conjI allI impI m)
    fix cid assume c: "SLABCLASS_MIN_ID \<le> cid" "cid \<le> st_slabclass_max_id st"
    note z = sz [OF c [unfolded max]]
    have "0 < sizes ! (cid - 1)" "sizes ! (cid - 1) \<le> set_slab_size cfg - SLAB_HDR_SIZE"
      using pr(2) nth_mem [OF z(3)] by (auto simp: sizes_ok_def)
    then show "0 < sc_nitem (st_slabclass st cid)" using z(2) [of False] by (simp add: slabclass_of_def div_greater_zero_iff)
  qed
  ultimately show "mc_ok {#} st" by (simp add: mc_ok_def)
  show "room 65535 st" by (simp add: room_def s(3) assoc_room_def ai(3) ASSOC_MAX_def)
  show "class_sizes_ascending False st" unfolding class_sizes_ascending_def
  proof (intro allI impI)
    fix i j assume ij: "SLABCLASS_MIN_ID \<le> i" "i \<le> j" "j \<le> st_slabclass_max_id st"
    have a: "SLABCLASS_MIN_ID \<le> j" "i \<le> length sizes" "j \<le> length sizes" using ij max by simp_all
    have "i = j \<or> sizes ! (i - 1) < sizes ! (j - 1)"
    proof (cases "i = j")
      case False
      then have "i - 1 < j - 1" using ij(1,2) by (simp add: SLABCLASS_MIN_ID_def)
      then show ?thesis using pr(2) sz(3) [OF a(1,3)] by (simp add: sizes_ok_def sorted_wrt_iff_nth_less)
    qed simp
    then show "sc_size (slabclass_of False st i) \<le> sc_size (slabclass_of False st j)"
      using sz(1) [OF ij(1) a(2)] sz(1) [OF a(1,3)] by auto
  qed
qed

subsection \<open>Properties\<close>

text \<open>C24: for every factor above one (and up to \<open>2^32\<close>) and every slab size the options allow, generating
  the profile terminates with a profile of at most 254 sizes that starts at the minimum chunk size,
  ascends strictly, never exceeds a slab and ends with the class of one item per slab.\<close>

theorem mc_generate_profile_ok:
  assumes "2 ^ 52 < factor" "factor \<le> 2 ^ 84" "0 < pr_chunk_size pr" "pr_chunk_size pr < ssize" "ssize \<le> 2 ^ 30"
  shows "\<exists>sizes. mc_generate_profile factor ssize pr = Some (pr\<lparr>pr_profile := 0 # sizes, pr_max_chunk_size := ssize\<rparr>)
    \<and> sizes_ok ssize sizes \<and> hd sizes = pr_chunk_size pr \<and> last sizes = ssize"
proof -
  obtain sizes where g: "generate_loop factor ssize SLABCLASS_MIN_ID (pr_chunk_size pr) = Some sizes"
    using generate_loop_total [OF assms(2,5)] by blast
  have "ssize \<le> 2 ^ 53" using assms(5) by simp
  note l = generate_loop_ok [OF g _ this]
  have run: "mc_generate_profile factor ssize pr = Some (pr\<lparr>pr_profile := 0 # sizes, pr_max_chunk_size := ssize\<rparr>)"
    by (simp add: mc_generate_profile_def g)
  have "sizes_ok ssize sizes \<and> hd sizes = pr_chunk_size pr \<and> last sizes = ssize"
    using l assms by (auto simp: sizes_ok_def SLABCLASS_MIN_ID_def SLABCLASS_MAX_ID_def)
  then show ?thesis using run by blast
qed

text \<open>The default settings of the server: chunks of 96 bytes, factor 1.25, slabs of 1 MB.\<close>

theorem mc_generate_profile_ok_witness:
  "\<exists>sizes. mc_generate_profile 5629499534213120 (1048576 - 32)
      \<lparr>pr_profile = [], pr_chunk_size = 96, pr_max_chunk_size = 0, pr_reserved_maxbytes = 0\<rparr>
    = Some \<lparr>pr_profile = 0 # sizes, pr_chunk_size = 96, pr_max_chunk_size = 1048544, pr_reserved_maxbytes = 0\<rparr>
    \<and> sizes_ok 1048544 sizes \<and> hd sizes = 96"
  using mc_generate_profile_ok [of 5629499534213120
      "\<lparr>pr_profile = [], pr_chunk_size = 96, pr_max_chunk_size = 0, pr_reserved_maxbytes = 0\<rparr>" "1048576 - 32"]
  by auto

text \<open>C25: the parser of \<open>--slab-profile\<close> accepts exactly the valid lists of sizes among the printed ones:
  it reads a printed list back if the sizes are aligned, ascending, within a slab and at most 254,
  and reports an error otherwise.\<close>

theorem mc_parse_profile_print:
  assumes "sizes \<noteq> []" "\<forall>sz \<in> set sizes. sz < 2 ^ 32"
  shows "mc_parse_profile ssize maxbytes pct (commas (map dec sizes)) pr =
    (if valid_sizes ssize sizes
     then Some (pr\<lparr>pr_profile := 0 # sizes, pr_chunk_size := hd sizes, pr_max_chunk_size := last sizes,
       pr_reserved_maxbytes := maxbytes * pct div 100\<rparr>)
     else None)"
  using parse_loop_print [of "[]" ssize sizes] assms by (simp add: mc_parse_profile_def hd_conv_nth)

theorem mc_parse_profile_print_witness:
  "mc_parse_profile 1000 0 0 (commas (map dec [80, 128, 256])) (\<lparr>pr_profile = [], pr_chunk_size = 0, pr_max_chunk_size = 0, pr_reserved_maxbytes = 7\<rparr>)
     = Some \<lparr>pr_profile = [0, 80, 128, 256], pr_chunk_size = 80, pr_max_chunk_size = 256, pr_reserved_maxbytes = 0\<rparr>"
  using mc_parse_profile_print [of "[80, 128, 256]" 1000 0 0 "\<lparr>pr_profile = [], pr_chunk_size = 0, pr_max_chunk_size = 0, pr_reserved_maxbytes = 7\<rparr>"]
  by (simp add: valid_sizes_def SLABCLASS_MAX_ID_def MC_ALIGNMENT_def ITEM_MIN_CHUNK_SIZE_def MC_ALIGN_def ITEM_HDR_SIZE_def)

lemma mc_set_profile_sizes:
  assumes "mc_set_profile optarg factor ssize maxbytes pct pr = Some pr'" "2 ^ 52 \<le> factor" "0 < pr_chunk_size pr"
    "0 < ssize" "ssize \<le> 2 ^ 53"
  shows "\<exists>sizes. pr_profile pr' = 0 # sizes \<and> sizes_ok ssize sizes"
proof (cases optarg)
  case None
  then obtain sizes where g: "generate_loop factor ssize SLABCLASS_MIN_ID (pr_chunk_size pr) = Some sizes" "pr_profile pr' = 0 # sizes"
    using assms(1) by (auto simp: mc_set_profile_def mc_generate_profile_def bind_eq_Some_conv)
  have "sizes_ok ssize sizes"
    using generate_loop_ok [OF g(1) assms(2,5)] assms(3,4) by (fastforce simp: sizes_ok_def SLABCLASS_MIN_ID_def SLABCLASS_MAX_ID_def)
  then show ?thesis using g(2) by blast
next
  case (Some str)
  then obtain sizes where g: "parse_loop ssize [] str = Some sizes" "pr_profile pr' = 0 # sizes"
    using assms(1) by (auto simp: mc_set_profile_def mc_parse_profile_def bind_eq_Some_conv)
  have "valid_sizes ssize sizes" by (rule parse_loop_valid [OF g(1)]) simp
  then have "sizes_ok ssize sizes"
    by (auto simp: sizes_ok_def valid_sizes_def ITEM_MIN_CHUNK_SIZE_def MC_ALIGN_def MC_ALIGNMENT_def ITEM_HDR_SIZE_def)
  then show ?thesis using g(2) by blast
qed

text \<open>C23: whichever way \<open>mc_set_profile\<close> obtains the profile, the cache that \<open>core_init\<close> then sets up
  with a hash power of at most 31 (0 stands for the default) satisfies the invariant of the store with no
  reference held, has room for 65535 references and items, and its class sizes ascend.\<close>

theorem core_init_establishes:
  assumes "mc_set_profile optarg factor (set_slab_size cfg - SLAB_HDR_SIZE) maxbytes pct pr = Some pr'"
    and "2 ^ 52 < factor" "0 < pr_chunk_size pr" "SLAB_HDR_SIZE < set_slab_size cfg" "set_slab_size cfg \<le> 2 ^ 53"
    and "set_profile cfg = pr_profile pr'" "core_init cfg wall ok rnd = Some st" "set_hash_power cfg \<le> 31"
  shows "mc_ok {#} st \<and> room 65535 st \<and> class_sizes_ascending False st"
proof -
  have "profile_ok cfg" unfolding profile_ok_def assms(6) using assms(2-5)
    by (intro mc_set_profile_sizes [OF assms(1)]) simp_all
  from core_init_ok [OF assms(7) this assms(8)] show ?thesis by simp
qed

theorem core_init_establishes_witness: "mc_ok {#} demo_st \<and> class_sizes_ascending False demo_st"
proof -
  let ?pr = "\<lparr>pr_profile = [], pr_chunk_size = 8, pr_max_chunk_size = 0, pr_reserved_maxbytes = 7\<rparr>"
  have "mc_set_profile (Some (commas (map dec [128, 256]))) (2 ^ 53) (set_slab_size demo_settings - SLAB_HDR_SIZE) 0 0 ?pr
      = Some \<lparr>pr_profile = [0, 128, 256], pr_chunk_size = 128, pr_max_chunk_size = 256, pr_reserved_maxbytes = 0\<rparr>"
    using parse_loop_print [of "[]" 480 "[128, 256]"]
    by (simp add: mc_set_profile_def mc_parse_profile_def demo_settings_def SLAB_HDR_SIZE_def valid_sizes_def
        SLABCLASS_MAX_ID_def MC_ALIGNMENT_def ITEM_MIN_CHUNK_SIZE_def MC_ALIGN_def ITEM_HDR_SIZE_def)
  from core_init_establishes [OF this _ _ _ _ _ demo_st_Some] show ?thesis
    by (simp add: demo_settings_def SLAB_HDR_SIZE_def)
qed

lemma demo_profile_ok: "profile_ok demo_settings" "set_hash_power demo_settings \<le> 31"
  by (auto simp: profile_ok_def demo_settings_def sizes_ok_def SLAB_HDR_SIZE_def SLABCLASS_MAX_ID_def)

end
