(* ===== verification/MC_Requests.thy ===== *)
theory MC_Requests
  imports MC_Proto MC_Tokens MC_Profile
begin

text \<open>
  What requests do to the cache, seen from the protocol: the configuration gate, deletion of any number of
  keys, and the commands that never get as far as their operation.
\<close>

declare split_paired_All [simp del] split_paired_Ex [simp del]

lemmas need_defs = need_tokens_def need_num_def need_num_if_def need_key_def need_slabid_def

subsection \<open>The configuration gate\<close>

text \<open>The commands that carry the configuration number of the client.\<close>

definition config_checked :: "req_type \<Rightarrow> bool" where
  "config_checked type \<longleftrightarrow> type \<in> {REQ_GET, REQ_GETS, REQ_IQGET, REQ_ISET, REQ_IQSET, REQ_SET, REQ_ADD, REQ_REPLACE,
     REQ_APPEND, REQ_PREPEND, REQ_CAS, REQ_INCR, REQ_DECR, REQ_DELETE, REQ_SWAP, REQ_UNLEASE, REQ_QAREG, REQ_DAR,
     REQ_QAREAD, REQ_SAR, REQ_IQAPPEND, REQ_IQPREPEND, REQ_IQINCR, REQ_IQDECR, REQ_OQINCR, REQ_OQDECR, REQ_COMMIT}"

text \<open>The response is one of two lines, or there is none because the client does not want one.\<close>

definition refusal :: "bool \<Rightarrow> conn \<Rightarrow> bool" where
  "refusal quiet c' \<longleftrightarrow> (if quiet then c_state c' = CONN_NEW_CMD
     else c_state c' = CONN_WRITE \<and> c_wcurr c' \<in> {''FAIL'' @ CRLF, ''CLIENT_ERROR'' @ CRLF})"

definition refused :: "bool \<Rightarrow> srv \<Rightarrow> conn handled \<Rightarrow> bool" where
  "refused quiet s r \<longleftrightarrow> (\<forall>c' s'. r = Some (c', s') \<longrightarrow> s' = s \<and> refusal quiet c')"

lemma refused_simps [simp]:
  "refused b s None"
  "14 \<le> c_wsize c \<Longrightarrow> refused (c_noreply c) s (Some (asc_write_client_error c, s))"
  "14 \<le> c_wsize c \<Longrightarrow> refused (c_noreply c) s (Some (asc_write_crash c, s))"
  "14 \<le> c_wsize c \<Longrightarrow> refused (c_noreply c) s (Some (asc_swallow vlen (asc_write_crash c), s))"
  by (simp_all add: refused_def refusal_def asc_write_client_error_def asc_write_crash_def asc_write_string_def
      asc_swallow_def CRLF_LEN_def Let_def)

lemma refused_need:
  "14 \<le> c_wsize c \<Longrightarrow> refused (c_noreply c) s k \<Longrightarrow> refused (c_noreply c) s (need_tokens ts c s k)"
  "14 \<le> c_wsize c \<Longrightarrow> (\<And>n. refused (c_noreply c) s (f n)) \<Longrightarrow> refused (c_noreply c) s (need_num parse ts i c s f)"
  "14 \<le> c_wsize c \<Longrightarrow> (\<And>n. refused (c_noreply c) s (g n)) \<Longrightarrow> refused (c_noreply c) s (need_num_if b d pars ts i c s g)"
  "14 \<le> c_wsize c \<Longrightarrow> (\<And>key. refused (c_noreply c) s (h key)) \<Longrightarrow> refused (c_noreply c) s (need_key m ts i c s h)"
  by (auto simp: need_defs split: option.splits)

lemma refused_bind: "(\<And>x. refused b s (e x)) \<Longrightarrow> refused b s (Option.bind r e)"
  by (cases r) auto

text \<open>A request of a client with another configuration.\<close>

definition stale_config :: "token list \<Rightarrow> srv \<Rightarrow> bool" where
  "stale_config ts s \<longleftrightarrow> (case tok_str ts 1 of None \<Rightarrow> True
     | Some str \<Rightarrow> (case mc_strtol str of None \<Rightarrow> True | Some n \<Rightarrow> n \<noteq> -1 \<and> n \<noteq> sv_configuration_number s))"

lemma stale_num:
  assumes "stale_config ts s" "14 \<le> c_wsize c"
    and "\<And>n. n \<noteq> -1 \<Longrightarrow> n \<noteq> sv_configuration_number s \<Longrightarrow> refused (c_noreply c) s (f n)"
  shows "refused (c_noreply c) s (need_num mc_strtol ts 1 c s f)"
  using assms by (auto simp: stale_config_def need_num_def split: option.splits)

lemma stale_check:
  "n \<noteq> -1 \<Longrightarrow> n \<noteq> sv_configuration_number s \<Longrightarrow> asc_check_config n c s = (-1, asc_write_crash c)"
  by (simp add: asc_check_config_def)

lemma stale_need_config:
  assumes "stale_config ts s" "14 \<le> c_wsize c"
  shows "refused (c_noreply c) s (need_config ts c s k)"
  unfolding need_config_def by (rule stale_num [OF assms]) (simp add: stale_check assms(2))

lemma wsize_noreply [simp]: "c_wsize (asc_set_noreply_maybe ts c) = c_wsize c"
  by (simp add: asc_set_noreply_maybe_def Let_def)

text \<open>The commands but the two that read only look for \<open>noreply\<close> at the end of the line.\<close>

definition quiet :: "req_type \<Rightarrow> token list \<Rightarrow> conn \<Rightarrow> bool" where
  "quiet type ts c \<longleftrightarrow> c_noreply (if type = REQ_GET \<or> type = REQ_GETS then c else asc_set_noreply_maybe ts c)"

lemma stale_read: "stale_config ts s \<Longrightarrow> 14 \<le> c_wsize c \<Longrightarrow> refused (c_noreply c) s (asc_process_read ts c s)"
  unfolding asc_process_read_def by (intro refused_need(1) stale_need_config)

lemmas config_process_defs = asc_process_update_def asc_process_arithmetic_def asc_process_delete_def
  asc_process_unlease_def asc_process_qareg_def asc_process_dar_def asc_process_qaread_def asc_process_sar_def
  asc_process_iqincr_iqdecr_def asc_process_iqappend_iqprepend_def asc_process_oqincr_oqdecr_def
  asc_process_commit_def asc_process_swap_def asc_process_iqget_def asc_process_iset_def

lemma stale_handlers:
  assumes st: "stale_config ts s" and w: "14 \<le> c_wsize c" and n: "14 \<le> c_wsize (asc_set_noreply_maybe ts c)"
  shows "refused (c_noreply (asc_set_noreply_maybe ts c)) s (asc_process_update ts c s)"
    and "refused (c_noreply (asc_set_noreply_maybe ts c)) s (asc_process_arithmetic ts c s)"
    and "refused (c_noreply (asc_set_noreply_maybe ts c)) s (asc_process_delete ts c s)"
    and "refused (c_noreply (asc_set_noreply_maybe ts c)) s (asc_process_unlease ts c s)"
    and "refused (c_noreply (asc_set_noreply_maybe ts c)) s (asc_process_qareg ts c s)"
    and "refused (c_noreply (asc_set_noreply_maybe ts c)) s (asc_process_dar ts c s)"
    and "refused (c_noreply (asc_set_noreply_maybe ts c)) s (asc_process_qaread ts c s)"
    and "refused (c_noreply (asc_set_noreply_maybe ts c)) s (asc_process_sar ts c s)"
    and "refused (c_noreply (asc_set_noreply_maybe ts c)) s (asc_process_iqincr_iqdecr ts c s)"
    and "refused (c_noreply (asc_set_noreply_maybe ts c)) s (asc_process_iqappend_iqprepend ts c s)"
    and "refused (c_noreply (asc_set_noreply_maybe ts c)) s (asc_process_oqincr_oqdecr ts c s)"
    and "refused (c_noreply (asc_set_noreply_maybe ts c)) s (asc_process_commit ts c s)"
    and "refused (c_noreply (asc_set_noreply_maybe ts c)) s (asc_process_swap ts c s)"
    and "refused (c_noreply (asc_set_noreply_maybe ts c)) s (asc_process_iqget ts c s)"
    and "refused (c_noreply (asc_set_noreply_maybe ts c)) s (asc_process_iset ts c s)"
  unfolding config_process_defs Let_def
  by (rule stale_need_config [OF st n] stale_num [OF st n] refused_need [OF n] refused_bind | simp add: stale_check w)+

lemma stale_process:
  assumes "stale_config ts s" "14 \<le> c_wsize c" "config_checked type"
  shows "refused (quiet type ts c) s (asc_process type ts c s)"
  using assms(3) stale_read [OF assms(1,2)] stale_handlers [OF assms(1,2)] assms(2) by (auto simp: quiet_def config_checked_def)

text \<open>A server on the small configuration, and a connection to it.\<close>

definition demo_srv :: srv where
  "demo_srv = \<lparr>sv_mc = demo_st, sv_suffix_cache = \<lparr>ca_name = ''suffix'', ca_ptr = replicate 64 0, ca_bufsize = 57,
     ca_freetotal = 64, ca_freecurr = 0\<rparr>, sv_brk = 1, sv_configuration_number = 7, sv_klog_name = False,
     sv_klog_running = False, sv_klog_sampling_rate = 100, sv_stats_agg_intvl = (0, 100000), sv_log_level = 5,
     sv_version = ''2.5.3'', sv_stats_text = (\<lambda>_. None), sv_tv_sec = 1700000000\<rparr>"

definition demo_client :: "bytes \<Rightarrow> conn" where
  "demo_client line = (conn_buffers TCP_BUFFER_SIZE)\<lparr>c_req := line\<rparr>"

lemma demo_srv_simps [simp]:
  "sv_mc demo_srv = demo_st" "sv_configuration_number demo_srv = 7"
  by (simp_all add: demo_srv_def)

lemma demo_ok: "mc_ok {#} demo_st" "room 65535 demo_st"
  using core_init_ok [OF demo_st_Some demo_profile_ok] by simp_all

lemma demo_dec: "dec_int 5 = ''5''" "dec_int 0 = ''0''" "dec_int 7 = ''7''" "dec_int (-1) = ''-1''"
  by code_simp+

lemma demo_tokens:
  "asc_tokenize ''delete 5 0 k'' TOKEN_MAX =
     [\<lparr>tok_val = Some ''delete 5 0 k'', tok_len = 6\<rparr>, \<lparr>tok_val = Some ''5 0 k'', tok_len = 1\<rparr>,
      \<lparr>tok_val = Some ''0 k'', tok_len = 1\<rparr>, \<lparr>tok_val = Some ''k'', tok_len = 1\<rparr>, \<lparr>tok_val = None, tok_len = 0\<rparr>]"
  by code_simp

text \<open>C4: a request that carries a configuration number other than the server's (and other than -1, which
  stands for any) changes nothing on the server, whichever of the commands that check the number it is:
  the response is \<open>FAIL\<close>, or \<open>CLIENT_ERROR\<close> if the request is malformed, or none if the client asked for
  none.\<close>

theorem stale_request_refused:
  assumes "config_checked type" "tok_str ts 1 = Some str" "mc_strtol str = Some n"
    and "n \<noteq> -1" "n \<noteq> sv_configuration_number s" "14 \<le> c_wsize c"
    and "asc_process type ts c s = Some (c', s')"
  shows "s' = s \<and> (if quiet type ts c then c_state c' = CONN_NEW_CMD
     else c_state c' = CONN_WRITE \<and> c_wcurr c' \<in> {''FAIL'' @ CRLF, ''CLIENT_ERROR'' @ CRLF})"
proof -
  have "refused (quiet type ts c) s (asc_process type ts c s)"
    using assms by (intro stale_process) (simp_all add: stale_config_def)
  then show ?thesis using assms(7) unfolding refused_def refusal_def by blast
qed

theorem stale_request_refused_witness:
  "\<exists>c'. asc_process REQ_DELETE (asc_tokenize ''delete 5 0 k'' TOKEN_MAX) (demo_client ''delete 5 0 k'') demo_srv = Some (c', demo_srv)
    \<and> c_wcurr c' \<in> {''FAIL'' @ CRLF, ''CLIENT_ERROR'' @ CRLF}"
proof -
  let ?ts = "asc_tokenize ''delete 5 0 k'' TOKEN_MAX" and ?c = "demo_client ''delete 5 0 k''"
  have n: "mc_strtol ''5 0 k'' = Some 5"
    using mc_strtol_word [of "'' 0 k''" 5] by (simp add: demo_dec at_end_def)
  have run: "asc_process REQ_DELETE ?ts ?c demo_srv \<noteq> None"
    unfolding demo_tokens using n
    by (simp add: asc_process_delete_def asc_set_noreply_maybe_def need_defs need_config_def tok_str_def tok_at_def
        asc_check_config_def demo_srv_def Let_def)
  then obtain c' s' where "asc_process REQ_DELETE ?ts ?c demo_srv = Some (c', s')" by auto
  moreover from this have "s' = demo_srv \<and> (if quiet REQ_DELETE ?ts ?c then c_state c' = CONN_NEW_CMD
     else c_state c' = CONN_WRITE \<and> c_wcurr c' \<in> {''FAIL'' @ CRLF, ''CLIENT_ERROR'' @ CRLF})"
    by (intro stale_request_refused [OF _ _ n])
      (simp_all add: config_checked_def demo_tokens tok_str_def tok_at_def demo_srv_def demo_client_def conn_buffers_def conn_size_defs)
  moreover have "\<not> quiet REQ_DELETE ?ts ?c"
    by (simp add: quiet_def demo_tokens asc_set_noreply_maybe_def demo_client_def conn_buffers_def)
  ultimately show ?thesis by auto
qed

subsection \<open>Deleting any number of keys\<close>

text \<open>The loops over the tokens of a line, which is tokenized again and again, are a loop over its words.\<close>

fun delete_each :: "bytes list \<Rightarrow> bool \<Rightarrow> item_store_result option \<Rightarrow> srv \<Rightarrow> (bool \<times> item_store_result option \<times> srv) option" where
  "delete_each [] dl res s = Some (True, res, s)"
| "delete_each (key # keys) dl res s =
    (if length key > KEY_MAX_LEN then Some (False, res, s)
     else case item_get_and_delete key dl (sv_mc s) of
       None \<Rightarrow> None
     | Some (r, st) \<Rightarrow> delete_each keys dl (Some r) (s\<lparr>sv_mc := st\<rparr>))"

lemma asc_delete_keys_words:
  assumes "\<forall>t \<in> set ts. tok_wf t"
  shows "asc_delete_keys (ts @ [\<lparr>tok_val = v, tok_len = 0\<rparr>]) dl res s = delete_each (map tok_text ts @ words_opt v) dl res s"
  using assms
proof (induction "ts @ [\<lparr>tok_val = v, tok_len = 0\<rparr>]" dl res s arbitrary: ts v rule: asc_delete_keys.induct)
  case (2 t us dl res s)
  show ?case
  proof (cases ts)
    case Nil
    then have t: "t = \<lparr>tok_val = v, tok_len = 0\<rparr>" "us = []" using 2(3) by auto
    show ?thesis
    proof (cases v)
      case None
      then show ?thesis using Nil by (simp add: words_opt_def)
    next
      case (Some line)
      obtain ts' v' where w: "asc_tokenize line TOKEN_MAX = ts' @ [\<lparr>tok_val = v', tok_len = 0\<rparr>]"
        "map tok_text ts' = take (TOKEN_MAX - 1) (words_of line)" "words_opt v' = drop (TOKEN_MAX - 1) (words_of line)"
        "\<forall>t \<in> set ts'. tok_wf t"
        by (rule asc_tokenize_spec [of line TOKEN_MAX]) (auto simp: TOKEN_MAX_def)
      have "asc_delete_keys (asc_tokenize line TOKEN_MAX) dl res s = delete_each (words_of line) dl res s"
        unfolding w(1) using 2(2) [OF _ _ w(1) w(4)] t Some w by simp
      then show ?thesis using Nil Some by (simp add: words_opt_def)
    qed
  next
    case (Cons u ts')
    then have u: "t = u" "us = ts' @ [\<lparr>tok_val = v, tok_len = 0\<rparr>]" "tok_wf u" "\<forall>t \<in> set ts'. tok_wf t"
      using 2(3,4) by auto
    then have l: "tok_len u \<noteq> 0" "length (tok_text u) = tok_len u" using tok_wf_text by (auto simp: tok_wf_def)
    show ?thesis
      using 2(1) [OF _ _ _ _ u(2,4)] l u by (auto simp: Cons split: option.splits)
  qed
qed simp

lemma delete_each_ok:
  assumes "mc_ok M (sv_mc s)" "room (k + 4 * length keys) (sv_mc s)" "\<forall>key \<in> set keys. length key \<le> KEY_MAX_LEN"
  shows "\<exists>res' s'. delete_each keys dl res s = Some (True, res', s') \<and> mc_ok M (sv_mc s') \<and> room k (sv_mc s')
    \<and> (\<forall>k'. item_find k' (sv_mc s') = (if \<exists>key \<in> set keys. k' = key \<or> dl \<and> k' \<in> key_group key then None
         else item_find k' (sv_mc s)))
    \<and> (if keys = [] then res' = res else res' \<in> {Some EXISTS, Some NOT_FOUND})"
  using assms
proof (induction keys arbitrary: res s)
  case (Cons key keys)
  have r: "room ((k + 4 * length keys) + 4) (sv_mc s)" using Cons.prems(2) by (simp add: algebra_simps)
  obtain r1 st1 where g: "item_get_and_delete key dl (sv_mc s) = Some (r1, st1)" "mc_ok M st1" "room (k + 4 * length keys) st1"
    "\<forall>k'. item_find k' st1 = (if k' = key \<or> dl \<and> k' \<in> key_group key then None else item_find k' (sv_mc s))"
    "r1 = EXISTS \<or> r1 = NOT_FOUND"
    by (rule item_get_and_delete_ok [OF Cons.prems(1) r]) blast
  define s1 where "s1 = s\<lparr>sv_mc := st1\<rparr>"
  have s1: "sv_mc s1 = st1" by (simp add: s1_def)
  have "\<exists>res' s'. delete_each keys dl (Some r1) s1 = Some (True, res', s') \<and> mc_ok M (sv_mc s') \<and> room k (sv_mc s')
    \<and> (\<forall>k'. item_find k' (sv_mc s') = (if \<exists>key \<in> set keys. k' = key \<or> dl \<and> k' \<in> key_group key then None
         else item_find k' (sv_mc s1)))
    \<and> (if keys = [] then res' = Some r1 else res' \<in> {Some EXISTS, Some NOT_FOUND})"
    using g(2,3) Cons.prems(3) s1 by (intro Cons.IH) simp_all
  then obtain res' s' where IH: "delete_each keys dl (Some r1) s1 = Some (True, res', s')" "mc_ok M (sv_mc s')" "room k (sv_mc s')"
    "\<forall>k'. item_find k' (sv_mc s') = (if \<exists>key \<in> set keys. k' = key \<or> dl \<and> k' \<in> key_group key then None else item_find k' st1)"
    "if keys = [] then res' = Some r1 else res' \<in> {Some EXISTS, Some NOT_FOUND}"
    unfolding s1 by blast
  have "delete_each (key # keys) dl res s = Some (True, res', s')" using Cons.prems(3) g(1) IH(1) by (simp add: s1_def)
  moreover have "res' \<in> {Some EXISTS, Some NOT_FOUND}" using IH(5) g(5) by (auto split: if_splits)
  ultimately show ?case using IH(2-4) g(4) by auto
qed simp



subsection \<open>Commands that never get as far as their operation\<close>

text \<open>The terminal token of a line that fits the array is null: parsing a number there is a fault.\<close>

lemma tokenize_short:
  assumes "ts = asc_tokenize line TOKEN_MAX" "length ts < TOKEN_MAX"
  obtains us where "ts = us @ [\<lparr>tok_val = None, tok_len = 0\<rparr>]" "map tok_text us = words_of line" "\<forall>t \<in> set us. tok_wf t"
proof -
  obtain us v where u: "ts = us @ [\<lparr>tok_val = v, tok_len = 0\<rparr>]" "map tok_text us = take 15 (words_of line)"
    "words_opt v = drop 15 (words_of line)" "\<forall>t \<in> set us. tok_wf t" "length us < 15 \<Longrightarrow> v = None"
    by (rule asc_tokenize_spec [of line TOKEN_MAX]) (auto simp: TOKEN_MAX_def assms(1))
  then have v: "v = None" using assms(2) by (simp add: TOKEN_MAX_def)
  then have "drop 15 (words_of line) = []" using u(3) by (simp add: words_opt_def)
  then have "map tok_text us = words_of line" using u(2) by simp
  then show thesis using that u v by blast
qed

lemma tok_str_terminal:
  assumes "ts = asc_tokenize line TOKEN_MAX" "length ts < TOKEN_MAX"
  shows "tok_str ts (length ts - 1) = None"
  by (rule tokenize_short [OF assms]) (simp add: tok_str_def tok_at_def)

lemma mc_strtoul_noreply: "take 7 str = ''noreply'' \<Longrightarrow> mc_strtoul str = None"
proof -
  assume "take 7 str = ''noreply''"
  then obtain rest where "str = ''noreply'' @ rest" by (metis append_take_drop_id)
  then show ?thesis
    by (simp add: mc_strtoul_def c_strtoull_def c_scan_def c_isspace_def byte_nat_def endptr_ok_def)
qed

definition joins :: "req_type \<Rightarrow> bool" where
  "joins type \<longleftrightarrow> type = REQ_REPLACE \<or> type = REQ_APPEND \<or> type = REQ_PREPEND"

lemma joins_vlen:
  assumes "ts = asc_tokenize line TOKEN_MAX" "joins (c_req_type c)" "\<not> c_noreply c"
    and "asc_ntoken_valid (asc_set_noreply_maybe ts c) (length ts)"
  shows "case tok_str ts 6 of None \<Rightarrow> True | Some str \<Rightarrow> mc_strtoul str = None"
proof -
  define c1 where "c1 = asc_set_noreply_maybe ts c"
  have ty: "c_req_type c1 = c_req_type c" by (simp add: c1_def asc_set_noreply_maybe_def Let_def)
  have "length ts = (if c_noreply c1 then 8 else 7)"
    using assms(2,4) ty by (auto simp: c1_def [symmetric] joins_def asc_ntoken_valid_def Let_def split: if_splits)
  then consider "length ts = 7" | "length ts = 8" "c_noreply c1" by (auto split: if_splits)
  then show ?thesis
  proof cases
    case 1
    then show ?thesis using tok_str_terminal [OF assms(1)] by (simp add: TOKEN_MAX_def)
  next
    case 2
    then have t: "tok_len (ts ! 6) = 7" "tok_text (ts ! 6) = ''noreply''"
      using assms(3) by (auto simp: c1_def asc_set_noreply_maybe_def Let_def split: if_splits)
    then show ?thesis using 2 mc_strtoul_noreply
      by (auto simp: tok_str_def tok_at_def tok_text_def split: option.splits)
  qed
qed

lemma asc_process_update_stops:
  assumes "case tok_str ts 6 of None \<Rightarrow> True | Some str \<Rightarrow> mc_strtoul str = None"
    and "asc_process_update ts c s = Some (c', s')"
  shows "s' = s" "c' = asc_write_client_error (asc_set_noreply_maybe ts c)"
  using assms by (auto simp: asc_process_update_def need_defs Let_def split: option.splits if_splits)

text \<open>C35: on a connection whose \<open>noreply\<close> flag is not left set by an earlier request, a replace, append or
  prepend request stores nothing, whatever the line is: the table of token counts is one short for these
  commands since the configuration number was added, so that the length of the value is read from the null
  terminal token (a fault) or from the word \<open>noreply\<close> (a client error). (A flag left over from an \<open>iqget\<close>
  with \<open>noreply\<close> selects the row of counts that is one longer.)\<close>

theorem asc_process_update_joins:
  assumes "joins (c_req_type c)" "\<not> c_noreply c"
    and "asc_process_update (asc_tokenize line TOKEN_MAX) c s = Some (c', s')"
  shows "s' = s \<and> c' = asc_write_client_error (asc_set_noreply_maybe (asc_tokenize line TOKEN_MAX) c)"
proof (cases "asc_ntoken_valid (asc_set_noreply_maybe (asc_tokenize line TOKEN_MAX) c) (length (asc_tokenize line TOKEN_MAX))")
  case True
  note v = joins_vlen [OF refl assms(1,2) True]
  from asc_process_update_stops [OF v assms(3)] show ?thesis by simp
next
  case False
  then show ?thesis using assms(3) by (simp add: asc_process_update_def need_tokens_def Let_def)
qed

theorem asc_process_update_joins_witness:
  "\<exists>c'. asc_process_update (asc_tokenize ''append 7'' TOKEN_MAX) ((demo_client ''append 7'')\<lparr>c_req_type := REQ_APPEND\<rparr>) demo_srv
      = Some (c', demo_srv)"
proof -
  let ?ts = "asc_tokenize ''append 7'' TOKEN_MAX" and ?c = "(demo_client ''append 7'')\<lparr>c_req_type := REQ_APPEND\<rparr>"
  have ts: "?ts = [\<lparr>tok_val = Some ''append 7'', tok_len = 6\<rparr>, \<lparr>tok_val = Some ''7'', tok_len = 1\<rparr>, \<lparr>tok_val = None, tok_len = 0\<rparr>]"
    by code_simp
  obtain c' s' where r: "asc_process_update ?ts ?c demo_srv = Some (c', s')"
    unfolding ts by (simp add: asc_process_update_def need_tokens_def asc_ntoken_valid_def asc_set_noreply_maybe_def Let_def
        demo_client_def conn_buffers_def)
  have "s' = demo_srv"
    using asc_process_update_joins [OF _ _ r] by (simp add: joins_def demo_client_def conn_buffers_def)
  then show ?thesis using r by blast
qed

lemma klog_number_keeps:
  assumes "asc_klog_number ts reset valid assign c s = Some (c', s')"
    and "\<And>s. sv_mc (reset s) = sv_mc s" "\<And>n s. sv_mc (assign n s) = sv_mc s"
  shows "sv_mc s' = sv_mc s"
  using assms by (auto simp: asc_klog_number_def need_num_def bind_eq_Some_conv split: if_splits option.splits)

lemma klog_run_keeps: "asc_klog_run t c s = (c', s') \<Longrightarrow> sv_mc s' = sv_mc s"
  by (auto simp: asc_klog_run_def split: if_splits)

lemma klog_keeps: "asc_process_klog ts c s = Some (c', s') \<Longrightarrow> sv_mc s' = sv_mc s"
  unfolding asc_process_klog_def need_tokens_def bind_eq_Some_conv
  by (fastforce split: if_splits dest: klog_run_keeps klog_number_keeps simp: stats_set_interval_def bind_eq_Some_conv)

text \<open>C36: no config request sets the eviction strategy: the subcommand is the third word, its argument
  would have to be the fourth, and only three words are accepted.\<close>

theorem asc_process_config_keeps:
  assumes "asc_process_config (asc_tokenize line TOKEN_MAX) c s = Some (c', s')"
  shows "sv_mc s' = sv_mc s"
proof -
  let ?ts = "asc_tokenize line TOKEN_MAX"
  have "length ?ts = 4 \<Longrightarrow> tok_str ?ts 3 = None"
    using tok_str_terminal [OF refl, of line] by (simp add: TOKEN_MAX_def)
  then have "asc_process_evict ?ts c s = Some (c', s') \<Longrightarrow> s' = s"
    and "asc_process_aggregate ?ts c s = Some (c', s') \<Longrightarrow> s' = s"
    by (auto simp: asc_process_evict_def asc_process_aggregate_def need_num_def split: if_splits)
  moreover note klog_keeps [of ?ts c s c' s']
  ultimately show ?thesis
    using assms by (auto simp: asc_process_config_def bind_eq_Some_conv split: if_splits)
qed

theorem asc_process_config_keeps_witness:
  "\<exists>c' s'. asc_process_config (asc_tokenize ''config evict 3'' TOKEN_MAX) (demo_client ''config evict 3'') demo_srv = Some (c', s')
    \<and> sv_mc s' = demo_st"
proof -
  have ts: "asc_tokenize ''config evict 3'' TOKEN_MAX = [\<lparr>tok_val = Some ''config evict 3'', tok_len = 6\<rparr>,
      \<lparr>tok_val = Some ''evict 3'', tok_len = 5\<rparr>, \<lparr>tok_val = Some ''3'', tok_len = 1\<rparr>, \<lparr>tok_val = None, tok_len = 0\<rparr>]"
    by code_simp
  have "asc_process_config (asc_tokenize ''config evict 3'' TOKEN_MAX) (demo_client ''config evict 3'') demo_srv \<noteq> None"
    unfolding ts by (simp add: asc_process_config_def tok_at_def tok_is_def)
  then obtain c' s' where r: "asc_process_config (asc_tokenize ''config evict 3'' TOKEN_MAX) (demo_client ''config evict 3'') demo_srv
      = Some (c', s')" by auto
  from asc_process_config_keeps [OF r] r show ?thesis by auto
qed

text \<open>C37: the documented requests \<open>flush_all <delay>\<close> and \<open>verbosity <num>\<close>, without \<open>noreply\<close>, make the
  server parse a number at a null pointer.\<close>

theorem documented_requests_fault:
  assumes "\<not> c_noreply c" "w \<noteq> ''noreply''"
  shows "(words_of line = [''flush_all'', w] \<and> c_req_type c = REQ_FLUSHALL \<longrightarrow> asc_process_flushall (asc_tokenize line TOKEN_MAX) c s = None)
    \<and> (words_of line = [''verbosity'', w] \<longrightarrow> asc_process_verbosity (asc_tokenize line TOKEN_MAX) c s = None)"
proof -
  let ?ts = "asc_tokenize line TOKEN_MAX"
  have key: "length ?ts = 3" "asc_set_noreply_maybe ?ts c = c" "tok_str ?ts 2 = None" if two: "words_of line = [v, w]" for v
  proof -
    obtain us x where u: "?ts = us @ [\<lparr>tok_val = x, tok_len = 0\<rparr>]" "map tok_text us = take 15 (words_of line)"
      "\<forall>t \<in> set us. tok_wf t" "length us < 15 \<Longrightarrow> x = None"
      by (rule asc_tokenize_spec [of line TOKEN_MAX]) (auto simp: TOKEN_MAX_def)
    then obtain t0 t1 where t: "us = [t0, t1]" "tok_text t1 = w" using two by (auto simp: map_eq_Cons_conv)
    then show "length ?ts = 3" "tok_str ?ts 2 = None" using u by (simp_all add: tok_str_def tok_at_def)
    show "asc_set_noreply_maybe ?ts c = c" using u t assms(2) by (simp add: asc_set_noreply_maybe_def Let_def)
  qed
  show ?thesis
    using key assms by (auto simp: asc_process_flushall_def asc_process_verbosity_def need_defs asc_ntoken_valid_def Let_def)
qed

theorem documented_requests_fault_witness:
  "asc_process_flushall (asc_tokenize ''flush_all 10'' TOKEN_MAX) ((demo_client ''flush_all 10'')\<lparr>c_req_type := REQ_FLUSHALL\<rparr>) demo_srv = None"
proof -
  have "words_of ''flush_all 10'' = [''flush_all'', ''10'']" by code_simp
  then show ?thesis
    using documented_requests_fault [of "(demo_client ''flush_all 10'')\<lparr>c_req_type := REQ_FLUSHALL\<rparr>" "''10''" "''flush_all 10''" demo_srv]
    by (simp add: demo_client_def conn_buffers_def)
qed

end
