(* ===== verification/MC_Loop.thy ===== *)
theory MC_Loop
  imports MC_Frame MC_Requests
begin

text \<open>
  The request loop as a consumer of a byte stream: the bytes of the read buffer that are not handled yet
  are a queue. Reading appends to it what the socket delivers, parsing takes one line from its front, and
  the read markers stay inside the buffer.
\<close>

definition unparsed :: "conn \<Rightarrow> bytes" where
  "unparsed c = take (c_rbytes c) (drop (c_rcurr c) (c_rbuf c))"

definition rbuf_ok :: "conn \<Rightarrow> bool" where
  "rbuf_ok c \<longleftrightarrow> c_rcurr c + c_rbytes c \<le> length (c_rbuf c)"

lemma unparsed_cong: "in_buf c' = in_buf c \<Longrightarrow> unparsed c' = unparsed c"
  "in_buf c' = in_buf c \<Longrightarrow> rbuf_ok c' = rbuf_ok c"
  by (simp_all add: in_buf_def unparsed_def rbuf_ok_def)

lemma length_unparsed: "rbuf_ok c \<Longrightarrow> length (unparsed c) = c_rbytes c"
  by (simp add: unparsed_def rbuf_ok_def)

subsection \<open>Parsing\<close>

lemma memchr_Some:
  "memchr ch xs = Some n \<Longrightarrow> n < length xs \<and> xs ! n = ch \<and> ch \<notin> set (take n xs)"
  by (induction xs arbitrary: n) (auto split: if_splits)

lemma memchr_None: "memchr ch xs = None \<longleftrightarrow> ch \<notin> set xs"
  by (induction xs) auto

lemma parse_dispatch:
  assumes "asc_parse c s = Some (MC_OK, c', s')"
  obtains el at c1 where "memchr (CHR 0x0A) (unparsed c) = Some el" "at \<le> el"
    "in_buf c1 = ((c_rbuf c)[c_rcurr c + at := CHR 0x00], c_rcurr c, c_rbytes c)"
    "c' = c1\<lparr>c_rbytes := c_rbytes c - (el + 1), c_rcurr := c_rcurr c + (el + 1)\<rparr>"
proof -
  obtain el where el: "memchr (CHR 0x0A) (unparsed c) = Some el"
    using assms by (auto simp: asc_parse_def unparsed_def Let_def bind_eq_Some_conv split: option.splits if_splits)
  define at where "at = (if el > 1 \<and> drop (c_rcurr c) (c_rbuf c) ! (el - 1) = CHR 0x0D then el - 1 else el)"
  define rbuf where "rbuf = (c_rbuf c)[c_rcurr c + at := CHR 0x00]"
  define c0 where "c0 = c\<lparr>c_rbuf := rbuf, c_req := takeWhile (\<lambda>ch. ch \<noteq> CHR 0x00) (drop (c_rcurr c) rbuf)\<rparr>"
  have n0: "c_rbytes c \<noteq> 0" using el memchr_Some [of "CHR 0x0A" "unparsed c" el] by (auto simp: unparsed_def)
  obtain c1 where d: "asc_dispatch c0 s = Some (c1, s')"
    and c': "c' = c1\<lparr>c_rbytes := c_rbytes c1 - (el + 1), c_rcurr := c_rcurr c1 + (el + 1)\<rparr>"
    using assms el n0 by (auto simp: asc_parse_def unparsed_def Let_def bind_eq_Some_conv at_def rbuf_def c0_def)
  have b: "in_buf c1 = (rbuf, c_rcurr c, c_rbytes c)"
    using keeps2D [OF keeps2_dispatch d] by (simp add: in_buf_def c0_def)
  show thesis
  proof (rule that [OF el])
    show "at \<le> el" by (simp add: at_def)
    show "in_buf c1 = ((c_rbuf c)[c_rcurr c + at := CHR 0x00], c_rcurr c, c_rbytes c)" using b by (simp add: rbuf_def)
    show "c' = c1\<lparr>c_rbytes := c_rbytes c - (el + 1), c_rcurr := c_rcurr c + (el + 1)\<rparr>" using c' b by (simp add: in_buf_def)
  qed
qed

lemma parse_wait:
  assumes "asc_parse c s = Some (status, c', s')" "status \<noteq> MC_OK"
  shows "CHR 0x0A \<notin> set (unparsed c)" "in_buf c' = in_buf c" "s' = s" "status = MC_EAGAIN \<longrightarrow> c' = c"
  using assms
  by (auto simp: asc_parse_def unparsed_def Let_def bind_eq_Some_conv memchr_None split: option.splits if_splits)

text \<open>C15: \<open>asc_parse\<close> consumes one request: if the unparsed bytes contain a newline, it returns \<open>MC_OK\<close> and
  what is left is exactly what follows the first line, whatever the command did; if not, the unparsed bytes
  and the server stay as they are.\<close>

theorem asc_parse_takes_line:
  assumes "asc_parse c s = Some (status, c', s')"
  shows "if CHR 0x0A \<in> set (unparsed c)
         then status = MC_OK \<and> (\<exists>line. unparsed c = line @ CHR 0x0A # unparsed c' \<and> CHR 0x0A \<notin> set line)
         else status \<noteq> MC_OK \<and> unparsed c' = unparsed c \<and> s' = s"
proof (cases "status = MC_OK")
  case True
  obtain el at c1 where el: "memchr (CHR 0x0A) (unparsed c) = Some el" and at: "at \<le> el"
    and b: "in_buf c1 = ((c_rbuf c)[c_rcurr c + at := CHR 0x00], c_rcurr c, c_rbytes c)"
    and c': "c' = c1\<lparr>c_rbytes := c_rbytes c - (el + 1), c_rcurr := c_rcurr c + (el + 1)\<rparr>"
    using assms True by (metis parse_dispatch)
  have m: "el < length (unparsed c)" "unparsed c ! el = CHR 0x0A" "CHR 0x0A \<notin> set (take el (unparsed c))"
    using memchr_Some [OF el] by auto
  have "unparsed c' = drop (Suc el) (unparsed c)"
    using b at by (simp add: c' unparsed_def in_buf_def drop_take add.commute add.left_commute)
  then have "unparsed c = take el (unparsed c) @ CHR 0x0A # unparsed c'"
    using m(2) id_take_nth_drop [OF m(1)] by metis
  then have "\<exists>line. unparsed c = line @ CHR 0x0A # unparsed c' \<and> CHR 0x0A \<notin> set line"
    using m(3) by blast
  moreover have "CHR 0x0A \<in> set (unparsed c)" using nth_mem [OF m(1)] m(2) by metis
  ultimately show ?thesis using True by simp
next
  case False
  then show ?thesis using parse_wait(1,3) [OF assms False] unparsed_cong(1) [OF parse_wait(2) [OF assms False]] by simp
qed

definition demo_input :: conn where
  "demo_input = (conn_buffers 4)\<lparr>c_state := CONN_PARSE, c_rbuf := [CHR ''a'', CHR 0x0A, CHR ''b'', CHR ''c''], c_rbytes := 4\<rparr>"

lemma demo_word: "asc_parse_type (asc_tokenize ''a'' TOKEN_MAX) = REQ_UNKNOWN"
  by code_simp

theorem asc_parse_takes_line_witness:
  "\<exists>c' s'. asc_parse demo_input demo_srv = Some (MC_OK, c', s') \<and> unparsed c' = ''bc''"
proof -
  have "asc_parse demo_input demo_srv \<noteq> None"
    by (simp add: asc_parse_def demo_input_def conn_buffers_def asc_dispatch_def conn_add_msghdr_def conn_msg_room_def
        conn_new_msg_def conn_ensure_iov_space_def conn_size_defs Let_def demo_word)
  then obtain status c' s' where r: "asc_parse demo_input demo_srv = Some (status, c', s')" by auto
  have u: "unparsed demo_input = [CHR ''a'', CHR 0x0A, CHR ''b'', CHR ''c'']" by (simp add: unparsed_def demo_input_def conn_buffers_def)
  from asc_parse_takes_line [OF r] obtain line where "status = MC_OK" "unparsed demo_input = line @ CHR 0x0A # unparsed c'" "CHR 0x0A \<notin> set line"
    unfolding u by auto
  then show ?thesis using r unfolding u by (cases line) (auto simp: Cons_eq_append_conv)
qed

subsection \<open>Reading\<close>

definition got :: "os \<Rightarrow> nat \<Rightarrow> bytes" where
  "got os i = (case os_read os i of IoGot bs \<Rightarrow> bs | _ \<Rightarrow> [])"

text \<open>After reads \<open>i\<close> to \<open>m\<close> the queue has what they returned at its end; the loop fails for want of memory only
  with an empty queue.\<close>

definition appended :: "nat \<Rightarrow> nat \<Rightarrow> read_result \<Rightarrow> os \<Rightarrow> conn \<Rightarrow> read_result \<Rightarrow> conn \<Rightarrow> nat \<Rightarrow> bool" where
  "appended k i g os c r c' m \<longleftrightarrow> i \<le> m \<and> (\<forall>j\<in>{i..<m}. got os j \<noteq> []) \<and> c_rcurr c' = 0 \<and> rbuf_ok c'
     \<and> length (c_rbuf c') \<le> 2 ^ k * length (c_rbuf c) \<and> (r = READ_NO_DATA_RECEIVED \<longrightarrow> m = i \<and> g = READ_NO_DATA_RECEIVED)
     \<and> unparsed c' = (if r = READ_MEMORY_ERROR then [] else unparsed c @ concat (map (got os) [i..<m]))"

lemma read_into_unparsed:
  assumes "read_into (c_rbuf c) (c_rbytes c) bs = Some buf" "c_rcurr c = 0"
  shows "unparsed (c\<lparr>c_rbuf := buf, c_rbytes := c_rbytes c + length bs\<rparr>) = unparsed c @ bs"
    "rbuf_ok (c\<lparr>c_rbuf := buf, c_rbytes := c_rbytes c + length bs\<rparr>)" "length buf = length (c_rbuf c)" "bs \<noteq> []"
  using assms by (auto simp: read_into_def memcpy_at_def unparsed_def rbuf_ok_def split: if_splits)

lemma read_grow_unparsed:
  assumes "read_grow c s = (ok, c', s')" "c_rcurr c = 0" "rbuf_ok c"
  shows "c_rcurr c' = 0" "rbuf_ok c'" "ok \<Longrightarrow> unparsed c' = unparsed c" "ok \<Longrightarrow> length (c_rbuf c') = 2 * length (c_rbuf c)"
    "\<not> ok \<Longrightarrow> unparsed c' = [] \<and> length (c_rbuf c') = length (c_rbuf c)"
  using assms by (auto simp: read_grow_def rbuf_ok_def unparsed_def asc_write_server_error_def asc_write_string_def Let_def
      split: if_splits prod.splits)

lemma read_tcp_appended:
  "read_tcp_loop k i g os c s = Some (r, c', s') \<Longrightarrow> c_rcurr c = 0 \<Longrightarrow> rbuf_ok c \<Longrightarrow> g \<noteq> READ_MEMORY_ERROR \<Longrightarrow>
     \<exists>m \<le> i + k. appended k i g os c r c' m"
  "read_tcp_once k i g os c s = Some (r, c', s') \<Longrightarrow> c_rcurr c = 0 \<Longrightarrow> rbuf_ok c \<Longrightarrow> g \<noteq> READ_MEMORY_ERROR \<Longrightarrow>
     \<exists>m \<le> i + k + 1. appended k i g os c r c' m"
proof (induction k i g os c s and k i g os c s rule: read_tcp_loop_read_tcp_once.induct)
  case (1 i g os c s)
  then show ?case by (auto simp: appended_def)
next
  case (2 k i g os c s)
  obtain ok c1 s1 where gr: "read_grow c s = (ok, c1, s1)" by (metis prod_cases3)
  note gu = read_grow_unparsed [OF gr 2(3,4)]
  show ?case
  proof (cases ok)
    case True
    then obtain m where "m \<le> i + k + 1" "appended k i g os c1 r c' m"
      using 2 gr gu by (auto simp: gr)
    then show ?thesis using gu True by (intro exI [of _ m]) (auto simp: appended_def)
  next
    case False
    then show ?thesis using 2 gr gu by (intro exI [of _ i]) (auto simp: appended_def)
  qed
next
  case (3 k i g os c s)
  show ?case
  proof (cases "os_read os i")
    case (IoGot bs)
    then obtain buf where rd: "read_into (c_rbuf c) (c_rbytes c) bs = Some buf" using 3 by (auto split: option.splits)
    note ru = read_into_unparsed [OF rd 3(3)]
    let ?c = "c\<lparr>c_rbuf := buf, c_rbytes := c_rbytes c + length bs\<rparr>"
    have g: "got os i = bs" using IoGot by (simp add: got_def)
    show ?thesis
    proof (cases "length bs = length (c_rbuf c) - c_rbytes c")
      case True
      then have "read_tcp_loop k (i + 1) READ_DATA_RECEIVED os ?c s = Some (r, c', s')"
        using 3(2) IoGot rd by (simp add: Let_def)
      then obtain m where m: "m \<le> i + 1 + k" "appended k (i + 1) READ_DATA_RECEIVED os ?c r c' m"
        using 3(1) [OF IoGot rd refl refl True] 3(3) ru(2) by auto
      then have "\<forall>j\<in>{i..<m}. got os j \<noteq> []" using g ru(4) by (auto simp: appended_def Suc_le_eq nat_less_le)
      then show ?thesis using m g ru by (intro exI [of _ m]) (auto simp: appended_def upt_conv_Cons)
    next
      case False
      then have "r = READ_DATA_RECEIVED \<and> c' = ?c" using 3 IoGot rd by (auto simp: Let_def)
      then show ?thesis using ru g 3 by (intro exI [of _ "i + 1"]) (auto simp: appended_def)
    qed
  qed (use 3 in \<open>auto simp: appended_def intro!: exI [of _ i]\<close>)
qed

lemma read_tcp_start:
  assumes "rbuf_ok c"
  shows "unparsed (if c_rcurr c \<noteq> 0 then c\<lparr>c_rbuf := (if c_rbytes c \<noteq> 0 then rbuf_compact c else c_rbuf c), c_rcurr := 0\<rparr> else c)
      = unparsed c"
    "rbuf_ok (if c_rcurr c \<noteq> 0 then c\<lparr>c_rbuf := (if c_rbytes c \<noteq> 0 then rbuf_compact c else c_rbuf c), c_rcurr := 0\<rparr> else c)"
    "length (c_rbuf (if c_rcurr c \<noteq> 0 then c\<lparr>c_rbuf := (if c_rbytes c \<noteq> 0 then rbuf_compact c else c_rbuf c), c_rcurr := 0\<rparr> else c))
      = length (c_rbuf c)"
  using assms by (auto simp: unparsed_def rbuf_ok_def rbuf_compact_def)

lemma core_read_tcp_appended:
  assumes "rbuf_ok c" "core_read_tcp os c s = Some (r, c', s')"
  shows "\<exists>m \<le> 5. appended 4 0 READ_NO_DATA_RECEIVED os c r c' m"
proof -
  define c0 where "c0 = (if c_rcurr c \<noteq> 0 then c\<lparr>c_rbuf := (if c_rbytes c \<noteq> 0 then rbuf_compact c else c_rbuf c), c_rcurr := 0\<rparr> else c)"
  note st = read_tcp_start [OF assms(1), folded c0_def]
  have z: "c_rcurr c0 = 0" by (simp add: c0_def)
  have "(if c_rbytes c0 \<ge> length (c_rbuf c0) then read_tcp_loop 4 0 READ_NO_DATA_RECEIVED os c0 s
      else read_tcp_once 4 0 READ_NO_DATA_RECEIVED os c0 s) = Some (r, c', s')"
    using assms(2) unfolding core_read_tcp_def Let_def c0_def [symmetric] .
  then have "(\<exists>m \<le> 0 + 4. appended 4 0 READ_NO_DATA_RECEIVED os c0 r c' m) \<or> (\<exists>m \<le> 0 + 4 + 1. appended 4 0 READ_NO_DATA_RECEIVED os c0 r c' m)"
    using read_tcp_appended [OF _ z st(2) read_result.distinct(9), of 4 0 os s r c' s'] by argo
  then have "\<exists>m \<le> 5. appended 4 0 READ_NO_DATA_RECEIVED os c0 r c' m"
    by (elim disjE exE conjE) (rule exI, rule conjI [rotated], assumption, simp)+
  then show ?thesis using st by (auto simp: appended_def)
qed

text \<open>What the socket delivers to a reader with \<open>free\<close> bytes of room in a buffer of \<open>sz\<close> bytes, from the read
  \<open>i\<close> on: one read, and further ones while the room is used up, each into a buffer of twice the size, for at most
  \<open>k\<close> enlargements.\<close>

primrec delivered :: "os \<Rightarrow> nat \<Rightarrow> nat \<Rightarrow> nat \<Rightarrow> nat \<Rightarrow> bytes list" where
  "delivered os 0 i free sz = (case os_read os i of IoGot bs \<Rightarrow> [bs] | _ \<Rightarrow> [])"
| "delivered os (Suc k) i free sz = (case os_read os i of
     IoGot bs \<Rightarrow> bs # (if length bs = free then delivered os k (i + 1) sz (2 * sz) else [])
   | _ \<Rightarrow> [])"

definition delivers :: "bytes list \<Rightarrow> read_result \<Rightarrow> read_result \<Rightarrow> conn \<Rightarrow> conn \<Rightarrow> bool" where
  "delivers D g r c c' \<longleftrightarrow> unparsed c' = unparsed c @ concat D
     \<and> (r = READ_DATA_RECEIVED \<longrightarrow> D \<noteq> [] \<or> g = READ_DATA_RECEIVED) \<and> (r = READ_NO_DATA_RECEIVED \<longrightarrow> D = [])"

lemma read_tcp_delivers:
  "read_tcp_loop k i g os c s = Some (r, c', s') \<Longrightarrow> c_rcurr c = 0 \<Longrightarrow> rbuf_ok c \<Longrightarrow> r \<noteq> READ_MEMORY_ERROR \<Longrightarrow>
     length (c_rbuf c) = c_rbytes c \<Longrightarrow>
     delivers (case k of 0 \<Rightarrow> [] | Suc k \<Rightarrow> delivered os k i (length (c_rbuf c)) (2 * length (c_rbuf c))) g r c c'"
  "read_tcp_once k i g os c s = Some (r, c', s') \<Longrightarrow> c_rcurr c = 0 \<Longrightarrow> rbuf_ok c \<Longrightarrow> r \<noteq> READ_MEMORY_ERROR \<Longrightarrow>
     delivers (delivered os k i (length (c_rbuf c) - c_rbytes c) (length (c_rbuf c))) g r c c'"
proof (induction k i g os c s and k i g os c s rule: read_tcp_loop_read_tcp_once.induct)
  case (1 i g os c s)
  then show ?case by (auto simp: delivers_def)
next
  case (2 k i g os c s)
  obtain ok c1 s1 where gr: "read_grow c s = (ok, c1, s1)" by (metis prod_cases3)
  have ok: ok using 2(2,5) gr by (auto split: if_splits)
  note gu = read_grow_unparsed [OF gr 2(3,4)]
  have b: "c_rbytes c1 = c_rbytes c" using gr ok by (auto simp: read_grow_def Let_def split: prod.splits if_splits)
  have "delivers (delivered os k i (length (c_rbuf c1) - c_rbytes c1) (length (c_rbuf c1))) g r c1 c'"
    using 2 gr gu ok by (auto simp: gr)
  then show ?case using gu(3,4) [OF ok] b 2(6) by (simp add: delivers_def)
next
  case (3 k i g os c s)
  show ?case
  proof (cases "os_read os i")
    case (IoGot bs)
    then obtain buf where rd: "read_into (c_rbuf c) (c_rbytes c) bs = Some buf" using 3 by (auto split: option.splits)
    note ru = read_into_unparsed [OF rd 3(3)]
    let ?c = "c\<lparr>c_rbuf := buf, c_rbytes := c_rbytes c + length bs\<rparr>"
    show ?thesis
    proof (cases "length bs = length (c_rbuf c) - c_rbytes c")
      case True
      then have run: "read_tcp_loop k (i + 1) READ_DATA_RECEIVED os ?c s = Some (r, c', s')"
        using 3(2) IoGot rd by (simp add: Let_def)
      have "c_rbytes c \<le> length (c_rbuf c)" using 3(4) by (simp add: rbuf_ok_def)
      then have "delivers (case k of 0 \<Rightarrow> [] | Suc k \<Rightarrow> delivered os k (i + 1) (length buf) (2 * length buf)) READ_DATA_RECEIVED r ?c c'"
        using 3(1) [OF IoGot rd refl refl True run] 3(3,5) ru(2,3) True by (cases k) simp_all
      moreover have "delivered os k i (length (c_rbuf c) - c_rbytes c) (length (c_rbuf c))
          = bs # (case k of 0 \<Rightarrow> [] | Suc k \<Rightarrow> delivered os k (i + 1) (length buf) (2 * length buf))"
        using IoGot True ru(3) by (cases k) simp_all
      moreover have "r \<noteq> READ_NO_DATA_RECEIVED"
        using read_tcp_appended(1) [OF run] 3(3) ru(2) by (auto simp: appended_def)
      ultimately show ?thesis using ru(1) by (simp add: delivers_def)
    next
      case False
      then have "r = READ_DATA_RECEIVED \<and> c' = ?c" using 3(2) IoGot rd by (auto simp: Let_def)
      moreover have "delivered os k i (length (c_rbuf c) - c_rbytes c) (length (c_rbuf c)) = [bs]"
        using IoGot False by (cases k) simp_all
      ultimately show ?thesis using ru(1) by (simp add: delivers_def)
    qed
  next
    case IoAgain
    then have "delivered os k i a b = []" for a b by (cases k) simp_all
    then show ?thesis using 3(2) IoAgain by (auto simp: delivers_def)
  qed (use 3 in \<open>cases k, auto simp: delivers_def\<close>)+
qed

text \<open>C16: unless it runs out of memory, \<open>core_read_tcp\<close> appends to the unparsed bytes exactly what the socket
  delivers, in order and nothing left out: one read, and further ones while a read fills the buffer, which is then
  doubled, at most four times (a full buffer is doubled before the first read). The buffer grows to at most sixteen
  times its size, \<open>READ_DATA_RECEIVED\<close> means that something was delivered and \<open>READ_NO_DATA_RECEIVED\<close> that nothing
  was.\<close>

theorem core_read_tcp_appends:
  assumes "rbuf_ok c" "core_read_tcp os c s = Some (r, c', s')" "r \<noteq> READ_MEMORY_ERROR"
    and "sz = length (c_rbuf c)" "free = sz - c_rbytes c"
    and "D = (if free = 0 then delivered os 3 0 sz (2 * sz) else delivered os 4 0 free sz)"
  shows "unparsed c' = unparsed c @ concat D \<and> length (c_rbuf c') \<le> 16 * length (c_rbuf c)
     \<and> (r = READ_DATA_RECEIVED \<longrightarrow> D \<noteq> []) \<and> (r = READ_NO_DATA_RECEIVED \<longrightarrow> D = [])"
proof -
  define c0 where "c0 = (if c_rcurr c \<noteq> 0 then c\<lparr>c_rbuf := (if c_rbytes c \<noteq> 0 then rbuf_compact c else c_rbuf c), c_rcurr := 0\<rparr> else c)"
  note st = read_tcp_start [OF assms(1), folded c0_def]
  have z: "c_rcurr c0 = 0" "c_rbytes c0 = c_rbytes c" by (simp_all add: c0_def)
  have run: "(if c_rbytes c0 \<ge> length (c_rbuf c0) then read_tcp_loop 4 0 READ_NO_DATA_RECEIVED os c0 s
      else read_tcp_once 4 0 READ_NO_DATA_RECEIVED os c0 s) = Some (r, c', s')"
    using assms(2) unfolding core_read_tcp_def Let_def c0_def [symmetric] .
  have "delivers D READ_NO_DATA_RECEIVED r c0 c'"
  proof (cases "c_rbytes c0 \<ge> length (c_rbuf c0)")
    case True
    then have "length (c_rbuf c0) = c_rbytes c0" using st(2) by (simp add: rbuf_ok_def)
    then show ?thesis using read_tcp_delivers(1) [of 4 0 READ_NO_DATA_RECEIVED os c0 s r c' s'] run True z st(2,3) assms(3-6)
      by (simp add: numeral_eq_Suc)
  next
    case False
    then show ?thesis using read_tcp_delivers(2) [of 4 0 READ_NO_DATA_RECEIVED os c0 s r c' s'] run z st(2,3) assms(3-6)
      by (simp del: delivered.simps)
  qed
  moreover have "length (c_rbuf c') \<le> 16 * length (c_rbuf c)"
    using core_read_tcp_appended [OF assms(1,2)] by (auto simp: appended_def)
  ultimately show ?thesis using st(1) by (simp add: delivers_def)
qed

definition demo_os :: "bytes \<Rightarrow> os" where
  "demo_os bs = \<lparr>os_read = (\<lambda>_. IoGot bs), os_send = IoAgain, os_upd = (True, True)\<rparr>"

lemma demo_read: "core_read_tcp (demo_os ''ab'') ((conn_buffers 4)\<lparr>c_rbytes := 1\<rparr>) s
    = Some (READ_DATA_RECEIVED, (conn_buffers 4)\<lparr>c_rbytes := 3, c_rbuf := [CHR 0x00, CHR ''a'', CHR ''b'', CHR 0x00]\<rparr>, s)"
  by (simp add: core_read_tcp_def demo_os_def conn_buffers_def read_into_def memcpy_at_def numeral_nat)

theorem core_read_tcp_appends_witness:
  "unparsed ((conn_buffers 4)\<lparr>c_rbytes := 3, c_rbuf := [CHR 0x00, CHR ''a'', CHR ''b'', CHR 0x00]\<rparr>)
     = unparsed ((conn_buffers 4)\<lparr>c_rbytes := 1\<rparr>) @ ''ab''"
proof -
  have "delivered (demo_os ''ab'') 4 0 3 4 = [''ab'']" by (simp add: demo_os_def numeral_eq_Suc)
  then show ?thesis
    using core_read_tcp_appends [OF _ demo_read [of demo_srv] _ refl refl refl] by (simp add: rbuf_ok_def conn_buffers_def)
qed

subsection \<open>The read markers stay inside the buffer\<close>

lemma in_buf_shrink: "conn_shrink_ilist c st = (c', st') \<Longrightarrow> in_buf c' = in_buf c"
  "conn_shrink_msg c st = (c', st') \<Longrightarrow> in_buf c' = in_buf c" "conn_shrink_iov c st = (c', st') \<Longrightarrow> in_buf c' = in_buf c"
  by (auto simp: conn_shrink_ilist_def conn_shrink_msg_def conn_shrink_iov_def Let_def split: if_splits prod.splits)

lemma shrink_rbuf:
  assumes "rbuf_ok c" "conn_shrink_rbuf c st = (c', st')" shows "rbuf_ok c'" "unparsed c' = unparsed c"
  using assms by (auto simp: conn_shrink_rbuf_def rbuf_ok_def unparsed_def rbuf_compact_def Let_def min_def split: if_splits prod.splits)

lemma shrink_ok:
  assumes "rbuf_ok c" "conn_shrink c st = (c', st')"
  shows "rbuf_ok c' \<and> unparsed c' = unparsed c"
proof (cases "c_udp c")
  case False
  obtain c1 s1 where 1: "conn_shrink_rbuf c st = (c1, s1)" by (metis surj_pair)
  obtain c2 s2 where 2: "conn_shrink_ilist c1 s1 = (c2, s2)" by (metis surj_pair)
  obtain c3 s3 where 3: "conn_shrink_msg c2 s2 = (c3, s3)" by (metis surj_pair)
  have 4: "conn_shrink_iov c3 s3 = (c', st')" using assms(2) False by (simp add: conn_shrink_def 1 2 3)
  have "in_buf c' = in_buf c1" using in_buf_shrink 2 3 4 by metis
  then show ?thesis using shrink_rbuf [OF assms(1) 1] unparsed_cong [of c' c1] by simp
qed (use assms in \<open>simp add: conn_shrink_def\<close>)

lemma reset_ok:
  assumes "rbuf_ok c" "core_reset_cmd_handler c s = (c', s')"
  shows "rbuf_ok c' \<and> unparsed c' = unparsed c"
proof -
  let ?c = "c\<lparr>c_req_type := REQ_UNKNOWN, c_req := [], c_item := None\<rparr>"
  obtain c1 st where sh: "conn_shrink ?c (item_remove_opt (c_item c) (sv_mc s)) = (c1, st)" by (metis surj_pair)
  have "in_buf ?c = in_buf c" by simp
  then have "rbuf_ok c1 \<and> unparsed c1 = unparsed c" using shrink_ok [OF _ sh] assms(1) unparsed_cong [of ?c c] by simp
  moreover have "in_buf c' = in_buf c1" using assms(2) by (auto simp: core_reset_cmd_handler_def sh Let_def)
  ultimately show ?thesis using unparsed_cong [of c' c1] by simp
qed

lemma parse_ok:
  assumes "rbuf_ok c" "core_parse c s = Some (c', s')" shows "rbuf_ok c'"
proof -
  obtain status c1 where p: "asc_parse c s = Some (status, c1, s')" and b: "in_buf c' = in_buf c1"
    using assms(2) by (auto simp: core_parse_def bind_eq_Some_conv)
  have "rbuf_ok c1"
  proof (cases "status = MC_OK")
    case True
    with p obtain el at c2 where el: "memchr (CHR 0x0A) (unparsed c) = Some el"
      and b: "in_buf c2 = ((c_rbuf c)[c_rcurr c + at := CHR 0x00], c_rcurr c, c_rbytes c)"
      and c1: "c1 = c2\<lparr>c_rbytes := c_rbytes c - (el + 1), c_rcurr := c_rcurr c + (el + 1)\<rparr>"
      by (metis parse_dispatch)
    show ?thesis using memchr_Some [OF el] assms(1) b by (auto simp: c1 rbuf_ok_def in_buf_def unparsed_def)
  qed (use parse_wait(2) [OF p] assms(1) in \<open>simp add: unparsed_cong(2) [of c1 c]\<close>)
  then show ?thesis using unparsed_cong(2) [OF b] by simp
qed

lemma read_udp_ok:
  assumes "rbuf_ok c" "core_read_udp os c = Some (r, c')" shows "rbuf_ok c'"
proof (cases "os_read os 0")
  case (IoGot bs)
  obtain buf where rd: "read_into (c_rbuf c) 0 bs = Some buf" using assms(2) IoGot by (auto simp: core_read_udp_def bind_eq_Some_conv)
  then have "length buf = length (c_rbuf c)" "length bs \<le> length (c_rbuf c)"
    by (auto simp: read_into_def memcpy_at_def split: if_splits)
  then show ?thesis
    using assms IoGot rd by (auto simp: core_read_udp_def bind_eq_Some_conv rbuf_ok_def Let_def asc_write_server_error_def asc_write_string_def
        split: if_splits)
qed (use assms in \<open>auto simp: core_read_udp_def\<close>)

lemma read_ok:
  assumes "rbuf_ok c" "core_read os c s = Some (c', s')" shows "rbuf_ok c'"
proof -
  obtain r c1 where "(if c_udp c then map_option (\<lambda>(r, c). (r, c, s)) (core_read_udp os c) else core_read_tcp os c s) = Some (r, c1, s')"
    and b: "in_buf c' = in_buf c1"
    using assms(2) by (auto simp: core_read_def bind_eq_Some_conv split: read_result.splits) (metis read_result.exhaust)
  then have "rbuf_ok c1"
    using core_read_tcp_appended [OF assms(1), of os s r c1 s'] read_udp_ok [OF assms(1), of os r c1]
    by (auto simp: appended_def split: if_splits)
  then show ?thesis using unparsed_cong(2) [OF b] by simp
qed

lemma in_buf_wait: "wait_for flags os c = (next, c') \<Longrightarrow> in_buf c' = in_buf c"
  by (auto simp: wait_for_def core_update_def Let_def split: if_splits)

lemma nread_buffered_ok:
  assumes "rbuf_ok c" "drive_nread_buffered c st = Some (c', st')" shows "rbuf_ok c'"
  using assms by (auto simp: drive_nread_buffered_def rbuf_ok_def bind_eq_Some_conv Let_def split: if_splits)

lemma nread_ok:
  assumes "rbuf_ok c" "drive_nread os c s = Some (next, c', s')" shows "rbuf_ok c'"
proof (cases "c_rlbytes c = 0")
  case True
  then have "in_buf c' = in_buf c"
    using assms(2) keeps2D [OF keeps2_complete [of c s]] by (auto simp: drive_nread_def bind_eq_Some_conv)
  then show ?thesis using assms(1) unparsed_cong(2) by blast
next
  case False
  obtain c1 st where n: "drive_nread_buffered c (sv_mc s) = Some (c1, st)"
    using assms(2) False by (auto simp: drive_nread_def bind_eq_Some_conv)
  have "in_buf c' = in_buf c1"
  proof (cases "c_rlbytes c1 = 0")
    case True
    then show ?thesis using assms(2) False n by (simp add: drive_nread_def)
  next
    case more: False
    show ?thesis
    proof (cases "os_read os 0")
      case (IoGot bs)
      then show ?thesis using assms(2) False n more by (auto simp: drive_nread_def Let_def bind_eq_Some_conv split: if_splits)
    next
      case IoAgain
      then show ?thesis using assms(2) False n more in_buf_wait [of EV_READ os c1 "fst (wait_for EV_READ os c1)"]
        by (cases "wait_for EV_READ os c1") (auto simp: drive_nread_def)
    qed (use assms(2) False n more in \<open>auto simp: drive_nread_def\<close>)
  qed
  then show ?thesis using nread_buffered_ok [OF assms(1) n] unparsed_cong(2) by blast
qed

lemma swallow_ok:
  assumes "rbuf_ok c" "drive_swallow os c = Some (next, c')" shows "rbuf_ok c'"
proof -
  have w: "rbuf_ok c'" if "wait_for EV_READ os c = (next, c')"
    using in_buf_wait [OF that] assms(1) unparsed_cong(2) by blast
  show ?thesis
    using assms w by (auto simp: drive_swallow_def Let_def rbuf_ok_def read_into_def memcpy_at_def split: if_splits io.splits)
qed

lemma keeps_transmit: "core_transmit send upd c = Some (r, c') \<Longrightarrow> in_buf c' = in_buf c"
  by (auto simp: core_transmit_def transmit_next_def transmit_sent_def core_update_def Let_def split: if_splits io.splits prod.splits)

lemma keeps_release: "conn_release_suffixes c s = Some (c', s') \<Longrightarrow> in_buf c' = in_buf c"
  by (auto simp: conn_release_suffixes_def bind_eq_Some_conv)

lemma keeps2_sent: "keeps2 c (drive_sent c s)"
  unfolding keeps2_def drive_sent_def
  by (auto simp: bind_eq_Some_conv Let_def dest!: keeps_release)

lemma keeps2_cleanup: "keeps2 c (conn_cleanup c s)"
  unfolding keeps2_def conn_cleanup_def
  by (auto simp: bind_eq_Some_conv Let_def dest!: keeps_release split: if_splits)

lemma keeps_mwrite: "drive_mwrite os c s = Some (next, c', s') \<Longrightarrow> in_buf c' = in_buf c"
  by (auto simp: drive_mwrite_def bind_eq_Some_conv Let_def dest!: keeps_transmit keepsD [OF keeps_udp] keeps2D [OF keeps2_sent]
      split: if_splits transmit_result.splits) (metis transmit_result.exhaust)+

lemma keeps_write: "drive_write os c s = Some (next, c', s') \<Longrightarrow> in_buf c' = in_buf c"
  by (auto simp: drive_write_def bind_eq_Some_conv Let_def dest!: keeps_mwrite keepsD [OF keeps_add_iov] split: if_splits)

lemma drive_step_ok:
  assumes "rbuf_ok c" "drive_step os (nreqs, c, s) = Some (next, nreqs', c', s')" shows "rbuf_ok c'"
proof (cases "c_state c")
  case CONN_WAIT
  then have "in_buf c' = in_buf c"
    using assms(2) in_buf_wait [of EV_READ os c "fst (wait_for EV_READ os c)"]
    by (cases "wait_for EV_READ os c") (auto simp: drive_step_def drive_wait_def Let_def split: if_splits)
  then show ?thesis using assms(1) unparsed_cong(2) by blast
next
  case CONN_NEW_CMD
  show ?thesis
  proof (cases "nreqs - 1 \<ge> 0")
    case True
    then show ?thesis using CONN_NEW_CMD assms reset_ok [OF assms(1), of s] by (auto simp: drive_step_def split: prod.splits)
  next
    case False
    have "in_buf (drive_yield os c) = in_buf c"
      using in_buf_wait [of EV_WRITE os c "fst (wait_for EV_WRITE os c)"] by (simp add: drive_yield_def)
    then show ?thesis using CONN_NEW_CMD assms False unparsed_cong(2) [of "drive_yield os c" c] by (simp add: drive_step_def)
  qed
next
  case CONN_CLOSE
  then have "in_buf c' = in_buf c"
    using assms(2) keeps2D [OF keeps2_cleanup [of c s]] by (auto simp: drive_step_def core_close_def bind_eq_Some_conv)
  then show ?thesis using assms(1) unparsed_cong(2) by blast
next
  case CONN_WRITE
  then have "in_buf c' = in_buf c" using assms(2) keeps_write [of os c s] by (auto simp: drive_step_def bind_eq_Some_conv)
  then show ?thesis using assms(1) unparsed_cong(2) by blast
next
  case CONN_MWRITE
  then have "in_buf c' = in_buf c" using assms(2) keeps_mwrite [of os c s] by (auto simp: drive_step_def bind_eq_Some_conv)
  then show ?thesis using assms(1) unparsed_cong(2) by blast
qed (use assms in \<open>auto simp: drive_step_def bind_eq_Some_conv
  dest: read_ok [OF assms(1)] parse_ok [OF assms(1)] nread_ok [OF assms(1)] swallow_ok [OF assms(1)]\<close>)



end
