(* ===== verification/MC_Value.thy ===== *)
theory MC_Value
  imports MC_Loop
begin

text \<open>
  Receiving the data block of a storage command: however the bytes arrive, the item is value_filled with exactly
  the bytes that follow the command line.
\<close>

text \<open>Turns of the loop that all go on.\<close>

fun drive_run :: "os list \<Rightarrow> int \<times> conn \<times> srv \<Rightarrow> (int \<times> conn \<times> srv) option" where
  "drive_run [] x = Some x"
| "drive_run (os # oss) x =
    (case drive_step os x of
       Some (next, y) \<Rightarrow> if next = CONTINUE then drive_run oss y else None
     | None \<Rightarrow> None)"

lemma item_data_memcpy:
  assumes "off + length bs \<le> length (item_data p st)" "bs \<noteq> []"
  obtains st' where "item_memcpy p off bs st = Some st'"
    "item_data p st' = take off (item_data p st) @ bs @ drop (off + length bs) (item_data p st)"
    "\<And>q. q \<noteq> p \<Longrightarrow> heap_at st' q = heap_at st q"
proof -
  let ?it = "heap_at st p"
  let ?o = "item_data_off (slab_item_size (it_id ?it) st) ?it"
  define e where "e = take (?o + off) (it_end ?it) @ bs @ drop (?o + off + length bs) (it_end ?it)"
  define st' where "st' = upd_item p (\<lambda>it. it\<lparr>it_end := e\<rparr>) st"
  have len: "?o + off + length bs \<le> length (it_end ?it)"
    using assms by (cases bs) (auto simp: item_data_def Let_def)
  then have m: "item_memcpy p off bs st = Some st'"
    by (simp add: item_memcpy_def Let_def memcpy_at_def st'_def e_def)
  have o: "item_data_off (slab_item_size (it_id (?it\<lparr>it_end := e\<rparr>)) st') (?it\<lparr>it_end := e\<rparr>) = ?o"
    by (simp add: item_data_off_def item_flag_defs st'_def slab_item_size_def upd_item_def)
  have "item_data p st' = drop ?o e" using o by (simp add: item_data_def st'_def upd_item_def Let_def)
  also have "\<dots> = take off (item_data p st) @ bs @ drop (off + length bs) (item_data p st)"
    using len by (simp add: e_def item_data_def Let_def drop_take ac_simps)
  finally show thesis using that [OF m] by (simp add: st'_def upd_item_def)
qed

text \<open>\<open>value_filled p r bs st st'\<close>: the bytes \<open>bs\<close> were written at offset \<open>r\<close> of the value of \<open>p\<close>, and nothing else.\<close>

definition value_filled :: "ptr \<Rightarrow> nat \<Rightarrow> bytes \<Rightarrow> mc \<Rightarrow> mc \<Rightarrow> bool" where
  "value_filled p r bs st st' \<longleftrightarrow>
     item_data p st' = take r (item_data p st) @ bs @ drop (r + length bs) (item_data p st)
     \<and> (\<forall>q. q \<noteq> p \<longrightarrow> heap_at st' q = heap_at st q)"

lemma filled_append:
  assumes "value_filled p r xs st st1" "value_filled p (r + length xs) ys st1 st2" "r + length xs \<le> length (item_data p st)"
  shows "value_filled p r (xs @ ys) st st2"
  using assms by (simp add: value_filled_def ac_simps)

lemma memcpy_filled:
  assumes "off + length bs \<le> length (item_data p st)" "bs \<noteq> []"
  obtains st' where "item_memcpy p off bs st = Some st'" "value_filled p off bs st st'"
  by (rule item_data_memcpy [OF assms]) (simp add: that value_filled_def)

lemma nread_buffered:
  assumes "rbuf_ok c" "c_item c = Some p" "c_ritem c + c_rlbytes c \<le> length (item_data p st)" "c_rlbytes c \<noteq> 0"
  obtains c' st' where "drive_nread_buffered c st = Some (c', st')" "value_filled p (c_ritem c) (take (c_rlbytes c) (unparsed c)) st st'"
    "c_ritem c' = c_ritem c + min (c_rlbytes c) (length (unparsed c))" "c_rlbytes c' = c_rlbytes c - length (unparsed c)"
    "unparsed c' = drop (c_rlbytes c) (unparsed c)" "rbuf_ok c'" "c_item c' = Some p" "c_state c' = c_state c"
proof (cases "c_rbytes c = 0")
  case True
  then show thesis using assms that [of c st] by (simp add: drive_nread_buffered_def value_filled_def unparsed_def)
next
  case False
  let ?n = "min (c_rlbytes c) (c_rbytes c)"
  let ?bs = "take ?n (drop (c_rcurr c) (c_rbuf c))"
  have n: "(if c_rbytes c > c_rlbytes c then c_rlbytes c else c_rbytes c) = ?n" by (simp add: min_def)
  have sl: "slice (c_rbuf c) (c_rcurr c) ?n = Some ?bs" and l: "length ?bs = ?n"
    using assms(1) by (auto simp: slice_def rbuf_ok_def)
  have u: "take (c_rlbytes c) (unparsed c) = ?bs" "length (unparsed c) = c_rbytes c"
    using assms(1) by (auto simp: unparsed_def rbuf_ok_def min_def)
  have ne: "?bs \<noteq> []" using l False assms(4) by (metis list.size(3) min_def)
  obtain st' where m: "item_memcpy p (c_ritem c) ?bs st = Some st'" "value_filled p (c_ritem c) ?bs st st'"
    by (rule memcpy_filled [OF _ ne, of "c_ritem c" p st]) (use l assms(3) in auto)
  show thesis
  proof (rule that [of "c\<lparr>c_ritem := c_ritem c + ?n, c_rlbytes := c_rlbytes c - ?n, c_rcurr := c_rcurr c + ?n,
      c_rbytes := c_rbytes c - ?n\<rparr>" st'])
    show "drive_nread_buffered c st = Some (c\<lparr>c_ritem := c_ritem c + ?n, c_rlbytes := c_rlbytes c - ?n, c_rcurr := c_rcurr c + ?n,
      c_rbytes := c_rbytes c - ?n\<rparr>, st')"
      using assms(2) False sl m(1) by (simp add: drive_nread_buffered_def n Let_def)
    show "value_filled p (c_ritem c) (take (c_rlbytes c) (unparsed c)) st st'" using m u by simp
  qed (use assms u in \<open>auto simp: unparsed_def rbuf_ok_def drop_take ac_simps min_def\<close>)
qed

lemma nread_turn:
  assumes "rbuf_ok c" "c_state c = CONN_NREAD" "c_item c = Some p"
    "c_ritem c + c_rlbytes c \<le> length (item_data p (sv_mc s))" "length (unparsed c) < c_rlbytes c"
    "os_read os 0 = IoGot bs" "bs \<noteq> []" "length (unparsed c @ bs) \<le> c_rlbytes c"
  obtains c' s' where "drive_step os (k, c, s) = Some (CONTINUE, k, c', s')" "value_filled p (c_ritem c) (unparsed c @ bs) (sv_mc s) (sv_mc s')"
    "c_ritem c' = c_ritem c + length (unparsed c @ bs)" "c_rlbytes c' = c_rlbytes c - length (unparsed c @ bs)"
    "unparsed c' = []" "rbuf_ok c'" "c_item c' = Some p" "c_state c' = CONN_NREAD"
proof -
  let ?u = "unparsed c"
  have n0: "c_rlbytes c \<noteq> 0" using assms(5) by simp
  obtain c1 st1 where b: "drive_nread_buffered c (sv_mc s) = Some (c1, st1)" and f1: "value_filled p (c_ritem c) ?u (sv_mc s) st1"
    and c1: "c_ritem c1 = c_ritem c + length ?u" "c_rlbytes c1 = c_rlbytes c - length ?u" "unparsed c1 = []" "rbuf_ok c1"
      "c_item c1 = Some p" "c_state c1 = CONN_NREAD"
    using nread_buffered [OF assms(1,3,4) n0] assms(2,5) by (metis drop_eq_Nil less_imp_le_nat min.absorb2 take_all)
  have d1: "length (item_data p st1) = length (item_data p (sv_mc s))"
    using f1 assms(4,5) by (auto simp: value_filled_def)
  obtain st2 where m: "item_memcpy p (c_ritem c1) bs st1 = Some st2" and f2: "value_filled p (c_ritem c1) bs st1 st2"
    by (rule memcpy_filled [OF _ assms(7), of "c_ritem c1" p st1]) (use assms(4,8) c1(1) d1 in auto)
  let ?c = "c1\<lparr>c_ritem := c_ritem c1 + length bs, c_rlbytes := c_rlbytes c1 - length bs\<rparr>"
  show thesis
  proof (rule that [of ?c "s\<lparr>sv_mc := st2\<rparr>"])
    show "drive_step os (k, c, s) = Some (CONTINUE, k, ?c, s\<lparr>sv_mc := st2\<rparr>)"
      using assms(2,5-8) n0 b c1 m by (simp add: drive_step_def drive_nread_def Let_def)
    show "value_filled p (c_ritem c) (?u @ bs) (sv_mc s) (sv_mc (s\<lparr>sv_mc := st2\<rparr>))"
      using filled_append [OF f1, of bs st2] f2 c1(1) assms(4,5) by simp
  qed (use c1 in \<open>simp_all add: unparsed_def rbuf_ok_def\<close>)
qed

definition received :: "os list \<Rightarrow> bytes" where
  "received oss = concat (map (\<lambda>os. got os 0) oss)"

text \<open>The answers that complete a data block of which \<open>m\<close> bytes are missing: any division into pieces, or
  a single turn if nothing is missing.\<close>

definition delivers :: "nat \<Rightarrow> os list \<Rightarrow> bool" where
  "delivers m oss \<longleftrightarrow>
    (if m = 0 then length oss = 1 else list_all (\<lambda>os. got os 0 \<noteq> []) oss \<and> length (received oss) = m)"

lemma got_IoGot: "got os i \<noteq> [] \<Longrightarrow> os_read os i = IoGot (got os i)"
  by (simp add: got_def split: io.splits)

lemma nread_pieces:
  assumes "rbuf_ok c" "c_state c = CONN_NREAD" "c_item c = Some p"
    "c_ritem c + c_rlbytes c \<le> length (item_data p (sv_mc s))" "length (unparsed c) < c_rlbytes c"
    "list_all (\<lambda>os. got os 0 \<noteq> []) oss" "length (unparsed c @ received oss) = c_rlbytes c"
  shows "\<exists>c' s'. drive_run oss (k, c, s) = Some (k, c', s') \<and> value_filled p (c_ritem c) (unparsed c @ received oss) (sv_mc s) (sv_mc s')
    \<and> c_rlbytes c' = 0 \<and> unparsed c' = [] \<and> c_item c' = Some p \<and> c_state c' = CONN_NREAD"
  using assms
proof (induction oss arbitrary: c s)
  case Nil
  then show ?case by (simp add: received_def)
next
  case (Cons os oss)
  let ?bs = "got os 0"
  have rec: "received (os # oss) = ?bs @ received oss" by (simp add: received_def)
  have le: "length (unparsed c @ ?bs) \<le> c_rlbytes c" using Cons.prems(7) by (simp add: rec)
  obtain c1 s1 where st: "drive_step os (k, c, s) = Some (CONTINUE, k, c1, s1)"
    and f: "value_filled p (c_ritem c) (unparsed c @ ?bs) (sv_mc s) (sv_mc s1)"
    and c1: "c_ritem c1 = c_ritem c + length (unparsed c @ ?bs)" "c_rlbytes c1 = c_rlbytes c - length (unparsed c @ ?bs)"
      "unparsed c1 = []" "rbuf_ok c1" "c_item c1 = Some p" "c_state c1 = CONN_NREAD"
    using nread_turn [OF Cons.prems(1-5) got_IoGot _ le, of k] Cons.prems(6) by auto
  have d1: "length (item_data p (sv_mc s1)) = length (item_data p (sv_mc s))"
    using f le Cons.prems(4) by (auto simp: value_filled_def)
  show ?case
  proof (cases "oss = []")
    case True
    then show ?thesis using st f c1 Cons.prems(7) by (simp add: rec received_def)
  next
    case False
    then have "0 < length (received oss)" using Cons.prems(6) by (cases oss) (auto simp: received_def)
    then have h: "length (unparsed c1) < c_rlbytes c1" using Cons.prems(7) c1(2,3) by (simp add: rec del: length_greater_0_conv)
    have h': "c_ritem c1 + c_rlbytes c1 \<le> length (item_data p (sv_mc s1))" "length (unparsed c1 @ received oss) = c_rlbytes c1"
      using Cons.prems(4,7) c1(1-3) d1 le by (simp_all add: rec)
    obtain c2 s2 where "drive_run oss (k, c1, s1) = Some (k, c2, s2)" "value_filled p (c_ritem c1) (received oss) (sv_mc s1) (sv_mc s2)"
      "c_rlbytes c2 = 0 \<and> unparsed c2 = [] \<and> c_item c2 = Some p \<and> c_state c2 = CONN_NREAD"
      using Cons.IH [OF c1(4,6,5) h'(1) h _ h'(2)] Cons.prems(6) c1(3) by auto
    then show ?thesis
      using st f c1(1) filled_append [OF f, of "received oss" "sv_mc s2"] le Cons.prems(4) by (simp add: rec)
  qed
qed

text \<open>C11: However the data block of a storage command is divided into pieces, part of it already buffered and the
  rest delivered by any number of reads, the loop gets to the end of it and the item holds exactly its bytes,
  at their place; the bytes after the block stay unparsed, and no other item is written.\<close>

theorem nread_fills_value:
  assumes ok: "rbuf_ok c" "c_state c = CONN_NREAD" "c_item c = Some p"
    and room: "c_ritem c + c_rlbytes c \<le> length (item_data p (sv_mc s))" "c_rlbytes c > 0"
    and input: "delivers (c_rlbytes c - length (unparsed c)) oss"
  shows "\<exists>c' s'. drive_run oss (k, c, s) = Some (k, c', s')
    \<and> value_filled p (c_ritem c) (take (c_rlbytes c) (unparsed c @ received oss)) (sv_mc s) (sv_mc s')
    \<and> c_rlbytes c' = 0 \<and> unparsed c' = drop (c_rlbytes c) (unparsed c) \<and> c_item c' = Some p \<and> c_state c' = CONN_NREAD"
proof (cases "c_rlbytes c \<le> length (unparsed c)")
  case True
  then obtain os where os: "oss = [os]" using input by (cases oss) (auto simp: delivers_def)
  obtain c1 st1 where "drive_nread_buffered c (sv_mc s) = Some (c1, st1)"
    "value_filled p (c_ritem c) (take (c_rlbytes c) (unparsed c)) (sv_mc s) st1" "c_rlbytes c1 = c_rlbytes c - length (unparsed c)"
    "unparsed c1 = drop (c_rlbytes c) (unparsed c)" "c_item c1 = Some p" "c_state c1 = c_state c"
    using nread_buffered [OF ok(1,3) room(1)] room(2) by (metis less_numeral_extra(3))
  then show ?thesis using True os ok(2) room(2) by (simp add: drive_step_def drive_nread_def Let_def)
next
  case False
  then have d: "list_all (\<lambda>os. got os 0 \<noteq> []) oss" "length (unparsed c @ received oss) = c_rlbytes c"
    using input by (auto simp: delivers_def)
  then show ?thesis using nread_pieces [OF ok room(1) _ d, of k] False by simp
qed

text \<open>A block of four bytes, one of them buffered, that arrives in two pieces.\<close>

definition demo_item :: item where
  "demo_item = (heap_at demo_st (0, 0))\<lparr>it_nbyte := 2, it_flags := {}, it_nkey := 1, it_end := replicate 12 (CHR 0x00)\<rparr>"

definition demo_store :: srv where
  "demo_store = demo_srv\<lparr>sv_mc := demo_st\<lparr>st_heap := (\<lambda>_. demo_item)\<rparr>\<rparr>"

definition demo_nread :: conn where
  "demo_nread = (conn_buffers 4)\<lparr>c_state := CONN_NREAD, c_item := Some (0, 0), c_rlbytes := 4, c_rbuf := ''a___'', c_rbytes := 1\<rparr>"

lemma demo_data: "item_data (0, 0) (sv_mc demo_store) = replicate 10 (CHR 0x00)"
  by (simp add: demo_store_def demo_item_def item_data_def item_data_off_def item_flag_defs)

theorem nread_fills_value_witness:
  "\<exists>c' s'. drive_run [demo_os ''b'', demo_os ''cd''] (1, demo_nread, demo_store) = Some (1, c', s')
    \<and> item_data (0, 0) (sv_mc s') = ''abcd'' @ replicate 6 (CHR 0x00)"
proof -
  have "\<exists>c' s'. drive_run [demo_os ''b'', demo_os ''cd''] (1, demo_nread, demo_store) = Some (1, c', s')
      \<and> value_filled (0, 0) (c_ritem demo_nread) (take (c_rlbytes demo_nread) (unparsed demo_nread @ received [demo_os ''b'', demo_os ''cd'']))
          (sv_mc demo_store) (sv_mc s')
      \<and> c_rlbytes c' = 0 \<and> unparsed c' = drop (c_rlbytes demo_nread) (unparsed demo_nread) \<and> c_item c' = Some (0, 0)
      \<and> c_state c' = CONN_NREAD"
    by (rule nread_fills_value)
      (simp_all add: demo_nread_def conn_buffers_def rbuf_ok_def demo_data delivers_def received_def got_def demo_os_def unparsed_def)
  then show ?thesis
    by (auto simp: value_filled_def demo_data demo_nread_def conn_buffers_def received_def got_def demo_os_def unparsed_def numeral_nat)
qed

end
