(* ===== verification/MC_Contract.thy ===== *)
theory MC_Contract
  imports MC_Update MC_Profile
begin

text \<open>
  What the item layer promises to the command layer.
\<close>

text \<open>Concrete runs start in \<open>demo_st\<close>, where both pools are fresh.\<close>

definition fresh_pool :: "bool \<Rightarrow> mc \<Rightarrow> bool" where
  "fresh_pool res st \<longleftrightarrow> st_settings st = demo_settings \<and> st_slabclass_max_id st = 2 \<and> lruq_of res st (Suc 0) = []
     \<and> slabclass_of res st (Suc 0) = slab_class_new 480 128 \<and> hi_nslab (heapinfo_of res st) = 0 \<and> hi_max_nslab (heapinfo_of res st) = 8
     \<and> sc_size (st_slabclass st (Suc 0)) = 128 \<and> sc_size (st_slabclass st (Suc (Suc 0))) = 256"

lemma demo_st_fresh: "fresh_pool res demo_st"
  by (cases res) (simp_all add: fresh_pool_def lruq_of_def slabclass_of_def heapinfo_of_def demo_st_def core_init_defs demo_settings_def Let_def
      slab_class_new_def zero_heapinfo_def zero_slabclass_def SLABCLASS_MIN_ID_def SLABCLASS_MAX_ID_def SLAB_HDR_SIZE_def slab_size_def)

lemma demo_st_fields: "st_settings demo_st = demo_settings"
  using demo_st_fresh by (simp add: fresh_pool_def)

lemma fresh_pool_upd [simp]:
  "fresh_pool res (upd_item p f st) = fresh_pool res st" "fresh_pool res (item_acquire_refcount p st) = fresh_pool res st"
  "fresh_pool res (item_release_refcount p st) = fresh_pool res st"
  by (cases res; simp add: fresh_pool_def item_acquire_refcount_def slab_acquire_refcount_def item_release_refcount_def slab_release_refcount_def mc_upd)+

lemma fresh_slabid:
  assumes "fresh_pool res st" "nkey + nbyte \<le> 50" shows "item_slabid nkey nbyte st = Suc 0"
  using assms by (simp add: fresh_pool_def item_slabid_def slab_id_def slab_id_of_def item_ntotal_def demo_settings_def Let_def
      SLABCLASS_MIN_ID_def ITEM_HDR_SIZE_def CRLF_LEN_def slabclass_of_def slab_id_loop.simps)

lemma fresh_slab_item:
  assumes "fresh_pool res st"
  shows "\<exists>p s. slab_get_item_of res (Suc 0) st = Some (Some p, s) \<and> length (it_end (heap_at s p)) = 128 - ITEM_HDR_SIZE
    \<and> (fresh_pool (\<not> res) st \<longrightarrow> fresh_pool (\<not> res) s) \<and> st_settings s = demo_settings"
proof -
  note f = assms [unfolded fresh_pool_def]
  let ?sl = "st_next_slab st"
  define s1 where "s1 = slab_table_update res ?sl (st\<lparr>st_next_slab := Suc ?sl\<rparr>)"
  have 1: "slab_get_new res st = (Some ?sl, s1)"
    using f by (simp add: slab_get_new_def slab_heap_full_def slab_heap_alloc_def demo_settings_def s1_def)
  have c1: "slabclass_of res s1 (Suc 0) = slab_class_new 480 128" "st_settings s1 = demo_settings"
    using f by (cases res; simp add: s1_def slab_table_update_def mc_upd)+
  define s2 where "s2 = slab_add_one res ?sl (Suc 0) s1"
  let ?s = "slab_lruq_append res ?sl (slab_hdr_init ?sl (Suc 0) s1)"
  obtain h where h: "fold (\<lambda>i. item_hdr_init (?sl, i) (SLAB_HDR_SIZE + i * 128) (Suc 0) 128) [0..<480 div 128] ?s = ?s\<lparr>st_heap := h\<rparr>"
    using fold_item_hdr_init_state [of ?sl "\<lambda>i. SLAB_HDR_SIZE + i * 128" "Suc 0" 128 "480 div 128" ?s] by blast
  have hp: "it_end (h (?sl, 0)) = replicate (128 - ITEM_HDR_SIZE) (CHR 0x00)"
    using fold_item_hdr_init [of ?sl "\<lambda>i. SLAB_HDR_SIZE + i * 128" "Suc 0" 128 "480 div 128" ?s "(?sl, 0)"] unfolding h by simp
  have e: "s2 = upd_class res (Suc 0) (\<lambda>c. c\<lparr>sc_nfree_item := sc_nitem c, sc_free_item := Some (?sl, 0)\<rparr>) (?s\<lparr>st_heap := h\<rparr>)"
    using h by (simp add: s2_def slab_add_one_def Let_def c1 slab_class_new_def)
  have 2: "sc_free_item (slabclass_of res s2 (Suc 0)) = Some (?sl, 0)" "st_heap s2 = h" "st_settings s2 = demo_settings"
    unfolding e using c1 by (cases res; simp add: mc_upd slab_lruq_append_def slab_hdr_init_def)+
  obtain n c where t: "slab_take_free_item res (Suc 0) s2 = Some (Some (?sl, 0), upd_class res (Suc 0) (\<lambda>x. x\<lparr>sc_nfree_item := n, sc_free_item := c\<rparr>) s2)"
    by (simp add: slab_take_free_item_def 2 Let_def)
  have "slab_get_item_of res (Suc 0) st = slab_take_free_item res (Suc 0) s2"
    using f by (simp add: slab_get_item_of_def slab_get_item_from_freeq_def demo_settings_def slab_class_new_def slab_get_def 1 s2_def Let_def)
  moreover have "fresh_pool (\<not> res) (upd_class res (Suc 0) (\<lambda>x. x\<lparr>sc_nfree_item := n, sc_free_item := c\<rparr>) s2)" if "fresh_pool (\<not> res) st"
    using that unfolding e s1_def
    by (cases res) (simp_all add: fresh_pool_def mc_upd slab_lruq_append_def slab_hdr_init_def slab_table_update_def lruq_of_def slabclass_of_def heapinfo_of_def slab_class_new_def)
  ultimately show ?thesis using t 2 hp by (auto simp: upd_class_def)
qed

lemma lruq_scan_Nil: "lruq_scan n [] st = None"
  by (cases n) simp_all

lemma fresh_alloc:
  assumes "fresh_pool res st" "length key + length bs \<le> 50"
  shows "\<exists>p s. item_alloc (item_slabid (length key) (length bs) st) key flags ex (length bs) res st = Some (Some p, s)
    \<and> item_memcpy p 0 bs s \<noteq> None \<and> (fresh_pool (\<not> res) st \<longrightarrow> fresh_pool (\<not> res) s)"
proof -
  note f = assms(1) [unfolded fresh_pool_def]
  obtain p s where s: "slab_get_item_of res (Suc 0) st = Some (Some p, s)" "length (it_end (heap_at s p)) = 128 - ITEM_HDR_SIZE"
    "fresh_pool (\<not> res) st \<longrightarrow> fresh_pool (\<not> res) s" "st_settings s = demo_settings"
    using fresh_slab_item [OF assms(1)] by blast
  have "slab_get_item_of res (Suc 0) st = (if res then slab_get_reserved_item (Suc 0) st else slab_get_item (Suc 0) st)"
    using f by (simp add: slab_get_reserved_item_def slab_get_item_def slab_has_reserved_slabs_def demo_settings_def)
  then have g: "(if res then slab_get_reserved_item (Suc 0) st else slab_get_item (Suc 0) st) = Some (Some p, s)" using s(1) by simp
  let ?s = "upd_item p (\<lambda>it. it\<lparr>it_flags := {ITEM_CAS}, it_dataflags := flags, it_nbyte := length bs, it_exptime := ex, it_nkey := length key,
        it_sess_status := ALIVE, it_coflags := {}, it_p := 0, it_config_number := -1\<rparr>) (item_acquire_refcount p s)"
  obtain e where e: "memcpy_at (it_end (heap_at s p)) 8 key = Some e" "length e = 128 - ITEM_HDR_SIZE"
    using s(2) assms(2) by (auto simp: memcpy_at_def ITEM_HDR_SIZE_def)
  have h: "heap_at ?s p = (heap_at s p)\<lparr>it_refcount := it_refcount (heap_at s p) + 1, it_flags := {ITEM_CAS}, it_dataflags := flags, it_nbyte := length bs,
        it_exptime := ex, it_nkey := length key, it_sess_status := ALIVE, it_coflags := {}, it_p := 0, it_config_number := -1\<rparr>"
    by (simp add: upd_item_def heap_release)
  have st: "st_settings (item_acquire_refcount p s) = demo_settings" using s(4) by (simp add: item_acquire_refcount_def slab_acquire_refcount_def mc_upd)
  have "item_alloc (Suc 0) key flags ex (length bs) res st = Some (Some p, upd_item p (\<lambda>it. it\<lparr>it_end := e\<rparr>) ?s)"
    using f g e(1) h assms(2) st
    by (simp add: item_alloc_def item_alloc_config_def item_get_from_lruq_def lruq_scan_Nil item_alloc_slow_def item_alloc_done_def demo_settings_def
        item_key_off_def item_flag_defs SLABCLASS_MAX_ID_def Let_def)
  moreover have "item_memcpy p 0 bs (upd_item p (\<lambda>it. it\<lparr>it_end := e\<rparr>) ?s) \<noteq> None"
    using e(2) assms(2) h by (simp add: item_memcpy_def memcpy_at_def item_data_off_def item_flag_defs upd_item_def ITEM_HDR_SIZE_def Let_def)
  moreover have "fresh_pool (\<not> res) (upd_item p (\<lambda>it. it\<lparr>it_end := e\<rparr>) ?s)" if "fresh_pool (\<not> res) st"
    using s(3) that by simp
  ultimately show ?thesis unfolding fresh_slabid [OF assms] by blast
qed

subsection \<open>Values\<close>

lemma item_data_written:
  assumes "item_memcpy p 0 bs st = Some st'"
  shows "item_data p st' = bs @ drop (length bs) (item_data p st)"
proof -
  let ?it = "heap_at st p"
  let ?o = "item_data_off (slab_item_size (it_id ?it) st) ?it"
  obtain e where e: "memcpy_at (it_end ?it) ?o bs = Some e" "st' = upd_item p (\<lambda>it. it\<lparr>it_end := e\<rparr>) st"
    using assms by (auto simp: item_memcpy_def Let_def split: option.splits)
  have o: "item_data_off (slab_item_size (it_id ?it) st') (?it\<lparr>it_end := e\<rparr>) = ?o"
    by (simp add: item_data_off_def item_flag_defs e(2) slab_item_size_def upd_item_def)
  have "item_data p st' = drop ?o e" using o by (simp add: item_data_def e(2) upd_item_def Let_def)
  then show ?thesis using e(1) by (auto simp: memcpy_at_def item_data_def Let_def ac_simps split: if_splits)
qed

lemma item_value_linked_as:
  assumes "frame st st'" "same_payload (linked_as cas t ((heap_at st p)\<lparr>it_p := b\<rparr>)) (heap_at st' p)"
    "fits_item st (heap_at st p)" "\<not> item_is_raligned (heap_at st p)"
  shows "item_value p st' = item_value p st"
proof -
  note p = same_payloadD [OF assms(2)]
  have sz: "slab_item_size (it_id (heap_at st' p)) st' = slab_item_size (it_id (heap_at st p)) st"
    using assms(1) p(3) by (simp add: slab_item_size_def frame_def)
  have "item_data p st' = drop (item_data_off (slab_item_size (it_id (heap_at st p)) st) (linked_as cas t ((heap_at st p)\<lparr>it_p := b\<rparr>)))
      (it_end (linked_as cas t ((heap_at st p)\<lparr>it_p := b\<rparr>)))"
    by (simp add: item_data_def Let_def sz p(6,11))
  also have "\<dots> = item_data p st"
    using linked_as_end [of st "(heap_at st p)\<lparr>it_p := b\<rparr>" "slab_item_size (it_id (heap_at st p)) st" cas t] assms(3,4)
    by (simp add: item_data_def Let_def item_data_off_def item_flag_defs)
  finally show ?thesis by (simp add: item_value_def p(5))
qed

text \<open>What is cached under a key is never changed by an operation on other items: it stays or goes.\<close>

lemma other_keys:
  assumes "mc_ok M st" "mc_ok N st'" "linked_from P st st'" "item_find k st' = Some q" "q \<notin> P"
  shows "item_find k st = Some q \<and> item_value q st' = item_value q st"
proof -
  have q: "item_is_linked (heap_at st' q)" "key_at st' q = k"
    using item_find_iff [OF store_invD(1) [OF mc_okD(1) [OF assms(2)]]] assms(4) by auto
  note l = linked_fromD(1,2) [OF assms(3,5) q(1)]
  have "key_at st q = k" using same_payloadD(10) [OF l(2)] q(2) by (simp add: key_at_def)
  then show ?thesis
    using item_find_iff [OF store_invD(1) [OF mc_okD(1) [OF assms(1)]]] l item_value_payload [OF linked_fromD(3) [OF assms(3)]] by blast
qed

lemma evicts_linked_from: "evicts P st st' \<Longrightarrow> linked_from P st st'"
  unfolding evicts_def linked_from_def by (metis same_payload_refl)

lemma set_stores:
  assumes "item_store p REQ_SET token st = Some (res, st')" "it_nbyte (heap_at st p) \<noteq> 0"
  shows "res = STORED"
  using assms by (auto simp: item_store_def item_store_miss_def item_store_hit_def Let_def bind_eq_Some_conv split: option.splits)

lemma item_store_ok:
  assumes ok: "mc_ok M st" "room (Suc (Suc (Suc k))) st"
    and p: "\<not> item_is_linked (heap_at st p)" "p \<in># M" "fits_item st (heap_at st p)" "\<not> pinned (heap_at st p)"
    and run: "item_store p type token st = Some (result, st')"
  obtains q b where "mc_ok M st'" "room k st'" "stored_step (key_at st p) (if result = STORED then Some q else None) st st'"
    "result = STORED \<Longrightarrow> type \<noteq> REQ_APPEND \<Longrightarrow> type \<noteq> REQ_PREPEND
       \<Longrightarrow> q = p \<and> (\<exists>cas t. same_payload (linked_as cas t ((heap_at st p)\<lparr>it_p := b\<rparr>)) (heap_at st' p))"
    "result \<noteq> STORED \<or> q \<noteq> p \<Longrightarrow> \<not> item_is_linked (heap_at st' p)"
proof -
  have i: "store_inv (pin p st + M) st" using mc_okD(1) [OF ok(1)] p(4) by (simp add: pin_def)
  show thesis
  proof (rule item_store_inv [OF i ok(2) mc_okD(2,3) [OF ok(1)] p(1,2,3) run])
    fix q b
    assume s: "store_inv (M + (if item_is_linked (heap_at st' p) then {#} else pin p st)) st'" "room k st'"
      "stored_step (key_at st p) (if result = STORED then Some q else None) st st'"
      "result = STORED \<Longrightarrow> type \<noteq> REQ_APPEND \<Longrightarrow> type \<noteq> REQ_PREPEND
         \<Longrightarrow> q = p \<and> (\<exists>cas t. same_payload (linked_as cas t ((heap_at st p)\<lparr>it_p := b\<rparr>)) (heap_at st' p))"
      "result \<noteq> STORED \<or> q \<noteq> p \<Longrightarrow> \<not> item_is_linked (heap_at st' p)"
    have "store_inv M st'" using s(1) p(4) by (simp add: pin_def split: if_splits)
    then have "mc_ok M st'"
      using stored_step_fits [OF s(3) mc_okD(2) [OF ok(1)]] classes_ok_frame mc_okD(3) [OF ok(1)] by (auto simp: mc_ok_def)
    then show thesis using that s(2-5) by blast
  qed
qed

lemma found_live:
  assumes "item_find key st = Some p" "it_exptime (heap_at st p) = 0 \<or> st_now st < it_exptime (heap_at st p)"
    "set_oldest_live (st_settings st) = 0"
  shows "found key st = Some p"
  using assms by (auto simp: found_def item_stale_def)

text \<open>A new item with a value: what allocation and copying leave.\<close>

lemma alloc_fill:
  assumes ok: "mc_ok M st" "room (Suc k) st"
    and alloc: "item_alloc (item_slabid (length key) (length v) st) key flags ex (length v) False st = Some (Some p, s1)"
    and fill: "item_memcpy p 0 (v @ rest) s1 = Some s2" and key: "length key < 256"
  shows "mc_ok (add_mset p M) s2" "room k s2" "linked_from {p} st s2" "\<not> item_is_linked (heap_at s2 p)" "fits_item s2 (heap_at s2 p)"
    "\<not> pinned (heap_at s2 p)" "\<not> item_is_raligned (heap_at s2 p)" "key_at s2 p = key" "item_value p s2 = v"
    "it_nbyte (heap_at s2 p) = length v" "it_dataflags (heap_at s2 p) = flags" "it_exptime (heap_at s2 p) = ex"
    "it_refcount (heap_at st q) \<noteq> 0 \<Longrightarrow> heap_at s2 q = heap_at st q"
proof -
  have a: "mc_ok (add_mset p M) s1" "room k s1" "evicts {p} st s1" "\<not> item_is_linked (heap_at s1 p)"
    "fits_item s1 (heap_at s1 p)" "key_at s1 p = key" "it_flags (heap_at s1 p) \<subseteq> {ITEM_CAS}" "it_coflags (heap_at s1 p) = {}"
    "it_nbyte (heap_at s1 p) = length v" "it_dataflags (heap_at s1 p) = flags" "it_exptime (heap_at s1 p) = ex" "it_refcount (heap_at st p) = 0"
    using item_alloc_ok [OF ok alloc order_refl key] by (auto simp: fresh_header_def)
  note m = item_memcpy_inv [OF mc_okD(1) [OF a(1)] a(2,5) fill] and mo = item_memcpy_ok [OF a(1,2,5) fill]
  show "mc_ok (add_mset p M) s2" "room k s2" "fits_item s2 (heap_at s2 p)" "linked_from {p} st s2"
    using mo m(7) linked_from_trans [OF evicts_linked_from [OF a(3)] m(3)] by simp_all
  have hp: "it_flags (heap_at s2 p) = it_flags (heap_at s1 p)" "it_coflags (heap_at s2 p) = it_coflags (heap_at s1 p)"
    "it_nbyte (heap_at s2 p) = length v" "it_dataflags (heap_at s2 p) = flags" "it_exptime (heap_at s2 p) = ex"
    using a(9-11) by (subst m(6), simp)+
  then show "it_nbyte (heap_at s2 p) = length v" "it_dataflags (heap_at s2 p) = flags" "it_exptime (heap_at s2 p) = ex" by simp_all
  show "\<not> item_is_linked (heap_at s2 p)" "\<not> pinned (heap_at s2 p)" "\<not> item_is_raligned (heap_at s2 p)" "key_at s2 p = key"
    using a(4,6-8) hp(1,2) m(4) by (auto simp: item_flag_defs pinned_def unpins_def)
  show "item_value p s2 = v" using item_data_written [OF fill] hp(3) by (simp add: item_value_def)
  show "heap_at s2 q = heap_at st q" if "it_refcount (heap_at st q) \<noteq> 0"
    using evicts_ref [OF a(3), of q] a(12) m(5) [of q] that by (cases "q = p") auto
qed

text \<open>An item that was stored is found, with its value.\<close>

lemma store_then_get:
  assumes ok: "mc_ok M st" "room (k + 4) st"
    and p: "\<not> item_is_linked (heap_at st p)" "p \<in># M" "fits_item st (heap_at st p)" "\<not> pinned (heap_at st p)" "\<not> item_is_raligned (heap_at st p)"
    and store: "item_store p type token st = Some (STORED, st')" "type \<noteq> REQ_APPEND" "type \<noteq> REQ_PREPEND"
    and live: "it_exptime (heap_at st p) = 0 \<or> st_now st < it_exptime (heap_at st p)" "set_oldest_live (st_settings st) = 0"
  obtains s where "item_get (key_at st p) st' = Some (Some p, s)" "item_value p s = item_value p st" "it_dataflags (heap_at s p) = it_dataflags (heap_at st p)"
    "mc_ok (add_mset p M) s" "mc_ok M st'" "linked_from {p} st st'" "item_find (key_at st p) st' = Some p"
    "\<not> item_is_raligned (heap_at s p)" "it_nbyte (heap_at s p) = it_nbyte (heap_at st p)" "room (Suc k) st'"
proof -
  have r: "room (Suc (Suc (Suc (Suc k)))) st" using ok(2) by (simp add: eval_nat_numeral)
  obtain b cas t where s: "mc_ok M st'" "room (Suc k) st'" "stored_step (key_at st p) (Some p) st st'"
    "same_payload (linked_as cas t ((heap_at st p)\<lparr>it_p := b\<rparr>)) (heap_at st' p)"
    by (rule item_store_ok [OF ok(1) r p(1-4) store(1)]) (use store(2,3) in auto)
  have st: "linked_from {p} st st'" "item_find (key_at st p) st' = Some p" using s(3) by (simp_all add: stored_step_def)
  note fr = linked_fromD(3) [OF st(1)]
  have v: "item_value p st' = item_value p st" "it_dataflags (heap_at st' p) = it_dataflags (heap_at st p)" "it_exptime (heap_at st' p) = it_exptime (heap_at st p)"
    using item_value_linked_as [OF fr s(4) p(3,5)] same_payloadD(7,8) [OF s(4)] by (simp_all add: linked_as_def)
  have "found (key_at st p) st' = Some p" using found_live [OF st(2)] v(3) live fr by (simp add: frame_def st_now_def)
  moreover obtain s' where "item_get (key_at st p) st' = Some (found (key_at st p) st', s')"
    by (rule item_get_inv [OF mc_okD(1) [OF s(1)] s(2)]) blast
  ultimately have g: "item_get (key_at st p) st' = Some (Some p, s')" by simp
  note fg = found_get [OF s(1,2) g]
  have "item_value p s' = item_value p st" "it_dataflags (heap_at s' p) = it_dataflags (heap_at st p)"
    using v item_value_payload [of st' s' p] by (simp_all add: fg(5) heap_release)
  moreover have "\<not> item_is_raligned (heap_at s' p)" "it_nbyte (heap_at s' p) = it_nbyte (heap_at st p)"
    using p(5) same_payloadD(1,5) [OF s(4)] by (simp_all add: fg(5) heap_release item_flag_defs linked_as_def)
  ultimately show thesis using that g fg(1) s(1,2) st by blast
qed

lemma other_than_stored:
  assumes "mc_ok M st" "mc_ok N st'" "linked_from {p} st st'" "item_find key st' = Some p" "k' \<noteq> key" "item_find k' st' = Some q"
  shows "item_find k' st = Some q \<and> item_value q st' = item_value q st"
proof -
  have "q \<noteq> p" using assms(4-6) item_find_iff [OF store_invD(1) [OF mc_okD(1) [OF assms(2)]]] by metis
  then show ?thesis using other_keys [OF assms(1-3,6)] by simp
qed


text \<open>Linking an item does not fail unless slabs are evicted in LRU order.\<close>

lemma item_link_total:
  assumes "EVICT_CS \<notin> set_evict_opt (st_settings st)" "EVICT_AS \<notin> set_evict_opt (st_settings st)"
  shows "item_link p st \<noteq> None"
proof -
  have t: "slab_lruq_touch r sl al t \<noteq> None" if "st_settings t = st_settings st" for r sl al t
    using assms that by (simp add: slab_lruq_touch_def Let_def)
  have s: "st_settings (item_assoc_insert p t) = st_settings t" "st_settings (snd (item_next_cas t)) = st_settings t"
    "st_settings (upd_item p f t) = st_settings t" "st_settings (upd_lruq r c q t) = st_settings t" "st_settings (set_flag fl p t) = st_settings t"
    for f r c q fl t
    by (simp_all add: item_assoc_insert_def mc_alloc_next_def Let_def item_next_cas_def upd_item_def upd_lruq_def set_flag_def)
  show ?thesis unfolding item_link_def Let_def split_def item_link_q_eq by (rule t) (simp only: s)
qed

lemma item_store_set_total:
  assumes ok: "mc_ok M st" "room (Suc (Suc (Suc k))) st"
    and ev: "EVICT_CS \<notin> set_evict_opt (st_settings st)" "EVICT_AS \<notin> set_evict_opt (st_settings st)"
  shows "item_store p REQ_SET token st \<noteq> None"
proof -
  let ?key = "item_key (heap_at st p)"
  obtain s where g: "item_get ?key st = Some (found ?key st, s)"
    by (rule item_get_inv [OF mc_okD(1) [OF ok(1)] ok(2)]) blast
  note c = item_get_cases [OF mc_okD(1) [OF ok(1)] ok(2) g]
  have evs: "EVICT_CS \<notin> set_evict_opt (st_settings t)" "EVICT_AS \<notin> set_evict_opt (st_settings t)" if "frame st t" for t
    using ev that by (simp_all add: frame_def)
  have fs: "frame st s" by (rule linked_fromD(3) [OF c(4)])
  show ?thesis
  proof (cases "found ?key st")
    case None
    then show ?thesis using g item_link_total [OF evs [OF fs], of p] by (auto simp: item_store_def item_store_miss_def Let_def)
  next
    case (Some o')
    note f = found_get [OF ok g [unfolded Some]]
    obtain u where u: "item_unlink o' s = Some u" "frame s u"
      by (rule item_unlink_inv [OF mc_okD(1) [OF f(1)] f(3,2)]) blast
    then show ?thesis using g Some item_link_total [OF evs [OF frame_trans [OF fs u(2)]], of p]
      by (auto simp: item_store_def item_store_hit_def item_replace_def Let_def)
  qed
qed

lemma demo_mc_ok: "mc_ok {#} demo_st" "room k demo_st \<longleftrightarrow> k < 65536"
proof -
  note i = core_init_ok [OF demo_st_Some demo_profile_ok]
  show "mc_ok {#} demo_st" by (rule i(1))
  have "sl_refcount (st_slabs demo_st sl) = 0" for sl by (rule core_init_state(3) [OF demo_st_Some])
  then show "room k demo_st \<longleftrightarrow> k < 65536" using room_mono [OF i(2), of k] by (auto simp: room_def)
qed

text \<open>A \<open>set\<close> on the concrete store.\<close>

lemma demo_set:
  assumes "length v \<le> 40"
  obtains p s1 s2 res s3 where "item_alloc (item_slabid (length ''k'') (length v) demo_st) ''k'' 0 0 (length v) False demo_st = Some (Some p, s1)"
    "item_memcpy p 0 (v @ []) s1 = Some s2" "item_store p REQ_SET 0 s2 = Some (res, s3)"
proof -
  obtain p s1 s2 where al: "item_alloc (item_slabid (length ''k'') (length v) demo_st) ''k'' 0 0 (length v) False demo_st = Some (Some p, s1)"
    and fi: "item_memcpy p 0 (v @ []) s1 = Some s2"
    using fresh_alloc [of False demo_st "''k''" v 0 0, OF demo_st_fresh] assms by auto
  have r: "room (Suc 9) demo_st" by (simp add: demo_mc_ok)
  note a = alloc_fill [OF demo_mc_ok(1) r al fi, simplified]
  have r2: "room (Suc (Suc (Suc 6))) s2" using a(2) by simp
  have "set_evict_opt (st_settings s2) = {EVICT_LRU}" using linked_fromD(3) [OF a(3)] by (simp add: frame_def demo_st_fields demo_settings_def)
  then obtain res s3 where "item_store p REQ_SET 0 s2 = Some (res, s3)" using item_store_set_total [OF a(1) r2, of p 0] by auto
  then show thesis using that al fi by blast
qed

lemma demo_live: "set_oldest_live (st_settings demo_st) = 0"
  by (simp add: demo_st_fields demo_settings_def)


subsection \<open>Allocation\<close>

text \<open>C9: what \<open>item_alloc\<close> hands out is not in use. The item is held by nobody and cached under no key; its
  header is the one of the request; whatever is held by anybody is left as it is, whether or not there was
  room; and what is cached under any key afterwards was cached there before with the same value. Room may be made
  by evicting cached items, but only such as nobody refers to: an item with a reference stays cached under its key.
  A failed allocation gives no reference.\<close>

theorem item_alloc_exclusive:
  assumes ok: "mc_ok M st" "room (Suc k) st"
    and run: "item_alloc (item_slabid (length key) nbyte st) key flags ex nbyte reserved st = Some (r, st')" and key: "length key < 256"
  shows "mc_ok (M + opt r) st' \<and> (\<forall>q. q \<in># M \<longrightarrow> heap_at st' q = heap_at st q)
    \<and> (\<forall>k' q. item_find k' st' = Some q \<longrightarrow> item_find k' st = Some q \<and> item_value q st' = item_value q st)
    \<and> (\<forall>k' q. item_find k' st = Some q \<longrightarrow> it_refcount (heap_at st q) \<noteq> 0 \<longrightarrow> item_find k' st' = Some q)
    \<and> (\<forall>p. r = Some p \<longrightarrow> p \<notin># M \<and> \<not> item_is_linked (heap_at st' p) \<and> key_at st' p = key \<and> it_nbyte (heap_at st' p) = nbyte
         \<and> it_dataflags (heap_at st' p) = flags \<and> it_exptime (heap_at st' p) = ex \<and> it_refcount (heap_at st' p) = 1)"
proof -
  have held: "it_refcount (heap_at st q) \<noteq> 0" if "q \<in># M" for q using owned_ref(1) [OF mc_okD(1) [OF ok(1)] that] .
  note a = item_alloc_ok [OF ok run order_refl key]
  have "mc_ok (M + opt r) st' \<and> (\<forall>q. q \<in># M \<longrightarrow> heap_at st' q = heap_at st q)
    \<and> (\<forall>k' q. item_find k' st' = Some q \<longrightarrow> item_find k' st = Some q \<and> item_value q st' = item_value q st)
    \<and> (\<forall>p. r = Some p \<longrightarrow> p \<notin># M \<and> \<not> item_is_linked (heap_at st' p) \<and> key_at st' p = key \<and> it_nbyte (heap_at st' p) = nbyte
         \<and> it_dataflags (heap_at st' p) = flags \<and> it_exptime (heap_at st' p) = ex \<and> it_refcount (heap_at st' p) = 1)"
  proof (cases r)
    case None
    then have n: "mc_ok M st'" "evicts {} st st'" "st_heap st' = st_heap st" using a by simp_all
    then show ?thesis using None other_keys [OF ok(1) n(1) evicts_linked_from [OF n(2)]] by simp
  next
    case (Some p)
    then have n: "mc_ok (add_mset p M) st'" "evicts {p} st st'" "it_refcount (heap_at st p) = 0" "\<not> item_is_linked (heap_at st' p)"
      "key_at st' p = key" "fresh_header (set_use_cas (st_settings st)) (item_slabid (length key) nbyte st) key flags ex nbyte (-1) (heap_at st' p)"
      using a by simp_all
    have "p \<notin># M" using held n(3) by blast
    moreover have "heap_at st' q = heap_at st q" if "q \<in># M" for q using evicts_ref [OF n(2), of q] held [OF that] n(3) by auto
    moreover have "item_find k' st = Some q \<and> item_value q st' = item_value q st" if "item_find k' st' = Some q" for k' q
    proof -
      have "q \<noteq> p" using that n(4) item_find_iff [OF store_invD(1) [OF mc_okD(1) [OF n(1)]]] by auto
      then show ?thesis using other_keys [OF ok(1) n(1) evicts_linked_from [OF n(2)] that] by simp
    qed
    ultimately show ?thesis using Some n(1,4,5,6) by (simp add: fresh_header_def)
  qed
  moreover have "item_find k' st' = Some q" if q: "item_find k' st = Some q" "it_refcount (heap_at st q) \<noteq> 0" for k' q
  proof (cases r)
    case None
    then have n: "mc_ok M st'" "evicts {} st st'" using a by simp_all
    show ?thesis by (rule evicts_find [OF mc_okD(1) [OF ok(1)] mc_okD(1) [OF n(1)] n(2) q]) simp
  next
    case (Some p)
    then have n: "mc_ok (add_mset p M) st'" "evicts {p} st st'" "it_refcount (heap_at st p) = 0" using a by simp_all
    have "q \<notin> {p}" using n(3) q(2) by auto
    then show ?thesis by (rule evicts_find [OF mc_okD(1) [OF ok(1)] mc_okD(1) [OF n(1)] n(2) q])
  qed
  ultimately show ?thesis by blast
qed

theorem item_alloc_exclusive_witness:
  "\<exists>p st'. item_alloc (item_slabid 1 3 demo_st) ''k'' 0 0 3 False demo_st = Some (Some p, st') \<and> mc_ok {#p#} st' \<and> key_at st' p = ''k''"
proof -
  have ok: "mc_ok {#} demo_st" "room (Suc 0) demo_st" by (simp_all add: demo_mc_ok)
  obtain p s where al: "item_alloc (item_slabid (length ''k'') 3 demo_st) ''k'' 0 0 3 False demo_st = Some (Some p, s)"
    using fresh_alloc [of False demo_st "''k''" "''abc''" 0 0, OF demo_st_fresh] by (auto simp: numeral_3_eq_3)
  show ?thesis using item_alloc_exclusive [OF ok al] al by auto
qed

subsection \<open>Arithmetic\<close>

text \<open>C18: \<open>incr\<close> and \<open>decr\<close> compute on 64 bits. When \<open>item_add_delta\<close> reports success on a key with a value, the old value
  is a decimal number; the new one is the sum modulo \<open>2 ^ 64\<close>, or the difference, which stops at zero; and the value of the
  key is its decimal text, in the old item if it fits and in a new one otherwise. The right-aligned items that
  \<open>prepend\<close> makes are excepted.\<close>

theorem item_add_delta_value:
  assumes ok: "mc_ok M st" "room (k + 2) st" and run: "item_add_delta key incr delta st = Some (DELTA_OK, buf, st')"
    and p: "found key st = Some p" "\<not> item_is_raligned (heap_at st p)"
  shows "mc_ok M st' \<and> (\<exists>v q. mc_strtoull_len (item_value p st) 0 = (True, v)
    \<and> buf = dec (if incr then (unat v + unat delta) mod 2 ^ 64 else unat v - unat delta)
    \<and> item_find key st' = Some q \<and> item_value q st' = buf)"
proof -
  have r: "room (Suc (Suc k)) st" using ok(2) by (simp add: eval_nat_numeral)
  note d = item_add_delta_ok [OF ok(1) r run]
  obtain v q where v: "mc_strtoull_len (item_value p st) 0 = (True, v)" "buf = dec (unat (delta_value incr delta v))"
    "item_find key st' = Some q" "item_value q st' = buf" using d(3) p by blast
  have "unat (delta_value incr delta v) = (if incr then (unat v + unat delta) mod 2 ^ 64 else unat v - unat delta)"
    by (auto simp: delta_value_def unat_word_ariths unat_sub word_less_nat_alt word_le_nat_alt not_less)
  then show ?thesis using d(1) v by auto
qed

lemma mc_strtoull_len_of_dec:
  assumes "n \<le> 2 ^ 64 - 7" shows "mc_strtoull_len (dec n) out = (True, of_nat n)"
  using mc_strtoull_len_loop_dec [OF assms, of "[]"] mc_skip_space_dec [of n "[]"] by (simp add: mc_strtoull_len_def)

lemma memcpy_fits:
  assumes "\<not> item_is_raligned (heap_at st p)" "length bs \<le> length (item_value p st)" "bs \<noteq> []" "st_heap st' = st_heap st"
  shows "item_memcpy p 0 bs (upd_item p (item_set_cas cas) st') \<noteq> None"
proof -
  obtain n where "length bs = Suc n" using assms(3) by (cases bs) auto
  then show ?thesis using assms(1,2,4)
    by (auto simp: item_memcpy_def memcpy_at_def upd_item_def item_value_def item_data_def item_data_off_def item_set_cas_def item_flag_defs Let_def)
qed

theorem item_add_delta_value_witness:
  "\<exists>st st' q. item_add_delta ''k'' True 7 st = Some (DELTA_OK, ''22'', st') \<and> item_find ''k'' st' = Some q \<and> item_value q st' = ''22''"
proof -
  have v: "length ''15'' \<le> 40" and r: "room (Suc (8 + 4)) demo_st" by (simp_all add: demo_mc_ok)
  obtain p s1 s2 res s3 where al: "item_alloc (item_slabid (length ''k'') (length ''15'') demo_st) ''k'' 0 0 (length ''15'') False demo_st = Some (Some p, s1)"
    and fi: "item_memcpy p 0 (''15'' @ []) s1 = Some s2" and st: "item_store p REQ_SET 0 s2 = Some (res, s3)" by (rule demo_set [OF v])
  note a = alloc_fill [OF demo_mc_ok(1) r al fi, simplified]
  have res: "res = STORED" using set_stores [OF st] a(10) by simp
  have live: "it_exptime (heap_at s2 p) = 0 \<or> st_now s2 < it_exptime (heap_at s2 p)" "set_oldest_live (st_settings s2) = 0"
    using a(12) linked_fromD(3) [OF a(3)] demo_live by (simp_all add: frame_def)
  have r2: "room (8 + 4) s2" using a(2) by simp
  obtain s4 where g: "item_get ''k'' s3 = Some (Some p, s4)" "item_value p s4 = ''15''" "mc_ok {#p#} s3" "\<not> item_is_raligned (heap_at s4 p)"
    "it_nbyte (heap_at s4 p) = 2" "room (7 + 2) s3"
    by (rule store_then_get [OF a(1) r2 a(4) _ a(5-7) st [unfolded res] _ _ live]) (use a(8-10) in auto)
  have d: "dec 15 = ''15''" "dec 22 = ''22''" by code_simp+
  have v: "mc_strtoull_len (item_value p s4) 0 = (True, 15)" using mc_strtoull_len_of_dec [of 15 0] g(2) d(1) by simp
  have bf: "''22'' = dec (unat (delta_value True 7 15))" using d(2) by (simp add: delta_value_def)
  obtain cas s5 where c: "item_next_cas s4 = (cas, s5)" by force
  have r3: "room (Suc (7 + 1)) s3" using g(6) by (simp add: eval_nat_numeral)
  note f = found_get [OF g(3) r3 g(1)]
  have h: "st_heap s5 = st_heap s4" by (rule cas_step_ok(2) [OF f(1) c])
  obtain s6 where m: "item_memcpy p 0 ''22'' (upd_item p (item_set_cas cas) s5) = Some s6"
    using memcpy_fits [OF g(4) _ _ h, of "''22''" cas] g(2) by auto
  have "\<exists>st'. item_add_delta ''k'' True 7 s3 = Some (DELTA_OK, ''22'', st')"
    using item_add_delta_eq [OF g(1) v bf] g(5) c m by (simp add: Let_def)
  then obtain s7 where run: "item_add_delta ''k'' True 7 s3 = Some (DELTA_OK, ''22'', s7)" by blast
  have nr: "\<not> item_is_raligned (heap_at s3 p)" using g(4) by (simp add: f(5) heap_release item_flag_defs)
  show ?thesis using item_add_delta_value [OF g(3,6) run f(7) nr] run by blast
qed

end
