(* ===== verification/MC_Leases.thy ===== *)
theory MC_Leases
  imports MC_IQ MC_Contract
begin

text \<open>
  Leases. A client that misses a key is handed a lease, an item under the key with the prefix \<open>ls:\<close> whose
  value is the token, and only the holder of the token may fill the key. The lemmas follow the store
  operation through its lease branch.
\<close>

lemma lease_key_neq [simp]: "mc_get_lease_key key \<noteq> key" "key \<noteq> mc_get_lease_key key"
  by (auto simp: mc_get_lease_key_def dest: arg_cong [of _ _ length])

text \<open>Looking up one key leaves what another key holds.\<close>

lemma found_other_key:
  assumes inv: "store_invx X M st" "room (Suc k) st" and run: "item_get key st = Some (r, s)" and k': "k' \<noteq> key"
  shows "found k' s = found k' st" "found k' st = Some l \<Longrightarrow> heap_at s l = heap_at st l"
proof -
  obtain t where t: "item_get key st = Some (found key st, t)" "frame st t"
    "\<forall>k'. item_find k' t = (if found key st = None \<and> k' = key then None else item_find k' st)"
    "\<forall>q. item_find key st \<noteq> Some q \<longrightarrow> heap_at t q = heap_at st q"
    by (rule item_get_inv [OF inv]) blast
  have s: "s = t" using t(1) run by simp
  have h: "heap_at s q = heap_at st q" if "item_find k' st = Some q" for q
    using t(4) that k' item_find_iff [OF store_invD(1) [OF inv(1)]] unfolding s by metis
  show "found k' s = found k' st" using t(2,3) k' h
    by (cases "item_find k' st") (auto simp: s found_def item_stale_def frame_def st_now_def)
  show "heap_at s l = heap_at st l" if "found k' st = Some l" using h found_SomeD [OF that] by simp
qed

lemma no_new_key:
  assumes "store_inv M st" "store_inv N st'" "linked_from {} st st'" "item_find key st = None"
  shows "item_find key st' = None"
proof (rule ccontr)
  assume "item_find key st' \<noteq> None"
  then obtain q where q: "item_find key st' = Some q" by blast
  then have l: "item_is_linked (heap_at st' q)" "key_at st' q = key" using item_find_iff [OF store_invD(1) [OF assms(2)]] by auto
  have "item_is_linked (heap_at st q)" "key_at st q = key"
    using linked_fromD(1,2) [OF assms(3) _ l(1)] same_payloadD(10) l(2) by (auto simp: key_at_def)
  then show False using item_find_iff [OF store_invD(1) [OF assms(1)], of key q] assms(4) by simp
qed

text \<open>The holder of the lease of a key: who knows its token.\<close>

definition holds_lease :: "bytes \<Rightarrow> u64 \<Rightarrow> mc \<Rightarrow> bool" where
  "holds_lease key token st \<longleftrightarrow> (case found (mc_get_lease_key key) st of None \<Rightarrow> False
     | Some l \<Rightarrow> item_has_i_lease (heap_at st l) \<and> item_lease_value l st = token)"

text \<open>The lease branch says to store to the holder of the lease only, and by then the lease is gone.\<close>

lemma iqset_plan_lease:
  assumes inv: "store_inv M st" "room (Suc (Suc k)) st" and p: "\<not> item_is_linked (heap_at st p)"
    and run: "item_store_iqset p token st = Some (res, b, q, nit, lease, s2)"
  shows "res = NOT_STORED" "q = p" "nit = None" "b \<longleftrightarrow> it_nbyte (heap_at st p) \<noteq> 0 \<and> holds_lease (key_at st p) token st"
    "b \<Longrightarrow> item_find (mc_get_lease_key (key_at st p)) s2 = None"
proof -
  let ?key = "key_at st p" and ?lk = "mc_get_lease_key (key_at st p)"
  have k: "item_key (heap_at st p) = ?key" by (simp add: key_at_def)
  show "nit = None" using item_store_miss_plan(2) [OF inv p, of REQ_IQSET token] run by (simp add: item_store_miss_def)
  then show "q = p" using item_store_iqset_plan [OF inv p run] by (simp add: plan_ok_def)
  obtain r s where g: "item_get ?lk st = Some (r, s)"
    using run by (auto simp: item_store_iqset_def item_get_lease_def Let_def bind_eq_Some_conv k)
  note c = item_get_cases [OF inv g]
  have hp: "heap_at s p = heap_at st p" by (rule c(6) [OF p])
  have "res = NOT_STORED \<and> (b \<longleftrightarrow> it_nbyte (heap_at st p) \<noteq> 0 \<and> holds_lease ?key token st) \<and> (b \<longrightarrow> item_find ?lk s2 = None)"
  proof (cases r)
    case None
    then show ?thesis using run g c(1) by (auto simp: item_store_iqset_def item_get_lease_def holds_lease_def Let_def k)
  next
    case (Some l)
    have fl: "found ?lk st = Some l" using c(1) Some by simp
    note ll = found_linked [OF inv(1) fl]
    have s: "s = item_acquire_refcount l st" using c(8) Some by simp
    have ls: "item_is_linked (heap_at s l)" using ll(1) by (simp add: s)
    have v: "item_value l s = item_value l st" by (rule item_value_payload) (simp_all add: s heap_release)
    have h: "holds_lease ?key token st \<longleftrightarrow> item_has_i_lease (heap_at s l) \<and> token = item_lease_value l s"
      using fl v by (auto simp: holds_lease_def s heap_release item_flag_defs item_lease_value_def)
    have pl: "p \<noteq> l" using p ll(1) by auto
    have ins: "store_inv (add_mset l M) s" using c(2) Some by simp
    obtain t N where t: "item_unlink l s = Some t" "store_inv N t" "room (Suc k) t" using item_unlink_inv [OF ins ls c(3)] by metis
    have hp: "heap_at t p = heap_at st p" using linked_from_unlink(3) [OF ins ls c(3) t(1) pl] hp by simp
    show ?thesis
    proof (cases "it_nbyte (heap_at st p) \<noteq> 0 \<and> holds_lease ?key token st")
      case False
      then show ?thesis using run g Some h t(1) hp by (auto simp: item_store_iqset_def item_get_lease_def Let_def k split: if_splits)
    next
      case True
      have u: "do { (pending, st) \<leftarrow> item_get_pending ?key t;
         case pending of None \<Rightarrow> Some st | Some q \<Rightarrow> item_delete q (upd_item p (\<lambda>it. it\<lparr>it_p := 1\<rparr>) st) } = Some s2" and b and "res = NOT_STORED"
        using run g Some t(1) True h hp by (auto simp: item_store_iqset_def item_get_lease_def Let_def bind_eq_Some_conv k)
      have "\<not> item_is_linked (heap_at t p)" using p hp by simp
      note d = drop_pending_inv [OF t(2,3) this u]
      have "item_find ?lk t = None" using item_unlink_find [OF ins ls c(3) t(1), of ?lk] found_SomeD [OF fl] by (simp add: s)
      then show ?thesis using no_new_key [OF t(2), of N s2 ?lk] d True \<open>b\<close> \<open>res = NOT_STORED\<close> by blast
    qed
  qed
  then show "res = NOT_STORED" "b \<longleftrightarrow> it_nbyte (heap_at st p) \<noteq> 0 \<and> holds_lease ?key token st" "b \<Longrightarrow> item_find ?lk s2 = None" by blast+
qed

text \<open>The store operation as a lookup, the lease branch and the end.\<close>

lemma iqset_run:
  assumes run: "item_store p REQ_IQSET token st = Some (res, st')" and p: "\<not> pinned (heap_at st p)" "it_nbyte (heap_at st p) \<noteq> 0"
  obtains oit s r0 b q nit lease s2 s3 where "item_get (key_at st p) st = Some (oit, s)"
    "item_store_iqset p token s = Some (r0, b, q, nit, lease, s2)"
    "(if r0 = NOT_STORED \<and> b then do {
            st \<leftarrow> (case oit of Some o' \<Rightarrow> item_replace o' q s2 | None \<Rightarrow> item_link q s2); Some (STORED, st)
          } else Some (r0, s2)) = Some (res, s3)"
    "st' = item_remove_opt lease (item_remove_opt nit (item_remove_opt oit s3))"
proof -
  obtain oit s where g: "item_get (key_at st p) st = Some (oit, s)"
    using run p by (auto simp: item_store_def Let_def bind_eq_Some_conv key_at_def)
  obtain r0 b q nit lease s2 where plan: "item_store_iqset p token s = Some (r0, b, q, nit, lease, s2)"
    using run p g by (cases oit) (auto simp: item_store_def item_store_miss_def item_store_hit_def Let_def bind_eq_Some_conv key_at_def)
  show thesis using that [OF g plan] run p g plan
    by (cases oit) (auto simp: item_store_def item_store_miss_def item_store_hit_def Let_def bind_eq_Some_conv key_at_def split: if_splits)
qed

lemma iqset_holder:
  assumes ok: "mc_ok M st" "room (Suc (Suc (Suc k))) st"
    and p: "\<not> item_is_linked (heap_at st p)" "p \<in># M" "\<not> pinned (heap_at st p)" "it_nbyte (heap_at st p) \<noteq> 0"
    and run: "item_store p REQ_IQSET token st = Some (res, st')"
  shows "res = STORED \<longleftrightarrow> holds_lease (key_at st p) token st" "res = STORED \<Longrightarrow> item_find (mc_get_lease_key (key_at st p)) st' = None"
proof -
  let ?key = "key_at st p" and ?lk = "mc_get_lease_key (key_at st p)"
  obtain oit s r0 b q nit lease s2 s3 where g: "item_get ?key st = Some (oit, s)"
    and plan: "item_store_iqset p token s = Some (r0, b, q, nit, lease, s2)"
    and fin: "(if r0 = NOT_STORED \<and> b then do {
            st \<leftarrow> (case oit of Some o' \<Rightarrow> item_replace o' q s2 | None \<Rightarrow> item_link q s2); Some (STORED, st)
          } else Some (r0, s2)) = Some (res, s3)"
    and st': "st' = item_remove_opt lease (item_remove_opt nit (item_remove_opt oit s3))"
    by (rule iqset_run [OF run p(3,4)])
  note c = item_get_cases [OF mc_okD(1) [OF ok(1)] ok(2) g]
  have hp: "heap_at s p = heap_at st p" "key_at s p = ?key" using c(6) [OF p(1)] by (simp_all add: key_at_def)
  have ps: "\<not> item_is_linked (heap_at s p)" using p(1) hp by simp
  note l = iqset_plan_lease [OF c(2,3) ps plan]
  note other = found_other_key [OF mc_okD(1) [OF ok(1)] ok(2) g lease_key_neq(1)]
  then have same: "holds_lease ?key token s = holds_lease ?key token st"
    using item_value_payload [OF linked_fromD(3) [OF c(4)]] by (auto simp: holds_lease_def item_lease_value_def split: option.splits)
  have res: "res = STORED \<longleftrightarrow> b" using fin l(1) by (auto simp: bind_eq_Some_conv split: if_splits)
  then show "res = STORED \<longleftrightarrow> holds_lease ?key token st" using l(4) p(4) same hp by simp
  have "plan_ok p (M + opt oit) k s (r0, b, q, nit, lease, s2)" using item_store_iqset_plan [OF c(2,3) ps plan] .
  then have s2: "store_inv (M + opt oit + opt lease) s2" "room k s2" "item_find ?key s2 = item_find ?key s"
    "heap_at s2 p = (heap_at s p)\<lparr>it_p := it_p (heap_at s2 p)\<rparr>" "linked_from {} s s2"
    using l(2,3) by (simp_all add: plan_ok_def hp)
  note s2p = pin_same [OF s2(4)]
  show "item_find ?lk st' = None" if "res = STORED"
  proof -
    have b using that res by simp
    then have link: "(case oit of Some o' \<Rightarrow> item_replace o' p s2 | None \<Rightarrow> item_link p s2) = Some s3"
      using fin l(1,2) by (auto simp: bind_eq_Some_conv)
    have pin: "pin p s2 = {#}" using s2p(1) p(3) hp by (simp add: pin_def)
    have i: "store_inv (pin p s2 + (M + opt oit + opt lease)) s2" using s2(1) pin by simp
    have find: "item_find (key_at s2 p) s2 = oit"
      using s2(3) s2p(2) hp(2) c(1) c(5) [of ?key] found_SomeD [of ?key st] by (cases oit) auto
    have mem: "p \<in># pin p s2 + (M + opt oit + opt lease)" "\<not> item_is_linked (heap_at s2 p)" using p(2) s2p(4) ps by simp_all
    have "table_room (Suc k) s" using room_mono [OF c(3), of "Suc k"] by (simp add: room_def)
    note tr = table_room_from [OF store_invD(1) [OF c(2)] store_invD(1) [OF s2(1)] s2(5) this]
    note k = store_link_inv [OF i s2(2) tr mem find link]
    have "item_find ?lk s3 = None" using k(4) [of ?lk] l(5) \<open>b\<close> s2p(2) hp(2) by simp
    moreover have i3: "store_inv (M + opt lease + opt oit) s3" using k(1) by (simp add: ac_simps)
    note r = remove_opt_step [OF i3 k(2)]
    ultimately show ?thesis using r(4) remove_opt_step(4) [OF r(1,2)] st' l(3) by (simp add: item_remove_opt_def)
  qed
qed

text \<open>C6: only the holder of a lease fills a key, and only once. An \<open>iqset\<close> of a value that is not empty stores its item exactly when the key
  has an \<open>I\<close> lease whose value is the token of the connection. Then the item is what is cached under the key and
  the lease is gone, so the same token is refused from then on; otherwise what was cached stays, with its
  value.\<close>

theorem iqset_needs_lease:
  assumes ok: "mc_ok M st" "room (k + 3) st"
    and p: "\<not> item_is_linked (heap_at st p)" "p \<in># M" "fits_item st (heap_at st p)" "\<not> pinned (heap_at st p)" "it_nbyte (heap_at st p) \<noteq> 0"
    and run: "item_store p REQ_IQSET token st = Some (res, st')"
  shows "mc_ok M st' \<and> (res = STORED \<longleftrightarrow> holds_lease (key_at st p) token st)
    \<and> (res = STORED \<longrightarrow> item_find (key_at st p) st' = Some p \<and> (\<forall>t. \<not> holds_lease (key_at st p) t st'))
    \<and> (res \<noteq> STORED \<longrightarrow> (\<forall>q. found (key_at st p) st = Some q \<longrightarrow>
         item_find (key_at st p) st' = Some q \<and> item_value q st' = item_value q st))"
proof -
  have r: "room (Suc (Suc (Suc k))) st" using ok(2) by (simp add: eval_nat_numeral)
  note h = iqset_holder [OF ok(1) r p(1,2,4,5) run]
  obtain q where s: "mc_ok M st'" "stored_step (key_at st p) (if res = STORED then Some q else None) st st'"
    "res = STORED \<Longrightarrow> q = p"
    by (rule item_store_ok [OF ok(1) r p(1-4) run]) auto
  have "\<not> holds_lease (key_at st p) t st'" if "res = STORED" for t
    using h(2) [OF that] by (simp add: holds_lease_def found_def)
  moreover have "item_find (key_at st p) st' = Some x \<and> item_value x st' = item_value x st"
    if "res \<noteq> STORED" "found (key_at st p) st = Some x" for x
    using s(2) that other_keys [OF ok(1) s(1), of "{}" "key_at st p" x] by (auto simp: stored_step_def)
  ultimately show ?thesis using s h(1) by (auto simp: stored_step_def)
qed


subsection \<open>Granting a lease\<close>

text \<open>The store does not depend on the counter of lease tokens.\<close>

lemma next_token_same:
  "store_invx X M (st\<lparr>st_lease_current_token := t\<rparr>) = store_invx X M st" "mc_ok M (st\<lparr>st_lease_current_token := t\<rparr>) = mc_ok M st"
  "room k (st\<lparr>st_lease_current_token := t\<rparr>) = room k st" "item_find key (st\<lparr>st_lease_current_token := t\<rparr>) = item_find key st"
  "found key (st\<lparr>st_lease_current_token := t\<rparr>) = found key st" "item_value p (st\<lparr>st_lease_current_token := t\<rparr>) = item_value p st"
  "item_slabid a b (st\<lparr>st_lease_current_token := t\<rparr>) = item_slabid a b st" "lease_exptime (st\<lparr>st_lease_current_token := t\<rparr>) = lease_exptime st"
proof -
  let ?s = "st\<lparr>st_lease_current_token := t\<rparr>"
  show i: "store_invx X M ?s = store_invx X M st" for X M
    by (simp add: store_invx_def inv_index_def inv_lruq_def inv_free_def inv_tables_def inv_slabs_def inv_live_def
        inv_refs_def owned_def key_at_def [abs_def] tables_def nitems_def carved_def mc_upd)
  then show "mc_ok M ?s = mc_ok M st"
    by (simp add: mc_ok_def fits_def classes_ok_def fits_item_def slab_item_size_def)
  show "room k ?s = room k st" by (simp add: room_def)
  show f: "item_find key ?s = item_find key st" by (simp add: item_find_def key_at_def [abs_def])
  show "found key ?s = found key st" by (simp add: found_def f item_stale_def st_now_def split: option.splits)
  show "item_value p ?s = item_value p st" by (simp add: item_value_def item_data_def slab_item_size_def Let_def)
  show "item_slabid a b ?s = item_slabid a b st" by (simp add: item_slabid_def slab_id_def slab_id_of_def slabclass_of_def [abs_def])
  show "lease_exptime ?s = lease_exptime st" by (simp add: lease_exptime_def)
qed

lemma acquire_held:
  assumes ok: "mc_ok M st" "room (Suc k) st" and p: "p \<in># M"
  shows "mc_ok (add_mset p M) (item_acquire_refcount p st)" "room k (item_acquire_refcount p st)"
proof -
  note o = owned_ref [OF mc_okD(1) [OF ok(1)] p]
  note a = item_acquire_inv [OF mc_okD(1) [OF ok(1)] ok(2) o(2-4)]
  show "mc_ok (add_mset p M) (item_acquire_refcount p st)" by (rule mc_ok_from [OF ok(1) a(1) linked_from_acquire]) simp
  show "room k (item_acquire_refcount p st)" by (rule a(2))
qed

lemma item_value_acquire [simp]: "item_value q (item_acquire_refcount p st) = item_value q st"
  by (rule item_value_payload) (simp_all add: heap_release)

text \<open>A new numbered item: held twice, once by its creator and once as its pin.\<close>

lemma create_numbered_ok:
  assumes ok: "mc_ok M st" "room (Suc (Suc k)) st" and key: "length key < 256"
    and run: "item_create_numbered key token st = Some (r, st')"
  shows "case r of None \<Rightarrow> mc_ok M st' \<and> room k st' \<and> linked_from {} st st'
    | Some p \<Rightarrow> mc_ok (M + {#p, p#}) st' \<and> room k st' \<and> linked_from {p} st st' \<and> \<not> item_is_linked (heap_at st' p)
        \<and> fits_item st' (heap_at st' p) \<and> key_at st' p = key \<and> it_flags (heap_at st' p) \<subseteq> {ITEM_CAS} \<and> it_coflags (heap_at st' p) = {}
        \<and> it_nbyte (heap_at st' p) = length (dec (unat token)) \<and> item_value p st' = dec (unat token) \<and> it_exptime (heap_at st' p) = lease_exptime st"
proof -
  let ?buf = "dec (unat token)"
  obtain r' s1 where al: "item_alloc (item_slabid (length key) (length ?buf) st) key 0 (lease_exptime st) (length ?buf) True st = Some (r', s1)"
    using run by (auto simp: item_create_numbered_def Let_def bind_eq_Some_conv)
  note a = item_alloc_ok [OF ok al order_refl key]
  show ?thesis
  proof (cases r')
    case None
    then have "r = None" "st' = s1" using run al by (simp_all add: item_create_numbered_def Let_def)
    then show ?thesis using a None room_mono [of "Suc (Suc k)" s1 k] evicts_linked_from by simp
  next
    case (Some p)
    have n: "mc_ok (add_mset p M) s1" "room (Suc k) s1" "evicts {p} st s1" "\<not> item_is_linked (heap_at s1 p)" "fits_item s1 (heap_at s1 p)"
      "key_at s1 p = key" "it_flags (heap_at s1 p) \<subseteq> {ITEM_CAS}" "it_coflags (heap_at s1 p) = {}" "it_nbyte (heap_at s1 p) = length ?buf"
      "it_exptime (heap_at s1 p) = lease_exptime st"
      using a Some by (auto simp: fresh_header_def)
    obtain s2 where f: "item_memcpy p 0 ?buf s1 = Some s2" and r: "r = Some p" "st' = item_acquire_refcount p s2"
      using run al Some by (auto simp: item_create_numbered_def item_set_pinned_def Let_def bind_eq_Some_conv)
    note m = item_memcpy_inv [OF mc_okD(1) [OF n(1)] n(2,5) f] and mo = item_memcpy_ok [OF n(1,2,5) f]
    have hp: "it_flags (heap_at s2 p) \<subseteq> {ITEM_CAS}" "it_coflags (heap_at s2 p) = {}" "it_nbyte (heap_at s2 p) = length ?buf"
      "it_exptime (heap_at s2 p) = lease_exptime st" "\<not> item_is_linked (heap_at s2 p)"
      using n(4,7-10) by (subst m(6), simp add: item_is_linked_def)+
    have v: "item_value p s2 = ?buf" using item_data_written [OF f] hp(3) by (simp add: item_value_def)
    have "linked_from {p} st st'"
      using linked_from_trans [OF linked_from_trans [OF evicts_linked_from [OF n(3)] m(3)] linked_from_acquire [of s2 p]] by (simp add: r)
    moreover have "fits_item st' (heap_at st' p)" 
      using m(7) fits_item_frame [OF frame_refcount(1) [of s2 p]] fits_item_payload [OF same_payload_upd(1)] by (simp add: r heap_release)
    moreover have "key_at st' p = key" using m(4) n(6) by (simp add: r key_at_def heap_release item_key_def item_key_off_def item_flag_defs)
    ultimately show ?thesis using hp v acquire_held [OF mo(1,2)] by (simp add: r heap_release item_is_linked_def)
  qed
qed

lemma linked_from_mono: "linked_from {} st st' \<Longrightarrow> linked_from P st st'"
  by (simp add: linked_from_def)

lemma linked_from_token:
  "linked_from P st st' \<Longrightarrow> linked_from P (st\<lparr>st_lease_current_token := t\<rparr>) (st'\<lparr>st_lease_current_token := t\<rparr>)"
  by (simp add: linked_from_def frame_def)

text \<open>Writing the pending mark of an item.\<close>

lemma set_pending_ok:
  shows "mc_ok M st \<Longrightarrow> mc_ok M (upd_item q (\<lambda>it. it\<lparr>it_p := b\<rparr>) st)"
    "item_find k (upd_item q (\<lambda>it. it\<lparr>it_p := b\<rparr>) st) = item_find k st"
    "item_value p (upd_item q (\<lambda>it. it\<lparr>it_p := b\<rparr>) st) = item_value p st"
    "room n (upd_item q (\<lambda>it. it\<lparr>it_p := b\<rparr>) st) = room n st"
    "heap_at (upd_item q (\<lambda>it. it\<lparr>it_p := b\<rparr>) st) p = (if p = q then (heap_at st q)\<lparr>it_p := b\<rparr> else heap_at st p)"
    "linked_from {q} st (upd_item q (\<lambda>it. it\<lparr>it_p := b\<rparr>) st)"
proof -
  let ?f = "\<lambda>it. it\<lparr>it_p := b\<rparr> :: item"
  have same: "item_key (?f it) = item_key it" "item_key_off (?f it) = item_key_off it" "item_data_off sz (?f it) = item_data_off sz it" for it sz
    by (simp_all add: item_key_def item_key_off_def item_data_off_def item_flag_defs)
  have fit: "fits_item st (?f it) = fits_item st it" for it unfolding fits_item_def by (simp add: same)
  show "mc_ok M (upd_item q ?f st)" if "mc_ok M st" using upd_linked_ok(1) [OF that, of ?f q] by (simp add: same fit)
  show "item_find k (upd_item q ?f st) = item_find k st" by (rule item_find_upd_item) (auto simp: key_at_def upd_item_def same)
  show "item_value p (upd_item q ?f st) = item_value p st"
    by (simp add: item_value_def item_data_def upd_item_def same slab_item_size_def Let_def)
  show "room n (upd_item q ?f st) = room n st" by (simp add: room_def upd_item_def)
  show "heap_at (upd_item q ?f st) p = (if p = q then (heap_at st q)\<lparr>it_p := b\<rparr> else heap_at st p)" by (simp add: upd_item_def)
  show "linked_from {q} st (upd_item q ?f st)" by (rule linked_from_new [OF frame_upd_item]) (simp add: upd_item_def)
qed

text \<open>Linking an item that holds a lease: of its two references one becomes the pin.\<close>

lemma flag_lease:
  assumes ok: "mc_ok M st" "room k st" and q: "\<not> item_is_linked (heap_at st q)" "fits_item st (heap_at st q)"
  shows "heap_at (set_flag ITEM_I_LEASE q st) q = (heap_at st q)\<lparr>it_flags := insert ITEM_I_LEASE (it_flags (heap_at st q))\<rparr>"
    "mc_ok M (set_flag ITEM_I_LEASE q st)" "room k (set_flag ITEM_I_LEASE q st)" "key_at (set_flag ITEM_I_LEASE q st) q = key_at st q"
    "fits_item (set_flag ITEM_I_LEASE q st) (heap_at (set_flag ITEM_I_LEASE q st) q)" "linked_from {q} st (set_flag ITEM_I_LEASE q st)"
proof -
  let ?s = "set_flag ITEM_I_LEASE q st"
  show h: "heap_at ?s q = (heap_at st q)\<lparr>it_flags := insert ITEM_I_LEASE (it_flags (heap_at st q))\<rparr>" by (simp add: set_flag_def upd_item_def)
  then show "key_at ?s q = key_at st q" by (simp add: key_at_def item_key_def item_key_off_def item_flag_defs)
  have fr: "frame st ?s" by (simp add: set_flag_def)
  have off: "item_key_off (it\<lparr>it_flags := insert ITEM_I_LEASE (it_flags it)\<rparr>) = item_key_off it"
    "item_data_off sz (it\<lparr>it_flags := insert ITEM_I_LEASE (it_flags it)\<rparr>) = item_data_off sz it" for it sz
    by (simp_all add: item_key_off_def item_data_off_def item_flag_defs)
  show fit: "fits_item ?s (heap_at ?s q)" unfolding fits_item_frame [OF fr] h
    using q(2) unfolding fits_item_def by (simp add: off)
  show lf: "linked_from {q} st ?s" by (rule linked_from_new [OF fr]) (simp add: set_flag_def upd_item_def)
  have i: "store_inv M ?s" unfolding set_flag_def
    using q(1) by (intro upd_item_inv [OF mc_okD(1) [OF ok(1)]]) (simp_all add: item_flag_defs)
  show "mc_ok M ?s" by (rule mc_ok_from [OF ok(1) i lf]) (use fit in simp)
  show "room k ?s" using ok(2) by (simp add: room_def set_flag_def upd_item_def)
qed

lemma link_lease:
  assumes ok: "mc_ok (M + {#q, q#}) st" "room (Suc (Suc (Suc k))) st"
    and q: "\<not> item_is_linked (heap_at st q)" "fits_item st (heap_at st q)" "it_flags (heap_at st q) \<subseteq> {ITEM_CAS}" "it_coflags (heap_at st q) = {}"
      "it_nbyte (heap_at st q) \<noteq> 0"
    and run: "item_store q REQ_SET token (set_flag ITEM_I_LEASE q st) = Some (res, st')"
  shows "mc_ok (add_mset q M) st'" "room k st'" "linked_from {q} st st'" "item_find (key_at st q) st' = Some q"
    "item_has_i_lease (heap_at st' q)" "item_value q st' = item_value q st" "it_exptime (heap_at st' q) = it_exptime (heap_at st q)"
proof -
  let ?s = "set_flag ITEM_I_LEASE q st"
  note fl = flag_lease [OF ok q(1,2)]
  note h = fl(1) and oks = fl(2) and r = fl(3) and key = fl(4) and fit = fl(5) and lf = fl(6)
  have fr: "frame st ?s" by (rule linked_fromD(3) [OF lf])
  have pin: "pin q ?s = {#q#}" by (simp add: pin_def pinned_def unpins_def h item_flag_defs)
  have i2: "store_inv (pin q ?s + add_mset q M) ?s" using mc_okD(1) [OF oks] pin by simp
  have nl: "\<not> item_is_linked (heap_at ?s q)" "it_nbyte (heap_at ?s q) \<noteq> 0" using q(1,5) by (simp_all add: h item_flag_defs)
  have stored: "res = STORED" by (rule set_stores [OF run nl(2)])
  obtain b cas t where s: "store_inv (add_mset q M + (if item_is_linked (heap_at st' q) then {#} else pin q ?s)) st'" "room k st'"
    "stored_step (key_at ?s q) (Some q) ?s st'" "same_payload (linked_as cas t ((heap_at ?s q)\<lparr>it_p := b\<rparr>)) (heap_at st' q)"
    by (rule item_store_inv [OF i2 r mc_okD(2,3) [OF oks] nl(1) _ fit run]) (use stored in auto)
  have st: "linked_from {q} ?s st'" "item_find (key_at st q) st' = Some q" "fits_item st' (heap_at st' q)"
    using s(3) key by (simp_all add: stored_step_def)
  note p = same_payloadD [OF s(4)]
  have lk: "item_is_linked (heap_at st' q)" using st(2) item_find_iff [OF store_invD(1) [OF s(1)]] by blast
  show "mc_ok (add_mset q M) st'" using s(1) lk by (intro mc_ok_from [OF oks _ st(1)]) (simp_all add: st(3))
  show "linked_from {q} st st'" using linked_from_trans [OF lf st(1)] by simp
  show "room k st'" "item_find (key_at st q) st' = Some q" by (rule s(2) st(2))+
  show "item_has_i_lease (heap_at st' q)" "it_exptime (heap_at st' q) = it_exptime (heap_at st q)"
    using p(1,7) by (simp_all add: item_flag_defs h linked_as_def)
  have "\<not> item_is_raligned (heap_at ?s q)" using q(3) by (auto simp: item_flag_defs h)
  then have "item_value q st' = item_value q ?s" by (rule item_value_linked_as [OF linked_fromD(3) [OF st(1)] s(4) fit])
  also have "\<dots> = item_value q st"
    using fr by (simp add: item_value_def item_data_def h item_data_off_def item_flag_defs slab_item_size_def frame_def Let_def)
  finally show "item_value q st' = item_value q st" .
qed

text \<open>Granting a lease on a key that has no item: the lease item is linked under the lease key.\<close>

lemma iqget_grant_ok:
  assumes ok: "mc_ok M st" "room (k + 5) st" and key: "length key < 253"
    and run: "item_iqget_grant None key token pending st = Some (status, item, lease, ntok, st')"
  shows "lease = item" "status = (if item = None then IQ_SERVER_ERROR else IQ_LEASE)" "ntok = st_lease_current_token st"
    "mc_ok (M + opt item) st'" "room k st'"
    "item = Some l \<Longrightarrow> item_find (mc_get_lease_key key) st' = Some l \<and> item_has_i_lease (heap_at st' l)
       \<and> item_value l st' = dec (unat ntok) \<and> it_exptime (heap_at st' l) = lease_exptime st"
    "linked_from (set_option item) (st\<lparr>st_lease_current_token := ntok + 1\<rparr>) st'"
proof -
  let ?lk = "mc_get_lease_key key" and ?tok = "st_lease_current_token st"
  define s0 where "s0 = st\<lparr>st_lease_current_token := ?tok + 1\<rparr>"
  have ok0: "mc_ok M s0" "room (Suc (Suc (Suc (Suc (Suc k))))) s0" "lease_exptime s0 = lease_exptime st"
    using ok by (simp_all add: s0_def next_token_same eval_nat_numeral)
  obtain r s1 where c: "item_create_numbered ?lk ?tok s0 = Some (r, s1)"
    using run by (auto simp: item_iqget_grant_def item_create_lease_def lease_next_token_def Let_def s0_def bind_eq_Some_conv)
  have kl: "length ?lk < 256" using key by (simp add: mc_get_lease_key_def)
  note n = create_numbered_ok [OF ok0(1,2) kl c]
  have "lease = item \<and> status = (if item = None then IQ_SERVER_ERROR else IQ_LEASE) \<and> ntok = ?tok \<and> mc_ok (M + opt item) st' \<and> room k st'
    \<and> (item = Some l \<longrightarrow> item_find ?lk st' = Some l \<and> item_has_i_lease (heap_at st' l)
         \<and> item_value l st' = dec (unat ntok) \<and> it_exptime (heap_at st' l) = lease_exptime st)
    \<and> linked_from (set_option item) s0 st'"
  proof (cases r)
    case None
    then have "status = IQ_SERVER_ERROR" "item = None" "lease = None" "ntok = ?tok" "st' = s1"
      using run c by (auto simp: item_iqget_grant_def item_create_lease_def lease_next_token_def Let_def s0_def)
    then show ?thesis using n None room_mono [of "Suc (Suc (Suc k))" s1 k] by simp
  next
    case (Some q)
    define s2 where "s2 = set_flag ITEM_I_LEASE q s1"
    obtain res s3 where st: "item_store q REQ_SET token s2 = Some (res, s3)" and fin: "status = IQ_LEASE" "item = Some q" "lease = Some q" "ntok = ?tok"
      "st' = upd_item q (\<lambda>it. it\<lparr>it_p := pending\<rparr>) s3"
      using run c Some by (auto simp: item_iqget_grant_def item_create_lease_def lease_next_token_def Let_def s0_def s2_def bind_eq_Some_conv)
    have q1: "mc_ok (M + {#q, q#}) s1" "room (Suc (Suc (Suc k))) s1" "linked_from {q} s0 s1" "\<not> item_is_linked (heap_at s1 q)"
      "fits_item s1 (heap_at s1 q)" "key_at s1 q = ?lk" "it_flags (heap_at s1 q) \<subseteq> {ITEM_CAS}" "it_coflags (heap_at s1 q) = {}"
      "it_nbyte (heap_at s1 q) = length (dec (unat ?tok))" "item_value q s1 = dec (unat ?tok)" "it_exptime (heap_at s1 q) = lease_exptime st"
      using n Some ok0(3) by auto
    have nb: "it_nbyte (heap_at s1 q) \<noteq> 0" using q1(9) by simp
    note l = link_lease [OF q1(1,2,4,5,7,8) nb st [unfolded s2_def]]
    note u = set_pending_ok [where q = q and b = pending and st = s3, folded fin(5)]
    have "linked_from {q} s0 st'" using linked_from_trans [OF linked_from_trans [OF q1(3) l(3)] u(6)] by simp
    then show ?thesis using u(1) [OF l(1)] u(2-5) l(2,4-7) q1(6,10,11) fin(1-4) by (auto simp: item_flag_defs)
  qed
  then show "lease = item" "status = (if item = None then IQ_SERVER_ERROR else IQ_LEASE)" "ntok = st_lease_current_token st"
    "mc_ok (M + opt item) st'" "room k st'"
    "item = Some l \<Longrightarrow> item_find ?lk st' = Some l \<and> item_has_i_lease (heap_at st' l)
       \<and> item_value l st' = dec (unat ntok) \<and> it_exptime (heap_at st' l) = lease_exptime st"
    "linked_from (set_option item) (st\<lparr>st_lease_current_token := ntok + 1\<rparr>) st'" by (auto simp: s0_def)
qed

subsection \<open>The iqget command\<close>

text \<open>Giving back a reference to a linked item leaves what the keys hold.\<close>

lemma remove_keeps_found:
  assumes "store_inv (add_mset p M) st" "room k st" "item_is_linked (heap_at st p)"
  shows "found key (item_remove p st) = found key st"
proof -
  have "item_find key (item_remove p st) = item_find key st"
    using remove_opt_step(4) [of M "Some p" st k key] assms(1,2) by (simp add: item_remove_opt_def)
  moreover have "frame st (item_remove p st)" by (rule linked_fromD(3) [OF linked_from_remove(1) [OF assms(1,2)]])
  moreover have "it_exptime (heap_at (item_remove p st) q) = it_exptime (heap_at st q)" "it_atime (heap_at (item_remove p st) q) = it_atime (heap_at st q)" for q
    using heap_remove_other [of q p st] heap_remove_linked [OF assms(3)] by (cases "q = p"; simp)+
  ultimately show ?thesis by (simp add: found_def item_stale_def frame_def st_now_def split: option.splits)
qed

lemma pending_of_ok:
  assumes ok: "mc_ok M st" "room (Suc k) st" and run: "item_pending_of r key pd st = Some (b, st')"
  shows "mc_ok M st'" "room k st'" "linked_from {} st st'" "key' \<noteq> mc_get_pending_key key \<Longrightarrow> found key' st' = found key' st"
    "key' \<noteq> mc_get_pending_key key \<Longrightarrow> item_find key' st' = item_find key' st" "st_lease_current_token st' = st_lease_current_token st"
proof -
  have "mc_ok M st' \<and> room k st' \<and> linked_from {} st st' \<and> (\<forall>key'. key' \<noteq> mc_get_pending_key key \<longrightarrow>
      found key' st' = found key' st \<and> item_find key' st' = item_find key' st)"
  proof (cases r)
    case (Some p)
    then show ?thesis using run ok room_mono [OF ok(2), of k] by (simp add: item_pending_of_def)
  next
    case None
    obtain q s where g: "item_get (mc_get_pending_key key) st = Some (q, s)"
      using run None by (auto simp: item_pending_of_def item_get_pending_def bind_eq_Some_conv)
    note c = item_get_cases [OF mc_okD(1) [OF ok(1)] ok(2) g] and o = found_other_key(1) [OF mc_okD(1) [OF ok(1)] ok(2) g]
    note ig = item_get_ok [OF ok g]
    show ?thesis
    proof (cases q)
      case n: None
      then have "st' = s" using run None g by (simp add: item_pending_of_def item_get_pending_def)
      then show ?thesis using n c(3-5) o ig by simp
    next
      case (Some p)
      have st': "st' = item_remove p s" using run None g Some by (simp add: item_pending_of_def item_get_pending_def)
      have lk: "item_is_linked (heap_at s p)" using found_get(3) [OF ok g [unfolded Some]] .
      have os: "mc_ok (add_mset p M) s" using ig Some by simp
      note rm = remove_opt_step [of M "Some p" s k] linked_from_remove(1) [OF mc_okD(1) [OF os] c(3)]
      show ?thesis using item_remove_ok [OF os c(3)] linked_from_trans [OF c(4) rm(6)] rm(4) mc_okD(1) [OF os] c(3,5) o Some
          remove_keeps_found [OF mc_okD(1) [OF os] c(3) lk]
        by (simp add: st' item_remove_opt_def)
    qed
  qed
  then show "mc_ok M st'" "room k st'" "linked_from {} st st'" "key' \<noteq> mc_get_pending_key key \<Longrightarrow> found key' st' = found key' st"
    "key' \<noteq> mc_get_pending_key key \<Longrightarrow> item_find key' st' = item_find key' st" "st_lease_current_token st' = st_lease_current_token st"
    using linked_fromD(3) [of "{}" st st'] by (auto simp: frame_def)
qed

text \<open>The end of the operation: the answer is taken, the references of the lookups are given back.\<close>

lemma iqget_finish:
  assumes ok: "mc_ok (M + opt it + opt lease) st" "room (Suc k) st" and item: "set_option item \<subseteq> set_option it \<union> set_option lease"
    and st': "st' = item_remove_opt lease (item_remove_opt it (case item of None \<Rightarrow> st | Some p \<Rightarrow> item_acquire_refcount p st))"
  shows "mc_ok (M + opt item) st'" "room k st'" "linked_from {} st st'" "item_find key st' = item_find key st"
proof -
  let ?s = "case item of None \<Rightarrow> st | Some p \<Rightarrow> item_acquire_refcount p st"
  have mem: "item = Some p \<Longrightarrow> p \<in># M + opt it + opt lease" for p using item by (cases it; cases lease) auto
  have s: "mc_ok (M + opt item + opt lease + opt it) ?s" "room k ?s" "linked_from {} st ?s" "item_find key ?s = item_find key st"
    using ok acquire_held [OF ok mem] room_mono [OF ok(2), of k] linked_from_acquire by (auto simp: ac_simps split: option.splits)
  note 1 = remove_opt_step [OF mc_okD(1) [OF s(1)] s(2)]
  note 2 = remove_opt_step [OF 1(1,2), folded st']
  have l: "linked_from {} ?s st'" using linked_from_trans [OF 1(3) 2(3)] by simp
  show "mc_ok (M + opt item) st'" by (rule mc_ok_from [OF s(1) 2(1) l]) simp
  show "room k st'" "linked_from {} st st'" "item_find key st' = item_find key st"
    using 2(2) linked_from_trans [OF s(3) l] 1(4) 2(4) s(4) by simp_all
qed

text \<open>The answers to a lookup: the value, a new lease, or that somebody else has the lease.\<close>

definition iqget_answer :: "bytes \<Rightarrow> u64 \<Rightarrow> ptr option \<Rightarrow> item_iq_result \<Rightarrow> ptr option \<Rightarrow> u64 \<Rightarrow> mc \<Rightarrow> mc \<Rightarrow> bool" where
  "iqget_answer key lease_token it status item ntok st st' \<longleftrightarrow>
    (let lk = mc_get_lease_key key; lease = found lk st in
     case status of
       IQ_VALUE \<Rightarrow> it \<noteq> None \<and> item = it \<and> item_find key st' = it
     | IQ_LEASE \<Rightarrow> it = None \<and> lease = None \<and> ntok = st_lease_current_token st \<and> item_find lk st' = item
         \<and> (\<exists>l. item = Some l \<and> item_has_i_lease (heap_at st' l) \<and> item_value l st' = dec (unat ntok) \<and> it_exptime (heap_at st' l) = lease_exptime st)
     | IQ_MISS \<Rightarrow> it = None \<and> item = lease \<and> ntok = HOTMISS \<and> item_find lk st' = lease
         \<and> (\<exists>l. lease = Some l \<and> item_lease_value l st \<noteq> lease_token)
     | IQ_NO_VALUE \<Rightarrow> \<exists>l. lease = Some l \<and> item_lease_value l st = lease_token
     | IQ_SERVER_ERROR \<Rightarrow> it = None \<and> lease = None \<and> item = None
     | _ \<Rightarrow> False)"

lemma iqget_other_ok:
  assumes ok: "mc_ok (M + opt it) st" "room (k + 6) st" and key: "length key < 253" and it: "\<And>p. it = Some p \<Longrightarrow> item_find key st = Some p"
    and run: "item_iqget_other it key lease_token token pd False n st = Some (status, item, lease, ntok, st')"
  shows "mc_ok (M + opt it + opt lease) st' \<and> room k st' \<and> set_option item \<subseteq> set_option it \<union> set_option lease
    \<and> iqget_answer key lease_token it status item ntok st st' \<and> linked_from (set_option lease) (st\<lparr>st_lease_current_token := st_lease_current_token st'\<rparr>) st'
    \<and> (\<forall>l. lease = Some l \<longrightarrow> item_find (mc_get_lease_key key) st' = Some l)"
proof -
  let ?lk = "mc_get_lease_key key"
  have r: "room (Suc (k + 5)) st" using ok(2) by (simp add: eval_nat_numeral)
  obtain le s where g: "item_get ?lk st = Some (le, s)"
    using run by (auto simp: item_iqget_other_def item_get_lease_def bind_eq_Some_conv)
  note c = item_get_cases [OF mc_okD(1) [OF ok(1)] r g] and s = item_get_ok [OF ok(1) r g]
  have fr: "frame st s" by (rule linked_fromD(3) [OF c(4)])
  have tok: "st\<lparr>st_lease_current_token := st_lease_current_token s\<rparr> = st" using fr by (simp add: frame_def)
  have rk: "room k s" by (rule room_mono [OF c(3)]) simp
  have fit: "item_find key s = item_find key st" using c(5) [of key] by simp
  have fl: "item_find ?lk s = Some l" if "le = Some l" for l using c(1) c(5) [of ?lk] that found_SomeD [of ?lk st l] by simp
  have val: "item_lease_value l s = item_lease_value l st" if "le = Some l" for l
    using c(8) [OF that] by (simp add: item_lease_value_def)
  have touch: "mc_ok (M + opt it + opt le) t \<and> room k t \<and> linked_from {} st t \<and> item_find key t = Some p \<and> st_lease_current_token t = st_lease_current_token st
      \<and> item_find ?lk t = item_find ?lk s"
    if "it = Some p" "item_touch p s = Some t" for p t
  proof -
    have lp: "item_is_linked (heap_at s p)"
      using it [OF that(1)] fit item_find_iff [OF store_invD(1) [OF mc_okD(1) [OF s]]] by auto
    note t = item_touch_inv [OF mc_okD(1) [OF s] rk lp that(2)]
    have "mc_ok (M + opt it + opt le) t" by (rule mc_ok_from [OF s t(1,3)]) simp
    then show ?thesis using t(2,4) linked_from_trans [OF c(4) t(3)] it [OF that(1)] fit by (auto simp: linked_from_def frame_def)
  qed
  show ?thesis
  proof (cases it)
    case i: (Some p)
    consider l where "le = Some l" "item_has_q_ref_lease (heap_at s l)" "item_lease_value l s = lease_token"
        "status = IQ_NO_VALUE" "item = None" "lease = le" "st' = s"
      | "item_touch p s = Some st'" "status = IQ_VALUE" "item = Some p" "lease = le"
      using run g i by (cases le) (auto simp: item_iqget_other_def item_get_lease_def bind_eq_Some_conv split: if_splits)
    then show ?thesis
    proof cases
      case 1
      then show ?thesis using s rk c(1,4) val tok fl linked_from_mono by (simp add: iqget_answer_def del: split_paired_Ex)
    next
      case 2
      then show ?thesis using touch [OF i 2(1)] i fl linked_from_mono by (auto simp: iqget_answer_def Let_def)
    qed
  next
    case i: None
    show ?thesis
    proof (cases le)
      case None
      then have gr: "item_iqget_grant None key token pd s = Some (status, item, lease, ntok, st')"
        using run g i by (simp add: item_iqget_other_def item_get_lease_def)
      have s0: "mc_ok M s" using s i None by simp
      note l = iqget_grant_ok [OF s0 c(3) key gr]
      have t: "st_lease_current_token s = st_lease_current_token st" "st_lease_current_token st' = ntok + 1" "lease_exptime s = lease_exptime st"
        using fr linked_fromD(3) [OF l(7)] by (simp_all add: frame_def lease_exptime_def)
      have "linked_from (set_option item) (st\<lparr>st_lease_current_token := st_lease_current_token st'\<rparr>) st'"
        using linked_from_trans [OF linked_from_token [OF c(4), of "ntok + 1"] l(7)] by (simp add: t)
      then show ?thesis using l(1-6) i c(1) None t by (cases item) (auto simp: iqget_answer_def Let_def simp del: split_paired_Ex)
    next
      case (Some l)
      have e: "(status, item, lease, ntok, st') = (if item_lease_value l s = lease_token then (IQ_NO_VALUE, Some l, Some l, n, st')
          else (IQ_MISS, Some l, Some l, HOTMISS, st'))" "st' = upd_item l (\<lambda>it. it\<lparr>it_p := pd\<rparr>) s"
        using run g i Some set_pending_ok(3) by (auto simp: item_iqget_other_def item_get_lease_def item_iqget_leased_def Let_def item_lease_value_def split: if_splits)
      note u = set_pending_ok [where q = l and b = pd and st = s, folded e(2)]
      have "linked_from {l} st st'" "st_lease_current_token st' = st_lease_current_token st"
        using linked_from_trans [OF c(4) u(6)] linked_fromD(3) [OF u(6)] fr by (simp_all add: frame_def)
      moreover have "item_find ?lk st' = Some l" using u(2) c(1) c(5) [of ?lk] Some found_SomeD [of ?lk st l] by simp
      moreover have "found ?lk st = Some l" using c(1) Some by simp
      moreover have "mc_ok (M + {#l#}) st'" using u(1) [OF s] i Some by simp
      ultimately show ?thesis using e(1) u(4) rk i val [OF Some]
        by (cases "item_lease_value l s = lease_token") (simp_all add: iqget_answer_def Let_def del: split_paired_Ex)
    qed
  qed
qed


lemma iqget_run:
  assumes "item_iqget key lease_token [] token n False fg st = Some (status, item, ntok, st')"
  obtains it s1 pd s2 lease s3 where "item_get key st = Some (it, s1)" "item_pending_of it key 0 s1 = Some (pd, s2)"
    "item_iqget_other it key lease_token token pd False n s2 = Some (status, item, lease, ntok, s3)"
    "st' = item_remove_opt lease (item_remove_opt it (case item of None \<Rightarrow> s3 | Some p \<Rightarrow> item_acquire_refcount p s3))"
proof -
  have e: "item_remove_opt None s = s" for s by (simp add: item_remove_opt_def)
  obtain it s1 where 1: "item_get key st = Some (it, s1)" using assms by (auto simp: item_iqget_def bind_eq_Some_conv)
  obtain pd s2 where 2: "item_pending_of it key 0 s1 = Some (pd, s2)" using assms 1 by (auto simp: item_iqget_def bind_eq_Some_conv)
  obtain lease s3 where 3: "item_iqget_other it key lease_token token pd False n s2 = Some (status, item, lease, ntok, s3)"
    "st' = item_remove_opt lease (item_remove_opt it (case item of None \<Rightarrow> s3 | Some p \<Rightarrow> item_acquire_refcount p s3))"
    using assms 1 2 by (auto simp: item_iqget_def item_check_keylist_def e Let_def bind_eq_Some_conv)
  show thesis by (rule that [OF 1 2 3])
qed

lemma pending_key_neq [simp]: "mc_get_pending_key key \<noteq> key" "key \<noteq> mc_get_pending_key key" "mc_get_lease_key key \<noteq> mc_get_pending_key key"
  by (auto simp: mc_get_pending_key_def mc_get_lease_key_def dest: arg_cong [of _ _ length])

text \<open>What holds of the state before the end of the operation holds after it.\<close>

lemma iqget_answer_finish:
  assumes ans: "iqget_answer key lt it status item ntok st s" and ok: "mc_ok N s" "mc_ok N' st'" and lf: "linked_from {} s st'"
    and find: "\<And>k. item_find k st' = item_find k s"
  shows "iqget_answer key lt it status item ntok st st'"
proof -
  have keep: "same_payload (heap_at s l) (heap_at st' l)" if "item_find k s = Some l" for k l
  proof -
    have "item_is_linked (heap_at st' l)" using that find [of k] item_find_iff [OF store_invD(1) [OF mc_okD(1) [OF ok(2)]]] by auto
    then show ?thesis using linked_fromD(2) [OF lf] by simp
  qed
  have "item_value l st' = item_value l s" if "item_find k s = Some l" for k l
    by (rule item_value_payload [OF linked_fromD(3) [OF lf] keep [OF that]])
  then show ?thesis using ans find same_payloadD(1,7) [OF keep]
    by (auto simp: iqget_answer_def Let_def item_flag_defs simp del: split_paired_Ex split: item_iq_result.splits)
qed

lemma iqget_ok:
  assumes ok: "mc_ok M st" "room (k + 9) st" and key: "length key < 253"
    and run: "item_iqget key lease_token [] token n False fg st = Some (status, item, ntok, st')"
  shows "mc_ok (M + opt item) st'" "room k st'" "iqget_answer key lease_token (found key st) status item ntok st st'"
    "k' \<noteq> mc_get_lease_key key \<Longrightarrow> item_find k' st' = Some q \<Longrightarrow> item_find k' st = Some q \<and> item_value q st' = item_value q st"
    "st_time st' = st_time st" "st_settings st' = st_settings st"
proof -
  let ?lk = "mc_get_lease_key key" and ?tok = "st_lease_current_token"
  have r: "room (Suc (k + 8)) st" using ok(2) by (simp add: eval_nat_numeral)
  obtain it s1 pd s2 lease s3 where g: "item_get key st = Some (it, s1)" and pg: "item_pending_of it key 0 s1 = Some (pd, s2)"
    and run': "item_iqget_other it key lease_token token pd False n s2 = Some (status, item, lease, ntok, s3)"
    and fin: "st' = item_remove_opt lease (item_remove_opt it (case item of None \<Rightarrow> s3 | Some p \<Rightarrow> item_acquire_refcount p s3))"
    by (rule iqget_run [OF run])
  note c = item_get_cases [OF mc_okD(1) [OF ok(1)] r g] and s1 = item_get_ok [OF ok(1) r g]
  have r1: "room (Suc (k + 7)) s1" using c(3) by (simp add: eval_nat_numeral)
  note s2 = pending_of_ok [OF s1 r1 pg]
  have r2: "room (Suc k + 6) s2" using s2(2) by (simp add: eval_nat_numeral)
  have it: "item_find key s2 = Some p" if "it = Some p" for p
    using s2(5) [of key] c(1) c(5) [of key] that found_SomeD [of key st p] by simp
  note s3 = iqget_other_ok [OF s2(1) r2 key it run']
  have s3': "mc_ok (M + opt it + opt lease) s3" "room (Suc k) s3" "set_option item \<subseteq> set_option it \<union> set_option lease"
    "iqget_answer key lease_token it status item ntok s2 s3" "linked_from (set_option lease) (s2\<lparr>st_lease_current_token := ?tok s3\<rparr>) s3"
    "\<forall>l. lease = Some l \<longrightarrow> item_find ?lk s3 = Some l" using s3 by blast+
  note f = iqget_finish [OF s3'(1-3) fin]
  show ok': "mc_ok (M + opt item) st'" "room k st'" by (rule f)+
  have l2: "linked_from {} st s2" using linked_from_trans [OF c(4) s2(3)] by simp
  have lk: "found ?lk s2 = found ?lk st"
    using s2(4) [of ?lk] found_other_key(1) [OF mc_okD(1) [OF ok(1)] r g, of ?lk] by simp
  have val: "item_lease_value l s2 = item_lease_value l st" if "found ?lk st = Some l" for l
    using other_keys [OF ok(1) s2(1) l2, of ?lk l] that lk found_SomeD [of ?lk s2 l] by (simp add: item_lease_value_def)
  have "iqget_answer key lease_token it status item ntok st s3"
    using s3'(4) lk val linked_fromD(3) [OF l2]
    by (cases "found ?lk st") (auto simp: iqget_answer_def Let_def frame_def lease_exptime_def split: item_iq_result.splits)
  then show "iqget_answer key lease_token (found key st) status item ntok st st'"
    using iqget_answer_finish [OF _ s3'(1) ok'(1) f(3,4)] c(1) by simp
  have lf: "linked_from (set_option lease) (st\<lparr>st_lease_current_token := ?tok s3\<rparr>) st'"
    using linked_from_trans [OF linked_from_trans [OF linked_from_token [OF l2] s3'(5)] f(3)] by simp
  then show "st_time st' = st_time st" "st_settings st' = st_settings st" by (auto simp: linked_from_def frame_def)
  show "item_find k' st = Some q \<and> item_value q st' = item_value q st" if "k' \<noteq> ?lk" "item_find k' st' = Some q"
  proof -
    have "item_find ?lk st' \<noteq> Some q"
      using that item_find_iff [OF store_invD(1) [OF mc_okD(1) [OF ok'(1)]], of _ q] by auto
    then have "q \<notin> set_option lease" using s3'(6) f(4) by (cases lease) auto
    with lf show ?thesis using other_keys [of M "st\<lparr>st_lease_current_token := ?tok s3\<rparr>" _ st' _ k' q] ok(1) ok'(1) that(2)
      by (simp add: next_token_same)
  qed
qed


text \<open>C7: an \<open>iqget\<close> answers with the value of the key if there is one; otherwise it grants a lease if there is none, to one
  client only. The answer \<open>LEASE\<close> is given only when the key has neither a value nor a lease that is not expired; the
  token is the one the server counts next, and the lease item under the lease key holds it. While there is a
  lease, a client that does not know its token is answered with the marker \<open>HOTMISS\<close>, and the lease stays. The
  answer is held by the caller, and no other key gets a value it did not have.\<close>

theorem item_iqget_one_lease:
  assumes ok: "mc_ok M st" "room (k + 9) st" and key: "length key < 253"
    and run: "item_iqget key lease_token [] token n False fg st = Some (status, item, ntok, st')"
  shows "mc_ok (M + opt item) st' \<and> iqget_answer key lease_token (found key st) status item ntok st st'
    \<and> (\<forall>k' q. k' \<noteq> mc_get_lease_key key \<longrightarrow> item_find k' st' = Some q \<longrightarrow> item_find k' st = Some q \<and> item_value q st' = item_value q st)"
  using iqget_ok [OF assms] by blast


subsection \<open>A concrete run\<close>

lemma demo_empty: "item_find key demo_st = None" "found key demo_st = None"
proof -
  have "\<not> item_is_linked (heap_at demo_st p)" for p
    by (simp add: demo_st_def core_init_defs demo_settings_def Let_def zero_item_def item_is_linked_def)
  then show f: "item_find key demo_st = None"
    using item_find_iff [OF store_invD(1) [OF mc_okD(1) [OF demo_mc_ok(1)]], of key] by (cases "item_find key demo_st") auto
  then show "found key demo_st = None" by (simp add: found_def)
qed

lemma demo_get: "item_get key demo_st = Some (None, demo_st)"
  by (simp add: item_get_def demo_empty)

lemma demo_token: "st_lease_current_token demo_st = LEASE_START"
  by (simp add: demo_st_def core_init_defs demo_settings_def Let_def lease_init_def)

lemma fresh_pool_link:
  assumes "item_is_lease_holder (heap_at st q)" "fresh_pool False st" "item_link q st = Some st'"
  shows "fresh_pool False st'"
proof -
  have keep: "fresh_pool False (snd (item_next_cas t)) = fresh_pool False t" "fresh_pool False (item_assoc_insert q t) = fresh_pool False t"
    "fresh_pool False (upd_lruq True c l t) = fresh_pool False t" for t c l
    by (simp_all add: fresh_pool_def item_next_cas_def item_assoc_insert_def mc_alloc_next_def mc_upd)
  have touch: "slab_lruq_touch r sl al t = Some st' \<Longrightarrow> fresh_pool False t \<Longrightarrow> st' = t" for r sl al t
    by (simp add: slab_lruq_touch_def fresh_pool_def demo_settings_def)
  let ?a = "set_flag ITEM_LINKED q st"
  let ?b = "item_assoc_insert q (upd_item q (item_set_cas (fst (item_next_cas ?a))) (snd (item_next_cas ?a)))"
  have heap: "st_heap (item_assoc_insert q t) = st_heap t" "st_heap (snd (item_next_cas t)) = st_heap t" for t
    by (simp_all add: item_next_cas_def item_assoc_insert_def mc_alloc_next_def)
  have r: "item_is_lease_holder (heap_at ?b q)" using assms(1) unfolding heap by (simp add: heap upd_item_def set_flag_def item_is_lease_holder_def)
  have b: "fresh_pool False ?b" using assms(2) by (simp add: keep set_flag_def)
  have "item_link_q q True ?b = Some st'" using assms(3) by (simp add: item_link_def Let_def split_def)
  then show ?thesis using touch b unfolding item_link_q_eq eqTrueI [OF r] by (metis keep(3) fresh_pool_upd(1))
qed

lemma demo_grant:
  "\<exists>l s. item_iqget_grant None ''k'' 0 0 demo_st = Some (IQ_LEASE, Some l, Some l, LEASE_START, s) \<and> fresh_pool False s"
proof -
  let ?lk = "mc_get_lease_key ''k''" and ?buf = "dec (unat LEASE_START)"
  define s0 where "s0 = demo_st\<lparr>st_lease_current_token := LEASE_START + 1\<rparr>"
  have ok: "mc_ok {#} s0" "room (Suc (Suc 9)) s0" "item_find ?lk s0 = None" "fresh_pool res s0" for res
    using demo_mc_ok demo_empty demo_st_fresh [of res] by (simp_all add: s0_def next_token_same) (cases res; simp add: fresh_pool_def mc_upd slab_class_new_def)
  have len: "length ?lk + length ?buf \<le> 50" by (simp add: mc_get_lease_key_def LEASE_START_def dec.simps)
  obtain q a b where al: "item_alloc (item_slabid (length ?lk) (length ?buf) s0) ?lk 0 (lease_exptime s0) (length ?buf) True s0 = Some (Some q, a)"
    "item_memcpy q 0 ?buf a = Some b" "fresh_pool False a"
    using fresh_alloc [OF ok(4) [of True] len, of 0 "lease_exptime s0"] ok(4) [of False] by auto
  define s1 where "s1 = item_acquire_refcount q b"
  have c: "item_create_numbered ?lk LEASE_START s0 = Some (Some q, s1)" using al by (simp add: item_create_numbered_def item_set_pinned_def s1_def Let_def)
  have n: "mc_ok {#q, q#} s1" "room 9 s1" "linked_from {q} s0 s1" "\<not> item_is_linked (heap_at s1 q)" "fits_item s1 (heap_at s1 q)"
      "key_at s1 q = ?lk" "it_nbyte (heap_at s1 q) = length ?buf"
    using create_numbered_ok [OF ok(1,2) _ c] by (simp_all add: mc_get_lease_key_def)
  define s2 where "s2 = set_flag ITEM_I_LEASE q s1"
  note fl = flag_lease [OF n(1,2,4,5), folded s2_def]
  have fp: "fresh_pool False s2" using al(2,3) by (auto simp: s2_def s1_def set_flag_def item_memcpy_def Let_def split: option.splits)
  have ev: "EVICT_CS \<notin> set_evict_opt (st_settings s2)" "EVICT_AS \<notin> set_evict_opt (st_settings s2)"
    using fp by (simp_all add: fresh_pool_def demo_settings_def)
  have r2: "room (Suc (Suc (Suc 6))) s2" using fl(3) by simp
  obtain res s3 where st: "item_store q REQ_SET 0 s2 = Some (res, s3)" using item_store_set_total [OF fl(2) r2 ev, of q 0] by auto
  have "\<not> item_is_linked (heap_at s2 q)" using n(4) by (simp add: fl(1) item_flag_defs)
  then have "linked_from {} s0 s2" using linked_from_unlinked [of q s0 s2] linked_from_trans [OF n(3) fl(6)] by simp
  then have none: "item_find ?lk s2 = None" using no_new_key [OF mc_okD(1) [OF ok(1)] mc_okD(1) [OF fl(2)] _ ok(3)] by simp
  have "item_link q s2 = Some s3"
    using st none n(6,7) fl(1,4) by (auto simp: item_store_def item_store_miss_def item_get_def item_remove_opt_def key_at_def Let_def bind_eq_Some_conv)
  moreover have "item_is_lease_holder (heap_at s2 q)" by (simp add: fl(1) item_is_lease_holder_def)
  ultimately have "fresh_pool False s3" using fresh_pool_link fp by blast
  then show ?thesis using c st
    by (simp add: item_iqget_grant_def item_create_lease_def lease_next_token_def demo_token s0_def [symmetric] s2_def [symmetric])
qed

lemma fresh_pool_remove: "item_is_linked (heap_at st p) \<Longrightarrow> fresh_pool res (item_remove p st) = fresh_pool res st"
  by (simp add: item_remove_def Let_def heap_release item_is_linked_def)

lemma demo_lease:
  "\<exists>l s. item_iqget ''k'' 0 [] 0 0 False False demo_st = Some (IQ_LEASE, Some l, LEASE_START, s) \<and> fresh_pool False (item_remove l s)"
proof -
  obtain l s where g: "item_iqget_grant None ''k'' 0 0 demo_st = Some (IQ_LEASE, Some l, Some l, LEASE_START, s)" "fresh_pool False s"
    using demo_grant by blast
  have r: "room (2 + 5) demo_st" by (simp add: demo_mc_ok)
  note o = iqget_grant_ok [OF demo_mc_ok(1) r _ g(1)]
  have s: "mc_ok {#l#} s" "room (Suc 1) s" "item_find (mc_get_lease_key ''k'') s = Some l" using o(4-6) by (simp_all add: numeral_2_eq_2)
  have lk: "item_is_linked (heap_at s l)" using s(3) item_find_iff [OF store_invD(1) [OF mc_okD(1) [OF s(1)]]] by auto
  have run: "item_iqget ''k'' 0 [] 0 0 False False demo_st = Some (IQ_LEASE, Some l, LEASE_START, item_remove l (item_acquire_refcount l s))"
    using g(1) by (simp add: item_iqget_def demo_get item_pending_of_def item_get_pending_def item_check_keylist_def item_iqget_other_def
        item_get_lease_def item_remove_opt_def)
  have a: "mc_ok {#l, l#} (item_acquire_refcount l s)" "room 1 (item_acquire_refcount l s)" using acquire_held [OF s(1,2)] by simp_all
  have la: "item_is_linked (heap_at (item_acquire_refcount l s) l)" using lk by simp
  have lr: "item_is_linked (heap_at (item_remove l (item_acquire_refcount l s)) l)"
    using linked_from_remove(2) [OF mc_okD(1) [OF a(1)] a(2)] la by simp
  show ?thesis using run g(2) fresh_pool_remove [OF la] fresh_pool_remove [OF lr] by auto
qed

text \<open>Without eviction of slabs in LRU order an \<open>iqset\<close> always returns.\<close>

lemma iqset_plan_total:
  assumes inv: "store_inv M st" "room (Suc (Suc k)) st" and p: "\<not> item_is_linked (heap_at st p)"
  shows "item_store_iqset p token st \<noteq> None"
proof -
  let ?key = "item_key (heap_at st p)"
  obtain s where g: "item_get (mc_get_lease_key ?key) st = Some (found (mc_get_lease_key ?key) st, s)"
    by (rule item_get_inv [OF inv]) blast
  note c = item_get_cases [OF inv g]
  show ?thesis
  proof (cases "found (mc_get_lease_key ?key) st")
    case None
    then show ?thesis using g by (simp add: item_store_iqset_def item_get_lease_def Let_def)
  next
    case (Some l)
    have ins: "store_inv (add_mset l M) s" using c(2) Some by simp
    have ls: "item_is_linked (heap_at s l)" using found_linked(1) [OF inv(1) Some] c(8) [OF Some] by simp
    obtain t N where t: "item_unlink l s = Some t" "store_inv N t" "room (Suc k) t" using item_unlink_inv [OF ins ls c(3)] by metis
    obtain u where u: "item_get (mc_get_pending_key ?key) t = Some (found (mc_get_pending_key ?key) t, u)"
      by (rule item_get_inv [OF t(2,3)]) blast
    note d = item_get_cases [OF t(2,3) u]
    have del: "item_delete q (upd_item p (\<lambda>it. it\<lparr>it_p := 1\<rparr>) u) \<noteq> None" if "found (mc_get_pending_key ?key) t = Some q" for q
    proof -
      have iu: "store_inv (add_mset q N) u" using d(2) that by simp
      have lu: "item_is_linked (heap_at u q)" using found_linked(1) [OF t(2) that] d(8) [OF that] by simp
      have i: "store_inv (add_mset q N) (upd_item p (\<lambda>it. it\<lparr>it_p := 1\<rparr>) u)" using iu
        by (intro upd_item_inv) (simp_all add: item_flag_defs pinned_def unpins_def item_key_def item_key_off_def)
      have l: "item_is_linked (heap_at (upd_item p (\<lambda>it. it\<lparr>it_p := 1\<rparr>) u) q)" "room k (upd_item p (\<lambda>it. it\<lparr>it_p := 1\<rparr>) u)"
        using lu d(3) by (auto simp: set_pending_ok(4,5) item_is_linked_def)
      show ?thesis using item_delete_inv [OF i l(2,1)] by (metis option.distinct(1))
    qed
    show ?thesis using g Some t(1) u del
      by (cases "found (mc_get_pending_key ?key) t")
        (auto simp: item_store_iqset_def item_get_lease_def item_get_pending_def Let_def bind_eq_None_conv simp del: not_None_eq)
  qed
qed

lemma item_store_iqset_total:
  assumes ok: "mc_ok M st" "room (Suc (Suc (Suc k))) st" and p: "\<not> item_is_linked (heap_at st p)"
    and ev: "EVICT_CS \<notin> set_evict_opt (st_settings st)" "EVICT_AS \<notin> set_evict_opt (st_settings st)"
  shows "item_store p REQ_IQSET token st \<noteq> None"
proof -
  let ?key = "key_at st p"
  obtain s where g: "item_get ?key st = Some (found ?key st, s)"
    by (rule item_get_inv [OF mc_okD(1) [OF ok(1)] ok(2)]) blast
  note c = item_get_cases [OF mc_okD(1) [OF ok(1)] ok(2) g]
  have ps: "\<not> item_is_linked (heap_at s p)" "key_at s p = ?key" using c(6) [OF p] p by (simp_all add: key_at_def)
  obtain r b q nit lease s2 where plan: "item_store_iqset p token s = Some (r, b, q, nit, lease, s2)"
    using iqset_plan_total [OF c(2,3) ps(1), of token] by auto
  have ok2: "plan_ok p (M + opt (found ?key st)) k s (r, b, q, nit, lease, s2)" by (rule item_store_iqset_plan [OF c(2,3) ps(1) plan])
  then have s2: "store_inv (M + opt (found ?key st) + opt nit + opt lease) s2" "room k s2" "frame st s2" "item_find ?key s2 = item_find ?key s"
    using frame_trans [OF linked_fromD(3) [OF c(4)], of s2] by (auto simp: plan_ok_def ps(2) dest: linked_fromD(3))
  have ev2: "item_link q t \<noteq> None" if "frame s2 t" for t using item_link_total [of t q] ev frame_trans [OF s2(3) that] by (simp add: frame_def)
  have rep: "item_replace o' q s2 \<noteq> None" if "found ?key st = Some o'" for o'
  proof -
    have "item_find ?key s2 = Some o'" using s2(4) c(5) [of ?key] that found_SomeD [OF that] by simp
    then have lo: "item_is_linked (heap_at s2 o')" using item_find_iff [OF store_invD(1) [OF s2(1)]] by blast
    obtain u where "item_unlink o' s2 = Some u" "frame s2 u" by (rule item_unlink_inv [OF s2(1) lo s2(2)]) blast
    then show ?thesis using ev2 by (simp add: item_replace_def)
  qed
  show ?thesis using g plan ev2 [of s2] rep
    by (cases "found ?key st") (auto simp: item_store_def item_store_miss_def item_store_hit_def key_at_def Let_def)
qed

subsection \<open>The lease protocol\<close>

lemma lease_value_dec:
  assumes "item_value l st = dec (unat t)" "unat t \<le> 2 ^ 64 - 7"
  shows "item_lease_value l st = t"
proof -
  have "mc_strtoull_len (dec (unat t)) 0 = (True, t)" using mc_strtoull_len_of_dec [OF assms(2), of 0] by simp
  then show ?thesis by (simp add: item_lease_value_def assms(1))
qed

text \<open>The lease that was granted is still there after the reference to it is given back and another item is made.\<close>

lemma lease_survives_alloc:
  assumes ok: "mc_ok (add_mset l M) st" "room (Suc k) st"
    and l: "item_find (mc_get_lease_key key) st = Some l" "item_has_i_lease (heap_at st l)" "item_value l st = dec (unat t)" "unat t \<le> 2 ^ 64 - 7"
    and live: "st_now st < it_exptime (heap_at st l)" "set_oldest_live (st_settings st) = 0"
    and alloc: "item_alloc (item_slabid (length key) (length v) (item_remove l st)) key flags ex (length v) False (item_remove l st) = Some (Some p, s1)"
    and fill: "item_memcpy p 0 (v @ rest) s1 = Some s2" and key: "length key < 256"
  shows "holds_lease key t s2"
proof -
  let ?r = "item_remove l st" and ?lk = "mc_get_lease_key key"
  have lk: "item_is_linked (heap_at st l)" "key_at st l = ?lk"
    using l(1) item_find_iff [OF store_invD(1) [OF mc_okD(1) [OF ok(1)]]] by auto
  note rm = item_remove_ok [OF ok] and h = heap_remove_linked [OF lk(1)]
  have sp: "same_payload (heap_at st l) (heap_at ?r l)" by (simp add: h)
  note pd = same_payloadD [OF sp]
  have fr: "frame st ?r" by (rule linked_fromD(3) [OF linked_from_remove(1) [OF mc_okD(1) [OF ok(1)] ok(2)]])
  have lr: "item_is_linked (heap_at ?r l)" "key_at ?r l = ?lk" "item_has_i_lease (heap_at ?r l)" "item_value l ?r = dec (unat t)"
    "it_exptime (heap_at ?r l) = it_exptime (heap_at st l)"
    using lk l(2,3) pd(1,7,10) item_value_payload [OF fr sp] by (simp_all add: item_flag_defs key_at_def)
  have "pinned (heap_at ?r l)" using lr(3) by (simp add: pinned_def unpins_def item_flag_defs)
  then have "1 \<le> unat (it_refcount (heap_at ?r l))" using ownedD [OF store_invD(8) [OF mc_okD(1) [OF rm(1)]], of l] lr(1) by simp
  then have ref: "it_refcount (heap_at ?r l) \<noteq> 0" by auto
  note a = alloc_fill [OF rm alloc fill key]
  note same = a(13) [OF ref]
  have fr2: "frame ?r s2" by (rule linked_fromD(3) [OF a(3)])
  have "item_find ?lk s2 = Some l"
    using item_find_iff [OF store_invD(1) [OF mc_okD(1) [OF a(1)]]] lr(1,2) same by (simp add: key_at_def)
  moreover have "it_exptime (heap_at s2 l) = it_exptime (heap_at st l)" "st_now s2 = st_now st" "set_oldest_live (st_settings s2) = 0"
    using same lr(5) frame_trans [OF fr fr2] live(2) by (simp_all add: frame_def st_now_def)
  ultimately have "found ?lk s2 = Some l" using found_live [of ?lk s2 l] live(1) by simp
  moreover have "item_value l s2 = dec (unat t)" using item_value_payload [OF fr2, of l] same lr(4) by simp
  ultimately show ?thesis using lr(3) same lease_value_dec [OF _ l(4)] by (simp add: holds_lease_def)
qed

text \<open>The run of the concrete store: a miss, a new item, its value, and the \<open>iqset\<close>.\<close>

lemma demo_lease_set:
  obtains l s1 p s3 s4 res s5 where "item_iqget ''k'' 0 [] 0 0 False False demo_st = Some (IQ_LEASE, Some l, LEASE_START, s1)"
    "item_alloc (item_slabid (length ''k'') (length ''abc'') (item_remove l s1)) ''k'' 0 0 (length ''abc'') False (item_remove l s1) = Some (Some p, s3)"
    "item_memcpy p 0 (''abc'' @ []) s3 = Some s4" "item_store p REQ_IQSET LEASE_START s4 = Some (res, s5)"
    "mc_ok {#p#} s4" "room 13 s4" "\<not> item_is_linked (heap_at s4 p)" "fits_item s4 (heap_at s4 p)" "\<not> pinned (heap_at s4 p)"
    "it_nbyte (heap_at s4 p) = 3" "key_at s4 p = ''k''"
proof -
  obtain l s1 where g: "item_iqget ''k'' 0 [] 0 0 False False demo_st = Some (IQ_LEASE, Some l, LEASE_START, s1)" "fresh_pool False (item_remove l s1)"
    using demo_lease by blast
  have ok: "mc_ok {#} demo_st" "room (14 + 9) demo_st" by (simp_all add: demo_mc_ok)
  have o: "mc_ok {#l#} s1" "room (Suc 13) s1" using iqget_ok(1,2) [OF ok _ g(1)] by simp_all
  note rm = item_remove_ok [OF o]
  obtain p s3 s4 where al: "item_alloc (item_slabid (length ''k'') (length ''abc'') (item_remove l s1)) ''k'' 0 0 (length ''abc'') False (item_remove l s1) = Some (Some p, s3)"
    and fi: "item_memcpy p 0 (''abc'' @ []) s3 = Some s4"
    using fresh_alloc [OF g(2), of "''k''" "''abc''" 0 0] by auto
  note a = alloc_fill [OF rm al fi, simplified]
  have fr: "st_settings s4 = demo_settings" using linked_fromD(3) [OF a(3)] g(2) by (simp add: frame_def fresh_pool_def)
  have r4: "room (Suc (Suc (Suc 10))) s4" using a(2) by simp
  obtain res s5 where st: "item_store p REQ_IQSET LEASE_START s4 = Some (res, s5)"
    using item_store_iqset_total [OF a(1) r4 a(4), of LEASE_START] fr by (auto simp: demo_settings_def)
  show thesis by (rule that [OF g(1) al fi st]) (use a in simp_all)
qed




theorem iqset_needs_lease_witness:
  "\<exists>p s4 s5 res. item_store p REQ_IQSET LEASE_START s4 = Some (res, s5) \<and> mc_ok {#p#} s5 \<and> (res = STORED) = holds_lease ''k'' LEASE_START s4"
proof (rule demo_lease_set)
  fix l s1 p s3 s4 res s5
  assume st: "item_store p REQ_IQSET LEASE_START s4 = Some (res, s5)" and a: "mc_ok {#p#} s4" "room 13 s4" "\<not> item_is_linked (heap_at s4 p)"
    "fits_item s4 (heap_at s4 p)" "\<not> pinned (heap_at s4 p)" "it_nbyte (heap_at s4 p) = 3" "key_at s4 p = ''k''"
  have r: "room (10 + 3) s4" using a(2) by simp
  have m: "p \<in># {#p#}" "it_nbyte (heap_at s4 p) \<noteq> 0" using a(6) by simp_all
  show ?thesis using iqset_needs_lease [OF a(1) r a(3) m(1) a(4,5) m(2) st] unfolding a(7) using st by blast
qed

theorem item_iqget_one_lease_witness:
  "\<exists>l s. item_iqget ''k'' 0 [] 0 0 False False demo_st = Some (IQ_LEASE, Some l, LEASE_START, s) \<and> mc_ok {#l#} s
    \<and> item_find (mc_get_lease_key ''k'') s = Some l"
proof -
  have ok: "mc_ok {#} demo_st" "room (14 + 9) demo_st" by (simp_all add: demo_mc_ok)
  obtain l s where g: "item_iqget ''k'' 0 [] 0 0 False False demo_st = Some (IQ_LEASE, Some l, LEASE_START, s)" using demo_lease by blast
  show ?thesis using item_iqget_one_lease [OF ok _ g] g by (auto simp: iqget_answer_def Let_def simp del: split_paired_Ex)
qed

end
