(* ===== verification/NV_Config.thy ===== *)
theory NV_Config
  imports MC_Prelude Complex_Main "HOL-Library.AList" "HOL-Library.Multiset"
begin

text \<open>
  The configurations of the cache coordinator (\<open>src/NVCacheCoordinator\<close>): which cache server holds
  which fragment of the key space, how the coordinator computes its two configurations from the static
  one (\<open>ConfigurationManagement.java\<close>), and how it assigns fragments to servers
  (\<open>ConfigurationAssignment.java\<close>).

  The messages are those of \<open>nvcache.proto\<close>. A \<open>HashMap\<close> is an association list in the order of insertion;
  an iteration over it visits the keys by the index of their bucket, in each bucket in the order of
  insertion. A \<open>double\<close> is a rational number that was rounded to 53 bits. An exception (a missing
  entry that is unboxed, an index out of bounds, a division by zero) is \<open>None\<close>.
\<close>

subsection \<open>Messages\<close>

datatype fragment_state = FRAGMENT_NORMAL | FRAGMENT_MIGRATE
datatype server_state = SERVER_NORMAL | SERVER_MIGRATION

record fragment =
  fr_physical_server :: string
  fr_migrate_server :: string
  fr_fragment_id :: int
  fr_prev_fragment_cfg_id :: int
  fr_fragment_cfg_id :: int
  fr_next_fragment_cfg_id :: int
  fr_state :: fragment_state

record assignment =
  ac_config_number :: int
  ac_fragments :: "fragment list"
  ac_server_state_map :: "(string \<times> server_state) list"

record static_config =
  sf_initServers :: "string list"
  sf_initFragmentsPerServer :: "(string \<times> int) list"
  sf_totalNumberOfFragments :: int
  sf_enableMigration :: bool
  sf_loadPerServer :: "(string \<times> int) list"
  sf_newServers :: "string list"
  sf_configurationUpdateTime :: "int list"

subsection \<open>The Java library\<close>

text \<open>\<open>String.hashCode\<close>, \<open>Integer.hashCode\<close>, and the iteration order of a \<open>HashMap\<close> that grew to hold
  its keys: its capacity is doubled from 16 until the keys fill at most three quarters of it.\<close>

definition string_hash :: "string \<Rightarrow> u32" where
  "string_hash s = foldl (\<lambda>h c. 31 * h + of_nat (byte_nat c)) 0 s"

definition int_hash :: "int \<Rightarrow> u32" where
  "int_hash i = of_int i"

definition hash_spread :: "u32 \<Rightarrow> u32" where
  "hash_spread h = h XOR drop_bit 16 h"

function hash_capacity :: "nat \<Rightarrow> nat \<Rightarrow> nat" where
  "hash_capacity n c = (if c = 0 \<or> 4 * n \<le> 3 * c then c else hash_capacity n (2 * c))"
  by pat_completeness auto
termination by (relation "measure (\<lambda>(n, c). 4 * n - c)") auto

declare hash_capacity.simps [simp del]

definition hash_order :: "('k \<Rightarrow> u32) \<Rightarrow> 'k list \<Rightarrow> 'k list" where
  "hash_order h ks = sort_key (\<lambda>k. unat (hash_spread (h k)) mod hash_capacity (length ks) 16) ks"

text \<open>The nearest \<open>double\<close>, ties to even; no number here is outside the range of its exponent.\<close>

function bits :: "nat \<Rightarrow> nat" where
  "bits n = (if n = 0 then 0 else Suc (bits (n div 2)))"
  by pat_completeness auto
termination by (relation "measure id") auto

declare bits.simps [simp del]

definition round_even :: "rat \<Rightarrow> int" where
  "round_even x = (let f = \<lfloor>x\<rfloor>; r = x - of_int f in
     if r < 1 / 2 \<or> r = 1 / 2 \<and> even f then f else f + 1)"

definition dbl :: "rat \<Rightarrow> rat" where
  "dbl x =
    (if x = 0 then 0
     else let (a, b) = quotient_of \<bar>x\<bar>;
              e = int (bits (nat a)) - int (bits (nat b));
              e = (if \<bar>x\<bar> < 2 powi e then e - 1 else e);
              u = 2 powi (e - 52)
          in of_int (round_even (x / u)) * u)"

text \<open>The conversion of a \<open>double\<close> to \<open>int\<close> rounds towards zero.\<close>

definition dbl_to_int :: "rat \<Rightarrow> int" where
  "dbl_to_int x = (if x < 0 then - \<lfloor>- x\<rfloor> else \<lfloor>x\<rfloor>)"

subsection \<open>Assignment of fragments\<close>

text \<open>The fragment that \<open>assign\<close> and \<open>assignBalanceLoad\<close> build for an id and its server.\<close>

definition new_fragment :: "int \<Rightarrow> string \<Rightarrow> fragment" where
  "new_fragment i server = \<lparr>fr_physical_server = server, fr_migrate_server = ''-1'', fr_fragment_id = i,
     fr_prev_fragment_cfg_id = -1, fr_fragment_cfg_id = 0, fr_next_fragment_cfg_id = -1, fr_state = FRAGMENT_NORMAL\<rparr>"

type_synonym placement = "(string \<times> int list) list"

definition frags_of :: "placement \<Rightarrow> string \<Rightarrow> int list" where
  "frags_of sf server = (case map_of sf server of None \<Rightarrow> [] | Some frags \<Rightarrow> frags)"

text \<open>The last two loops of both algorithms: the server of each fragment id, and the new fragments in the
  order of a \<open>HashMap\<close> with the ids as keys.\<close>

definition frag_id_server :: "placement \<Rightarrow> (int \<times> string) list" where
  "frag_id_server sf = fold (\<lambda>server m. fold (\<lambda>i. AList.update i server) (frags_of sf server) m)
     (hash_order string_hash (map fst sf)) []"

definition new_fragments :: "placement \<Rightarrow> fragment list" where
  "new_fragments sf = (let m = frag_id_server sf in
     map (\<lambda>i. new_fragment i (the (map_of m i))) (hash_order int_hash (map fst m)))"

text \<open>The first loop of \<open>assign\<close>: a server keeps the first \<open>per\<close> of its fragments.\<close>

fun assign_keep :: "int \<Rightarrow> fragment list \<Rightarrow> placement \<Rightarrow> int list \<Rightarrow> placement \<times> int list" where
  "assign_keep per [] sf re = (sf, re)"
| "assign_keep per (f # fs) sf re =
    (let server = fr_physical_server f; frags = frags_of sf server in
     if int (length frags) = per then assign_keep per fs (AList.update server frags sf) (re @ [fr_fragment_id f])
     else assign_keep per fs (AList.update server (frags @ [fr_fragment_id f]) sf) re)"

text \<open>The second loop: the servers with fewer fragments are filled up from the others; the result has the ids that are
  still in the list at the end.\<close>

fun fill_up :: "int \<Rightarrow> int list \<Rightarrow> int list \<Rightarrow> int list \<times> int list" where
  "fill_up per frags [] = (frags, [])"
| "fill_up per frags (i # re) = (if int (length frags) < per then fill_up per (frags @ [i]) re else (frags, i # re))"

fun assign_fill :: "int \<Rightarrow> string list \<Rightarrow> placement \<Rightarrow> int list \<Rightarrow> placement \<times> int list" where
  "assign_fill per [] sf re = (sf, re)"
| "assign_fill per (server # servers) sf re =
    (let (frags, re) = fill_up per (frags_of sf server) re in assign_fill per servers (AList.update server frags sf) re)"

definition assign :: "fragment list \<Rightarrow> string list \<Rightarrow> int \<Rightarrow> fragment list option" where
  "assign originalFragments servers totalFrags =
    (if servers = [] then None
     else let per = sgn totalFrags * (\<bar>totalFrags\<bar> div int (length servers));
              (sf, re) = assign_keep per originalFragments [] [];
              (sf, re) = assign_fill per (hash_order string_hash (map fst sf)) sf re
          in Some (new_fragments sf))"

text \<open>\<open>assignBalanceLoad\<close>. First the fragments of each server.\<close>

definition server_fragments :: "fragment list \<Rightarrow> placement" where
  "server_fragments fs = fold (\<lambda>f sf. AList.update (fr_physical_server f) (frags_of sf (fr_physical_server f) @ [fr_fragment_id f]) sf) fs []"

text \<open>Then the servers whose load is above the balance give the first of their fragments away. The state of the
  loop is the ids with their load, the new placement, and the servers that are not above.\<close>

type_synonym shed_st = "(int \<times> rat) list \<times> placement \<times> string list"

definition balance_shed :: "rat \<Rightarrow> (string \<times> int) list \<Rightarrow> string \<times> int list \<Rightarrow> shed_st \<Rightarrow> shed_st option" where
  "balance_shed balanceLoad loads e st =
    (case (e, st) of ((server, frags), (re, sf, lows)) \<Rightarrow> do {
       curLoad \<leftarrow> map_of loads server;
       let loadPerFrag = dbl (of_int curLoad / of_nat (length frags));
       if of_int curLoad > balanceLoad then
         let moveFrags = int (length frags) - dbl_to_int (dbl (balanceLoad / loadPerFrag)) in
         if moveFrags < 0 then None
         else Some (re @ map (\<lambda>i. (i, loadPerFrag)) (take (nat moveFrags) frags),
                AList.update server (drop (nat moveFrags) frags) sf, lows)
       else Some (re, AList.update server frags sf, lows @ [server])
     })"

text \<open>The others take them while they are below the balance, and the rest goes to them in turn.\<close>

fun balance_take :: "rat \<Rightarrow> rat \<Rightarrow> int list \<Rightarrow> (int \<times> rat) list \<Rightarrow> int list \<times> (int \<times> rat) list" where
  "balance_take balanceLoad curLoad frags [] = (frags, [])"
| "balance_take balanceLoad curLoad frags ((i, l) # re) =
    (if curLoad < balanceLoad then balance_take balanceLoad (dbl (curLoad + l)) (frags @ [i]) re else (frags, (i, l) # re))"

definition balance_fill ::
    "rat \<Rightarrow> (string \<times> int) list \<Rightarrow> string \<Rightarrow> placement \<times> (int \<times> rat) list \<Rightarrow> (placement \<times> (int \<times> rat) list) option" where
  "balance_fill balanceLoad loads server st =
    (case st of (sf, re) \<Rightarrow> do {
       load \<leftarrow> map_of loads server;
       let (frags, re) = balance_take balanceLoad (of_int load) (frags_of sf server) re;
       Some (AList.update server frags sf, re)
     })"

fun balance_rest :: "string list \<Rightarrow> nat \<Rightarrow> placement \<Rightarrow> (int \<times> rat) list \<Rightarrow> placement option" where
  "balance_rest lows i sf [] = Some sf"
| "balance_rest lows i sf ((j, l) # re) =
    (if lows = [] then None
     else let i = i mod length lows; server = lows ! i in
       balance_rest lows (i + 1) (AList.update server (frags_of sf server @ [j]) sf) re)"

text \<open>With no server at all the balance is infinite and no server is above it.\<close>

definition assignBalanceLoad :: "fragment list \<Rightarrow> string list \<Rightarrow> (string \<times> int) list \<Rightarrow> fragment list option" where
  "assignBalanceLoad originalFragments servers loads = do {
     let sf = server_fragments originalFragments;
     let bound = (if servers = [] then of_int (1 + Max (insert 0 (set (map snd loads)))) else dbl (100 / of_nat (length servers)));
     (re, sf, lows) \<leftarrow> foldm (\<lambda>server. balance_shed bound loads (server, frags_of sf server)) (hash_order string_hash (map fst sf)) ([], [], []);
     (sf, re) \<leftarrow> foldm (balance_fill bound loads) (hash_order string_hash (map fst sf)) (sf, re);
     sf \<leftarrow> balance_rest lows 0 sf re;
     Some (new_fragments sf)
   }"

subsection \<open>Configurations\<close>

definition state_from :: "fragment_state \<Rightarrow> server_state" where
  "state_from st = (case st of FRAGMENT_MIGRATE \<Rightarrow> SERVER_MIGRATION | FRAGMENT_NORMAL \<Rightarrow> SERVER_NORMAL)"

text \<open>The fragments of the first configuration, numbered through.\<close>

fun init_fragments :: "string list \<Rightarrow> (string \<times> int) list \<Rightarrow> int \<Rightarrow> fragment list option" where
  "init_fragments [] per fragId = Some []"
| "init_fragments (server # servers) per fragId =
    (case map_of per server of
       None \<Rightarrow> None
     | Some frags \<Rightarrow> map_option (\<lambda>fs. map (\<lambda>j. new_fragment (fragId + int j) server) [0..<nat frags] @ fs)
         (init_fragments servers per (fragId + max 0 frags)))"

definition buildInitConfig :: "string list \<Rightarrow> (string \<times> int) list \<Rightarrow> assignment option" where
  "buildInitConfig newServers fragsPerServer = do {
     fs \<leftarrow> init_fragments newServers fragsPerServer 0;
     Some \<lparr>ac_config_number = 0, ac_fragments = fs,
       ac_server_state_map = fold (\<lambda>server. AList.update server SERVER_NORMAL) newServers []\<rparr>
   }"

text \<open>One round of the loop of \<open>buildNextConfig\<close>: the new fragment \<open>i\<close>, and the entry of its server.\<close>

definition next_fragment :: "int \<Rightarrow> int \<Rightarrow> fragment \<Rightarrow> fragment \<Rightarrow> fragment" where
  "next_fragment newConfigId i prev new =
    (let new = (if fr_physical_server prev = fr_physical_server new then
         new\<lparr>fr_migrate_server := fr_migrate_server prev, fr_fragment_cfg_id := fr_fragment_cfg_id prev,
           fr_prev_fragment_cfg_id := fr_prev_fragment_cfg_id prev, fr_next_fragment_cfg_id := fr_next_fragment_cfg_id prev,
           fr_state := fr_state prev\<rparr>
       else
         new\<lparr>fr_migrate_server := fr_physical_server prev,
           fr_fragment_cfg_id := (if fr_next_fragment_cfg_id prev \<noteq> -1 then fr_next_fragment_cfg_id prev else newConfigId),
           fr_prev_fragment_cfg_id := fr_fragment_cfg_id prev, fr_next_fragment_cfg_id := -1, fr_state := FRAGMENT_MIGRATE\<rparr>)
     in new\<lparr>fr_fragment_id := i\<rparr>)"

definition note_state :: "fragment \<Rightarrow> (string \<times> server_state) list \<Rightarrow> (string \<times> server_state) list" where
  "note_state f m =
    (let server = fr_physical_server f; st = state_from (fr_state f) in
     if map_of m server = None \<or> st = SERVER_MIGRATION then AList.update server st m else m)"

definition buildNextConfig :: "fragment list \<Rightarrow> fragment list \<Rightarrow> int \<Rightarrow> assignment option" where
  "buildNextConfig prevFragments newFragments newConfigId =
    (if length newFragments < length prevFragments then None
     else let n = length prevFragments;
              fs = map (\<lambda>i. next_fragment newConfigId (int i) (prevFragments ! i) (newFragments ! i)) [0..<n]
          in Some \<lparr>ac_config_number = newConfigId, ac_fragments = fs @ drop n newFragments, ac_server_state_map = fold note_state fs []\<rparr>)"

definition copyFragments :: "fragment list \<Rightarrow> fragment list" where
  "copyFragments fs = map (\<lambda>i. (fs ! i)\<lparr>fr_fragment_id := int i\<rparr>) [0..<length fs]"

definition normal_fragment :: "int \<Rightarrow> int \<Rightarrow> fragment \<Rightarrow> fragment \<Rightarrow> fragment" where
  "normal_fragment newConfigId i prev new =
    new\<lparr>fr_fragment_cfg_id := (if fr_physical_server prev = fr_physical_server new then fr_fragment_cfg_id prev else newConfigId),
      fr_prev_fragment_cfg_id := -1, fr_next_fragment_cfg_id := -1, fr_state := FRAGMENT_NORMAL, fr_fragment_id := i\<rparr>"

definition buildNextNormalConfig :: "fragment list \<Rightarrow> fragment list \<Rightarrow> int \<Rightarrow> assignment option" where
  "buildNextNormalConfig prevFragments newFragments newConfigId =
    (if length newFragments < length prevFragments then None
     else let n = length prevFragments;
              fs = map (\<lambda>i. normal_fragment newConfigId (int i) (prevFragments ! i) (newFragments ! i)) [0..<n]
          in Some \<lparr>ac_config_number = newConfigId, ac_fragments = fs @ drop n newFragments, ac_server_state_map = fold note_state fs []\<rparr>)"

definition populate :: "static_config \<Rightarrow> assignment list option" where
  "populate sc = do {
     c0 \<leftarrow> buildInitConfig (sf_initServers sc) (sf_initFragmentsPerServer sc);
     if sf_newServers sc = [] then Some [c0]
     else do {
       newFragments \<leftarrow> (if sf_loadPerServer sc = [] then assign (ac_fragments c0) (sf_newServers sc) (sf_totalNumberOfFragments sc)
          else assignBalanceLoad (ac_fragments c0) (sf_newServers sc) (sf_loadPerServer sc));
       c1 \<leftarrow> (if sf_enableMigration sc then buildNextConfig (ac_fragments c0) (copyFragments newFragments) 1
          else buildNextNormalConfig (ac_fragments c0) newFragments 1);
       Some [c0, c1]
     }
   }"

subsection \<open>The order of integer keys\<close>

lemma hash_capacity_ge: "0 < c \<Longrightarrow> 4 * n \<le> 3 * hash_capacity n c"
  by (induction n c rule: hash_capacity.induct) (subst hash_capacity.simps, auto)

lemma spread_small:
  assumes "0 \<le> k" "k < 65536" shows "unat (hash_spread (int_hash k)) = nat k"
proof -
  have "uint (of_int k :: u32) = k" using assms by (simp add: unsigned_of_int take_bit_int_eq_self)
  then have k: "unat (of_int k :: u32) = nat k" by (simp add: unat_eq_nat_uint)
  have "unat (drop_bit 16 (of_int k :: u32)) = 0" using assms by (simp add: drop_bit_eq_div unat_div k)
  then have "drop_bit 16 (of_int k :: u32) = 0" by (simp add: unat_eq_0)
  then show ?thesis using k by (simp add: hash_spread_def int_hash_def)
qed

lemma hash_order_set [simp]: "set (hash_order h ks) = set ks" "distinct (hash_order h ks) = distinct ks" "length (hash_order h ks) = length ks"
  "mset (hash_order h ks) = mset ks"
  by (simp_all add: hash_order_def)

lemma hash_order_ints:
  assumes "distinct ks" "set ks = int ` {0..<n}" "n \<le> 65536"
  shows "hash_order int_hash ks = map int [0..<n]"
proof -
  have m: "mset ks = mset (map int [0..<n])"
    using assms(1,2) by (intro set_eq_iff_mset_eq_distinct [THEN iffD1]) (auto simp: distinct_map)
  then have len: "length ks = n" by (metis length_map length_upt minus_nat.diff_0 size_mset)
  let ?f = "\<lambda>k. unat (hash_spread (int_hash k)) mod hash_capacity (length ks) 16"
  have f: "?f (int i) = i" if "i < n" for i
    using spread_small [of "int i"] that assms(3) hash_capacity_ge [of 16 n] len by simp
  have inj: "inj_on ?f (set ks)" using f assms(2) by (auto simp: inj_on_def)
  have "map ?f (map int [0..<n]) = [0..<n]" by (rule nth_equalityI) (simp_all add: f)
  then have "sorted (map ?f (map int [0..<n]))" by simp
  then show ?thesis unfolding hash_order_def using sort_key_inj_key_eq [OF m inj] by simp
qed

subsection \<open>Placements\<close>

abbreviation placed :: "placement \<Rightarrow> int multiset" where
  "placed sf \<equiv> mset (concat (map snd sf))"

lemma frags_of_update [simp]: "frags_of (AList.update s l sf) s' = (if s' = s then l else frags_of sf s')"
  by (simp add: frags_of_def update_conv')

lemma placed_update:
  "distinct (map fst sf) \<Longrightarrow> placed (AList.update s l sf) + mset (frags_of sf s) = placed sf + mset l"
proof (induction sf)
  case (Cons e sf)
  obtain k v where e: "e = (k, v)" by force
  show ?case
  proof (cases "k = s")
    case True
    then have "map_of sf s = None" using Cons.prems e by (simp add: map_of_eq_None_iff)
    then show ?thesis using True e by (simp add: frags_of_def)
  next
    case False
    then show ?thesis using Cons e by (simp add: frags_of_def ac_simps)
  qed
qed (simp add: frags_of_def)

lemma frags_of_placed:
  "distinct (map fst sf) \<Longrightarrow> i \<in># placed sf \<longleftrightarrow> (\<exists>s \<in> fst ` set sf. i \<in> set (frags_of sf s))"
proof (induction sf)
  case (Cons e sf)
  obtain k v where e: "e = (k, v)" by force
  have x: "frags_of (e # sf) x = (if x = k then v else frags_of sf x)" for x by (simp add: frags_of_def e)
  have "(\<exists>s \<in> fst ` set sf. i \<in> set (frags_of (e # sf) s)) = (\<exists>s \<in> fst ` set sf. i \<in> set (frags_of sf s))"
    by (rule bex_cong) (use Cons.prems e x in auto)
  moreover have "fst ` set (e # sf) = insert k (fst ` set sf)" "frags_of (e # sf) k = v" by (simp_all add: e frags_of_def)
  ultimately have "(\<exists>s \<in> fst ` set (e # sf). i \<in> set (frags_of (e # sf) s)) \<longleftrightarrow> i \<in> set v \<or> (\<exists>s \<in> fst ` set sf. i \<in> set (frags_of sf s))"
    by (metis insert_iff)
  then show ?case using Cons.IH Cons.prems by (simp add: e)
qed simp

lemma frags_of_sub: "set (frags_of sf x) \<subseteq> set (concat (map snd sf))"
proof (cases "map_of sf x")
  case (Some l)
  then have "(x, l) \<in> set sf" by (rule map_of_SomeD)
  then show ?thesis using Some by (force simp: frags_of_def)
qed (simp add: frags_of_def)

text \<open>No id is placed twice.\<close>

lemma placed_unique:
  assumes "distinct (map fst sf)" "distinct (concat (map snd sf))" "i \<in> set (frags_of sf s)" "i \<in> set (frags_of sf t)"
  shows "s = t"
  using assms
proof (induction sf)
  case (Cons e sf)
  obtain k v where e: "e = (k, v)" by force
  have x: "frags_of ((k, v) # sf) x = (if x = k then v else frags_of sf x)" for x by (simp add: frags_of_def)
  have "set v \<inter> set (concat (map snd sf)) = {}" using Cons.prems(2) by (simp add: e)
  then have "i \<in> set v \<Longrightarrow> i \<notin> set (frags_of sf x)" for x using frags_of_sub [of sf x] by blast
  then show ?case using Cons.prems Cons.IH unfolding e x by (simp split: if_splits)
qed (simp add: frags_of_def)

text \<open>The server of each id.\<close>

lemma put_all:
  "map_of (fold (\<lambda>i. AList.update i s) is m) j = (if j \<in> set is then Some s else map_of m j)"
  "distinct (map fst m) \<Longrightarrow> distinct (map fst (fold (\<lambda>i. AList.update i s) is m))"
  by (induction "is" arbitrary: m) (auto simp: update_conv' distinct_update)

lemma frag_id_server_lookup:
  assumes d: "distinct (map fst sf)" "distinct (concat (map snd sf))"
  shows "map_of (frag_id_server sf) i = Some s \<longleftrightarrow> s \<in> fst ` set sf \<and> i \<in> set (frags_of sf s)" "distinct (map fst (frag_id_server sf))"
proof -
  let ?F = "\<lambda>server m. fold (\<lambda>i. AList.update i server) (frags_of sf server) m"
  have "(map_of (fold ?F ss m) i = Some s \<longleftrightarrow> s \<in> set ss \<and> i \<in> set (frags_of sf s) \<or> (\<forall>t \<in> set ss. i \<notin> set (frags_of sf t)) \<and> map_of m i = Some s)
    \<and> (distinct (map fst m) \<longrightarrow> distinct (map fst (fold ?F ss m)))" for ss m
  proof (induction ss arbitrary: m)
    case (Cons t ss)
    then show ?case using placed_unique [OF d, of i] by (auto simp: put_all)
  qed simp
  from this [of "hash_order string_hash (map fst sf)" "[]"]
  show "map_of (frag_id_server sf) i = Some s \<longleftrightarrow> s \<in> fst ` set sf \<and> i \<in> set (frags_of sf s)" "distinct (map fst (frag_id_server sf))"
    by (simp_all add: frag_id_server_def)
qed

lemma frag_id_server_ids:
  assumes d: "distinct (map fst sf)" "distinct (concat (map snd sf))"
  shows "set (map fst (frag_id_server sf)) = set (concat (map snd sf))" "length (new_fragments sf) = length (concat (map snd sf))"
proof -
  note l = frag_id_server_lookup [OF d]
  have "set (map fst (frag_id_server sf)) = {j. \<exists>s. map_of (frag_id_server sf) j = Some s}"
    by (auto simp: dom_map_of_conv_image_fst [symmetric] dom_def)
  also have "\<dots> = {j. j \<in># placed sf}" using l(1) frags_of_placed [OF d(1)] by blast
  finally show s: "set (map fst (frag_id_server sf)) = set (concat (map snd sf))" by auto
  have "length (map fst (frag_id_server sf)) = length (concat (map snd sf))" using s distinct_card [OF l(2)] distinct_card [OF d(2)] by simp
  then show "length (new_fragments sf) = length (concat (map snd sf))" by (simp add: new_fragments_def Let_def)
qed

text \<open>When the ids from 0 on are placed, each once, the new fragments are in the order of their ids, and each is at the
  server that has it.\<close>

lemma new_fragments_placed:
  assumes d: "distinct (map fst sf)" and ids: "placed sf = mset (map int [0..<n])" "n \<le> 65536" and i: "i < n"
  shows "\<exists>s \<in> fst ` set sf. new_fragments sf ! i = new_fragment (int i) s"
proof -
  have "distinct (map int [0..<n])" by (simp add: distinct_map)
  then have dc: "distinct (concat (map snd sf))" using ids(1) by (metis mset_eq_imp_distinct_iff)
  note l = frag_id_server_lookup [OF d dc]
  have "set (concat (map snd sf)) = int ` {0..<n}" using mset_eq_setD [OF ids(1)] by simp
  then have s: "set (map fst (frag_id_server sf)) = int ` {0..<n}" using frag_id_server_ids(1) [OF d dc] by simp
  have o: "hash_order int_hash (map fst (frag_id_server sf)) = map int [0..<n]" by (rule hash_order_ints [OF l(2) s ids(2)])
  have "int i \<in> set (map fst (frag_id_server sf))" using s i by auto
  then obtain s where s: "map_of (frag_id_server sf) (int i) = Some s" by (metis image_set map_of_eq_None_iff not_None_eq)
  then have "new_fragments sf ! i = new_fragment (int i) s" using i by (simp add: new_fragments_def Let_def o)
  then show ?thesis using l(1) s by blast
qed

subsection \<open>No fragment is lost\<close>

text \<open>Both algorithms keep the servers that have fragments and place each id at most once.\<close>

definition places :: "fragment list \<Rightarrow> placement \<Rightarrow> int multiset \<Rightarrow> bool" where
  "places fs sf re \<longleftrightarrow> distinct (map fst sf) \<and> fst ` set sf \<subseteq> fr_physical_server ` set fs
     \<and> placed sf + re = mset (map fr_fragment_id fs)"

lemma places_put:
  assumes "places fs sf re" "mset l + re' = mset (frags_of sf s) + re" "s \<in> fr_physical_server ` set fs"
  shows "places fs (AList.update s l sf) re'"
proof -
  have d: "distinct (map fst sf)" using assms(1) by (simp add: places_def)
  have "placed (AList.update s l sf) + re' + mset (frags_of sf s) = placed sf + mset l + re'"
    using placed_update [OF d, of s l] by (simp add: ac_simps)
  also have "\<dots> = placed sf + re + mset (frags_of sf s)" using assms(2) by (simp add: ac_simps)
  finally show ?thesis using assms by (auto simp: places_def distinct_update dom_update)
qed

lemma places_add:
  assumes "places gs sf re" "mset l + re' = mset (frags_of sf (fr_physical_server f)) + (re + {#fr_fragment_id f#})"
  shows "places (gs @ [f]) (AList.update (fr_physical_server f) l sf) re'"
proof -
  have "places (gs @ [f]) sf (re + {#fr_fragment_id f#})" using assms(1) by (auto simp: places_def)
  then show ?thesis using assms(2) by (rule places_put) simp
qed

lemma assign_keep_places:
  "\<lbrakk>assign_keep per fs sf re = (sf', re'); places gs sf (mset re)\<rbrakk> \<Longrightarrow> places (gs @ fs) sf' (mset re')"
proof (induction fs arbitrary: gs sf re)
  case (Cons f fs)
  have "places (gs @ [f]) (AList.update (fr_physical_server f) (frags_of sf (fr_physical_server f)) sf) (mset (re @ [fr_fragment_id f]))"
    "places (gs @ [f]) (AList.update (fr_physical_server f) (frags_of sf (fr_physical_server f) @ [fr_fragment_id f]) sf) (mset re)"
    by (rule places_add [OF Cons.prems(2)], simp)+
  then show ?case using Cons.prems(1) Cons.IH [of _ _ "gs @ [f]"] by (auto simp: Let_def split: if_splits)
qed simp

lemma fill_up_mset: "fill_up per frags re = (frags', re') \<Longrightarrow> mset frags' + mset re' = mset frags + mset re"
  by (induction per frags re rule: fill_up.induct) (auto split: if_splits)

lemma assign_fill_places:
  "\<lbrakk>assign_fill per ss sf re = (sf', re'); places fs sf (mset re); set ss \<subseteq> fr_physical_server ` set fs\<rbrakk> \<Longrightarrow> places fs sf' (mset re')"
proof (induction ss arbitrary: sf re)
  case (Cons s ss)
  obtain frags re2 where f: "fill_up per (frags_of sf s) re = (frags, re2)" by force
  then show ?case using Cons.prems Cons.IH places_put [OF Cons.prems(2) fill_up_mset [OF f]] by simp
qed simp

lemma assign_places:
  assumes "assign fs servers totalFrags = Some new"
  shows "\<exists>sf re. places fs sf re \<and> new = new_fragments sf"
proof -
  let ?per = "sgn totalFrags * (\<bar>totalFrags\<bar> div int (length servers))"
  obtain sf re where k: "assign_keep ?per fs [] [] = (sf, re)" by force
  obtain sf' re' where f: "assign_fill ?per (hash_order string_hash (map fst sf)) sf re = (sf', re')" by force
  have p: "places fs sf (mset re)" using assign_keep_places [OF k, of "[]"] by (simp add: places_def)
  then have "places fs sf' (mset re')" by (intro assign_fill_places [OF f]) (auto simp: places_def)
  then show ?thesis using assms k f by (auto simp: assign_def Let_def split: if_splits)
qed

lemma server_fragments_places: "places fs (server_fragments fs) {#}"
proof -
  have "places gs sf {#} \<Longrightarrow> places (gs @ fs)
    (fold (\<lambda>f sf. AList.update (fr_physical_server f) (frags_of sf (fr_physical_server f) @ [fr_fragment_id f]) sf) fs sf) {#}" for gs sf
  proof (induction fs arbitrary: gs sf)
    case (Cons f fs)
    show ?case using Cons.IH [OF places_add [OF Cons.prems, of "frags_of sf (fr_physical_server f) @ [fr_fragment_id f]" "{#}" f]] by simp
  qed simp
  from this [of "[]" "[]"] show ?thesis by (simp add: server_fragments_def places_def)
qed

lemma balance_shed_step:
  assumes "balance_shed bound loads (s, frags) (re, sf, lows) = Some (re', sf', lows')"
  shows "\<exists>k. sf' = AList.update s (drop k frags) sf \<and> map fst re' = map fst re @ take k frags \<and> set lows' \<subseteq> insert s (set lows)"
proof -
  obtain cur where c: "map_of loads s = Some cur" using assms by (auto simp: balance_shed_def split: Option.bind_splits)
  show ?thesis
  proof (cases "of_int cur > bound")
    case True
    then show ?thesis using assms c by (auto simp: balance_shed_def Let_def comp_def split: if_splits)
  next
    case False
    then show ?thesis using assms c by (intro exI [of _ 0]) (auto simp: balance_shed_def)
  qed
qed

text \<open>The placement that the second loop of \<open>assignBalanceLoad\<close> builds has the servers it has visited so far.\<close>

lemma balance_shed_places:
  assumes "foldm (\<lambda>s. balance_shed bound loads (s, frags_of sf0 s)) ss (re, sf, lows) = Some (re', sf', lows')"
    "distinct ss" "set ss \<inter> fst ` set sf = {}" "distinct (map fst sf)" "set lows \<subseteq> fst ` set sf"
  shows "distinct (map fst sf') \<and> fst ` set sf' = fst ` set sf \<union> set ss \<and> set lows' \<subseteq> fst ` set sf'
    \<and> placed sf' + mset (map fst re') = placed sf + mset (map fst re) + mset (concat (map (frags_of sf0) ss))"
  using assms
proof (induction ss arbitrary: re sf lows)
  case (Cons s ss)
  then have f: "map_of sf s = None" by (simp add: map_of_eq_None_iff)
  obtain re2 sf2 lows2 where b: "balance_shed bound loads (s, frags_of sf0 s) (re, sf, lows) = Some (re2, sf2, lows2)"
    and r: "foldm (\<lambda>s. balance_shed bound loads (s, frags_of sf0 s)) ss (re2, sf2, lows2) = Some (re', sf', lows')"
    using Cons.prems(1) by (auto split: option.splits)
  obtain l where l: "sf2 = AList.update s l sf" "mset (map fst re2) + mset l = mset (map fst re) + mset (frags_of sf0 s)" "set lows2 \<subseteq> insert s (set lows)"
    using balance_shed_step [OF b] by (metis (no_types, lifting) append_take_drop_id mset_append add.assoc)
  have p: "placed sf2 = placed sf + mset l" using placed_update [OF Cons.prems(4), of s l] f l(1) by (simp add: frags_of_def)
  have k: "fst ` set sf2 = insert s (fst ` set sf)" "distinct (map fst sf2)" using l(1) Cons.prems(4) by (auto simp: dom_update distinct_update)
  have lw: "set lows2 \<subseteq> fst ` set sf2" unfolding k(1) by (rule subset_trans [OF l(3) insert_mono [OF Cons.prems(5)]])
  have "set ss \<inter> fst ` set sf2 = {}" "distinct ss" using Cons.prems(2,3) k(1) by auto
  from Cons.IH [OF r this(2,1) k(2) lw] have i: "distinct (map fst sf')" "fst ` set sf' = fst ` set sf2 \<union> set ss" "set lows' \<subseteq> fst ` set sf'"
    "placed sf' + mset (map fst re') = placed sf2 + mset (map fst re2) + mset (concat (map (frags_of sf0) ss))" by blast+
  have "placed sf2 + mset (map fst re2) = placed sf + mset (map fst re) + mset (frags_of sf0 s)" using p l(2) by (simp add: ac_simps)
  then show ?case using i k(1) by simp
qed simp

lemma placed_order:
  assumes "distinct (map fst sf)"
  shows "mset (concat (map (frags_of sf) (hash_order h (map fst sf)))) = placed sf"
proof -
  have c: "mset (concat (map f xs)) = \<Sum>\<^sub># (image_mset (\<lambda>x. mset (f x)) (mset xs))" for f :: "string \<Rightarrow> int list" and xs
    by (induction xs) simp_all
  have "map (frags_of sf) (map fst sf) = map snd sf" using assms by (auto simp: frags_of_def)
  then have "placed sf = mset (concat (map (frags_of sf) (map fst sf)))" by (simp only:)
  then show ?thesis unfolding c by simp
qed

lemma balance_take_mset:
  "balance_take bound cur frags re = (frags', re') \<Longrightarrow> mset frags' + mset (map fst re') = mset frags + mset (map fst re)"
  by (induction bound cur frags re rule: balance_take.induct) (auto split: if_splits)

lemma balance_fill_places:
  assumes "foldm (balance_fill bound loads) ss (sf, re) = Some (sf', re')" "places fs sf (mset (map fst re))"
    "set ss \<subseteq> fr_physical_server ` set fs"
  shows "places fs sf' (mset (map fst re'))"
proof -
  let ?P = "\<lambda>(sf, re). places fs sf (mset (map fst re))"
  have "?P (sf', re')"
  proof (rule foldm_invariant [OF assms(1), of ?P])
    fix s st st' assume s: "s \<in> set ss" and P: "?P st" and b: "balance_fill bound loads s st = Some st'"
    obtain sf re where st: "st = (sf, re)" by force
    obtain l frags re2 where t: "balance_take bound l (frags_of sf s) re = (frags, re2)" and st': "st' = (AList.update s frags sf, re2)"
      using b unfolding st by (auto simp: balance_fill_def split: Option.bind_splits prod.splits)
    show "?P st'" using places_put [OF _ balance_take_mset [OF t]] P s assms(3) unfolding st st' by auto
  qed (use assms(2) in simp)
  then show ?thesis by simp
qed

lemma balance_rest_places:
  "\<lbrakk>balance_rest lows i sf re = Some sf'; places fs sf (mset (map fst re)); set lows \<subseteq> fr_physical_server ` set fs\<rbrakk> \<Longrightarrow> places fs sf' {#}"
proof (induction lows i sf re rule: balance_rest.induct)
  case (2 lows i sf j l re)
  let ?s = "lows ! (i mod length lows)"
  have ne: "lows \<noteq> []" using 2(2) by (auto split: if_splits)
  then have "?s \<in> fr_physical_server ` set fs" using 2(4) by (meson mod_less_divisor length_greater_0_conv nth_mem subsetD)
  then have "places fs (AList.update ?s (frags_of sf ?s @ [j]) sf) (mset (map fst re))" by (intro places_put [OF 2(3)]) simp_all
  then show ?case using 2(1) [OF ne refl refl] 2(2,4) ne by (simp add: Let_def)
qed simp

lemma assignBalanceLoad_places:
  assumes "assignBalanceLoad fs servers loads = Some new"
  shows "\<exists>sf re. places fs sf re \<and> new = new_fragments sf"
proof -
  define sf0 where "sf0 = server_fragments fs"
  have p0: "places fs sf0 {#}" unfolding sf0_def by (rule server_fragments_places)
  obtain bound re sf lows sf2 re2 sf3 where
    s: "foldm (\<lambda>s. balance_shed bound loads (s, frags_of sf0 s)) (hash_order string_hash (map fst sf0)) ([], [], []) = Some (re, sf, lows)"
    and f: "foldm (balance_fill bound loads) (hash_order string_hash (map fst sf)) (sf, re) = Some (sf2, re2)"
    and r: "balance_rest lows 0 sf2 re2 = Some sf3" and new: "new = new_fragments sf3"
    using assms unfolding assignBalanceLoad_def Let_def sf0_def [symmetric] by (auto split: Option.bind_splits)
  have d: "distinct (map fst sf0)" using p0 by (simp add: places_def)
  have k: "distinct (map fst sf)" "fst ` set sf = fst ` set sf0" "set lows \<subseteq> fst ` set sf0" "placed sf + mset (map fst re) = placed sf0"
    using balance_shed_places [OF s] d placed_order [OF d, of string_hash] by (simp_all, metis+)
  have v: "fst ` set sf \<subseteq> fr_physical_server ` set fs" using p0 k(2) by (simp add: places_def)
  have "places fs sf (mset (map fst re))" using k p0 by (simp add: places_def)
  then have "places fs sf2 (mset (map fst re2))" using v by (intro balance_fill_places [OF f]) simp_all
  moreover have "set lows \<subseteq> fr_physical_server ` set fs" using k(3) v unfolding k(2) by (rule subset_trans)
  ultimately have "places fs sf3 {#}" by (rule balance_rest_places [OF r])
  then show ?thesis using new by blast
qed

subsection \<open>The configurations\<close>

lemma init_fragments_nth:
  "\<lbrakk>init_fragments ss per k = Some fs; i < length fs\<rbrakk> \<Longrightarrow> \<exists>s \<in> set ss. fs ! i = new_fragment (k + int i) s"
proof (induction ss arbitrary: k fs i)
  case (Cons s ss)
  obtain frags rest where r: "init_fragments ss per (k + max 0 frags) = Some rest"
    and fs: "fs = map (\<lambda>j. new_fragment (k + int j) s) [0..<nat frags] @ rest"
    using Cons.prems(1) by (auto split: option.splits)
  show ?case
  proof (cases "i < nat frags")
    case True
    then show ?thesis by (auto simp: fs nth_append)
  next
    case False
    then have "i - nat frags < length rest" using Cons.prems(2) fs by auto
    from Cons.IH [OF r this] show ?thesis using False by (auto simp: fs nth_append of_nat_diff)
  qed
qed simp

lemma init_ids: "init_fragments ss per 0 = Some fs \<Longrightarrow> map fr_fragment_id fs = map int [0..<length fs]"
  by (rule nth_equalityI) (auto dest: init_fragments_nth simp: new_fragment_def)

text \<open>When an assignment has a fragment for each of the old ones, it has no other.\<close>

lemma reassigned:
  assumes p: "places fs sf re" and ids: "map fr_fragment_id fs = map int [0..<n]" and n: "n \<le> length (new_fragments sf)" "n \<le> 65536"
  shows "length (new_fragments sf) = n" "i < n \<Longrightarrow> \<exists>s \<in> fr_physical_server ` set fs. new_fragments sf ! i = new_fragment (int i) s"
proof -
  have d: "distinct (map fst sf)" and m: "placed sf + re = mset (map int [0..<n])" using p ids by (simp_all add: places_def)
  have "distinct (map int [0..<n])" by (simp add: distinct_map)
  then have "distinct (concat (map snd sf))" using m
    by (metis distinct_append ex_mset mset_append mset_eq_imp_distinct_iff)
  then have l: "length (new_fragments sf) = size (placed sf)" using frag_id_server_ids(2) [OF d] by simp
  have "size (placed sf) + size re = n" using arg_cong [OF m, of size] by simp
  then have "size re = 0" and len: "length (new_fragments sf) = n" using l n(1) by linarith+
  then have "re = {#}" by simp
  with m have m: "placed sf = mset (map int [0..<n])" by simp
  show "length (new_fragments sf) = n" by (rule len)
  show "\<exists>s \<in> fr_physical_server ` set fs. new_fragments sf ! i = new_fragment (int i) s" if "i < n"
    using new_fragments_placed [OF d m n(2) that] p unfolding places_def by (meson subsetD)
qed

lemma note_states:
  "map_of (fold note_state fs m) s =
    (if \<exists>f \<in> set fs. fr_physical_server f = s \<and> fr_state f = FRAGMENT_MIGRATE then Some SERVER_MIGRATION
     else if map_of m s \<noteq> None then map_of m s
     else if s \<in> fr_physical_server ` set fs then Some SERVER_NORMAL else None)"
proof (induction fs arbitrary: m)
  case (Cons f fs)
  have "map_of (note_state f m) s = (if fr_physical_server f = s \<and> fr_state f = FRAGMENT_MIGRATE then Some SERVER_MIGRATION
     else if map_of m s \<noteq> None then map_of m s else if fr_physical_server f = s then Some SERVER_NORMAL else None)"
    by (cases "fr_state f") (auto simp: note_state_def Let_def state_from_def update_conv')
  then show ?case using Cons.IH [of "note_state f m"] by auto
qed simp

text \<open>The second configuration, built from the first with \<open>next_fragment\<close> or \<open>normal_fragment\<close>.\<close>

definition renew :: "bool \<Rightarrow> int \<Rightarrow> int \<Rightarrow> fragment \<Rightarrow> fragment \<Rightarrow> fragment" where
  "renew migration = (if migration then next_fragment else normal_fragment)"

lemma populate_two:
  assumes "populate sc = Some cs" "cs \<noteq> [hd cs]" "length (ac_fragments (hd cs)) \<le> 65536"
  obtains c0 c1 ss where "cs = [c0, c1]" "init_fragments (sf_initServers sc) (sf_initFragmentsPerServer sc) 0 = Some (ac_fragments c0)"
    "ac_config_number c0 = 0" "ac_config_number c1 = 1" "length ss = length (ac_fragments c0)" "set ss \<subseteq> fr_physical_server ` set (ac_fragments c0)"
    "ac_fragments c1 = map (\<lambda>i. renew (sf_enableMigration sc) 1 (int i) (ac_fragments c0 ! i) (new_fragment (int i) (ss ! i))) [0..<length (ac_fragments c0)]"
    "ac_server_state_map c1 = fold note_state (ac_fragments c1) []"
proof -
  obtain c0 new c1 where c0: "buildInitConfig (sf_initServers sc) (sf_initFragmentsPerServer sc) = Some c0" and cs: "cs = [c0, c1]"
    and new: "assign (ac_fragments c0) (sf_newServers sc) (sf_totalNumberOfFragments sc) = Some new
        \<or> assignBalanceLoad (ac_fragments c0) (sf_newServers sc) (sf_loadPerServer sc) = Some new"
    and c1: "(if sf_enableMigration sc then buildNextConfig (ac_fragments c0) (copyFragments new) 1
          else buildNextNormalConfig (ac_fragments c0) new 1) = Some c1"
    using assms(1,2) by (auto simp: populate_def split: Option.bind_splits if_splits)
  let ?fs = "ac_fragments c0" and ?n = "length (ac_fragments c0)"
  have i: "init_fragments (sf_initServers sc) (sf_initFragmentsPerServer sc) 0 = Some ?fs" and n0: "ac_config_number c0 = 0"
    using c0 by (auto simp: buildInitConfig_def split: Option.bind_splits)
  obtain sf re where p: "places ?fs sf re" "new = new_fragments sf" using new assign_places assignBalanceLoad_places by metis
  have n: "?n \<le> length new" using c1 by (auto simp: buildNextConfig_def buildNextNormalConfig_def copyFragments_def split: if_splits)
  have "?n \<le> 65536" using assms(3) cs by simp
  note r = reassigned [OF p(1) init_ids [OF i] n [unfolded p(2)] this, folded p(2)]
  have "\<forall>i < ?n. \<exists>s. s \<in> fr_physical_server ` set ?fs \<and> new ! i = new_fragment (int i) s" using r(2) by (simp add: Bex_def)
  then obtain ss where ss: "length ss = ?n" "\<forall>i < ?n. ss ! i \<in> fr_physical_server ` set ?fs \<and> new ! i = new_fragment (int i) (ss ! i)"
    unfolding Skolem_list_nth by (elim exE conjE)
  have "copyFragments new ! i = new ! i" if "i < ?n" for i using that ss r(1) by (simp add: copyFragments_def new_fragment_def)
  then have "ac_config_number c1 = 1 \<and> ac_fragments c1 = map (\<lambda>i. renew (sf_enableMigration sc) 1 (int i) (?fs ! i) (new_fragment (int i) (ss ! i))) [0..<?n]
    \<and> ac_server_state_map c1 = fold note_state (ac_fragments c1) []"
    using c1 r(1) ss(2) by (auto simp: buildNextConfig_def buildNextNormalConfig_def Let_def renew_def copyFragments_def split: if_splits)
  moreover have "set ss \<subseteq> fr_physical_server ` set ?fs" using ss by (auto simp: set_conv_nth [of ss])
  ultimately show thesis using that [OF cs i n0] ss(1) by blast
qed

text \<open>The fragment that \<open>populate\<close> makes of an old one that goes to a server.\<close>

definition moved :: "bool \<Rightarrow> fragment \<Rightarrow> string \<Rightarrow> fragment" where
  "moved migration f server =
    (if fr_physical_server f = server then f
     else if migration then f\<lparr>fr_physical_server := server, fr_migrate_server := fr_physical_server f, fr_fragment_cfg_id := 1,
       fr_prev_fragment_cfg_id := 0, fr_state := FRAGMENT_MIGRATE\<rparr>
     else f\<lparr>fr_physical_server := server, fr_fragment_cfg_id := 1\<rparr>)"

lemma renew_moved: "renew migration 1 i (new_fragment i s) (new_fragment i s') = moved migration (new_fragment i s) s'"
  by (simp add: renew_def next_fragment_def normal_fragment_def new_fragment_def moved_def Let_def)

lemma populate_facts:
  assumes "populate sc = Some [c0, c1]" "length (ac_fragments c0) \<le> 65536"
  shows "ac_config_number c0 = 0" "ac_config_number c1 = 1"
    "\<exists>ss. length ss = length (ac_fragments c0) \<and> set ss \<subseteq> fr_physical_server ` set (ac_fragments c0)
      \<and> map fr_fragment_id (ac_fragments c0) = map int [0..<length ss]
      \<and> ac_fragments c1 = map2 (moved (sf_enableMigration sc)) (ac_fragments c0) ss"
    "map_of (ac_server_state_map c1) s = (if s \<notin> fr_physical_server ` set (ac_fragments c1) then None
       else Some (if \<exists>f \<in> set (ac_fragments c1). fr_physical_server f = s \<and> fr_state f = FRAGMENT_MIGRATE then SERVER_MIGRATION else SERVER_NORMAL))"
proof -
  obtain c0' c1' ss where "[c0, c1] = [c0', c1']" and i': "init_fragments (sf_initServers sc) (sf_initFragmentsPerServer sc) 0 = Some (ac_fragments c0')"
    and n': "ac_config_number c0' = 0" "ac_config_number c1' = 1" and s': "length ss = length (ac_fragments c0')" "set ss \<subseteq> fr_physical_server ` set (ac_fragments c0')"
    and f': "ac_fragments c1' = map (\<lambda>i. renew (sf_enableMigration sc) 1 (int i) (ac_fragments c0' ! i) (new_fragment (int i) (ss ! i))) [0..<length (ac_fragments c0')]"
    and m': "ac_server_state_map c1' = fold note_state (ac_fragments c1') []"
    by (rule populate_two [OF assms(1)]) (use assms(2) in auto)
  then have c: "c0' = c0" "c1' = c1" by simp_all
  note i = i' [unfolded c] and n = n' [unfolded c] and s = s' [unfolded c] and f = f' [unfolded c] and m = m' [unfolded c]
  show "ac_config_number c0 = 0" "ac_config_number c1 = 1" by (fact n)+
  have "ac_fragments c1 = map2 (moved (sf_enableMigration sc)) (ac_fragments c0) ss"
  proof (rule nth_equalityI)
    fix j assume "j < length (ac_fragments c1)"
    then have j: "j < length (ac_fragments c0)" using f by simp
    from init_fragments_nth [OF i this] obtain t where "ac_fragments c0 ! j = new_fragment (int j) t" by auto
    then show "ac_fragments c1 ! j = map2 (moved (sf_enableMigration sc)) (ac_fragments c0) ss ! j" using j s(1) by (simp add: f renew_moved)
  qed (simp add: f s(1))
  then show "\<exists>ss. length ss = length (ac_fragments c0) \<and> set ss \<subseteq> fr_physical_server ` set (ac_fragments c0)
      \<and> map fr_fragment_id (ac_fragments c0) = map int [0..<length ss]
      \<and> ac_fragments c1 = map2 (moved (sf_enableMigration sc)) (ac_fragments c0) ss"
    using s init_ids [OF i] by metis
  show "map_of (ac_server_state_map c1) s = (if s \<notin> fr_physical_server ` set (ac_fragments c1) then None
       else Some (if \<exists>f \<in> set (ac_fragments c1). fr_physical_server f = s \<and> fr_state f = FRAGMENT_MIGRATE then SERVER_MIGRATION else SERVER_NORMAL))" for s
    unfolding m note_states by auto
qed

text \<open>C8: When the coordinator computes two configurations (of at most 65536 fragments), they have the numbers 0 and 1 and the
  same fragments, numbered from 0: none is lost and none is there twice. A fragment of the second one is the old one, or it has
  gone to another server: then, with migration, it is marked as migrating from the old server, with the old and the new
  configuration number. A server is in migration when a fragment migrates to it. Every server of the second configuration is a server of the first one: the
  list of new servers only counts.\<close>

theorem populate_configurations:
  assumes "populate sc = Some [c0, c1]" "length (ac_fragments c0) \<le> 65536"
  shows "ac_config_number c0 = 0 \<and> ac_config_number c1 = 1
    \<and> (\<exists>ss. length ss = length (ac_fragments c0) \<and> set ss \<subseteq> fr_physical_server ` set (ac_fragments c0)
         \<and> map fr_fragment_id (ac_fragments c0) = map int [0..<length ss]
         \<and> ac_fragments c1 = map2 (moved (sf_enableMigration sc)) (ac_fragments c0) ss)
    \<and> (\<forall>s. map_of (ac_server_state_map c1) s = (if s \<notin> fr_physical_server ` set (ac_fragments c1) then None
         else Some (if \<exists>f \<in> set (ac_fragments c1). fr_physical_server f = s \<and> fr_state f = FRAGMENT_MIGRATE then SERVER_MIGRATION else SERVER_NORMAL)))"
  using populate_facts [OF assms] by (intro conjI allI)

definition demo_static :: static_config where
  "demo_static = \<lparr>sf_initServers = [''a:1'', ''b:1''], sf_initFragmentsPerServer = [(''a:1'', 3), (''b:1'', 1)],
     sf_totalNumberOfFragments = 4, sf_enableMigration = True, sf_loadPerServer = [], sf_newServers = [''a:1'', ''b:1''],
     sf_configurationUpdateTime = [10]\<rparr>"

definition demo_second :: assignment where
  "demo_second = \<lparr>ac_config_number = 1,
     ac_fragments = [new_fragment 0 ''a:1'', new_fragment 1 ''a:1'', moved True (new_fragment 2 ''a:1'') ''b:1'', new_fragment 3 ''b:1''],
     ac_server_state_map = [(''a:1'', SERVER_NORMAL), (''b:1'', SERVER_MIGRATION)]\<rparr>"

lemma demo_init: "buildInitConfig [''a:1'', ''b:1''] [(''a:1'', 3), (''b:1'', 1)] =
  Some \<lparr>ac_config_number = 0, ac_fragments = [new_fragment 0 ''a:1'', new_fragment 1 ''a:1'', new_fragment 2 ''a:1'', new_fragment 3 ''b:1''],
     ac_server_state_map = [(''a:1'', SERVER_NORMAL), (''b:1'', SERVER_NORMAL)]\<rparr>"
  by (simp add: buildInitConfig_def upt_rec)

lemma demo_order: "hash_order string_hash [''a:1'', ''b:1''] = [''b:1'', ''a:1'']" "hash_order string_hash [''b:1'', ''a:1''] = [''b:1'', ''a:1'']"
proof -
  have h: "string_hash ''a:1'' = 95064" "string_hash ''b:1'' = 96025" by (simp_all add: string_hash_def byte_nat_def)
  have s: "hash_spread 95064 = 95065" "hash_spread 96025 = 96024" by (simp_all add: hash_spread_def)
  have "hash_capacity 2 16 = 16" by (simp add: hash_capacity.simps)
  then show "hash_order string_hash [''a:1'', ''b:1''] = [''b:1'', ''a:1'']" "hash_order string_hash [''b:1'', ''a:1''] = [''b:1'', ''a:1'']"
    by (simp_all add: hash_order_def h s numeral_2_eq_2 [symmetric])
qed

lemma demo_populate: "populate demo_static = Some [the (buildInitConfig [''a:1'', ''b:1''] [(''a:1'', 3), (''b:1'', 1)]), demo_second]"
proof -
  let ?sf = "[(''a:1'', [0, 1]), (''b:1'', [3, 2])] :: placement"
  have a: "assign [new_fragment 0 ''a:1'', new_fragment 1 ''a:1'', new_fragment 2 ''a:1'', new_fragment 3 ''b:1''] [''a:1'', ''b:1''] 4 = Some (new_fragments ?sf)"
    by (simp add: assign_def Let_def frags_of_def demo_order new_fragment_def)
  have f: "frag_id_server ?sf = [(3, ''b:1''), (2, ''b:1''), (0, ''a:1''), (1, ''a:1'')]"
    by (simp add: frag_id_server_def frags_of_def demo_order)
  have o: "hash_order int_hash [3, 2, 0, 1] = map int [0..<4]" by (rule hash_order_ints) (auto simp: upt_rec)
  have "new_fragments ?sf = map (\<lambda>(i, s). new_fragment i s) [(0, ''a:1''), (1, ''a:1''), (2, ''b:1''), (3, ''b:1'')]"
    by (simp add: new_fragments_def Let_def f o upt_rec)
  then have "assign (ac_fragments (the (buildInitConfig [''a:1'', ''b:1''] [(''a:1'', 3), (''b:1'', 1)]))) [''a:1'', ''b:1''] 4 =
    Some [new_fragment 0 ''a:1'', new_fragment 1 ''a:1'', new_fragment 2 ''b:1'', new_fragment 3 ''b:1'']" using a by (simp add: demo_init)
  then have "populate demo_static = Option.bind (buildNextConfig (ac_fragments (the (buildInitConfig [''a:1'', ''b:1''] [(''a:1'', 3), (''b:1'', 1)])))
      (copyFragments [new_fragment 0 ''a:1'', new_fragment 1 ''a:1'', new_fragment 2 ''b:1'', new_fragment 3 ''b:1'']) 1)
      (\<lambda>c1. Some [the (buildInitConfig [''a:1'', ''b:1''] [(''a:1'', 3), (''b:1'', 1)]), c1])"
    by (simp add: populate_def demo_static_def demo_init)
  then show ?thesis
    by (simp add: demo_init buildNextConfig_def copyFragments_def demo_second_def upt_rec next_fragment_def moved_def note_state_def
      new_fragment_def state_from_def Let_def)
qed

theorem populate_configurations_witness:
  "\<exists>c0. populate demo_static = Some [c0, demo_second] \<and> length (ac_fragments c0) = 4
    \<and> map_of (ac_server_state_map demo_second) ''b:1'' = Some SERVER_MIGRATION"
proof -
  let ?c0 = "the (buildInitConfig [''a:1'', ''b:1''] [(''a:1'', 3), (''b:1'', 1)])"
  have l: "length (ac_fragments ?c0) = 4" by (simp add: demo_init)
  have "map_of (ac_server_state_map demo_second) ''b:1'' = Some SERVER_MIGRATION"
    using populate_configurations [OF demo_populate] l by (simp add: demo_second_def moved_def new_fragment_def)
  then show ?thesis using demo_populate l by blast
qed

subsection \<open>Room for the fragments\<close>

lemma placed_size:
  assumes "distinct (map fst sf)"
  shows "length (concat (map snd sf)) = (\<Sum>s \<in> fst ` set sf. length (frags_of sf s))"
proof -
  have "(\<Sum>s \<in> fst ` set sf. length (frags_of sf s)) = sum_list (map (\<lambda>s. length (frags_of sf s)) (map fst sf))"
    using sum.distinct_set_conv_list [OF assms, of "\<lambda>s. length (frags_of sf s)"] by simp
  also have "map (\<lambda>s. length (frags_of sf s)) (map fst sf) = map (length \<circ> snd) sf" using assms by (auto simp: frags_of_def)
  finally show ?thesis by (simp add: length_concat comp_def)
qed

lemma assign_keep_room:
  "\<lbrakk>assign_keep per fs sf re = (sf', re'); \<And>s. int (length (frags_of sf s)) \<le> per\<rbrakk>
   \<Longrightarrow> fst ` set sf' = fst ` set sf \<union> fr_physical_server ` set fs \<and> (\<forall>s. int (length (frags_of sf' s)) \<le> per)"
proof (induction fs arbitrary: sf re)
  case (Cons f fs)
  obtain l re2 where k: "assign_keep per fs (AList.update (fr_physical_server f) l sf) re2 = (sf', re')" and l: "int (length l) \<le> per"
  proof (cases "int (length (frags_of sf (fr_physical_server f))) = per")
    case True
    then show thesis using Cons.prems(1) by (intro that [of "frags_of sf (fr_physical_server f)"]) (simp_all add: Let_def)
  next
    case False
    then have "int (length (frags_of sf (fr_physical_server f) @ [fr_fragment_id f])) \<le> per" using Cons.prems(2) [of "fr_physical_server f"] by simp
    then show thesis using Cons.prems(1) False by (intro that [of "frags_of sf (fr_physical_server f) @ [fr_fragment_id f]" re]) (simp_all add: Let_def)
  qed
  show ?case using Cons.IH [OF k] l Cons.prems(2) by (simp add: dom_update)
qed simp

lemma fill_up_room:
  "\<lbrakk>fill_up per frags re = (frags', re'); int (length frags) \<le> per\<rbrakk> \<Longrightarrow> int (length frags') \<le> per \<and> (re' \<noteq> [] \<longrightarrow> int (length frags') = per)"
  by (induction per frags re rule: fill_up.induct) (auto split: if_splits)

lemma assign_fill_nil: "assign_fill per ss sf [] = (sf', re') \<Longrightarrow> re' = []"
  by (induction ss arbitrary: sf) auto

lemma assign_fill_room:
  "\<lbrakk>assign_fill per ss sf re = (sf', re'); \<And>s. int (length (frags_of sf s)) \<le> per; set ss \<subseteq> fst ` set sf\<rbrakk>
   \<Longrightarrow> fst ` set sf' = fst ` set sf \<and> (\<forall>s. int (length (frags_of sf' s)) \<le> per)
     \<and> (re' \<noteq> [] \<longrightarrow> (\<forall>s. s \<in> set ss \<or> int (length (frags_of sf s)) = per \<longrightarrow> int (length (frags_of sf' s)) = per))"
proof (induction ss arbitrary: sf re)
  case (Cons s ss)
  obtain frags re2 where f: "fill_up per (frags_of sf s) re = (frags, re2)" by force
  note r = fill_up_room [OF f Cons.prems(2)]
  have k: "assign_fill per ss (AList.update s frags sf) re2 = (sf', re')" using Cons.prems(1) f by simp
  have d: "fst ` set (AList.update s frags sf) = fst ` set sf" using Cons.prems(3) by (auto simp: dom_update)
  have "re' \<noteq> [] \<Longrightarrow> re2 \<noteq> []" using assign_fill_nil k by blast
  then show ?case using Cons.IH [OF k] r Cons.prems(2,3) unfolding d by auto
qed simp

text \<open>How many fragments \<open>assign\<close> places.\<close>

lemma assign_room:
  fixes fs servers
  defines "m \<equiv> card (fr_physical_server ` set fs)" and "per \<equiv> length fs div length servers"
  assumes "assign fs servers (int (length fs)) = Some new" "map fr_fragment_id fs = map int [0..<length fs]"
  shows "length new = min (length fs) (m * per)"
proof -
  have ne: "servers \<noteq> []" using assms(3) by (auto simp: assign_def)
  have p: "sgn (int (length fs)) * (\<bar>int (length fs)\<bar> div int (length servers)) = int per" by (simp add: per_def zdiv_int sgn_if)
  obtain sf re where k: "assign_keep (int per) fs [] [] = (sf, re)" by force
  obtain sf' re' where f: "assign_fill (int per) (hash_order string_hash (map fst sf)) sf re = (sf', re')" by force
  have new: "new = new_fragments sf'" using assms(3) k f ne unfolding assign_def p Let_def by simp
  have "places fs sf (mset re)" using assign_keep_places [OF k, of "[]"] by (simp add: places_def)
  then have P: "places fs sf' (mset re')" by (intro assign_fill_places [OF f]) (auto simp: places_def)
  have rk: "fst ` set sf = fr_physical_server ` set fs" "\<forall>s. int (length (frags_of sf s)) \<le> int per" using assign_keep_room [OF k] by (simp_all add: frags_of_def)
  have rf: "fst ` set sf' = fr_physical_server ` set fs" "\<forall>s. length (frags_of sf' s) \<le> per"
      "re' \<noteq> [] \<Longrightarrow> \<forall>s \<in> fr_physical_server ` set fs. length (frags_of sf' s) = per"
    using assign_fill_room [OF f] rk by simp_all
  have d: "distinct (map fst sf')" and ids: "placed sf' + mset re' = mset (map int [0..<length fs])" using P assms(4) by (simp_all add: places_def)
  have "distinct (map int [0..<length fs])" by (simp add: distinct_map)
  then have "distinct (concat (map snd sf'))" using ids by (metis distinct_append mset_append mset_eq_imp_distinct_iff)
  then have len: "length new = (\<Sum>s \<in> fr_physical_server ` set fs. length (frags_of sf' s))"
    using frag_id_server_ids(2) [OF d] placed_size [OF d] by (simp add: new rf(1))
  have sum: "length new + length re' = length fs" using arg_cong [OF ids, of size] frag_id_server_ids(2) [OF d \<open>distinct (concat (map snd sf'))\<close>] by (simp add: new)
  have "length new \<le> m * per" unfolding len m_def using sum_bounded_above [of "fr_physical_server ` set fs" "\<lambda>s. length (frags_of sf' s)" per] rf(2) by simp
  moreover have "length new = m * per" if "re' \<noteq> []"
  proof -
    have "(\<Sum>s \<in> fr_physical_server ` set fs. length (frags_of sf' s)) = (\<Sum>s \<in> fr_physical_server ` set fs. per)"
      by (rule sum.cong [OF refl]) (use rf(3) [OF that] in blast)
    then show ?thesis by (simp add: len m_def)
  qed
  ultimately show ?thesis using sum by (cases "re' = []") auto
qed

text \<open>C33: With the uniform assignment of all fragments to a list of new servers, the coordinator computes its configurations exactly
  when the servers that have fragments have room for all of them, each for the quotient of the number of fragments and of the length of
  that list. So it always fails when there are more new servers than servers that have fragments.\<close>

theorem populate_uniform:
  assumes "buildInitConfig (sf_initServers sc) (sf_initFragmentsPerServer sc) = Some c0" "sf_newServers sc \<noteq> []" "sf_loadPerServer sc = []"
    "sf_totalNumberOfFragments sc = int n" "length (ac_fragments c0) = n" "card (fr_physical_server ` set (ac_fragments c0)) = m"
  shows "(populate sc \<noteq> None \<longleftrightarrow> n \<le> m * (n div length (sf_newServers sc))) \<and> (0 < n \<and> m < length (sf_newServers sc) \<longrightarrow> populate sc = None)"
proof -
  have i: "init_fragments (sf_initServers sc) (sf_initFragmentsPerServer sc) 0 = Some (ac_fragments c0)"
    using assms(1) by (auto simp: buildInitConfig_def split: Option.bind_splits)
  have "assign (ac_fragments c0) (sf_newServers sc) (int n) \<noteq> None" using assms(2) by (simp add: assign_def Let_def split: prod.split)
  then obtain new where new: "assign (ac_fragments c0) (sf_newServers sc) (int n) = Some new" by blast
  have l: "length new = min n (m * (n div length (sf_newServers sc)))"
    using assign_room [of "ac_fragments c0" "sf_newServers sc" new] init_ids [OF i] new by (simp add: assms(5,6))
  then have p: "populate sc \<noteq> None \<longleftrightarrow> n \<le> m * (n div length (sf_newServers sc))"
    by (simp add: populate_def assms(1-5) new buildNextConfig_def buildNextNormalConfig_def copyFragments_def Let_def)
  have "m * (n div k) < n" if "0 < n" "m < k" for k
    using that by (metis div_le_dividend less_le_trans less_imp_le_nat mult.commute mult_eq_0_iff mult_le_mono1 mult_less_mono1 div_times_less_eq_dividend neq0_conv)
  then show ?thesis using p leD by blast
qed

theorem populate_uniform_witness:
  "populate (demo_static\<lparr>sf_newServers := [''a:1'', ''b:1'', ''c:1'']\<rparr>) = None \<and> populate demo_static \<noteq> None"
proof -
  let ?c0 = "the (buildInitConfig [''a:1'', ''b:1''] [(''a:1'', 3), (''b:1'', 1)])"
  have c: "buildInitConfig [''a:1'', ''b:1''] [(''a:1'', 3), (''b:1'', 1)] = Some ?c0" and l: "length (ac_fragments ?c0) = 4"
    and m: "card (fr_physical_server ` set (ac_fragments ?c0)) = 2" by (simp_all add: demo_init new_fragment_def)
  show ?thesis using populate_uniform [of "demo_static\<lparr>sf_newServers := [''a:1'', ''b:1'', ''c:1'']\<rparr>", OF _ _ _ _ l m]
      populate_uniform [of demo_static, OF _ _ _ _ l m] c by (simp add: demo_static_def numeral_2_eq_2 [symmetric])
qed

end
