(* ===== verification/MC_Number.thy ===== *)
theory MC_Number
  imports MC_Frame
begin

text \<open>
  The configuration number of a server is changed by the command \<open>updateconf\<close> only: no other command
  writes it, and neither does the completion of a storage command.
\<close>

abbreviation number :: "srv \<Rightarrow> int" where
  "number \<equiv> sv_configuration_number"

subsection \<open>Assembling responses\<close>

definition stays :: "srv \<Rightarrow> (rstatus \<times> 'c \<times> srv) option \<Rightarrow> bool" where
  "stays s r \<longleftrightarrow> (\<forall>status c' s'. r = Some (status, c', s') \<longrightarrow> number s' = number s)"

definition stays2 :: "srv \<Rightarrow> ('c \<times> srv) option \<Rightarrow> bool" where
  "stays2 s r \<longleftrightarrow> (\<forall>c' s'. r = Some (c', s') \<longrightarrow> number s' = number s)"

lemma staysD: "stays s r \<Longrightarrow> r = Some (status, c', s') \<Longrightarrow> number s' = number s"
  by (simp add: stays_def)

lemma stays2D: "stays2 s r \<Longrightarrow> r = Some (c', s') \<Longrightarrow> number s' = number s"
  by (simp add: stays2_def)

lemma stays_intros:
  "stays s None" "number s' = number s \<Longrightarrow> stays s (Some (status, c', s'))"
  "(\<And>r c' x. m = Some (r, c', x) \<Longrightarrow> stays s (f r c' x)) \<Longrightarrow> stays s (case m of None \<Rightarrow> None | Some (r, c', x) \<Rightarrow> f r c' x)"
  "(b \<Longrightarrow> stays s t) \<Longrightarrow> (\<not> b \<Longrightarrow> stays s e) \<Longrightarrow> stays s (if b then t else e)"
  "(\<And>x. n = Some x \<Longrightarrow> stays s (g x)) \<Longrightarrow> stays s (Option.bind n g)"
  by (auto simp: stays_def split: option.splits; cases n; simp)+

lemma stays2_intros:
  "stays2 s None" "number s' = number s \<Longrightarrow> stays2 s (Some (c', s'))"
  "(\<And>r c' x. m = Some (r, c', x) \<Longrightarrow> stays2 s (f r c' x)) \<Longrightarrow> stays2 s (case m of None \<Rightarrow> None | Some (r, c', x) \<Rightarrow> f r c' x)"
  "(b \<Longrightarrow> stays2 s t) \<Longrightarrow> (\<not> b \<Longrightarrow> stays2 s e) \<Longrightarrow> stays2 s (if b then t else e)"
  "(\<And>x. n = Some x \<Longrightarrow> stays2 s (g x)) \<Longrightarrow> stays2 s (Option.bind n g)"
  by (auto simp: stays2_def split: option.splits; cases n; simp)+

lemma stays_trans: "number s' = number s \<Longrightarrow> stays s' r \<Longrightarrow> stays s r"
  "number s' = number s \<Longrightarrow> stays2 s' r2 \<Longrightarrow> stays2 s r2"
  by (auto simp: stays_def stays2_def)

lemma stays_frags: "stays s (add_frags fs c s)"
proof (induction fs arbitrary: c s)
  case (Cons f fs)
  obtain checked buf len where f: "f = (checked, buf, len)" by (cases f)
  show ?case
    unfolding f add_frags.simps Let_def by (intro stays_intros stays_trans(1) [OF _ Cons.IH]) simp_all
qed (simp add: stays_def)

lemma number_suffix: "srv_alloc_suffix s = (r, s') \<Longrightarrow> number s' = number s"
  by (auto simp: srv_alloc_suffix_def Let_def split: prod.splits option.splits if_splits)

lemma stays_suffix: "stays s (asc_create_suffix n c s)"
  by (auto simp: stays_def asc_create_suffix_def Let_def dest!: number_suffix split: if_splits prod.splits option.splits)

lemma stays_ok_then:
  assumes "stays s m" "\<And>c' s'. number s' = number s \<Longrightarrow> stays s (f c' s')"
  shows "stays s (ok_then m f)"
  unfolding ok_then_def by (intro stays_intros assms(2)) (simp_all add: staysD [OF assms(1)])

lemma stays2_end: "stays2 s (asc_end c s)"
  unfolding asc_end_def Let_def by (intro stays2_intros) (auto dest!: staysD [OF stays_frags])

lemma stays_of_stays2:
  assumes "stays2 s m" "\<And>c' s'. number s' = number s \<Longrightarrow> stays s (f (c', s'))"
  shows "stays s (Option.bind m f)"
proof (rule stays_intros)
  fix x assume m: "m = Some x"
  show "stays s (f x)"
    by (cases x) (use m stays2D [OF assms(1)] assms(2) in blast)
qed

lemma stays2_drop: "stays s m \<Longrightarrow> stays2 s (drop_status m)"
  by (auto simp: stays_def stays2_def drop_status_def)

lemmas stays_parts = stays_trans(1) [OF _ stays_frags] stays_trans(1) [OF _ stays_suffix] stays_trans(2) [OF _ stays2_end]

lemma stays_responses:
  "stays s (asc_write_novalue c s)" "stays s (asc_write_value suffix p c s)"
  "stays s (asc_write_ciget_lease p ntok c s)" "stays s (asc_write_ok_val val c s)"
  "stays s (asc_write_ok_pending pend ntok c s)" "stays s (asc_write_ok_novalue_pending pend ntok c s)"
  "stays s (asc_respond_get n p cas c s)"
  unfolding response_defs
  by (rule stays_ok_then stays_parts stays_of_stays2 stays_intros | simp)+

lemma stays_lease_responses:
  "stays s (asc_write_iqget_lease r ntok c s)" "stays s (asc_write_qaread r key ntok pend c s)" "stays s (asc_write_oqread r key c s)"
  unfolding response_defs
  by (cases r; simp only: option.case;
      (rule stays_ok_then stays_parts stays_of_stays2 stays_intros | simp)+)+

subsection \<open>Commands\<close>

lemma stays2_need:
  "number s1 = number s \<Longrightarrow> stays2 s k \<Longrightarrow> stays2 s (need_tokens ts c s1 k)"
  "number s1 = number s \<Longrightarrow> (\<And>n. stays2 s (f n)) \<Longrightarrow> stays2 s (need_num parse ts i c s1 f)"
  "number s1 = number s \<Longrightarrow> (\<And>n. stays2 s (g n)) \<Longrightarrow> stays2 s (need_num_if b d parse' ts i c s1 g)"
  "number s1 = number s \<Longrightarrow> (\<And>key. stays2 s (h key)) \<Longrightarrow> stays2 s (need_key m ts i c s1 h)"
  "number s1 = number s \<Longrightarrow> (\<And>cid. stays2 s (e cid)) \<Longrightarrow> stays2 s (need_slabid key' vlen c s1 e)"
  by (auto simp: stays2_def need_tokens_def need_num_def need_num_if_def need_key_def need_slabid_def Let_def
      split: option.splits if_splits)

lemma stays2_config:
  assumes "number s1 = number s" "\<And>c. stays2 s (k c)"
  shows "stays2 s (need_config ts c s1 k)"
  unfolding need_config_def Let_def
  by (rule stays2_need(2) [OF assms(1)]) (simp add: stays2_intros assms split: prod.split)

lemma stays2_prod: "(\<And>a b. x = (a, b) \<Longrightarrow> stays2 s (f a b)) \<Longrightarrow> stays2 s (case x of (a, b) \<Rightarrow> f a b)"
  by (cases x) simp

lemma stays2_opt:
  "(r = None \<Longrightarrow> stays2 s a) \<Longrightarrow> (\<And>x. r = Some x \<Longrightarrow> stays2 s (f x)) \<Longrightarrow> stays2 s (case r of None \<Rightarrow> a | Some x \<Rightarrow> f x)"
  by (cases r) simp_all

lemma stays2_failed: "number s1 = number s \<Longrightarrow> stays2 s (asc_alloc_failed del key vlen c s1)"
  unfolding asc_alloc_failed_def Let_def by (rule stays2_intros stays2_prod | simp)+

lemmas stays2_rules = stays2_intros stays2_prod stays2_opt stays2_failed stays2_need stays2_config

lemma stays2_alloc:
  "number s1 = number s \<Longrightarrow> stays2 s (asc_alloc_value cid key flags ex vlen cfg note c s1)"
  "number s1 = number s \<Longrightarrow> stays2 s (asc_alloc_part key vlen tid c s1)"
  unfolding asc_alloc_value_def asc_alloc_part_def Let_def by (rule stays2_rules | simp)+

lemma stays2_responses:
  "number s1 = number s \<Longrightarrow> stays2 s (drop_status (asc_write_novalue c s1))"
  "number s1 = number s \<Longrightarrow> stays2 s (drop_status (asc_write_value suffix p c s1))"
  "number s1 = number s \<Longrightarrow> stays2 s (drop_status (asc_write_ciget_lease p ntok c s1))"
  "number s1 = number s \<Longrightarrow> stays2 s (drop_status (asc_write_ok_val val c s1))"
  "number s1 = number s \<Longrightarrow> stays2 s (drop_status (asc_write_ok_pending pend ntok c s1))"
  "number s1 = number s \<Longrightarrow> stays2 s (drop_status (asc_write_ok_novalue_pending pend ntok c s1))"
  "number s1 = number s \<Longrightarrow> stays2 s (drop_status (asc_write_iqget_lease r ntok c s1))"
  by (rule stays_trans(2) stays2_drop stays_responses stays_lease_responses; assumption?)+

lemma stays2_iq: "number s1 = number s \<Longrightarrow> stays2 s (asc_respond_iq res ntok pend c s1)"
  by (cases res) (simp_all add: asc_respond_iq_def stays2_responses stays2_intros)

lemma stays2_bind:
  assumes "stays2 s m" "\<And>c' s'. number s' = number s \<Longrightarrow> stays2 s (f (c', s'))"
  shows "stays2 s (Option.bind m f)"
proof (rule stays2_intros)
  fix x assume m: "m = Some x"
  show "stays2 s (f x)"
    by (cases x) (use m stays2D [OF assms(1)] assms(2) in blast)
qed

lemma stays2_bind3:
  assumes "stays s m" "\<And>r c' s'. number s' = number s \<Longrightarrow> stays2 s (f (r, c', s'))"
  shows "stays2 s (Option.bind m f)"
proof (rule stays2_intros)
  fix x assume m: "m = Some x"
  show "stays2 s (f x)"
    by (cases x) (use m staysD [OF assms(1)] assms(2) in blast)
qed

lemma stays2_iqget: "number s1 = number s \<Longrightarrow> stays2 s (asc_respond_iqget exc r ntok c s1)"
  unfolding asc_respond_iqget_def asc_write_iqget_value_def Let_def
  by (rule stays2_responses stays2_bind stays2_rules | simp add: stays2_responses stays2_intros split: item_iq_result.split)+

lemma number_grow: "asc_read_grow n c s = (ok, c1, s1) \<Longrightarrow> number s1 = number s"
  by (auto simp: asc_read_grow_def Let_def split: if_splits prod.splits)

lemma number_read_key: "asc_read_key key n cas c s = Some (turn, n', c', s') \<Longrightarrow> number s' = number s"
  by (auto simp: asc_read_key_def Let_def dest!: number_grow staysD [OF stays_responses(7)]
      split: if_splits option.splits prod.splits Option.bind_splits)

lemma number_read_keys:
  assumes "asc_read_keys ts n cas c s = Some y" shows "number (snd (snd (snd y))) = number s"
proof (rule asc_read_keys.raw_induct [where P = "\<lambda>ts n cas c s y. number (snd (snd (snd y))) = number s", OF _ assms])
  fix f ts n cas c s y
  assume IH: "\<And>ts n cas c s y. f ts n cas c s = Some y \<Longrightarrow> number (snd (snd (snd y))) = number s"
    and run: "(case ts of [] \<Rightarrow> None | t # rest \<Rightarrow>
       (if tok_len t \<noteq> 0 then
          Option.bind (asc_read_key (tok_text t) n cas c s) (\<lambda>(turn, n, c, s).
            case turn of
              READ_NEXT \<Rightarrow> f rest n cas c s
            | READ_BREAK \<Rightarrow> f (asc_tokenize (case tok_val t of None \<Rightarrow> [] | Some v \<Rightarrow> v) TOKEN_MAX) n cas c s
            | READ_TOO_LONG \<Rightarrow> Some (False, n, c, s))
        else (case tok_val t of None \<Rightarrow> Some (True, n, c, s) | Some v \<Rightarrow> f (asc_tokenize v TOKEN_MAX) n cas c s))) = Some y"
  show "number (snd (snd (snd y))) = number s"
  proof (cases "\<exists>t rest. ts = t # rest \<and> tok_len t \<noteq> 0")
    case True
    then obtain t rest turn n1 c1 s1 where k: "asc_read_key (tok_text t) n cas c s = Some (turn, n1, c1, s1)"
      and f: "(case turn of READ_NEXT \<Rightarrow> f rest n1 cas c1 s1
        | READ_BREAK \<Rightarrow> f (asc_tokenize (case tok_val t of None \<Rightarrow> [] | Some v \<Rightarrow> v) TOKEN_MAX) n1 cas c1 s1
        | READ_TOO_LONG \<Rightarrow> Some (False, n1, c1, s1)) = Some y"
      using run by (auto simp: bind_eq_Some_conv)
    have "number (snd (snd (snd y))) = number s1" using f IH by (cases turn) auto
    then show ?thesis using number_read_key [OF k] by simp
  next
    case False
    then show ?thesis using run IH by (auto split: list.splits option.splits if_splits)
  qed
qed

lemma stays2_read: "stays2 s (asc_process_read ts c s)"
proof -
  have k: "stays2 s (Option.bind (asc_read_keys us n cas c2 s) (\<lambda>(b, n, c3, s).
      if \<not> b then Some (asc_write_client_error c3, s) else asc_end (conn_set_slist n (conn_set_ilist n c3)) s))" for us n cas c2
    using number_read_keys [of us n cas c2 s]
    by (cases "asc_read_keys us n cas c2 s") (auto intro!: stays2_intros stays_trans(2) [OF _ stays2_end])
  show ?thesis unfolding asc_process_read_def by (intro stays2_need stays2_config k refl)
qed

lemmas stays2_all = stays2_iq stays2_iqget stays2_alloc stays2_responses stays2_rules

lemma number_delete_keys: "asc_delete_keys ts d res s = Some (b, res', s') \<Longrightarrow> number s' = number s"
  by (induction ts d res s rule: asc_delete_keys.induct) (auto split: if_splits option.splits)

lemma stays2_delete: "stays2 s (asc_process_delete ts c s)"
  unfolding asc_process_delete_def Let_def
  by (intro stays2_need stays2_config refl stays2_intros stays2_prod) (auto dest: number_delete_keys simp: stays2_def split: Option.bind_splits)

lemma stays2_storage:
  "stays2 s (asc_process_update ts c s)"
  "stays2 s (asc_process_arithmetic ts c s)"
  unfolding asc_process_update_def asc_process_arithmetic_def Let_def
  by (rule stays2_all | simp add: asc_write_defs split: item_delta_result.split)+

lemma stays2_leases:
  "stays2 s (asc_process_unlease ts c s)"
  "stays2 s (asc_process_qareg ts c s)"
  "stays2 s (asc_process_dar ts c s)"
  "stays2 s (asc_process_sar ts c s)"
  "stays2 s (asc_process_iqincr_iqdecr ts c s)"
  "stays2 s (asc_process_iqappend_iqprepend ts c s)"
  "stays2 s (asc_process_commit ts c s)"
  "stays2 s (asc_process_release ts c s)"
  "stays2 s (asc_process_check ts c s)"
  "stays2 s (asc_process_ftrans ts c s)"
  "stays2 s (asc_process_iqget ts c s)"
  "stays2 s (asc_process_iset ts c s)"
  "stays2 s (asc_process_swap ts c s)"
  unfolding asc_process_unlease_def asc_process_qareg_def asc_process_dar_def asc_process_sar_def asc_process_iqincr_iqdecr_def
    asc_process_iqappend_iqprepend_def asc_process_commit_def asc_process_release_def asc_process_check_def asc_process_ftrans_def
    asc_process_iqget_def asc_process_iset_def asc_process_swap_def Let_def
  by (rule stays2_all | simp add: asc_write_defs)+

lemma stays2_qaread: "stays2 s (asc_process_qaread ts c s)"
  unfolding asc_process_qaread_def Let_def
  by (rule stays2_bind3 stays_trans(1) [OF _ stays_lease_responses(2)] stays2_all | simp)+

lemma stays2_co_case:
  "stays2 s x1 \<Longrightarrow> stays2 s x2 \<Longrightarrow> stays2 s x3 \<Longrightarrow> stays2 s x4 \<Longrightarrow> stays2 s x5 \<Longrightarrow> stays2 s x6 \<Longrightarrow>
   stays2 s (case exc of CO_OK \<Rightarrow> x1 | CO_ABORT \<Rightarrow> x2 | CO_NOT_FOUND \<Rightarrow> x3 | CO_INVALID \<Rightarrow> x4 | CO_RETRY \<Rightarrow> x5 | CO_NOVALUE \<Rightarrow> x6)"
  by (cases exc) simp_all

lemma stays2_sessions:
  "stays2 s (asc_process_oqincr_oqdecr ts c s)"
  "stays2 s (asc_process_oqappend_oqprepend ts c s)"
  "stays2 s (asc_process_dcommit ts c s)"
  "stays2 s (asc_process_co_unlease ts c s)"
  "stays2 s (asc_process_oqreg ts c s)"
  "stays2 s (asc_process_oqread ts c s)"
  "stays2 s (asc_process_oqwrite ts c s)"
  "stays2 s (asc_process_oqswap ts c s)"
  "stays2 s (asc_process_validate ts c s)"
  "stays2 s (asc_process_ciget ts c s)"
  unfolding asc_process_oqincr_oqdecr_def asc_process_oqappend_oqprepend_def asc_process_dcommit_def asc_process_co_unlease_def
    asc_process_oqreg_def asc_process_oqread_def asc_process_oqswap_def asc_process_oqwrite_def asc_process_validate_def
    asc_process_ciget_def asc_write_ciget_value_def Let_def
  by (rule stays2_co_case stays2_bind3 [OF stays_trans(1) [OF _ stays_lease_responses(3)]] stays2_all
     | simp add: asc_write_defs split: item_co_result.split)+

lemma stays2_admin:
  "stays2 s (asc_process_stats ts c s)"
  "stays2 s (asc_process_verbosity ts c s)"
  "stays2 s (asc_process_aggregate ts c s)"
  "stays2 s (asc_process_evict ts c s)"
  unfolding asc_process_stats_def asc_process_verbosity_def asc_process_aggregate_def asc_process_evict_def Let_def
  by (rule stays2_all | simp add: log_level_set_def stats_set_interval_def Let_def)+

lemma stays2_flush: "number s1 = number s \<Longrightarrow> stays2 s (asc_flush t c s1)"
  unfolding asc_flush_def by (intro stays2_intros) simp

lemma stays2_flushall: "stays2 s (asc_process_flushall ts c s)"
  unfolding asc_process_flushall_def Let_def by (intro stays2_need stays2_intros stays2_flush) simp_all

lemma stays2_map: "(\<And>x. m = Some x \<Longrightarrow> number (snd (f x)) = number s) \<Longrightarrow> stays2 s (map_option f m)"
  by (cases m) (auto simp: stays2_def)

lemma stays2_klog: "stays2 s (asc_process_klog ts c s)"
  unfolding asc_process_klog_def asc_klog_number_def
  by (rule stays2_map stays2_all | simp add: asc_klog_run_def stats_set_interval_def Let_def)+

lemma stays2_admin_config: "stays2 s (asc_process_config ts c s)"
  unfolding asc_process_config_def by (rule stays2_klog stays2_admin stays2_rules | simp)+

lemma stays2_process: "type \<noteq> REQ_UPDATECONFIG \<Longrightarrow> stays2 s (asc_process type ts c s)"
  by (cases type) (simp_all add: stays2_storage stays2_leases stays2_sessions stays2_admin stays2_admin_config stays2_read
      stays2_qaread stays2_intros stays2_flushall stays2_delete)

text \<open>Preparing the response takes nothing but the outcome of an allocation.\<close>

lemma same_mc_next: "mc_alloc_next st = (ok, st') \<Longrightarrow> same_mc st st'"
  by (auto simp: mc_alloc_next_def same_mc_def Let_def)

lemma msghdr_core:
  assumes "conn_add_msghdr c st = Some (status, c', st')" shows "conn_core c' = conn_core c" "same_mc st st'"
proof -
  have r: "conn_msg_room c st = (r, c1, st1) \<Longrightarrow> same_mc st st1" "conn_ensure_iov_space c st = (r, c1, st1) \<Longrightarrow> same_mc st st1" for c st r c1 st1
    by (auto simp: conn_msg_room_def conn_ensure_iov_space_def dest: same_mc_next split: if_splits prod.splits)
  show "conn_core c' = conn_core c"
    using assms by (auto simp: conn_add_msghdr_def dest!: conn_msg_room_fields conn_new_msg_fields conn_ensure_iov_space_fields conn_put_iov_fields
        split: prod.splits if_splits option.splits)
  show "same_mc st st'"
    using assms by (auto simp: conn_add_msghdr_def dest!: r intro: same_mc_trans split: prod.splits if_splits option.splits)
qed

text \<open>A request line that is not an \<open>updateconf\<close>, and the completion of a storage command.\<close>

lemma dispatch_cases:
  assumes "asc_dispatch c s = Some (c', s')"
  obtains c1 st where "same_mc (sv_mc s) st" "c_req c1 = c_req c" "c_noreply c1 = c_noreply c" "c_wsize c1 = c_wsize c"
    "c' = asc_write_server_error c1 \<and> s' = s\<lparr>sv_mc := st\<rparr>
     \<or> (let ts = asc_tokenize (c_req c) TOKEN_MAX
        in asc_process (asc_parse_type ts) ts (c1\<lparr>c_req_type := asc_parse_type ts\<rparr>) (s\<lparr>sv_mc := st\<rparr>) = Some (c', s'))"
proof -
  let ?c = "c\<lparr>c_msg_curr := 0, c_msg_used := 0, c_iov_used := 0\<rparr>"
  obtain status c1 st where m: "conn_add_msghdr ?c (sv_mc s) = Some (status, c1, st)"
    using assms(1) by (auto simp: asc_dispatch_def split: Option.bind_splits)
  have "c_req (conn_core c1) = c_req (conn_core ?c)" "c_noreply (conn_core c1) = c_noreply (conn_core ?c)" "c_wsize (conn_core c1) = c_wsize (conn_core ?c)"
    using msghdr_core(1) [OF m] by simp_all
  then have "c_req c1 = c_req c" "c_noreply c1 = c_noreply c" "c_wsize c1 = c_wsize c" by (simp_all add: conn_core_def)
  with msghdr_core(2) [OF m] show thesis
    using assms m by (intro that [of st c1]) (auto simp: asc_dispatch_def Let_def split: if_splits)
qed

lemma number_dispatch:
  assumes "asc_dispatch c s = Some (c', s')" "asc_parse_type (asc_tokenize (c_req c) TOKEN_MAX) \<noteq> REQ_UPDATECONFIG"
  shows "number s' = number s"
  by (rule dispatch_cases [OF assms(1)]) (auto simp: Let_def dest: stays2D [OF stays2_process [OF assms(2)]])

lemma number_complete: "asc_complete_nread c s = Some (c', s') \<Longrightarrow> number s' = number s"
proof -
  have "stays2 s (asc_complete_store p c s)" for p
    unfolding asc_complete_store_def Let_def by (rule stays2_all | simp split: item_co_result.split item_store_result.split)+
  then have "stays2 s (asc_complete_nread c s)"
    unfolding asc_complete_nread_def by (intro stays2_intros(5) stays2_bind) (simp_all add: stays2_intros)
  then show "asc_complete_nread c s = Some (c', s') \<Longrightarrow> number s' = number s" by (rule stays2D)
qed

end
