(* ===== verification/NV_Protocol.thy ===== *)
theory NV_Protocol
  imports NV_Config MC_Number MC_Requests
begin

text \<open>
  The coordinator, the cache servers and their clients together: how the coordinator moves from one
  configuration to the next (\<open>CacheStateSimulator.java\<close>, \<open>ConfigurationManagement.java\<close> and
  \<open>updateServerConfigurationNumber\<close> of \<open>MemcachedClient.java\<close>), while the servers go on to handle the requests
  of clients. A server is the model of the C server: it handles a request line by \<open>asc_dispatch\<close> and a
  received value by \<open>asc_complete_nread\<close>.
\<close>

subsection \<open>The coordinator\<close>

text \<open>The set of update times is its ascending list.\<close>

record coordinator =
  co_configs :: "assignment list"
  co_times :: "int list"
  co_number :: int

definition coordinator_new :: "static_config \<Rightarrow> coordinator option" where
  "coordinator_new sc = map_option (\<lambda>cs. \<lparr>co_configs = cs, co_times = sort (remdups (sf_configurationUpdateTime sc)), co_number = 0\<rparr>) (populate sc)"

definition getConfig :: "coordinator \<Rightarrow> assignment option" where
  "getConfig co = (if 0 \<le> co_number co \<and> nat (co_number co) < length (co_configs co) then Some (co_configs co ! nat (co_number co)) else None)"

text \<open>\<open>TreeSet.lower\<close>: the greatest time before a second.\<close>

definition lower :: "int \<Rightarrow> int list \<Rightarrow> int option" where
  "lower second ts = (let before = filter (\<lambda>t. t < second) ts in if before = [] then None else Some (last before))"

text \<open>The addresses of the servers, each with one client object.\<close>

definition clients_of :: "static_config \<Rightarrow> string list" where
  "clients_of sc = remdups (sf_newServers sc @ sf_initServers sc)"

text \<open>The command that the client object sends, without the end of the line, and the response that makes it return.\<close>

definition updateconf_line :: "int \<Rightarrow> bytes" where
  "updateconf_line n = ''updateconf '' @ dec_int n"

definition answered_ok :: "conn \<Rightarrow> bool" where
  "answered_ok c \<longleftrightarrow> c_state c = CONN_WRITE \<and> c_wcurr c = ''OK'' @ CRLF"

text \<open>The whole system. \<open>nv_moving\<close> says that the coordinator waits for the updates it has submitted, \<open>nv_waiting\<close> are the servers
  whose update is not done, and \<open>nv_missed\<close> records the servers that did not acknowledge their last update.\<close>

record nv =
  nv_co :: coordinator
  nv_servers :: "string \<Rightarrow> srv"
  nv_moving :: bool
  nv_waiting :: "string list"
  nv_missed :: "string set"

text \<open>The constructor has sent the number 0 to every server.\<close>

definition nv_init :: "static_config \<Rightarrow> nv \<Rightarrow> bool" where
  "nv_init sc w \<longleftrightarrow> coordinator_new sc = Some (nv_co w) \<and> \<not> nv_moving w \<and> nv_waiting w = []
     \<and> length (sf_configurationUpdateTime sc) < 2 ^ 31
     \<and> (\<forall>x \<in> set (clients_of sc) - nv_missed w.
          \<exists>c c' s. c_req c = updateconf_line 0 \<and> asc_dispatch c s = Some (c', nv_servers w x) \<and> answered_ok c')"

text \<open>The steps. An update time is due and the updates are submitted; an update is acknowledged; it fails, on the way there, at
  the server or on the way back, which the coordinator only reports; all of them are done, and the next configuration is
  current. Meanwhile the servers handle requests of clients.\<close>

inductive nv_step :: "static_config \<Rightarrow> nv \<Rightarrow> nv \<Rightarrow> bool" for sc where
  nv_move: "\<lbrakk>\<not> nv_moving w; lower second (co_times (nv_co w)) = Some t\<rbrakk>
    \<Longrightarrow> nv_step sc w (w\<lparr>nv_co := (nv_co w)\<lparr>co_times := remove1 t (co_times (nv_co w))\<rparr>, nv_moving := True, nv_waiting := clients_of sc\<rparr>)"
| nv_told: "\<lbrakk>x \<in> set (nv_waiting w); c_req c = updateconf_line (co_number (nv_co w) + 1);
      asc_dispatch c (nv_servers w x) = Some (c', s'); answered_ok c'\<rbrakk>
    \<Longrightarrow> nv_step sc w (w\<lparr>nv_servers := (nv_servers w)(x := s'), nv_waiting := remove1 x (nv_waiting w), nv_missed := nv_missed w - {x}\<rparr>)"
| nv_failed: "\<lbrakk>x \<in> set (nv_waiting w); s' = nv_servers w x \<or>
      c_req c = updateconf_line (co_number (nv_co w) + 1) \<and> asc_dispatch c (nv_servers w x) = Some (c', s')\<rbrakk>
    \<Longrightarrow> nv_step sc w (w\<lparr>nv_servers := (nv_servers w)(x := s'), nv_waiting := remove1 x (nv_waiting w), nv_missed := insert x (nv_missed w)\<rparr>)"
| nv_moved: "\<lbrakk>nv_moving w; nv_waiting w = []\<rbrakk>
    \<Longrightarrow> nv_step sc w (w\<lparr>nv_co := (nv_co w)\<lparr>co_number := co_number (nv_co w) + 1\<rparr>, nv_moving := False\<rparr>)"
| nv_request: "\<lbrakk>asc_dispatch c (nv_servers w x) = Some (c', s'); asc_parse_type (asc_tokenize (c_req c) TOKEN_MAX) \<noteq> REQ_UPDATECONFIG\<rbrakk>
    \<Longrightarrow> nv_step sc w (w\<lparr>nv_servers := (nv_servers w)(x := s')\<rparr>)"
| nv_value: "asc_complete_nread c (nv_servers w x) = Some (c', s') \<Longrightarrow> nv_step sc w (w\<lparr>nv_servers := (nv_servers w)(x := s')\<rparr>)"

subsection \<open>An acknowledged update\<close>

lemma dec_no_space: "CHR '' '' \<notin> set (dec n)"
  using dec_digits [of "CHR '' ''" n] by (auto simp: c_isdigit_def byte_nat_def)

lemma tokenize_word:
  "\<lbrakk>CHR '' '' \<notin> set w; k + length w \<noteq> 0\<rbrakk> \<Longrightarrow> asc_tokenize_loop (Suc n) s k w = [\<lparr>tok_val = Some s, tok_len = k + length w\<rparr>, \<lparr>tok_val = None, tok_len = 0\<rparr>]"
  by (induction w arbitrary: k) auto

lemma updateconf_tokens:
  assumes "0 \<le> n"
  shows "asc_tokenize (updateconf_line n) TOKEN_MAX =
    [\<lparr>tok_val = Some (updateconf_line n), tok_len = 10\<rparr>, \<lparr>tok_val = Some (dec_int n), tok_len = length (dec_int n)\<rparr>, \<lparr>tok_val = None, tok_len = 0\<rparr>]"
proof -
  have d: "CHR '' '' \<notin> set (dec_int n)" "dec_int n \<noteq> []" using assms dec_no_space by (simp_all add: dec_int_def)
  obtain k where "TOKEN_MAX - 1 = Suc (Suc k)" by (rule that [of 13]) (simp add: TOKEN_MAX_def)
  then show ?thesis using tokenize_word [OF d(1), of 0 k "dec_int n"] d(2) by (simp add: asc_tokenize_def updateconf_line_def)
qed

lemma updateconf_type: "0 \<le> n \<Longrightarrow> asc_parse_type (asc_tokenize (updateconf_line n) TOKEN_MAX) = REQ_UPDATECONFIG"
  by (subst updateconf_tokens, assumption) (simp add: asc_parse_type_def updateconf_line_def Let_def)

lemma told_number:
  assumes "c_req c = updateconf_line n" "asc_dispatch c s = Some (c', s')" "answered_ok c'" "0 \<le> n" "n < 2 ^ 31"
  shows "number s' = n"
proof (rule dispatch_cases [OF assms(2)])
  fix c1 st
  let ?ts = "asc_tokenize (updateconf_line n) TOKEN_MAX"
  assume d: "c' = asc_write_server_error c1 \<and> s' = s\<lparr>sv_mc := st\<rparr>
     \<or> (let ts = asc_tokenize (c_req c) TOKEN_MAX
        in asc_process (asc_parse_type ts) ts (c1\<lparr>c_req_type := asc_parse_type ts\<rparr>) (s\<lparr>sv_mc := st\<rparr>) = Some (c', s'))"
  have w: "\<not> answered_ok (asc_write_server_error c)" "\<not> answered_ok (asc_write_client_error c)" for c
    by (auto simp: answered_ok_def asc_write_server_error_def asc_write_client_error_def asc_write_string_def Let_def)
  have "asc_process_update_configuration ?ts (c1\<lparr>c_req_type := REQ_UPDATECONFIG\<rparr>) (s\<lparr>sv_mc := st\<rparr>) = Some (c', s')"
    using d w assms(3,4) by (auto simp: assms(1) updateconf_type Let_def)
  moreover have "tok_str ?ts 1 = Some (dec_int n)" using assms(4) by (simp add: updateconf_tokens tok_str_def tok_at_def)
  moreover have "mc_strtol (dec_int n) = Some n" using mc_strtol_word [of "[]" n] assms(4,5) by (simp add: at_end_def)
  ultimately show "number s' = n" using w assms(3)
    by (auto simp: asc_process_update_configuration_def need_tokens_def need_num_def Let_def split: if_splits)
qed

subsection \<open>The invariant\<close>

definition nv_inv :: "static_config \<Rightarrow> nv \<Rightarrow> bool" where
  "nv_inv sc w \<longleftrightarrow> distinct (nv_waiting w) \<and> set (nv_waiting w) \<subseteq> set (clients_of sc) \<and> (\<not> nv_moving w \<longrightarrow> nv_waiting w = [])
     \<and> populate sc = Some (co_configs (nv_co w)) \<and> 0 \<le> co_number (nv_co w)
     \<and> co_number (nv_co w) + int (length (co_times (nv_co w))) + of_bool (nv_moving w) = int (length (remdups (sf_configurationUpdateTime sc)))
     \<and> length (sf_configurationUpdateTime sc) < 2 ^ 31
     \<and> (\<forall>x \<in> set (clients_of sc) - nv_missed w.
          number (nv_servers w x) = co_number (nv_co w) + of_bool (nv_moving w \<and> x \<notin> set (nv_waiting w)))"

lemma nv_inv_init:
  assumes "nv_init sc w" shows "nv_inv sc w"
proof -
  have co: "populate sc = Some (co_configs (nv_co w))" "co_times (nv_co w) = sort (remdups (sf_configurationUpdateTime sc))" "co_number (nv_co w) = 0"
    using assms by (auto simp: nv_init_def coordinator_new_def dest!: sym [of _ "nv_co w"])
  have "number (nv_servers w x) = 0" if "x \<in> set (clients_of sc) - nv_missed w" for x
    using assms that told_number [of _ 0] unfolding nv_init_def by fastforce
  then show ?thesis using assms co by (simp add: nv_inv_def nv_init_def)
qed

lemma lower_Some: "lower second ts = Some t \<Longrightarrow> t \<in> set ts"
  by (auto simp: lower_def Let_def split: if_splits dest: last_in_set)

lemma nv_inv_step: "nv_step sc w w' \<Longrightarrow> nv_inv sc w \<Longrightarrow> nv_inv sc w'"
proof (induction rule: nv_step.induct)
  case (nv_move w second t)
  have "length (co_times (nv_co w)) = Suc (length (remove1 t (co_times (nv_co w))))"
    using lower_Some [OF nv_move(2)] length_pos_if_in_set [OF lower_Some [OF nv_move(2)]] by (simp add: length_remove1)
  then show ?case using nv_move(1,3) by (auto simp: nv_inv_def clients_of_def simp del: length_remove1)
next
  case (nv_told x w c c' s')
  have "nv_moving w" using nv_told(1,5) by (auto simp: nv_inv_def)
  then have "co_number (nv_co w) + 1 \<le> int (length (remdups (sf_configurationUpdateTime sc)))" using nv_told(5) by (simp add: nv_inv_def)
  also have "\<dots> \<le> int (length (sf_configurationUpdateTime sc))" using length_remdups_leq by simp
  finally have "co_number (nv_co w) + 1 < 2 ^ 31" using nv_told(5) by (simp add: nv_inv_def)
  then have "number s' = co_number (nv_co w) + 1" using nv_told by (intro told_number [OF nv_told(2-4)]) (simp_all add: nv_inv_def)
  then show ?case using nv_told(1,5) \<open>nv_moving w\<close> by (auto simp: nv_inv_def set_remove1_eq dest: notin_set_remove1)
next
  case (nv_failed x w s' c c')
  then show ?case by (auto simp: nv_inv_def set_remove1_eq dest: notin_set_remove1)
next
  case (nv_moved w)
  then show ?case by (auto simp: nv_inv_def)
next
  case (nv_request c w x c' s')
  then show ?case using number_dispatch [OF nv_request(1,2)] by (auto simp: nv_inv_def)
next
  case (nv_value c w x c' s')
  then show ?case using number_complete [OF nv_value(1)] by (auto simp: nv_inv_def)
qed

interpretation rejig: transition_system "nv_init sc" "nv_step sc" "nv_inv sc" for sc
  by unfold_locales (rule nv_inv_init nv_inv_step, assumption+)+

subsection \<open>Stale clients\<close>

lemma stale_dispatch:
  assumes d: "asc_dispatch c s = Some (c', s')" and ts: "ts = asc_tokenize (c_req c) TOKEN_MAX" "config_checked (asc_parse_type ts)"
    and n: "tok_str ts 1 = Some str" "mc_strtol str = Some n" "n \<noteq> -1" "n \<noteq> number s" "14 \<le> c_wsize c"
  shows "(\<exists>e. s' = s\<lparr>sv_mc := (sv_mc s)\<lparr>st_env_pos := e\<rparr>\<rparr>)
    \<and> (c_state c' = CONN_NEW_CMD \<or> c_state c' = CONN_WRITE \<and> c_wcurr c' \<in> {''FAIL'' @ CRLF, ''CLIENT_ERROR'' @ CRLF, ''SERVER_ERROR'' @ CRLF})"
proof (rule dispatch_cases [OF d])
  fix c1 st
  assume m: "same_mc (sv_mc s) st" "c_wsize c1 = c_wsize c"
    and r: "c' = asc_write_server_error c1 \<and> s' = s\<lparr>sv_mc := st\<rparr>
     \<or> (let ts = asc_tokenize (c_req c) TOKEN_MAX
        in asc_process (asc_parse_type ts) ts (c1\<lparr>c_req_type := asc_parse_type ts\<rparr>) (s\<lparr>sv_mc := st\<rparr>) = Some (c', s'))"
  from m(1) obtain e where st: "st = (sv_mc s)\<lparr>st_env_pos := e\<rparr>" unfolding same_mc_def by blast
  let ?c = "c1\<lparr>c_req_type := asc_parse_type ts\<rparr>" and ?s = "s\<lparr>sv_mc := st\<rparr>"
  have "stale_config ts ?s" using n by (simp add: stale_config_def)
  then have p: "refused (quiet (asc_parse_type ts) ts ?c) ?s (asc_process (asc_parse_type ts) ts ?c ?s)"
    using n(5) m(2) ts(2) by (intro stale_process) simp_all
  show ?thesis
  proof (cases "c' = asc_write_server_error c1 \<and> s' = ?s")
    case True
    then show ?thesis using n(5) m(2) by (auto simp: st asc_write_server_error_def asc_write_string_def Let_def)
  next
    case False
    then have "asc_process (asc_parse_type ts) ts ?c ?s = Some (c', s')" using r unfolding ts(1) Let_def by blast
    then show ?thesis using p by (auto simp: refused_def refusal_def st split: if_splits)
  qed
qed

text \<open>C3: A client with an old configuration cannot change a server. In every state that the coordinator, the servers and their clients can
  reach, a server that acknowledged its last update refuses each request that carries a configuration number below the current
  one and other than -1, if it is one of the commands that are checked (-1 stands for a client without a configuration, which
  the server lets through): the server is as before (but for the outcomes of \<open>malloc\<close> that the
  response has used up), and the client gets an error or no response.\<close>

theorem stale_client_refused:
  assumes "nv_init sc w0" "(nv_step sc)\<^sup>*\<^sup>* w0 w" "x \<in> set (clients_of sc)" "x \<notin> nv_missed w"
    and "asc_dispatch c (nv_servers w x) = Some (c', s')" "ts = asc_tokenize (c_req c) TOKEN_MAX" "config_checked (asc_parse_type ts)"
    and "tok_str ts 1 = Some str" "mc_strtol str = Some n" "n \<noteq> -1" "n < co_number (nv_co w)" "14 \<le> c_wsize c"
  shows "(\<exists>e. s' = (nv_servers w x)\<lparr>sv_mc := (sv_mc (nv_servers w x))\<lparr>st_env_pos := e\<rparr>\<rparr>)
    \<and> (c_state c' = CONN_NEW_CMD \<or> c_state c' = CONN_WRITE \<and> c_wcurr c' \<in> {''FAIL'' @ CRLF, ''CLIENT_ERROR'' @ CRLF, ''SERVER_ERROR'' @ CRLF})"
proof -
  have "nv_inv sc w" by (rule rejig.reached [OF assms(1,2)])
  then have "n \<noteq> number (nv_servers w x)" using assms(3,4,11) by (auto simp: nv_inv_def)
  then show ?thesis by (rule stale_dispatch [OF assms(5-10) _ assms(12)])
qed

text \<open>A run: two servers are started, told the number 1, and the coordinator moves on.\<close>

lemma demo_told:
  assumes "0 \<le> n" "n < 2 ^ 31"
  shows "\<exists>c'. asc_dispatch (demo_client (updateconf_line n)) s = Some (c', s\<lparr>sv_configuration_number := n\<rparr>) \<and> answered_ok c'"
proof -
  have n: "mc_strtol (dec_int n) = Some n" using mc_strtol_word [of "[]" n] assms by (simp add: at_end_def)
  have "CHR ''n'' \<notin> set (dec_int n)" using assms(1) dec_digits [of "CHR ''n''" "nat n"] by (auto simp: dec_int_def c_isdigit_def byte_nat_def)
  then have q: "dec_int n \<noteq> ''noreply''" by auto
  show ?thesis
    unfolding asc_dispatch_def
    by (simp add: q demo_client_def conn_add_msghdr_def conn_msg_room_def conn_new_msg_def conn_buffers_def updateconf_type [OF assms(1), unfolded updateconf_tokens [OF assms(1)]] Let_def
      asc_process_update_configuration_def asc_set_noreply_maybe_def updateconf_tokens [OF assms(1)] need_defs asc_ntoken_valid_def
      tok_str_def tok_at_def n answered_ok_def asc_write_ok_def asc_write_string_def CRLF_LEN_def conn_size_defs INT_MAX_def)
qed

definition demo_nv :: "assignment list \<Rightarrow> nv" where
  "demo_nv cs = \<lparr>nv_co = \<lparr>co_configs = cs, co_times = [10], co_number = 0\<rparr>, nv_servers = (\<lambda>_. demo_srv\<lparr>sv_configuration_number := 0\<rparr>),
     nv_moving = False, nv_waiting = [], nv_missed = {}\<rparr>"

definition demo_told_nv :: "assignment list \<Rightarrow> nv" where
  "demo_told_nv cs = \<lparr>nv_co = \<lparr>co_configs = cs, co_times = [], co_number = 1\<rparr>,
     nv_servers = (\<lambda>_. demo_srv\<lparr>sv_configuration_number := 0\<rparr>)
       (''a:1'' := demo_srv\<lparr>sv_configuration_number := 1\<rparr>, ''b:1'' := demo_srv\<lparr>sv_configuration_number := 1\<rparr>),
     nv_moving = False, nv_waiting = [], nv_missed = {}\<rparr>"

lemma demo_init_nv:
  assumes "populate demo_static = Some cs" shows "nv_init demo_static (demo_nv cs)"
proof -
  obtain c' where "asc_dispatch (demo_client (updateconf_line 0)) demo_srv = Some (c', demo_srv\<lparr>sv_configuration_number := 0\<rparr>)" "answered_ok c'"
    using demo_told [of 0 demo_srv] by auto
  moreover have "c_req (demo_client (updateconf_line 0)) = updateconf_line 0" by (simp add: demo_client_def)
  ultimately have "\<exists>c c' s. c_req c = updateconf_line 0 \<and> asc_dispatch c s = Some (c', demo_srv\<lparr>sv_configuration_number := 0\<rparr>) \<and> answered_ok c'"
    by blast
  then show ?thesis using assms by (simp add: nv_init_def demo_nv_def coordinator_new_def) (simp add: demo_static_def)
qed

lemma demo_run: "(nv_step demo_static)\<^sup>*\<^sup>* (demo_nv cs) (demo_told_nv cs)"
proof -
  have cl: "clients_of demo_static = [''a:1'', ''b:1'']" by (simp add: clients_of_def demo_static_def)
  let ?s = "\<lambda>n. demo_srv\<lparr>sv_configuration_number := n\<rparr>"
  let ?w1 = "(demo_nv cs)\<lparr>nv_co := \<lparr>co_configs = cs, co_times = [], co_number = 0\<rparr>, nv_moving := True, nv_waiting := [''a:1'', ''b:1'']\<rparr>"
  let ?w2 = "?w1\<lparr>nv_servers := (\<lambda>_. ?s 0)(''a:1'' := ?s 1), nv_waiting := [''b:1'']\<rparr>"
  let ?w3 = "?w2\<lparr>nv_servers := (\<lambda>_. ?s 0)(''a:1'' := ?s 1, ''b:1'' := ?s 1), nv_waiting := []\<rparr>"
  obtain c' where c': "asc_dispatch (demo_client (updateconf_line 1)) (?s 0) = Some (c', ?s 1)" "answered_ok c'"
    using demo_told [of 1 "?s 0"] by auto
  have r: "c_req (demo_client l) = l" for l by (simp add: demo_client_def)
  have "(nv_step demo_static)\<^sup>*\<^sup>* (demo_nv cs) ?w1"
    using nv_step.nv_move [of "demo_nv cs" 11 10 demo_static] by (simp add: demo_nv_def lower_def cl r_into_rtranclp)
  also have "nv_step demo_static ?w1 ?w2"
    using nv_step.nv_told [of "''a:1''" ?w1 "demo_client (updateconf_line 1)" c' "?s 1" demo_static] c' by (simp add: demo_nv_def r)
  also have "nv_step demo_static ?w2 ?w3"
    using nv_step.nv_told [of "''b:1''" ?w2 "demo_client (updateconf_line 1)" c' "?s 1" demo_static] c' by (simp add: demo_nv_def r)
  also have "nv_step demo_static ?w3 (demo_told_nv cs)"
    using nv_step.nv_moved [of ?w3 demo_static] by (simp add: demo_nv_def demo_told_nv_def)
  finally show ?thesis .
qed

lemma demo_stale_tokens:
  "asc_tokenize ''delete 0 0 k'' TOKEN_MAX =
     [\<lparr>tok_val = Some ''delete 0 0 k'', tok_len = 6\<rparr>, \<lparr>tok_val = Some ''0 0 k'', tok_len = 1\<rparr>,
      \<lparr>tok_val = Some ''0 k'', tok_len = 1\<rparr>, \<lparr>tok_val = Some ''k'', tok_len = 1\<rparr>, \<lparr>tok_val = None, tok_len = 0\<rparr>]"
  "asc_parse_type (asc_tokenize ''delete 0 0 k'' TOKEN_MAX) = REQ_DELETE"
  by code_simp+

theorem stale_client_refused_witness:
  "\<exists>cs w c' e. nv_init demo_static (demo_nv cs) \<and> (nv_step demo_static)\<^sup>*\<^sup>* (demo_nv cs) w
    \<and> asc_dispatch (demo_client ''delete 0 0 k'') (nv_servers w ''a:1'') =
        Some (c', (nv_servers w ''a:1'')\<lparr>sv_mc := demo_st\<lparr>st_env_pos := e\<rparr>\<rparr>)"
proof -
  let ?c = "demo_client ''delete 0 0 k''" and ?ts = "asc_tokenize ''delete 0 0 k'' TOKEN_MAX" and ?s = "demo_srv\<lparr>sv_configuration_number := 1\<rparr>"
  obtain cs where cs: "populate demo_static = Some cs" using demo_populate by blast
  let ?w = "demo_told_nv cs"
  have w: "nv_servers ?w ''a:1'' = ?s" by (simp add: demo_told_nv_def)
  have n: "mc_strtol ''0 0 k'' = Some 0" using mc_strtol_word [of "'' 0 k''" 0] by (simp add: demo_dec at_end_def)
  have ts: "?ts = asc_tokenize (c_req ?c) TOKEN_MAX" by (simp add: demo_client_def)
  have "asc_dispatch ?c ?s \<noteq> None"
    using n unfolding asc_dispatch_def by (simp add: ts [symmetric] demo_stale_tokens demo_client_def conn_add_msghdr_def conn_msg_room_def conn_new_msg_def
      conn_buffers_def conn_size_defs asc_process_delete_def asc_set_noreply_maybe_def need_defs need_config_def tok_str_def tok_at_def asc_check_config_def
      asc_parse_type_def Let_def)
  then obtain c' s' where d: "asc_dispatch ?c ?s = Some (c', s')" by auto
  have p: "''a:1'' \<in> set (clients_of demo_static)" "''a:1'' \<notin> nv_missed ?w" "config_checked (asc_parse_type ?ts)" "tok_str ?ts 1 = Some ''0 0 k''"
      "0 < co_number (nv_co ?w)" "14 \<le> c_wsize ?c"
    by (simp_all add: demo_stale_tokens(2) config_checked_def clients_of_def demo_static_def demo_told_nv_def demo_client_def conn_buffers_def conn_size_defs,
        simp add: demo_stale_tokens(1) tok_str_def tok_at_def)
  have "\<exists>e. s' = ?s\<lparr>sv_mc := demo_st\<lparr>st_env_pos := e\<rparr>\<rparr>"
    using stale_client_refused [OF demo_init_nv [OF cs] demo_run p(1,2) d [folded w] ts p(3,4) n _ p(5,6)] by (auto simp: w)
  then show ?thesis using demo_init_nv [OF cs] demo_run d unfolding w [symmetric] by blast
qed

subsection \<open>What clients read\<close>

lemma populate_numbers:
  assumes "populate sc = Some cs" shows "map ac_config_number cs = map int [0..<length cs]"
proof -
  have "buildNextConfig p f k = Some c \<Longrightarrow> ac_config_number c = k" "buildNextNormalConfig p f k = Some c \<Longrightarrow> ac_config_number c = k" for p f k c
    by (auto simp: buildNextConfig_def buildNextNormalConfig_def Let_def split: if_splits)
  then show ?thesis using assms
    by (auto simp: populate_def buildInitConfig_def split: Option.bind_splits if_splits)
qed

text \<open>C13: As long as there are no more update times than configurations after the first one, a client that asks the coordinator always gets
  the configuration whose number is the current one, and every server that acknowledged its last update accepts exactly that number, or
  already the next one while the coordinator is moving on.\<close>

theorem readConfig_current:
  assumes "nv_init sc w0" "(nv_step sc)\<^sup>*\<^sup>* w0 w"
    and "populate sc = Some cs" "length (remdups (sf_configurationUpdateTime sc)) < length cs"
  shows "\<exists>cfg. getConfig (nv_co w) = Some cfg \<and> ac_config_number cfg = co_number (nv_co w)
    \<and> (\<forall>x \<in> set (clients_of sc) - nv_missed w. number (nv_servers w x) \<in> {ac_config_number cfg} \<union> (if nv_moving w then {ac_config_number cfg + 1} else {}))"
proof -
  have i: "nv_inv sc w" by (rule rejig.reached [OF assms(1,2)])
  let ?n = "co_number (nv_co w)"
  have "?n + int (length (co_times (nv_co w))) + of_bool (nv_moving w) = int (length (remdups (sf_configurationUpdateTime sc)))"
    using i unfolding nv_inv_def by blast
  then have "?n \<le> int (length (remdups (sf_configurationUpdateTime sc)))" by (cases "nv_moving w") simp_all
  then have n: "0 \<le> ?n" "nat ?n < length cs" "co_configs (nv_co w) = cs" using i assms(3,4) by (auto simp: nv_inv_def)
  have "ac_config_number (cs ! nat ?n) = ?n"
    using arg_cong [OF populate_numbers [OF assms(3)], of "\<lambda>l. l ! nat ?n"] n by simp
  then show ?thesis using i n by (auto simp: getConfig_def nv_inv_def)
qed

theorem readConfig_current_witness:
  "\<exists>cs w cfg. nv_init demo_static (demo_nv cs) \<and> (nv_step demo_static)\<^sup>*\<^sup>* (demo_nv cs) w \<and> getConfig (nv_co w) = Some cfg \<and> ac_config_number cfg = 1"
proof -
  obtain c0 where cs: "populate demo_static = Some [c0, demo_second]" using demo_populate by blast
  let ?cs = "[c0, demo_second]"
  obtain cfg where "getConfig (nv_co (demo_told_nv ?cs)) = Some cfg" "ac_config_number cfg = co_number (nv_co (demo_told_nv ?cs))"
    using readConfig_current [OF demo_init_nv [OF cs] demo_run cs] by (auto simp: demo_static_def)
  moreover have "co_number (nv_co (demo_told_nv ?cs)) = 1" by (simp add: demo_told_nv_def)
  ultimately show ?thesis using demo_init_nv [OF cs] demo_run by metis
qed

end
