(* ===== verification/Spec2Isabelle.thy ===== *)
theory Spec2Isabelle
  imports MC_Klog MC_Value MC_Leases NV_Protocol
begin

text \<open>
  A verification development for Rejig: the cache server IQ-Twemcached
  (\<open>src/IQ-Twemcached/src\<close>, in C), the coordinator that assigns the fragments of the key space to
  servers (\<open>src/NVCacheCoordinator\<close>, in Java), and the command by which the coordinator tells a server its
  configuration number (\<open>src/IQ-WhalinTwemcache\<close>, in Java).

  \<^bold>\<open>The program.\<close> A server keeps items in slabs of fixed-size chunks, finds them by a chained hash table that is expanded
  while it is used, and evicts by per-class LRU queues. Clients speak a text protocol. Besides the
  memcached commands there are two families of lease commands: in the IQ protocol a client that misses a key gets an I lease whose token
  lets it fill the key, and writers quarantine keys with Q leases; in the CO protocol sessions hold C and O leases.
  Leases, transactions and sessions are items under prefixed keys. Every command carries the configuration number
  of its client, and a server refuses those that differ from its own and from -1, the number of a client that has no configuration. The coordinator computes two configurations,
  and at an update time tells the servers the next number before it publishes the next configuration.

  \<^bold>\<open>Conventions.\<close> A C structure is a record and an enumeration a datatype, with the names of the source. A buffer,
  a key and a line are character lists; unsigned counters keep their width as words, signed ones are integers whose range is
  written out where it matters. A function of the source is one definition, or, where it is long, one
  definition for each of its loops and phases. The result type is an option whose \<open>None\<close> is what the source does not define: a null pointer,
  a read outside a buffer, in Java an exception. Error returns are values. State is passed explicitly. What the environment decides is an
  input: the outcomes of \<open>malloc\<close> and \<open>rand\<close> are functions of a position in the state
  (\<open>st_malloc_ok\<close>, \<open>st_rand\<close>, \<open>st_env_pos\<close>), those of \<open>read\<close>, \<open>sendmsg\<close> and \<open>accept\<close> arguments, and the clock the value of \<open>sv_tv_sec\<close>.
  The state of the cache is the record \<open>mc\<close> of MC_State, that of a server \<open>srv\<close>, and that of a connection \<open>conn\<close> of MC_Conn. An item is
  a pair of a slab and an index in it; its header and payload are in the heap of the state. A critical
  section under \<open>cache_lock\<close> is one step, so that mutexes do not appear. Log messages and counters are left out.

  \<^bold>\<open>Small components.\<close>
  \<^item> MC_Prelude: the machine types, generic lemmas, and the interfaces \<open>number_source\<close> (a counter that hands out
    distinct numbers) and \<open>transition_system\<close> (an invariant of all reachable states).
  \<^item> MC_Lease: the token generator of \<open>mc_lease.c\<close>, an interpretation of \<open>number_source\<close>.
  \<^item> MC_Time: \<open>mc_time.c\<close>. An expiry value of a client, a delta or a date, expires at the second it denotes.
  \<^item> MC_Util: \<open>mc_util.c\<close>, the key prefixes and the number parsers with the C library conversions they call;
    decimal text is read back.
  \<^item> MC_Hash: \<open>mc_hash.c\<close>. The three ways to read a key (by words, half words and bytes) give one hash.
  \<^item> MC_Assoc: \<open>mc_assoc.c\<close>. The table refines a finite map through insertions, deletions and expansion steps
    (the interface is the locale \<open>item_index\<close>), and an expansion ends. The size of a table is a 32-bit number, so that this holds
    up to \<open>hash_power\<close> 31; with 32 the table has no bucket.
  \<^item> MC_Keylist: the sorted byte lists of keys of \<open>mc_sqltrig.c\<close>, which refine finite sets (locale \<open>key_set\<close>).
  \<^item> MC_Cache: the buffer cache of \<open>mc_cache.c\<close>; no buffer is in use twice.
  \<^item> MC_Klog: the command log of \<open>mc_klog.c\<close>, a ring shared by a worker and a collector without a lock, as a step
    relation in which a line is stored and published in separate steps. A call appends the formatted line, no byte is lost
    or reordered, a piece is repeated exactly when the second write of a round fails, and a complete round drains the rings.

  \<^bold>\<open>The cache.\<close>
  \<^item> MC_State, MC_Slabs, MC_Items: the structures, \<open>mc_slabs.c\<close>, and the items of \<open>mc_items.c\<close> with allocation,
    reference counts, lookup, storing and arithmetic. MC_IQ and MC_CO: the lease commands of \<open>mc_items.c\<close>.
  \<^item> MC_Store: the invariant \<open>mc_ok M st\<close>. Table, LRU queues and free queues hold exactly the items whose flags say so, slabs and
    classes are consistent, and the counts cover \<open>M\<close>, the multiset of references held by running code, and the pins
    of leases. \<open>room k st\<close> says that \<open>k\<close> more references fit into the 16-bit counts and \<open>k\<close> more items into the hash
    table: a table that may grow takes \<open>3 * 2\<^sup>3\<^sup>0\<close> items before its size would exceed 32 bits.
  \<^item> MC_Store_Ops, MC_Alloc, MC_Cmds, MC_Update: every operation keeps the invariant, and what it does to the keys
    (\<open>linked_from\<close>, \<open>evicts\<close>, \<open>frame\<close>).
  \<^item> MC_Profile: the slab profile of \<open>mc.c\<close>, generated from a factor or parsed from text; the cache that
    \<open>core_init\<close> sets up on it satisfies the invariant.
  \<^item> MC_Contract: what the item layer promises. Allocation gives an item that nobody else has; a stored value is found with its flags, and other
    keys keep their values or are evicted, but never while they are referred to; \<open>incr\<close> and \<open>decr\<close> are arithmetic modulo \<open>2\<^sup>6\<^sup>4\<close> and bounded subtraction.
  \<^item> MC_Leases: the lease protocol. A lease is granted once for a key that has neither value nor lease, \<open>iqset\<close>
    stores exactly with its token, and the round trip from miss to fill works.

  \<^bold>\<open>Connections and protocol.\<close>
  \<^item> MC_Conn, MC_Transmit: \<open>mc_connection.c\<close> and the sending half of \<open>mc_core.c\<close>. The payload grows by each
    fragment that is added, and what is sent is the payload, however the kernel divides it.
  \<^item> MC_Ascii, MC_Tokens, MC_Proto: \<open>mc_ascii.c\<close>, the tokenizer against the words of a line, all commands,
    \<open>asc_dispatch\<close>, \<open>asc_parse\<close> and the completion of storage commands.
  \<^item> MC_Server, MC_Frame, MC_Loop, MC_Value: the state machine of \<open>mc_core.c\<close> and \<open>mc_thread.c\<close> as a consumer of a byte stream. No command touches the read
    buffer, each line is taken once, the markers stay in the buffer, and a data block is stored whole. What a read event adds
    to the buffer is compared with a specification of what the socket delivers (\<open>delivered\<close>).
  \<^item> MC_Requests: requests against the cache, among them the configuration check, multi-key deletion, and the commands
    that cannot work as documented.
  \<^item> MC_Number: only \<open>updateconf\<close> changes the configuration number of a server.

  \<^bold>\<open>The coordinator.\<close>
  \<^item> NV_Config: \<open>ConfigurationAssignment.java\<close> and \<open>ConfigurationManagement.java\<close>, with the iteration order of a Java
    \<open>HashMap\<close> and the rounding of \<open>double\<close>. No fragment is lost or placed twice, and exactly when
    the uniform assignment succeeds.
  \<^item> NV_Protocol: the loop of \<open>CacheStateSimulator.java\<close>, the servers and their clients as one step relation
    \<open>nv_step\<close>, an interpretation of \<open>transition_system\<close>: stale clients are refused, and clients read the current configuration.

  \<^bold>\<open>Loops and bounds.\<close> Recursion is structural or has a measure. Loops that the source bounds keep their bound: 50 tries of the LRU scan and of
    slab eviction, five reads per event, the token array of 16. \<open>asc_read_keys\<close> does not end
  while memory cannot be had and is a \<open>partial_function\<close>. The state machine \<open>core_drive_machine\<close> runs on a list of outcomes of system calls
  and stops with that list; that the data block is completed is proved with enough outcomes. The configurations of
  the coordinator are verified up to 65536 fragments: beyond, the buckets of a \<open>HashMap\<close> need not be in the order of the ids.

  \<^bold>\<open>Not modelled.\<close>
  \<^item> \<open>mc_stats.c\<close>: counters and their texts. Nothing in the cache depends on them; the texts are an input of the \<open>stats\<close> command.
  \<^item> \<open>mc_log.c\<close>, \<open>mc_signal.c\<close>, and of \<open>mc.c\<close> the options, the daemon, the pid file: system calls.
  \<^item> \<open>mc_queue.h\<close>: the macros are lists here; the removal of an element that is absent is a fault.
  \<^item> Creation of sockets and threads, and libevent, a library that is not in the repository; its events are the calls of the state machine.
  \<^item> The dump of the cache, for operators; the trigger entries and \<open>merge_lists\<close> of \<open>mc_sqltrig.c\<close>, which nothing calls.
  \<^item> Of the coordinator the property file, the gRPC service and the description of the workload; of the Java client
    everything but \<open>updateServerConfigurationNumber\<close>: it builds command texts and owns sockets. A restart of a server is not a step.
\<close>

end
